(* ===== verification/Prelude.thy ===== *)
theory Prelude
  imports Complex_Main "HOL-Library.AList" "HOL-Library.Char_ord" "HOL-Library.List_Lexorder" "HOL-Library.Log_Nat" "HOL-Library.Word"
    "HOL-Library.Multiset" "HOL-Library.While_Combinator"
begin

text \<open>
  Shared ground of the development: the collections of simplification rules, Go's fixed-width
  signed integers written out over \<open>int\<close>, decimal printing and parsing of integers
  (\<open>strconv.FormatInt\<close> / \<open>ParseInt\<close> in base 10) and Go maps as association lists.

  A Go string is a list of bytes; \<open>char\<close> is an 8-bit character. A Go map is an association
  list with distinct keys: lookup is \<open>map_of\<close>, assignment is \<open>mput\<close>. The order of such a list
  stands for the iteration order, which Go leaves open; results are stated through \<open>map_of\<close>.
\<close>

section \<open>Rule collections\<close>

named_theorems ext_simps \<open>lookup-after-update rules for event extensions\<close>
named_theorems svc_defs \<open>definitions of the event service to unfold together\<close>
named_theorems sql_simps \<open>behaviour of the SQL table operations\<close>

section \<open>Fallible steps\<close>

text \<open>A call that returns an error or a value, followed by what happens when it succeeds.\<close>

definition sbind :: "'e + 'a \<Rightarrow> ('a \<Rightarrow> 'e + 'b) \<Rightarrow> 'e + 'b" where
  "sbind r f = (case r of Inl err \<Rightarrow> Inl err | Inr a \<Rightarrow> f a)"

lemma sbind_simps [simp]: "sbind (Inl err) f = Inl err" "sbind (Inr a) f = f a"
  by (simp_all add: sbind_def)

lemma sbind_Inr: "sbind r f = Inr b \<longleftrightarrow> (\<exists>a. r = Inr a \<and> f a = Inr b)"
  by (cases r) auto

section \<open>Signed 64-bit integers\<close>

text \<open>Go's \<open>int\<close>, \<open>int64\<close> and \<open>time.Duration\<close>: 64 bits, two's complement, wrapping.\<close>

abbreviation max_int64 :: int where
  "max_int64 \<equiv> 9223372036854775807"

abbreviation min_int64 :: int where
  "min_int64 \<equiv> - 9223372036854775808"

definition in_i64 :: "int \<Rightarrow> bool" where
  "in_i64 n \<longleftrightarrow> min_int64 \<le> n \<and> n \<le> max_int64"

definition i64 :: "int \<Rightarrow> int" where
  "i64 n = (n + 9223372036854775808) mod 18446744073709551616 - 9223372036854775808"

lemma i64_id [simp]: "in_i64 n \<Longrightarrow> i64 n = n"
  by (simp add: in_i64_def i64_def)

lemma in_i64_i64 [simp]: "in_i64 (i64 n)"
  using pos_mod_bound [of 18446744073709551616 "n + 9223372036854775808"]
    pos_mod_sign [of 18446744073709551616 "n + 9223372036854775808"]
  by (simp add: in_i64_def i64_def)

lemma i64_idem [simp]: "i64 (i64 n) = i64 n"
  by simp

text \<open>Go's integer division truncates towards zero.\<close>

definition quot :: "int \<Rightarrow> int \<Rightarrow> int" where
  "quot a b = sgn a * sgn b * (\<bar>a\<bar> div \<bar>b\<bar>)"

lemma quot_nonneg: "0 \<le> a \<Longrightarrow> 0 < b \<Longrightarrow> quot a b = a div b"
  by (cases "a = 0") (auto simp: quot_def)

lemma abs_quot_le:
  assumes "0 < b"
  shows "\<bar>quot a b\<bar> \<le> \<bar>a\<bar>"
proof -
  have "\<bar>a\<bar> div b \<le> \<bar>a\<bar> div 1"
    using assms by (intro zdiv_mono2) auto
  moreover have "0 \<le> \<bar>a\<bar> div b"
    using assms by (simp add: pos_imp_zdiv_nonneg_iff)
  ultimately show ?thesis
    using assms by (simp add: quot_def abs_mult abs_sgn_eq)
qed

lemma in_i64_quot: "in_i64 a \<Longrightarrow> 1 < b \<Longrightarrow> in_i64 (quot a b)"
  using abs_quot_le [of b a] pos_imp_zdiv_nonneg_iff [of b "\<bar>a\<bar>"]
  by (cases "a = min_int64") (auto simp: in_i64_def quot_def)

section \<open>Decimal text of integers\<close>

definition is_digit :: "char \<Rightarrow> bool" where
  "is_digit c \<longleftrightarrow> 48 \<le> (of_char c :: nat) \<and> (of_char c :: nat) \<le> 57"

definition dval :: "char \<Rightarrow> nat" where
  "dval c = of_char c - 48"

definition digit :: "nat \<Rightarrow> char" where
  "digit d = char_of (48 + d)"

lemma of_char_digit: "d < 10 \<Longrightarrow> (of_char (digit d) :: nat) = 48 + d"
  by (simp add: digit_def)

lemma is_digit_digit [simp]: "d < 10 \<Longrightarrow> is_digit (digit d)"
  by (simp add: is_digit_def of_char_digit)

lemma dval_digit [simp]: "d < 10 \<Longrightarrow> dval (digit d) = d"
  by (simp add: dval_def of_char_digit)

lemma not_digit_signs [simp]: "\<not> is_digit CHR ''-''" "\<not> is_digit CHR ''+''"
  by (simp_all add: is_digit_def)

fun dec_nat :: "nat \<Rightarrow> string" where
  "dec_nat n = (if n < 10 then [digit n] else dec_nat (n div 10) @ [digit (n mod 10)])"

declare dec_nat.simps [simp del]

definition undec :: "string \<Rightarrow> nat" where
  "undec s = foldl (\<lambda>a c. a * 10 + dval c) 0 s"

lemma undec_snoc: "undec (s @ [c]) = undec s * 10 + dval c"
  by (simp add: undec_def)

lemma dec_nat_not_Nil [simp]: "dec_nat n \<noteq> []"
  by (subst dec_nat.simps) simp

lemma dec_nat_digits: "list_all is_digit (dec_nat n)"
proof (induction n rule: dec_nat.induct)
  case (1 n)
  then show ?case by (subst dec_nat.simps) simp
qed

lemma undec_dec_nat [simp]: "undec (dec_nat n) = n"
proof (induction n rule: dec_nat.induct)
  case (1 n)
  show ?case
  proof (cases "n < 10")
    case True
    then show ?thesis by (subst dec_nat.simps) (simp add: undec_def)
  next
    case False
    then show ?thesis
      using 1 by (subst dec_nat.simps) (simp add: undec_snoc)
  qed
qed

lemma dec_nat_inj [simp]: "dec_nat m = dec_nat n \<longleftrightarrow> m = n"
  by (metis undec_dec_nat)

lemma hd_dec_nat_digit: "is_digit (hd (dec_nat n))"
  using dec_nat_digits [of n] by (cases "dec_nat n") auto

definition dec_int :: "int \<Rightarrow> string" where
  "dec_int i = (if i < 0 then CHR ''-'' # dec_nat (nat (- i)) else dec_nat (nat i))"

lemma dec_int_not_Nil [simp]: "dec_int n \<noteq> []"
  by (simp add: dec_int_def)

definition all_digits :: "string \<Rightarrow> bool" where
  "all_digits t \<longleftrightarrow> t \<noteq> [] \<and> list_all is_digit t"

lemma all_digits_dec_nat [simp]: "all_digits (dec_nat n)"
  by (simp add: all_digits_def dec_nat_digits)

text \<open>
  \<open>strconv.ParseInt(s, 10, 64)\<close>: the value and whether it succeeded. As in Go the value
  is 0 on a syntax error and the nearest bound on a range error.
\<close>

definition split_sign :: "string \<Rightarrow> bool \<times> string" where
  "split_sign s =
     (case s of
        [] \<Rightarrow> (False, [])
      | c # t \<Rightarrow> if c = CHR ''-'' then (True, t) else if c = CHR ''+'' then (False, t) else (False, s))"

definition parse_int :: "string \<Rightarrow> int \<times> bool" where
  "parse_int s =
     (let (neg, t) = split_sign s; n = int (undec t)
      in if \<not> all_digits t then (0, False)
         else if \<not> neg \<and> max_int64 < n then (max_int64, False)
         else if neg \<and> 9223372036854775808 < n then (min_int64, False)
         else (if neg then - n else n, True))"

lemma split_sign_dec_nat [simp]: "split_sign (dec_nat n) = (False, dec_nat n)"
  using hd_dec_nat_digit [of n] by (cases "dec_nat n") (auto simp: split_sign_def)

lemma parse_int_dec_int: "in_i64 n \<Longrightarrow> parse_int (dec_int n) = (n, True)"
proof (cases "n < 0")
  case True
  assume "in_i64 n"
  then show ?thesis
    using True by (simp add: parse_int_def dec_int_def split_sign_def in_i64_def)
next
  case False
  assume "in_i64 n"
  then show ?thesis
    using False by (simp add: parse_int_def dec_int_def in_i64_def)
qed

section \<open>Go maps\<close>

declare map_of_eq_Some_iff [simp del] Some_eq_map_of_iff [simp del]

abbreviation mput :: "'k \<Rightarrow> 'v \<Rightarrow> ('k \<times> 'v) list \<Rightarrow> ('k \<times> 'v) list" where
  "mput \<equiv> AList.update"

abbreviation wf_map :: "('k \<times> 'v) list \<Rightarrow> bool" where
  "wf_map m \<equiv> distinct (map fst m)"

lemma map_of_mput [simp]: "map_of (mput k v m) = (map_of m)(k \<mapsto> v)"
  by (rule update_conv')

lemma wf_map_mput [simp]: "wf_map m \<Longrightarrow> wf_map (mput k v m)"
  by (rule distinct_update)

lemma keys_mput: "set (map fst (mput k v m)) = insert k (set (map fst m))"
  using dom_map_of_conv_image_fst [of "mput k v m"] dom_map_of_conv_image_fst [of m]
  by simp

text \<open>\<open>for k, v := range src { dst[k] = v }\<close>\<close>

definition mputs :: "('k \<times> 'v) list \<Rightarrow> ('k \<times> 'v) list \<Rightarrow> ('k \<times> 'v) list" where
  "mputs src dst = fold (\<lambda>(k, v). mput k v) src dst"

lemma mputs_Nil [simp]: "mputs [] dst = dst"
  by (simp add: mputs_def)

lemma mputs_Cons [simp]: "mputs ((k, v) # src) dst = mputs src (mput k v dst)"
  by (simp add: mputs_def)

lemma wf_map_mputs [simp]: "wf_map dst \<Longrightarrow> wf_map (mputs src dst)"
  by (induction src arbitrary: dst) auto

lemma map_of_mputs: "wf_map src \<Longrightarrow> map_of (mputs src dst) = map_of dst ++ map_of src"
proof (induction src arbitrary: dst)
  case Nil
  then show ?case by simp
next
  case (Cons kv src)
  obtain k v where kv: "kv = (k, v)" by (cases kv)
  with Cons have "map_of (mputs (kv # src) dst) = (map_of dst)(k \<mapsto> v) ++ map_of src"
    by simp
  moreover have "k \<notin> dom (map_of src)"
    using Cons.prems kv by (simp add: dom_map_of_conv_image_fst)
  ultimately show ?case
    using kv by (auto simp: fun_eq_iff map_add_def split: option.splits)
qed

lemma mput_new: "k \<notin> fst ` set m \<Longrightarrow> mput k v m = m @ [(k, v)]"
  by (induction m) auto

lemma mputs_append: "wf_map (dst @ m) \<Longrightarrow> mputs m dst = dst @ m"
proof (induction m arbitrary: dst)
  case Nil
  then show ?case by simp
next
  case (Cons kv m)
  obtain k v where kv: "kv = (k, v)" by (cases kv)
  have "k \<notin> fst ` set dst" using Cons.prems kv by auto
  then have "mput k v dst = dst @ [(k, v)]" by (simp add: mput_new)
  with Cons kv show ?case by simp
qed

lemma mputs_copy: "wf_map m \<Longrightarrow> mputs m [] = m"
  by (simp add: mputs_append)

lemma wf_mputs_Nil [simp]: "wf_map (mputs m [])"
  by simp

text \<open>\<open>m[k]\<close> on a \<open>map[string]string\<close>: the empty string when the key is missing.\<close>

definition mget :: "('k \<times> string) list \<Rightarrow> 'k \<Rightarrow> string" where
  "mget m k = (case map_of m k of None \<Rightarrow> [] | Some v \<Rightarrow> v)"

lemma mget_mput [simp]: "mget (mput k v m) k' = (if k' = k then v else mget m k')"
  by (simp add: mget_def)

lemma mget_Nil [simp]: "mget [] k = []"
  by (simp add: mget_def)

text \<open>\<open>encoding/json\<close> writes the members of a map in the order of their keys.\<close>

definition by_key :: "(string \<times> 'v) list \<Rightarrow> (string \<times> 'v) list" where
  "by_key m = sort_key fst m"

lemma set_by_key [simp]: "set (by_key m) = set m"
  by (simp add: by_key_def)

lemma wf_map_by_key [simp]: "wf_map (by_key m) \<longleftrightarrow> wf_map m"
  using mset_eq_imp_distinct_iff [of "map fst (by_key m)" "map fst m"]
  by (simp add: by_key_def)

lemma map_of_by_key [simp]: "wf_map m \<Longrightarrow> map_of (by_key m) = map_of m"
  by (rule map_of_inject_set [THEN iffD2]) simp_all

section \<open>Progress\<close>

text \<open>
  A quantity that falls with every step until the goal is reached: the goal is reached within as
  many steps as the quantity has value at the start.
\<close>

lemma reached_by_measure:
  assumes "P s" "\<And>s. P s \<Longrightarrow> Q s \<or> (P (f s) \<and> (m (f s) :: nat) < m s)"
  shows "\<exists>k \<le> m s. Q ((f ^^ k) s)"
  using assms(1)
proof (induction "m s" arbitrary: s rule: less_induct)
  case less
  show ?case
  proof (cases "Q s")
    case True
    then show ?thesis by (intro exI [of _ 0]) simp
  next
    case False
    with assms(2) [OF less.prems] have s: "P (f s)" "m (f s) < m s" by auto
    from less.hyps [OF s(2,1)] obtain k where "k \<le> m (f s)" "Q ((f ^^ k) (f s))" by blast
    with s(2) show ?thesis by (intro exI [of _ "Suc k"]) (simp add: funpow_swap1)
  qed
qed

section \<open>Stores addressed by key\<close>

text \<open>
  What the registries, the metadata and the extensions of an event have in common: a value put
  under a key is found there until another is put under the same key.
\<close>

locale keyed_store =
  fixes put :: "'s \<Rightarrow> string \<Rightarrow> 'v \<Rightarrow> 's"
    and get :: "'s \<Rightarrow> string \<Rightarrow> 'v option"
    and empty :: 's
  assumes get_put: "get (put s k v) k' = (if k' = k then Some v else get s k')"
    and get_empty: "get empty k = None"
begin

lemma get_puts:
  "get (fold (\<lambda>(k, v) s. put s k v) kvs s) k =
     (case map_of (rev kvs) k of Some v \<Rightarrow> Some v | None \<Rightarrow> get s k)"
proof (induction kvs arbitrary: s)
  case Nil
  then show ?case by simp
next
  case (Cons kv kvs)
  then show ?case by (cases kv) (auto simp: get_put map_add_def split: option.splits)
qed

lemma get_puts_empty: "get (fold (\<lambda>(k, v) s. put s k v) kvs empty) k = map_of (rev kvs) k"
  by (simp add: get_puts get_empty split: option.splits)

lemma get_puts_distinct:
  "wf_map kvs \<Longrightarrow> get (fold (\<lambda>(k, v) s. put s k v) kvs empty) k = map_of kvs k"
  using map_of_inject_set [of "rev kvs" kvs] by (simp add: get_puts_empty rev_map [symmetric])

end

end
