(* ===== verification/Go_Float.thy ===== *)
theory Go_Float
  imports Prelude
begin

text \<open>
  Go's \<open>float64\<close>, as far as the program uses it: JSON numbers decode to it, it converts to
  integers by truncation, and it is printed (\<open>encoding/json\<close>, \<open>%v\<close>). A finite float is the
  rational number it denotes, so equality of the model is equality of values; the two zeros
  are identified. \<open>round64\<close> is the IEEE rounding to 53 bits (half to even, gradual underflow,
  overflow to infinity), and integers up to \<open>2 ^ 53\<close> survive it (\<open>round64_int\<close>).
\<close>

datatype f64 = Fin rat | Inf bool | NaN

text \<open>\<open>\<lfloor>log b x\<rfloor>\<close> for a positive rational, by comparing numerator and denominator.\<close>

definition ilog :: "nat \<Rightarrow> rat \<Rightarrow> int" where
  "ilog b x =
     (let (n, d) = quotient_of x;
          k = int (floorlog b (nat n)) - int (floorlog b (nat d))
      in if of_nat b powi k \<le> x then k else k - 1)"

definition round_half_even :: "rat \<Rightarrow> int" where
  "round_half_even x =
     (let f = \<lfloor>x\<rfloor>; r = x - of_int f
      in if r < 1 / 2 then f else if 1 / 2 < r then f + 1 else if even f then f else f + 1)"

definition round64 :: "rat \<Rightarrow> f64" where
  "round64 x =
     (if x = 0 then Fin 0
      else let u = 2 powi (max (ilog 2 \<bar>x\<bar>) (- 1022) - 52);
               y = of_int (round_half_even (x / u)) * u
           in if 2 ^ 1024 \<le> \<bar>y\<bar> then Inf (x < 0) else Fin y)"

lemma round_half_even_int [simp]: "round_half_even (of_int n) = n"
  by (simp add: round_half_even_def)

lemma ilog_of_nat:
  assumes "0 < n"
  shows "ilog 2 (of_nat n) = int (floorlog 2 n) - 1"
proof -
  have q: "quotient_of (of_nat n) = (int n, 1)"
    using quotient_of_int [of "int n"] by simp
  have one: "floorlog 2 (1 :: nat) = 1"
    by (simp add: floorlog_def)
  then have one': "floorlog 2 (Suc 0) = 1" by simp
  have pos: "0 < floorlog 2 n"
    using assms by (simp add: floorlog_def)
  have "2 ^ (floorlog 2 n - 1) \<le> n"
    using floorlog_bounds [of n 2] assms by simp
  then have "(2 :: rat) ^ (floorlog 2 n - 1) \<le> of_nat n"
    by (metis of_nat_le_iff of_nat_numeral of_nat_power)
  moreover have "(2 :: rat) powi (int (floorlog 2 n) - 1) = 2 ^ (floorlog 2 n - 1)"
    using pos by (simp add: power_int_def nat_diff_distrib)
  ultimately show ?thesis
    by (simp add: ilog_def q Let_def one')
qed

text \<open>The rounding unit of an integer up to \<open>2 ^ 53\<close> divides it.\<close>

lemma unit_divides:
  fixes n :: int
  assumes "n \<noteq> 0" "\<bar>n\<bar> \<le> 2 ^ 53"
  shows "\<exists>k. of_int n / 2 powi (ilog 2 \<bar>of_int n\<bar> - 52) = (of_int k :: rat)"
proof -
  define m where "m = nat \<bar>n\<bar>"
  have m: "0 < m" "m \<le> 2 ^ 53" "int m = \<bar>n\<bar>"
    using assms by (auto simp: m_def nat_le_iff)
  define l where "l = floorlog 2 m"
  have il: "ilog 2 \<bar>of_int n\<bar> = int l - 1"
    using ilog_of_nat [OF m(1)] m(3) unfolding l_def by (metis of_int_abs of_int_of_nat_eq)
  have bounds: "2 ^ (l - 1) \<le> m" "m < 2 ^ l"
    using floorlog_bounds [of m 2] m(1) by (auto simp: l_def)
  show ?thesis
  proof (cases "l \<le> 53")
    case True
    have "int l - 1 - 52 = - int (53 - l)"
      using True by simp
    then have "(2 :: rat) powi (int l - 1 - 52) = inverse (2 ^ (53 - l))"
      by (simp only: power_int_minus power_int_of_nat)
    then have "of_int n / 2 powi (int l - 1 - 52) = (of_int (n * 2 ^ (53 - l)) :: rat)"
      by (simp add: field_simps)
    then show ?thesis
      using il by metis
  next
    case False
    then have "(2 :: nat) ^ 53 \<le> 2 ^ (l - 1)"
      by (intro power_increasing) auto
    then have eq: "m = 2 ^ 53" "(2 :: nat) ^ (l - 1) = 2 ^ 53"
      using bounds(1) m(2) by linarith+
    then have "l - 1 = 53"
      by (metis power_inject_exp one_less_numeral_iff semiring_norm(76))
    then have "l = 54" by simp
    moreover have "n = 2 ^ 53 \<or> n = - (2 ^ 53)"
      using eq(1) m(3) by auto
    ultimately have "of_int n / 2 powi (int l - 1 - 52) = (of_int (n div 2) :: rat)"
      by (auto simp: power_int_def)
    then show ?thesis
      using il by metis
  qed
qed

lemma ilog_int_ge: "n \<noteq> 0 \<Longrightarrow> 0 \<le> ilog 2 \<bar>of_int n\<bar>"
proof -
  assume "n \<noteq> 0"
  then have m: "0 < nat \<bar>n\<bar>" by simp
  have "ilog 2 (of_nat (nat \<bar>n\<bar>)) = int (floorlog 2 (nat \<bar>n\<bar>)) - 1"
    by (rule ilog_of_nat [OF m])
  moreover have "0 < floorlog 2 (nat \<bar>n\<bar>)"
    using m by (simp add: floorlog_def)
  ultimately show ?thesis
    by simp
qed

lemma round64_int:
  assumes "\<bar>n\<bar> \<le> 2 ^ 53"
  shows "round64 (of_int n) = Fin (of_int n)"
proof (cases "n = 0")
  case True
  then show ?thesis by (simp add: round64_def)
next
  case False
  define u :: rat where "u = 2 powi (ilog 2 \<bar>of_int n\<bar> - 52)"
  obtain k where k: "of_int n / u = of_int k"
    using unit_divides [OF False assms] unfolding u_def by blast
  have u: "u \<noteq> 0" by (simp add: u_def)
  then have y: "of_int k * u = of_int n"
    using k by (simp add: field_simps)
  have big: "\<not> 2 ^ 1024 \<le> \<bar>of_int n :: rat\<bar>"
  proof -
    have "\<bar>n\<bar> < 2 ^ 1024"
      using assms by (rule le_less_trans) simp
    then have "(of_int \<bar>n\<bar> :: rat) < of_int (2 ^ 1024)"
      by (simp only: of_int_less_iff)
    then show ?thesis by simp
  qed
  have "max (ilog 2 \<bar>of_int n :: rat\<bar>) (- 1022) = ilog 2 \<bar>of_int n\<bar>"
    using ilog_int_ge [OF False] by simp
  then show ?thesis
    using False k y big by (simp add: round64_def Let_def u_def [symmetric])
qed

section \<open>Rounding is monotone\<close>

lemma pow2_add: "(2 :: rat) powi m * 2 powi n = 2 powi (m + n)"
  by (simp add: power_int_add)

lemma floorlog_rat:
  assumes "0 < n"
  shows "(2 :: rat) powi (int (floorlog 2 n) - 1) \<le> of_nat n" "(of_nat n :: rat) < 2 powi (int (floorlog 2 n))"
proof -
  have pos: "0 < floorlog 2 n" using assms by (simp add: floorlog_def)
  have b: "2 ^ (floorlog 2 n - 1) \<le> n" "n < 2 ^ floorlog 2 n"
    using floorlog_bounds [of n 2] assms by auto
  have "(2 :: rat) powi (int (floorlog 2 n) - 1) = 2 ^ (floorlog 2 n - 1)"
    using pos by (simp add: power_int_def nat_diff_distrib)
  also have "\<dots> = of_nat (2 ^ (floorlog 2 n - 1))" by simp
  also have "\<dots> \<le> of_nat n" using b(1) by (simp only: of_nat_le_iff)
  finally show "(2 :: rat) powi (int (floorlog 2 n) - 1) \<le> of_nat n" .
  have "(of_nat n :: rat) < of_nat (2 ^ floorlog 2 n)" using b(2) by (simp only: of_nat_less_iff)
  then show "(of_nat n :: rat) < 2 powi (int (floorlog 2 n))" by simp
qed

lemma ilog_bounds:
  assumes "0 < x"
  shows "2 powi (ilog 2 x) \<le> x" "x < 2 powi (ilog 2 x + 1)"
proof -
  obtain n d where q: "quotient_of x = (n, d)" by (cases "quotient_of x")
  have d: "0 < d" using quotient_of_denom_pos [OF q] .
  have x: "x = of_int n / of_int d" using quotient_of_div [OF q] .
  then have n: "0 < n" using assms d by (simp add: zero_less_divide_iff)
  define a b where "a = int (floorlog 2 (nat n))" and "b = int (floorlog 2 (nat d))"
  have rn: "2 powi (a - 1) \<le> (of_int n :: rat)" "(of_int n :: rat) < 2 powi a"
    using floorlog_rat [of "nat n"] n by (simp_all add: a_def)
  have rd: "2 powi (b - 1) \<le> (of_int d :: rat)" "(of_int d :: rat) < 2 powi b"
    using floorlog_rat [of "nat d"] d by (simp_all add: b_def)
  have dpos: "(0 :: rat) < of_int d" using d by simp
  have "2 powi (a - b - 1) * of_int d < (2 :: rat) powi (a - b - 1) * 2 powi b"
    using rd(2) by (simp add: mult_less_cancel_left_pos)
  also have "\<dots> = 2 powi (a - 1)" by (simp only: pow2_add) (simp add: add.commute)
  finally have lo: "(2 :: rat) powi (a - b - 1) < x" using rn(1) dpos unfolding x by (simp add: pos_less_divide_eq)
  have "of_int n < (2 :: rat) powi (a - b + 1) * 2 powi (b - 1)" using rn(2) by (simp only: pow2_add) (simp add: algebra_simps)
  also have "\<dots> \<le> 2 powi (a - b + 1) * of_int d" using rd(1) by (simp add: mult_le_cancel_left_pos)
  finally have hi: "x < 2 powi (a - b + 1)" using dpos unfolding x by (simp add: pos_divide_less_eq)
  have il: "ilog 2 x = (if 2 powi (a - b) \<le> x then a - b else a - b - 1)"
    by (simp add: ilog_def q Let_def a_def b_def)
  show "2 powi (ilog 2 x) \<le> x" using lo by (auto simp: il)
  show "x < 2 powi (ilog 2 x + 1)" using hi by (auto simp: il)
qed

lemma ilog_mono:
  assumes "0 < x" "x \<le> y"
  shows "ilog 2 x \<le> ilog 2 y"
proof (rule ccontr)
  assume "\<not> ilog 2 x \<le> ilog 2 y"
  then have "(2 :: rat) powi (ilog 2 y + 1) \<le> 2 powi (ilog 2 x)" by (intro power_int_increasing) auto
  with ilog_bounds(1) [OF assms(1)] ilog_bounds(2) [of y] assms show False by linarith
qed

lemma round_half_even_bounds: "of_int n \<le> x \<Longrightarrow> n \<le> round_half_even x" "x \<le> of_int n \<Longrightarrow> round_half_even x \<le> n"
proof -
  have f: "round_half_even x = \<lfloor>x\<rfloor> \<or> (round_half_even x = \<lfloor>x\<rfloor> + 1 \<and> 1 / 2 \<le> x - of_int \<lfloor>x\<rfloor>)"
    by (auto simp: round_half_even_def Let_def)
  show "n \<le> round_half_even x" if "of_int n \<le> x"
  proof -
    have "n \<le> \<lfloor>x\<rfloor>" using that by (simp add: le_floor_iff)
    with f show ?thesis by auto
  qed
  show "round_half_even x \<le> n" if le: "x \<le> of_int n"
  proof (cases "x = of_int n")
    case False
    with le have "\<lfloor>x\<rfloor> < n" by (simp add: floor_less_iff)
    with f show ?thesis by auto
  qed simp
qed

lemma round_half_even_mono: "x \<le> y \<Longrightarrow> round_half_even x \<le> round_half_even y"
proof (cases "\<lfloor>x\<rfloor> = \<lfloor>y\<rfloor>")
  case True
  moreover assume "x \<le> y"
  ultimately show ?thesis by (auto simp: round_half_even_def Let_def)
next
  case False
  assume le: "x \<le> y"
  then have "\<lfloor>x\<rfloor> + 1 \<le> \<lfloor>y\<rfloor>" using False floor_mono [of x y] by linarith
  moreover have "x \<le> of_int (\<lfloor>x\<rfloor> + 1)" by linarith
  ultimately have "round_half_even x \<le> \<lfloor>y\<rfloor>" using round_half_even_bounds(2) by (meson order_trans)
  also have "\<dots> \<le> round_half_even y" by (rule round_half_even_bounds(1)) simp
  finally show ?thesis .
qed

text \<open>The value before the overflow test.\<close>

definition rounded :: "rat \<Rightarrow> rat" where
  "rounded x = (let u = 2 powi (max (ilog 2 \<bar>x\<bar>) (- 1022) - 52) in of_int (round_half_even (x / u)) * u)"

lemma rounded_mono:
  assumes "0 < x" "x \<le> y"
  shows "rounded x \<le> rounded y"
proof -
  define ex ey where "ex = max (ilog 2 x) (- 1022)" and "ey = max (ilog 2 y) (- 1022)"
  let ?u = "2 powi (ex - 52) :: rat" and ?v = "2 powi (ey - 52) :: rat"
  have r: "rounded x = of_int (round_half_even (x / ?u)) * ?u" "rounded y = of_int (round_half_even (y / ?v)) * ?v"
    using assms by (simp_all add: rounded_def Let_def ex_def ey_def)
  have e: "ex \<le> ey" using ilog_mono [OF assms] by (simp add: ex_def ey_def)
  have u: "0 < ?u" "0 < ?v" by simp_all
  show ?thesis
  proof (cases "ex = ey")
    case True
    then have "round_half_even (x / ?u) \<le> round_half_even (y / ?v)"
      using assms(2) by (intro round_half_even_mono) (simp add: divide_right_mono)
    then show ?thesis using True u unfolding r by (simp add: mult_right_mono)
  next
    case False
    with e have lt: "ex < ey" by simp
    then have ey: "ey = ilog 2 y" by (auto simp: ex_def ey_def)
    have "x < 2 powi (ex + 1)"
      using ilog_bounds(2) [OF assms(1)] power_int_increasing [of "ilog 2 x + 1" "ex + 1" "2 :: rat"]
      by (simp add: ex_def)
    also have "\<dots> = 2 powi 53 * ?u" by (simp only: pow2_add) (simp add: add.commute)
    finally have "x / ?u \<le> of_int (2 ^ 53)" using u by (simp add: pos_divide_le_eq)
    then have "round_half_even (x / ?u) \<le> 2 ^ 53" by (rule round_half_even_bounds(2))
    then have "(of_int (round_half_even (x / ?u)) :: rat) \<le> of_int (2 ^ 53)" by (simp only: of_int_le_iff)
    then have "rounded x \<le> of_int (2 ^ 53) * ?u" unfolding r using u by (intro mult_right_mono) simp_all
    also have "of_int (2 ^ 53) * ?u = 2 powi 53 * ?u" by simp
    also have "\<dots> = 2 powi (ex + 1)" by (simp only: pow2_add) (simp add: add.commute)
    also have "\<dots> \<le> 2 powi ey" using lt by (intro power_int_increasing) auto
    also have "(2 :: rat) powi ey = 2 powi 52 * ?v" by (simp only: pow2_add) (simp add: add.commute)
    also have "\<dots> = of_int (2 ^ 52) * ?v" by simp
    also have "\<dots> \<le> rounded y"
    proof -
      have "2 powi 52 * ?v \<le> y" using ilog_bounds(1) [of y] assms by (simp only: pow2_add) (simp add: ey)
      then have "of_int (2 ^ 52) \<le> y / ?v" using u by (simp add: pos_le_divide_eq)
      then have "2 ^ 52 \<le> round_half_even (y / ?v)" by (rule round_half_even_bounds(1))
      then have "(of_int (2 ^ 52) :: rat) \<le> of_int (round_half_even (y / ?v))" by (simp only: of_int_le_iff)
      then show ?thesis unfolding r using u by (intro mult_right_mono) simp_all
    qed
    finally show ?thesis .
  qed
qed

lemma round64_rounded:
  "round64 x = (if x = 0 then Fin 0 else if 2 ^ 1024 \<le> \<bar>rounded x\<bar> then Inf (x < 0) else Fin (rounded x))"
  by (simp add: round64_def rounded_def Let_def)

lemma rounded_int: "n \<noteq> 0 \<Longrightarrow> \<bar>n\<bar> \<le> 2 ^ 53 \<Longrightarrow> rounded (of_int n) = of_int n"
  using round64_int [of n] by (auto simp: round64_rounded split: if_splits)

text \<open>The value a finite result has; the program's own computations stay far from overflow.\<close>

definition rnd :: "rat \<Rightarrow> rat" where
  "rnd x = (case round64 x of Fin r \<Rightarrow> r | _ \<Rightarrow> 0)"

lemma rnd_int: "\<bar>n\<bar> \<le> 2 ^ 53 \<Longrightarrow> rnd (of_int n) = of_int n"
  by (simp add: rnd_def round64_int)

lemma rnd_0 [simp]: "rnd 0 = 0"
  by (simp add: rnd_def round64_def)

lemma rounded_nonneg: "0 < x \<Longrightarrow> 0 \<le> rounded x"
  unfolding rounded_def Let_def
  by (intro mult_nonneg_nonneg) (auto intro!: round_half_even_bounds(1))

lemma rnd_rounded:
  assumes "0 < x" "x \<le> 2 ^ 53"
  shows "rnd x = rounded x"
proof -
  have "rounded x \<le> rounded (of_int (2 ^ 53))" using rounded_mono [of x "of_int (2 ^ 53)"] assms by simp
  also have "\<dots> = 2 ^ 53" using rounded_int [of "2 ^ 53"] by simp
  finally have "rounded x < 2 ^ 1024" by (rule le_less_trans) simp
  then show ?thesis using assms rounded_nonneg [OF assms(1)] by (simp add: rnd_def round64_rounded)
qed

lemma rnd_nonneg: "0 \<le> x \<Longrightarrow> x \<le> 2 ^ 53 \<Longrightarrow> 0 \<le> rnd x"
  by (cases "x = 0") (simp_all add: rnd_rounded rounded_nonneg)

lemma rnd_mono: "0 \<le> x \<Longrightarrow> x \<le> y \<Longrightarrow> y \<le> 2 ^ 53 \<Longrightarrow> rnd x \<le> rnd y"
  by (cases "x = 0") (simp_all add: rnd_nonneg rnd_rounded rounded_mono)

lemma rnd_le_int: "0 \<le> x \<Longrightarrow> x \<le> of_int n \<Longrightarrow> n \<le> 2 ^ 53 \<Longrightarrow> rnd x \<le> of_int n"
proof -
  assume a: "0 \<le> x" "x \<le> of_int n" "n \<le> 2 ^ 53"
  then have "(0 :: rat) \<le> of_int n" by linarith
  then have "0 \<le> n" by simp
  with a(3) have "(of_int n :: rat) \<le> of_int (2 ^ 53)" "\<bar>n\<bar> \<le> 2 ^ 53" by (simp_all only: of_int_le_iff)
  with rnd_mono [OF a(1,2)] rnd_int [of n] show ?thesis by simp
qed

section \<open>Conversion\<close>

text \<open>Conversion to \<open>int64\<close>; out of range (amd64) it yields the smallest integer.\<close>

definition trunc :: "rat \<Rightarrow> int" where
  "trunc r = (if r < 0 then \<lceil>r\<rceil> else \<lfloor>r\<rfloor>)"

fun f64_int64 :: "f64 \<Rightarrow> int" where
  "f64_int64 (Fin r) = (if in_i64 (trunc r) then trunc r else min_int64)"
| "f64_int64 (Inf _) = min_int64"
| "f64_int64 NaN = min_int64"

lemma trunc_int [simp]: "trunc (of_int n) = n"
  by (simp add: trunc_def)

lemma f64_int64_int [simp]: "in_i64 n \<Longrightarrow> f64_int64 (Fin (of_int n)) = n"
  by simp

lemma in_i64_f64_int64 [simp]: "in_i64 (f64_int64 f)"
  by (cases f) (auto simp: in_i64_def)

section \<open>Printing\<close>

text \<open>\<open>d\<close> significant decimal digits of a positive number, and its decimal exponent.\<close>

definition dec_digits :: "nat \<Rightarrow> rat \<Rightarrow> int \<times> int" where
  "dec_digits d x =
     (let e = ilog 10 x; m = round_half_even (x * 10 powi (int d - 1 - e))
      in if m = 10 ^ d then (m div 10, e + 1) else (m, e))"

definition reads_back :: "rat \<Rightarrow> nat \<Rightarrow> bool" where
  "reads_back x d = (case dec_digits d x of (m, e) \<Rightarrow> round64 (of_int m * 10 powi (e - int d + 1)) = Fin x)"

text \<open>The shortest digits that read back as the same float (17 always do).\<close>

definition shortest :: "rat \<Rightarrow> string \<times> int" where
  "shortest x =
     (let d = (case find (reads_back x) [1..<18] of None \<Rightarrow> 17 | Some d \<Rightarrow> d);
          (m, e) = dec_digits d x
      in (dec_nat (nat m), e))"

abbreviation zeros :: "nat \<Rightarrow> string" where
  "zeros n \<equiv> replicate n CHR ''0''"

definition fmt_f :: "string \<times> int \<Rightarrow> string" where
  "fmt_f = (\<lambda>(ds, e).
     if e < 0 then ''0.'' @ zeros (nat (- e - 1)) @ ds
     else if length ds \<le> nat e + 1 then ds @ zeros (nat e + 1 - length ds)
     else take (nat e + 1) ds @ ''.'' @ drop (nat e + 1) ds)"

definition fmt_e :: "nat \<Rightarrow> string \<times> int \<Rightarrow> string" where
  "fmt_e width = (\<lambda>(ds, e).
     let x = dec_nat (nat \<bar>e\<bar>)
     in take 1 ds @ (if length ds = 1 then [] else ''.'' @ drop 1 ds)
        @ (if e < 0 then ''e-'' else ''e+'') @ zeros (width - length x) @ x)"

definition with_sign :: "rat \<Rightarrow> string \<Rightarrow> string" where
  "with_sign r s = (if r < 0 then CHR ''-'' # s else s)"

text \<open>\<open>fmt.Sprintf("%v", f)\<close>: \<open>%g\<close> with the shortest digits.\<close>

fun fmt_v_f64 :: "f64 \<Rightarrow> string" where
  "fmt_v_f64 (Fin r) =
     (if r = 0 then ''0''
      else let (ds, e) = shortest \<bar>r\<bar>
           in with_sign r (if e < - 4 \<or> 6 \<le> e then fmt_e 2 (ds, e) else fmt_f (ds, e)))"
| "fmt_v_f64 (Inf neg) = (if neg then ''-Inf'' else ''+Inf'')"
| "fmt_v_f64 NaN = ''NaN''"

text \<open>The number \<open>encoding/json\<close> writes; infinities and NaN are refused.\<close>

fun fmt_json_f64 :: "f64 \<Rightarrow> string option" where
  "fmt_json_f64 (Fin r) =
     (if r = 0 then Some ''0''
      else let (ds, e) = shortest \<bar>r\<bar>
           in Some (with_sign r (if \<bar>r\<bar> < 1 / 10 ^ 6 \<or> 10 ^ 21 \<le> \<bar>r\<bar> then fmt_e 1 (ds, e) else fmt_f (ds, e))))"
| "fmt_json_f64 (Inf _) = None"
| "fmt_json_f64 NaN = None"

end
