(* ===== verification/Go_Json.thy ===== *)
theory Go_Json
  imports Go_Float
begin

text \<open>
  The JSON text format, as \<open>encoding/json\<close> reads and writes it (the codec of package
  \<open>jsoncodec\<close> is configured to agree with it). A document is a tree whose numbers keep their
  literal text, as \<open>json.RawMessage\<close> does. \<open>json_text\<close> writes the compact form with HTML-safe
  escapes, \<open>json_parse\<close> reads any document; \<open>json_parse_text\<close> is the round trip, and fuel
  \<open>length s\<close> is enough for it. Strings are taken to be valid UTF-8 without U+2028 and U+2029:
  bytes from \<open>0x80\<close> on are copied as they are.
\<close>

datatype json =
    JNull
  | JBool bool
  | JNum string
  | JStr string
  | JArr "json list"
  | JObj "(string \<times> json) list"

section \<open>Writing\<close>

abbreviation code :: "char \<Rightarrow> nat" where
  "code c \<equiv> of_char c"

definition hexd :: "nat \<Rightarrow> char" where
  "hexd n = (if n < 10 then char_of (48 + n) else char_of (87 + n))"

definition esc :: "char \<Rightarrow> string" where
  "esc c =
     (let n = code c
      in if n = 34 then [CHR 0x5C, CHR 0x22]
         else if n = 92 then [CHR 0x5C, CHR 0x5C]
         else if n = 8 then [CHR 0x5C, CHR ''b'']
         else if n = 12 then [CHR 0x5C, CHR ''f'']
         else if n = 10 then [CHR 0x5C, CHR ''n'']
         else if n = 13 then [CHR 0x5C, CHR ''r'']
         else if n = 9 then [CHR 0x5C, CHR ''t'']
         else if n < 32 \<or> n = 60 \<or> n = 62 \<or> n = 38
         then [CHR 0x5C, CHR ''u'', CHR ''0'', CHR ''0'', hexd (n div 16), hexd (n mod 16)]
         else [c])"

definition str_text :: "string \<Rightarrow> string" where
  "str_text s = CHR 0x22 # concat (map esc s) @ [CHR 0x22]"

fun commas :: "string list \<Rightarrow> string" where
  "commas [] = []"
| "commas [x] = x"
| "commas (x # y # xs) = x @ CHR '','' # commas (y # xs)"

fun json_text :: "json \<Rightarrow> string" where
  "json_text JNull = ''null''"
| "json_text (JBool b) = (if b then ''true'' else ''false'')"
| "json_text (JNum t) = t"
| "json_text (JStr s) = str_text s"
| "json_text (JArr xs) = CHR ''['' # commas (map json_text xs) @ '']''"
| "json_text (JObj kvs) =
     CHR ''{'' # commas (map (\<lambda>kv. str_text (fst kv) @ CHR '':'' # json_text (snd kv)) kvs) @ ''}''"

section \<open>Reading\<close>

definition is_ws :: "char \<Rightarrow> bool" where
  "is_ws c \<longleftrightarrow> code c = 32 \<or> code c = 9 \<or> code c = 10 \<or> code c = 13"

definition ws :: "string \<Rightarrow> string" where
  "ws = dropWhile is_ws"

definition eat :: "char \<Rightarrow> string \<Rightarrow> string option" where
  "eat c s = (case s of [] \<Rightarrow> None | d # t \<Rightarrow> if d = c then Some t else None)"

fun eats :: "string \<Rightarrow> string \<Rightarrow> string option" where
  "eats [] s = Some s"
| "eats (c # cs) s = (case eat c s of None \<Rightarrow> None | Some t \<Rightarrow> eats cs t)"

definition hexval :: "char \<Rightarrow> nat option" where
  "hexval c =
     (let n = code c
      in if 48 \<le> n \<and> n \<le> 57 then Some (n - 48)
         else if 97 \<le> n \<and> n \<le> 102 then Some (n - 87)
         else if 65 \<le> n \<and> n \<le> 70 then Some (n - 55)
         else None)"

definition hex4 :: "char \<Rightarrow> char \<Rightarrow> char \<Rightarrow> char \<Rightarrow> nat option" where
  "hex4 a b c d =
     (case (hexval a, hexval b, hexval c, hexval d) of
        (Some i, Some j, Some k, Some l) \<Rightarrow> Some (((i * 16 + j) * 16 + k) * 16 + l)
      | _ \<Rightarrow> None)"

definition utf8 :: "nat \<Rightarrow> string" where
  "utf8 n =
     (if n < 128 then [char_of n]
      else if n < 2048 then [char_of (192 + n div 64), char_of (128 + n mod 64)]
      else if n < 65536 then
        [char_of (224 + n div 4096), char_of (128 + n div 64 mod 64), char_of (128 + n mod 64)]
      else [char_of (240 + n div 262144), char_of (128 + n div 4096 mod 64),
            char_of (128 + n div 64 mod 64), char_of (128 + n mod 64)])"

definition unesc :: "char \<Rightarrow> char option" where
  "unesc d =
     (if d = CHR 0x22 \<or> d = CHR 0x5C \<or> d = CHR ''/'' then Some d
      else if d = CHR ''b'' then Some (CHR 0x08)
      else if d = CHR ''f'' then Some (CHR 0x0C)
      else if d = CHR ''n'' then Some (CHR 0x0A)
      else if d = CHR ''r'' then Some (CHR 0x0D)
      else if d = CHR ''t'' then Some (CHR 0x09)
      else None)"

text \<open>A surrogate pair is one code point; a lone surrogate becomes U+FFFD.\<close>

definition low_surrogate :: "string \<Rightarrow> (nat \<times> string) option" where
  "low_surrogate s =
     (case s of
        e # u # a # b # c # d # r \<Rightarrow>
          (if e = CHR 0x5C \<and> u = CHR ''u''
           then (case hex4 a b c d of
                   Some n \<Rightarrow> if 56320 \<le> n \<and> n < 57344 then Some (n, r) else None
                 | None \<Rightarrow> None)
           else None)
      | _ \<Rightarrow> None)"

lemma low_surrogate_shorter: "low_surrogate s = Some (n, r) \<Longrightarrow> length r < length s"
  by (auto simp: low_surrogate_def split: list.splits if_splits option.splits)

definition emit :: "string \<Rightarrow> (string \<times> string) option \<Rightarrow> (string \<times> string) option" where
  "emit x r = (case r of None \<Rightarrow> None | Some (y, t) \<Rightarrow> Some (x @ y, t))"

lemma emit_simps [simp]: "emit x None = None" "emit x (Some (y, t)) = Some (x @ y, t)"
  by (simp_all add: emit_def)

function (sequential) pstr :: "string \<Rightarrow> (string \<times> string) option" where
  "pstr [] = None"
| "pstr (c # t) =
     (if c = CHR 0x22 then Some ([], t)
      else if c = CHR 0x5C then
        (case t of
           [] \<Rightarrow> None
         | d # u \<Rightarrow>
             if d = CHR ''u'' then
               (case u of
                  a # b # x # y # v \<Rightarrow>
                    (case hex4 a b x y of
                       None \<Rightarrow> None
                     | Some n \<Rightarrow>
                         if 55296 \<le> n \<and> n < 56320 then
                           (case low_surrogate v of
                              Some (l, w) \<Rightarrow> emit (utf8 (65536 + (n - 55296) * 1024 + (l - 56320))) (pstr w)
                            | None \<Rightarrow> emit (utf8 65533) (pstr v))
                         else if 56320 \<le> n \<and> n < 57344 then emit (utf8 65533) (pstr v)
                         else emit (utf8 n) (pstr v))
                | _ \<Rightarrow> None)
             else (case unesc d of None \<Rightarrow> None | Some b \<Rightarrow> emit [b] (pstr u)))
      else if code c < 32 then None
      else emit [c] (pstr t))"
  by pat_completeness auto
termination
  by (relation "measure length") (auto dest: low_surrogate_shorter)

text \<open>A number literal: the text and what follows it.\<close>

definition scan_digits :: "string \<Rightarrow> string \<times> string" where
  "scan_digits s = (takeWhile is_digit s, dropWhile is_digit s)"

definition scan_int :: "string \<Rightarrow> (string \<times> string) option" where
  "scan_int s =
     (case s of
        [] \<Rightarrow> None
      | c # t \<Rightarrow>
          if c = CHR ''0'' then Some ([c], t)
          else if is_digit c then Some (scan_digits s)
          else None)"

definition scan_frac :: "string \<Rightarrow> (string \<times> string) option" where
  "scan_frac s =
     (case s of
        [] \<Rightarrow> Some ([], [])
      | c # t \<Rightarrow>
          if c = CHR ''.'' then
            (let (ds, r) = scan_digits t in if ds = [] then None else Some (c # ds, r))
          else Some ([], s))"

definition is_exp :: "char \<Rightarrow> bool" where
  "is_exp c \<longleftrightarrow> c = CHR ''e'' \<or> c = CHR ''E''"

definition scan_exp :: "string \<Rightarrow> (string \<times> string) option" where
  "scan_exp s =
     (case s of
        [] \<Rightarrow> Some ([], [])
      | c # t \<Rightarrow>
          if is_exp c then
            (let sg = (case t of [] \<Rightarrow> [] | d # _ \<Rightarrow> if d = CHR ''+'' \<or> d = CHR ''-'' then [d] else []);
                 (ds, r) = scan_digits (drop (length sg) t)
             in if ds = [] then None else Some (c # sg @ ds, r))
          else Some ([], s))"

definition scan_num :: "string \<Rightarrow> (string \<times> string) option" where
  "scan_num s =
     (let m = (case s of [] \<Rightarrow> [] | c # _ \<Rightarrow> if c = CHR ''-'' then [c] else [])
      in case scan_int (drop (length m) s) of
           None \<Rightarrow> None
         | Some (i, r1) \<Rightarrow>
             (case scan_frac r1 of
                None \<Rightarrow> None
              | Some (f, r2) \<Rightarrow>
                  (case scan_exp r2 of
                     None \<Rightarrow> None
                   | Some (e, r3) \<Rightarrow> Some (m @ i @ f @ e, r3))))"

fun pval :: "nat \<Rightarrow> string \<Rightarrow> (json \<times> string) option"
  and pelems :: "nat \<Rightarrow> string \<Rightarrow> (json list \<times> string) option"
  and pmembers :: "nat \<Rightarrow> string \<Rightarrow> ((string \<times> json) list \<times> string) option" where
  "pval 0 s = None"
| "pval (Suc n) s =
     (case s of
        [] \<Rightarrow> None
      | c # t \<Rightarrow>
          if c = CHR 0x22 then (case pstr t of None \<Rightarrow> None | Some (x, r) \<Rightarrow> Some (JStr x, r))
          else if c = CHR ''['' then
            (case eat (CHR '']'') (ws t) of
               Some r \<Rightarrow> Some (JArr [], r)
             | None \<Rightarrow> (case pelems n (ws t) of None \<Rightarrow> None | Some (xs, r) \<Rightarrow> Some (JArr xs, r)))
          else if c = CHR ''{'' then
            (case eat (CHR ''}'') (ws t) of
               Some r \<Rightarrow> Some (JObj [], r)
             | None \<Rightarrow> (case pmembers n (ws t) of None \<Rightarrow> None | Some (xs, r) \<Rightarrow> Some (JObj xs, r)))
          else if c = CHR ''n'' then (case eats ''ull'' t of None \<Rightarrow> None | Some r \<Rightarrow> Some (JNull, r))
          else if c = CHR ''t'' then (case eats ''rue'' t of None \<Rightarrow> None | Some r \<Rightarrow> Some (JBool True, r))
          else if c = CHR ''f'' then (case eats ''alse'' t of None \<Rightarrow> None | Some r \<Rightarrow> Some (JBool False, r))
          else (case scan_num s of None \<Rightarrow> None | Some (x, r) \<Rightarrow> Some (JNum x, r)))"
| "pelems 0 s = None"
| "pelems (Suc n) s =
     (case pval n s of
        None \<Rightarrow> None
      | Some (v, r) \<Rightarrow>
          (case eat (CHR '','') (ws r) of
             Some r' \<Rightarrow> (case pelems n (ws r') of None \<Rightarrow> None | Some (vs, r'') \<Rightarrow> Some (v # vs, r''))
           | None \<Rightarrow> (case eat (CHR '']'') (ws r) of None \<Rightarrow> None | Some r' \<Rightarrow> Some ([v], r'))))"
| "pmembers 0 s = None"
| "pmembers (Suc n) s =
     (case eat (CHR 0x22) s of
        None \<Rightarrow> None
      | Some t \<Rightarrow>
          (case pstr t of
             None \<Rightarrow> None
           | Some (k, r0) \<Rightarrow>
               (case eat (CHR '':'') (ws r0) of
                  None \<Rightarrow> None
                | Some r1 \<Rightarrow>
                    (case pval n (ws r1) of
                       None \<Rightarrow> None
                     | Some (v, r) \<Rightarrow>
                         (case eat (CHR '','') (ws r) of
                            Some r' \<Rightarrow>
                              (case pmembers n (ws r') of
                                 None \<Rightarrow> None
                               | Some (vs, r'') \<Rightarrow> Some ((k, v) # vs, r''))
                          | None \<Rightarrow>
                              (case eat (CHR ''}'') (ws r) of
                                 None \<Rightarrow> None
                               | Some r' \<Rightarrow> Some ([(k, v)], r')))))))"

definition json_parse :: "string \<Rightarrow> json option" where
  "json_parse s =
     (case pval (Suc (length s)) (ws s) of
        None \<Rightarrow> None
      | Some (j, r) \<Rightarrow> if ws r = [] then Some j else None)"

section \<open>Round trip\<close>

lemma code_specials:
  "code c = 34 \<Longrightarrow> c = CHR 0x22" "code c = 92 \<Longrightarrow> c = CHR 0x5C" "code c = 8 \<Longrightarrow> c = CHR 0x08"
  "code c = 12 \<Longrightarrow> c = CHR 0x0C" "code c = 10 \<Longrightarrow> c = CHR 0x0A" "code c = 13 \<Longrightarrow> c = CHR 0x0D"
  "code c = 9 \<Longrightarrow> c = CHR 0x09"
  using of_char_eq_iff [of c "CHR 0x22", where ?'a = nat] of_char_eq_iff [of c "CHR 0x5C", where ?'a = nat]
    of_char_eq_iff [of c "CHR 0x08", where ?'a = nat] of_char_eq_iff [of c "CHR 0x0C", where ?'a = nat]
    of_char_eq_iff [of c "CHR 0x0A", where ?'a = nat] of_char_eq_iff [of c "CHR 0x0D", where ?'a = nat]
    of_char_eq_iff [of c "CHR 0x09", where ?'a = nat]
  by simp_all

lemma hexval_hexd: "k < 16 \<Longrightarrow> hexval (hexd k) = Some k"
  by (auto simp: hexval_def hexd_def Let_def)

lemma hex4_low: "n < 128 \<Longrightarrow> hex4 CHR ''0'' CHR ''0'' (hexd (n div 16)) (hexd (n mod 16)) = Some n"
  by (simp add: hex4_def hexval_hexd) (simp add: hexval_def)

lemma pstr_u_escape:
  "n < 128 \<Longrightarrow> pstr (CHR 0x5C # CHR ''u'' # CHR ''0'' # CHR ''0'' # hexd (n div 16) # hexd (n mod 16) # s)
     = emit [char_of n] (pstr s)"
  by (subst pstr.simps) (simp add: hex4_low utf8_def)

lemma pstr_short_escape:
  "d \<noteq> CHR ''u'' \<Longrightarrow> unesc d = Some b \<Longrightarrow> pstr (CHR 0x5C # d # s) = emit [b] (pstr s)"
  by (subst pstr.simps) simp

lemma pstr_plain:
  "c \<noteq> CHR 0x22 \<Longrightarrow> c \<noteq> CHR 0x5C \<Longrightarrow> 32 \<le> code c \<Longrightarrow> pstr (c # s) = emit [c] (pstr s)"
  by (subst pstr.simps) simp

lemma pstr_esc: "pstr (esc c @ s) = emit [c] (pstr s)"
proof -
  consider "code c \<in> {34, 92, 8, 12, 10, 13, 9}"
    | "code c \<notin> {34, 92, 8, 12, 10, 13, 9}" "code c < 32 \<or> code c \<in> {60, 62, 38}"
    | "code c \<notin> {34, 92, 60, 62, 38}" "32 \<le> code c"
    by fastforce
  then show ?thesis
  proof cases
    case 1
    then show ?thesis
      by (elim insertE emptyE)
        (drule code_specials, simp add: esc_def pstr_short_escape unesc_def)+
  next
    case 2
    then have "code c < 128" by auto
    moreover have "char_of (code c) = c" by simp
    ultimately show ?thesis
      using 2 pstr_u_escape [of "code c" s] by (auto simp: esc_def Let_def)
  next
    case 3
    then have "c \<noteq> CHR 0x22" "c \<noteq> CHR 0x5C" by auto
    with 3 show ?thesis
      by (simp add: esc_def Let_def pstr_plain)
  qed
qed

lemma pstr_text: "pstr (concat (map esc s) @ CHR 0x22 # r) = Some (s, r)"
proof (induction s)
  case Nil
  then show ?case by (simp add: pstr.simps)
next
  case (Cons c s)
  then show ?case by (simp add: pstr_esc)
qed

definition stops :: "string \<Rightarrow> bool" where
  "stops r \<longleftrightarrow> (case r of [] \<Rightarrow> True | c # _ \<Rightarrow> c = CHR '','' \<or> c = CHR '']'' \<or> c = CHR ''}'' \<or> c = CHR 0x0A)"

lemma stops_simps [simp]:
  "stops []" "stops (CHR '','' # r)" "stops (CHR '']'' # r)" "stops (CHR ''}'' # r)" "stops (CHR 0x0A # r)"
  by (simp_all add: stops_def)

lemma stops_not_digit: "stops (c # r) \<Longrightarrow> \<not> is_digit c \<and> c \<noteq> CHR ''.'' \<and> \<not> is_exp c \<and> c \<noteq> CHR ''+'' \<and> c \<noteq> CHR ''-'' \<and> c \<noteq> CHR ''0''"
  by (auto simp: stops_def is_digit_def is_exp_def)

lemma scan_digits_append:
  "stops r \<Longrightarrow> scan_digits (s @ r) = (fst (scan_digits s), snd (scan_digits s) @ r)"
proof (induction s)
  case Nil
  then show ?case by (cases r) (auto simp: scan_digits_def dest: stops_not_digit)
next
  case (Cons c s)
  then show ?case by (auto simp: scan_digits_def)
qed

lemma scan_int_append:
  "scan_int s = Some (i, q) \<Longrightarrow> stops r \<Longrightarrow> scan_int (s @ r) = Some (i, q @ r)"
  using scan_digits_append [of r s]
  by (auto simp: scan_int_def split: list.splits if_splits)

lemma scan_frac_append:
  "scan_frac s = Some (f, q) \<Longrightarrow> stops r \<Longrightarrow> scan_frac (s @ r) = Some (f, q @ r)"
  by (cases s; cases r)
    (auto simp: scan_frac_def scan_digits_append Let_def split: prod.splits if_splits dest: stops_not_digit)

lemma scan_exp_append:
  "scan_exp s = Some (e, q) \<Longrightarrow> stops r \<Longrightarrow> scan_exp (s @ r) = Some (e, q @ r)"
proof (cases s)
  case Nil
  assume "scan_exp s = Some (e, q)" "stops r"
  with Nil show ?thesis
    by (cases r) (auto simp: scan_exp_def dest: stops_not_digit)
next
  case (Cons c t)
  assume ex: "scan_exp s = Some (e, q)" and r: "stops r"
  show ?thesis
  proof (cases t)
    case Nil
    with ex Cons r show ?thesis
      by (auto simp: scan_exp_def scan_digits_def Let_def split: if_splits)
  next
    case (Cons d u)
    with ex \<open>s = c # t\<close> r scan_digits_append [OF r, of t] scan_digits_append [OF r, of u] show ?thesis
      by (auto simp: scan_exp_def Let_def split: if_splits prod.splits)
  qed
qed

definition wf_num :: "string \<Rightarrow> bool" where
  "wf_num t \<longleftrightarrow> scan_num t = Some (t, [])"

lemma scan_num_append:
  assumes "wf_num t" "stops r"
  shows "scan_num (t @ r) = Some (t, r)"
proof -
  define m where "m = (case t of [] \<Rightarrow> [] | c # _ \<Rightarrow> if c = CHR ''-'' then [c] else [])"
  have m: "length m \<le> length t" by (auto simp: m_def split: list.splits)
  from assms(1) obtain i r1 f r2 e where
    i: "scan_int (drop (length m) t) = Some (i, r1)" and
    f: "scan_frac r1 = Some (f, r2)" and e: "scan_exp r2 = Some (e, [])" and
    t: "m @ i @ f @ e = t"
    unfolding wf_num_def scan_num_def m_def [symmetric]
    by (auto simp: Let_def split: option.splits)
  have t0: "t \<noteq> []"
    using i by (auto simp: scan_int_def)
  then have m': "(case t @ r of [] \<Rightarrow> [] | c # _ \<Rightarrow> if c = CHR ''-'' then [c] else []) = m"
    by (cases t) (auto simp: m_def)
  show ?thesis
    unfolding scan_num_def m'
    using scan_int_append [OF i assms(2)] scan_frac_append [OF f assms(2)] scan_exp_append [OF e assms(2)] m t
    by simp
qed

lemma wf_num_head: "wf_num t \<Longrightarrow> \<exists>c u. t = c # u \<and> (is_digit c \<or> c = CHR ''-'')"
  by (cases t) (auto simp: wf_num_def scan_num_def scan_int_def is_digit_def split: if_splits option.splits)

fun wf_json :: "json \<Rightarrow> bool" where
  "wf_json (JNum t) = wf_num t"
| "wf_json (JArr xs) = list_all wf_json xs"
| "wf_json (JObj kvs) = list_all (\<lambda>kv. wf_json (snd kv)) kvs"
| "wf_json _ = True"

lemma digit_head:
  "is_digit c \<or> c = CHR ''-'' \<Longrightarrow> \<not> is_ws c \<and> c \<notin> {CHR '']'', CHR ''}'', CHR '','', CHR 0x22, CHR ''['', CHR ''{'', CHR ''n'', CHR ''t'', CHR ''f''}"
  by (auto simp: is_digit_def is_ws_def)

lemma json_text_head:
  "wf_json j \<Longrightarrow> \<exists>c u. json_text j = c # u \<and> \<not> is_ws c \<and> c \<noteq> CHR '']'' \<and> c \<noteq> CHR ''}''"
  using wf_num_head digit_head
  by (cases j) (fastforce simp: str_text_def is_ws_def)+

lemma json_text_length: "wf_json j \<Longrightarrow> 0 < length (json_text j)"
  using json_text_head by fastforce

lemma ws_simps [simp]: "ws [] = []" "\<not> is_ws c \<Longrightarrow> ws (c # t) = c # t"
  by (simp_all add: ws_def)

lemma not_ws [simp]:
  "\<not> is_ws CHR '',''" "\<not> is_ws CHR '']''" "\<not> is_ws CHR ''}''" "\<not> is_ws CHR '':''" "\<not> is_ws CHR 0x22"
  by (simp_all add: is_ws_def)

lemma ws_json_text: "wf_json j \<Longrightarrow> ws (json_text j @ r) = json_text j @ r"
  using json_text_head [of j] by fastforce

lemma eat_simps [simp]: "eat c [] = None" "eat c (d # t) = (if d = c then Some t else None)"
  by (simp_all add: eat_def)

lemma pelems_text:
  assumes "\<And>x n r. x \<in> set xs \<Longrightarrow> length (json_text x) \<le> n \<Longrightarrow> stops r \<Longrightarrow> pval n (json_text x @ r) = Some (x, r)"
    and "list_all wf_json xs" "xs \<noteq> []" "Suc (length (commas (map json_text xs))) \<le> n"
  shows "pelems n (commas (map json_text xs) @ CHR '']'' # r) = Some (xs, r)"
  using assms
proof (induction xs arbitrary: n rule: induct_list012)
  case 1
  then show ?case by simp
next
  case (2 x)
  then obtain k where k: "n = Suc k" by (cases n) auto
  with 2 show ?case by simp
next
  case (3 x y zs)
  then obtain k where k: "n = Suc k" by (cases n) auto
  have "pval k (json_text x @ CHR '','' # commas (map json_text (y # zs)) @ CHR '']'' # r)
      = Some (x, CHR '','' # commas (map json_text (y # zs)) @ CHR '']'' # r)"
    using 3(3,6) k by simp
  moreover have "pelems k (commas (map json_text (y # zs)) @ CHR '']'' # r) = Some (y # zs, r)"
    using 3(3-6) k json_text_length [of x] by (intro 3(2)) auto
  moreover have "ws (commas (map json_text (y # zs)) @ CHR '']'' # r) = commas (map json_text (y # zs)) @ CHR '']'' # r"
    using 3(4) ws_json_text [of y] by (cases zs) auto
  ultimately show ?case
    using k by simp
qed

lemma pmembers_text:
  assumes "\<And>x n r. x \<in> set kvs \<Longrightarrow> length (json_text (snd x)) \<le> n \<Longrightarrow> stops r
      \<Longrightarrow> pval n (json_text (snd x) @ r) = Some (snd x, r)"
    and "list_all (\<lambda>kv. wf_json (snd kv)) kvs" "kvs \<noteq> []"
    and "Suc (length (commas (map (\<lambda>kv. str_text (fst kv) @ CHR '':'' # json_text (snd kv)) kvs))) \<le> n"
  shows "pmembers n (commas (map (\<lambda>kv. str_text (fst kv) @ CHR '':'' # json_text (snd kv)) kvs) @ CHR ''}'' # r)
    = Some (kvs, r)"
  using assms
proof (induction kvs arbitrary: n rule: induct_list012)
  case 1
  then show ?case by simp
next
  case (2 x)
  then obtain k where k: "n = Suc k" by (cases n) auto
  have "pval k (json_text (snd x) @ CHR ''}'' # r) = Some (snd x, CHR ''}'' # r)"
    using 2 k by (intro 2(1)) auto
  with 2 k show ?case
    by (simp add: str_text_def pstr_text ws_json_text)
next
  case (3 x y zs)
  let ?m = "\<lambda>kv. str_text (fst kv) @ CHR '':'' # json_text (snd kv)"
  obtain k where k: "n = Suc k" using 3(6) by (cases n) auto
  have v: "pval k (json_text (snd x) @ CHR '','' # commas (map ?m (y # zs)) @ CHR ''}'' # r)
      = Some (snd x, CHR '','' # commas (map ?m (y # zs)) @ CHR ''}'' # r)"
    using 3(6) k by (intro 3(3)) auto
  have w: "pmembers k (commas (map ?m (y # zs)) @ CHR ''}'' # r) = Some (y # zs, r)"
    using 3(3-6) k by (intro 3(2)) auto
  have "ws (commas (map ?m (y # zs)) @ CHR ''}'' # r) = commas (map ?m (y # zs)) @ CHR ''}'' # r"
    by (cases zs) (auto simp: str_text_def)
  with v w k 3(4) show ?case
    by (simp add: str_text_def pstr_text ws_json_text)
qed

lemma eats_append [simp]: "eats t (t @ r) = Some r"
  by (induction t) auto

lemma pval_text:
  "wf_json j \<Longrightarrow> length (json_text j) \<le> n \<Longrightarrow> stops r \<Longrightarrow> pval n (json_text j @ r) = Some (j, r)"
proof (induction j arbitrary: n r)
  case (JNum t)
  then obtain c u where t: "t = c # u" "is_digit c \<or> c = CHR ''-''"
    using wf_num_head [of t] by auto
  with JNum obtain k where "n = Suc k" by (cases n) auto
  with JNum t digit_head [of c] show ?case
    using scan_num_append [of t r] by auto
next
  case (JArr xs)
  then obtain k where k: "n = Suc k" by (cases n) auto
  show ?case
  proof (cases xs)
    case Nil
    with k show ?thesis by simp
  next
    case (Cons y ys)
    let ?b = "commas (map json_text xs)"
    have "pelems k (?b @ CHR '']'' # r) = Some (xs, r)"
      using JArr k Cons by (intro pelems_text) (auto simp: list_all_iff)
    moreover have "ws (?b @ CHR '']'' # r) = ?b @ CHR '']'' # r \<and> eat (CHR '']'') (?b @ CHR '']'' # r) = None"
      using JArr(2) Cons json_text_head [of y] by (cases ys) auto
    ultimately show ?thesis
      using k by simp
  qed
next
  case (JObj kvs)
  then obtain k where k: "n = Suc k" by (cases n) auto
  show ?case
  proof (cases kvs)
    case Nil
    with k show ?thesis by simp
  next
    case (Cons y ys)
    let ?m = "\<lambda>kv. str_text (fst kv) @ CHR '':'' # json_text (snd kv)"
    let ?b = "commas (map ?m kvs)"
    have IH: "pval n (json_text (snd x) @ r) = Some (snd x, r)"
      if "x \<in> set kvs" "length (json_text (snd x)) \<le> n" "stops r" for x n r
    proof (rule JObj(1) [OF that(1) _ _ that(2,3)])
      show "snd x \<in> Basic_BNFs.snds x" by (cases x) simp
      show "wf_json (snd x)" using JObj(2) that(1) by (auto simp: list_all_iff)
    qed
    have "pmembers k (?b @ CHR ''}'' # r) = Some (kvs, r)"
      using JObj(2,3) k Cons by (intro pmembers_text IH) (auto simp: list_all_iff)
    moreover have "ws (?b @ CHR ''}'' # r) = ?b @ CHR ''}'' # r \<and> eat (CHR ''}'') (?b @ CHR ''}'' # r) = None"
      using Cons by (cases ys) (auto simp: str_text_def)
    ultimately show ?thesis
      using k by simp
  qed
next
  case (JStr s)
  then obtain k where "n = Suc k" by (cases n) (auto simp: str_text_def)
  then show ?case by (simp add: str_text_def pstr_text)
next
  case JNull
  then obtain k where "n = Suc k" by (cases n) auto
  then show ?case by simp
next
  case (JBool b)
  then obtain k where "n = Suc k" by (cases n) (auto split: if_splits)
  then show ?case by simp
qed

theorem json_parse_text: "wf_json j \<Longrightarrow> json_parse (json_text j) = Some j"
  using pval_text [of j "Suc (length (json_text j))" "[]"] ws_json_text [of j "[]"]
  by (simp add: json_parse_def)

text \<open>A line break after a document is white space.\<close>

lemma json_parse_line:
  assumes "wf_json j"
  shows "json_parse (json_text j @ [CHR 0x0A]) = Some j"
proof -
  have "pval (Suc (length (json_text j @ [CHR 0x0A]))) (json_text j @ [CHR 0x0A]) = Some (j, [CHR 0x0A])"
    by (rule pval_text [OF assms]) simp_all
  moreover have "ws [CHR 0x0A] = []" by (simp add: ws_def is_ws_def)
  ultimately show ?thesis
    using ws_json_text [OF assms] unfolding json_parse_def by simp
qed

end
