(* ===== verification/Go_Time.thy ===== *)
theory Go_Time
  imports Go_Float
begin

text \<open>
  Go's \<open>time.Time\<close> and \<open>time.Duration\<close> as the program uses them: the zero test, \<open>Add\<close> and \<open>Sub\<close>,
  formatting and parsing in the layouts \<open>RFC3339\<close> and \<open>RFC3339Nano\<close>, and \<open>Duration.String\<close>.
  A time is its instant (Unix seconds and nanoseconds) with the offset of its zone in seconds
  east of UTC; zone names and the monotonic clock are left out, and the process's local zone is
  UTC. Durations are nanoseconds. \<open>parse_format_nano\<close> is the round trip for the years 0 to 9999.
\<close>

record gtime =
  unix :: int
  nsec :: int
  offset :: int

type_synonym duration = int

definition utc_time :: "int \<Rightarrow> int \<Rightarrow> gtime" where
  "utc_time s n = \<lparr>unix = s, nsec = n, offset = 0\<rparr>"

text \<open>The zero value is January 1 of year 1, 00:00:00 UTC; \<open>IsZero\<close> compares the instant.\<close>

definition zero_time :: gtime where
  "zero_time = utc_time (- 62135596800) 0"

definition is_zero_time :: "gtime \<Rightarrow> bool" where
  "is_zero_time t \<longleftrightarrow> unix t = - 62135596800 \<and> nsec t = 0"

lemma is_zero_zero_time [simp]: "is_zero_time zero_time"
  by (simp add: is_zero_time_def zero_time_def utc_time_def)

abbreviation nanos :: int where
  "nanos \<equiv> 1000000000"

definition time_add :: "gtime \<Rightarrow> duration \<Rightarrow> gtime" where
  "time_add t d =
     t\<lparr>unix := unix t + (nsec t + d) div nanos, nsec := (nsec t + d) mod nanos\<rparr>"

section \<open>The civil calendar\<close>

text \<open>
  Days since 1970-01-01 to year, month and day in the proleptic Gregorian calendar: 400-year
  eras that start on March 1, cut into centuries, four-year cycles and years.
\<close>

definition civil :: "int \<Rightarrow> int \<times> int \<times> int" where
  "civil days =
     (let z = days + 719468;
          era = z div 146097; r400 = z mod 146097;
          c = min 3 (r400 div 36524); r100 = r400 - c * 36524;
          q = r100 div 1461; r4 = r100 mod 1461;
          a = min 3 (r4 div 365); doy = r4 - a * 365;
          mp = (5 * doy + 2) div 153;
          d = doy - (153 * mp + 2) div 5 + 1;
          y = 400 * era + 100 * c + 4 * q + a
      in if mp < 10 then (y, mp + 3, d) else (y + 1, mp - 9, d))"

definition days_of :: "int \<Rightarrow> int \<Rightarrow> int \<Rightarrow> int" where
  "days_of y m d =
     (let y' = (if m \<le> 2 then y - 1 else y);
          era = y' div 400; yoe = y' mod 400;
          mp = (if m \<le> 2 then m + 9 else m - 3);
          doy = (153 * mp + 2) div 5 + d - 1
      in era * 146097 + yoe * 365 + yoe div 4 - yoe div 100 + doy - 719468)"

definition leap :: "int \<Rightarrow> bool" where
  "leap y \<longleftrightarrow> 4 dvd y \<and> (\<not> 100 dvd y \<or> 400 dvd y)"

definition days_in :: "int \<Rightarrow> int \<Rightarrow> int" where
  "days_in m y =
     (if m = 2 then (if leap y then 29 else 28)
      else if m = 4 \<or> m = 6 \<or> m = 9 \<or> m = 11 then 30 else 31)"

lemma month_cut:
  fixes doy :: int
  assumes "0 \<le> doy" "doy \<le> 365"
  defines "mp \<equiv> (5 * doy + 2) div 153"
  defines "d \<equiv> doy - (153 * mp + 2) div 5 + 1"
  shows "0 \<le> mp \<and> mp \<le> 11 \<and> 1 \<le> d \<and> d \<le> 31
    \<and> (mp = 1 \<or> mp = 3 \<or> mp = 6 \<or> mp = 8 \<longrightarrow> d \<le> 30) \<and> (mp = 11 \<longrightarrow> d \<le> 29 \<and> (d = 29 \<longrightarrow> doy = 365))"
proof -
  have m: "153 * mp \<le> 5 * doy + 2" "5 * doy + 2 < 153 * mp + 153"
    unfolding mp_def by linarith+
  then have "0 \<le> mp" "mp \<le> 11"
    using assms(1,2) by linarith+
  then have "mp \<in> {0, 1, 2, 3, 4, 5, 6, 7, 8, 9, 10, 11}"
    by simp presburger
  then show ?thesis
    using m assms(1,2) unfolding d_def by (elim insertE emptyE) auto
qed

text \<open>The pieces of a day number within its era.\<close>

lemma era_cut:
  fixes r400 :: int
  assumes "0 \<le> r400" "r400 < 146097"
  defines "c \<equiv> min 3 (r400 div 36524)"
  defines "r100 \<equiv> r400 - c * 36524"
  defines "q \<equiv> r100 div 1461" and "r4 \<equiv> r100 mod 1461"
  defines "a \<equiv> min 3 (r4 div 365)"
  defines "doy \<equiv> r4 - a * 365"
  shows "0 \<le> c \<and> c \<le> 3 \<and> 0 \<le> q \<and> q \<le> 24 \<and> 0 \<le> a \<and> a \<le> 3 \<and> 0 \<le> doy \<and> doy \<le> 365
    \<and> r400 = c * 36524 + q * 1461 + a * 365 + doy
    \<and> (doy = 365 \<longrightarrow> a = 3 \<and> (q = 24 \<longrightarrow> c = 3))"
proof -
  have c: "0 \<le> c" "c \<le> 3" "0 \<le> r100" "r100 \<le> 36524" "r100 = 36524 \<longrightarrow> c = 3"
    using assms(1,2) unfolding c_def r100_def by (auto simp: min_def)
  have q: "r100 = q * 1461 + r4" "0 \<le> r4" "r4 \<le> 1460" "0 \<le> q"
    using c(3) unfolding q_def r4_def by (auto simp: pos_imp_zdiv_nonneg_iff)
  then have "q \<le> 24" using c(4) by linarith
  have a: "0 \<le> a" "a \<le> 3" "0 \<le> doy" "doy \<le> 365" "doy = 365 \<longrightarrow> a = 3 \<and> r4 = 1460"
    using q(2,3) unfolding a_def doy_def by (auto simp: min_def)
  have "doy = 365 \<and> q = 24 \<longrightarrow> c = 3"
    using a(5) q(1) c(5) by auto
  moreover have "r400 = c * 36524 + q * 1461 + a * 365 + doy"
    using q(1) by (simp add: r100_def doy_def)
  ultimately show ?thesis
    using c q(4) \<open>q \<le> 24\<close> a by blast
qed

lemma civil_props:
  fixes days :: int
  assumes "civil days = (y, m, d)"
  shows "days_of y m d = days \<and> 1 \<le> m \<and> m \<le> 12 \<and> 1 \<le> d \<and> d \<le> days_in m y"
proof -
  define z where "z = days + 719468"
  define era where "era = z div 146097"
  define r400 where "r400 = z mod 146097"
  define c where "c = min 3 (r400 div 36524)"
  define r100 where "r100 = r400 - c * 36524"
  define q where "q = r100 div 1461"
  define r4 where "r4 = r100 mod 1461"
  define a where "a = min 3 (r4 div 365)"
  define doy where "doy = r4 - a * 365"
  define mp where "mp = (5 * doy + 2) div 153"
  define dd where "dd = doy - (153 * mp + 2) div 5 + 1"
  define yoe where "yoe = 100 * c + 4 * q + a"
  note cut = era_cut [of r400, folded c_def, folded r100_def, folded q_def r4_def, folded a_def, folded doy_def]
  have r400: "0 \<le> r400" "r400 < 146097" by (auto simp: r400_def)
  note e = cut [OF r400]
  have mo: "0 \<le> mp \<and> mp \<le> 11 \<and> 1 \<le> dd \<and> dd \<le> 31
    \<and> (mp = 1 \<or> mp = 3 \<or> mp = 6 \<or> mp = 8 \<longrightarrow> dd \<le> 30) \<and> (mp = 11 \<longrightarrow> dd \<le> 29 \<and> (dd = 29 \<longrightarrow> doy = 365))"
    using month_cut [of doy] e unfolding mp_def dd_def by blast
  have res: "y = (if mp < 10 then 400 * era + yoe else 400 * era + yoe + 1)"
      "m = (if mp < 10 then mp + 3 else mp - 9)" "d = dd"
    using assms unfolding civil_def Let_def z_def [symmetric] era_def [symmetric] r400_def [symmetric]
      c_def [symmetric] r100_def [symmetric] q_def [symmetric] r4_def [symmetric] a_def [symmetric]
      doy_def [symmetric] mp_def [symmetric] dd_def [symmetric]
    by (auto simp: yoe_def split: if_splits)
  have yoe: "0 \<le> yoe" "yoe < 400" using e by (auto simp: yoe_def)
  have y': "(if m \<le> 2 then y - 1 else y) = 400 * era + yoe"
      "(if m \<le> 2 then m + 9 else m - 3) = mp"
    using res mo by auto
  have yq: "yoe div 4 = 25 * c + q" "yoe div 100 = c"
    using e by (auto simp: yoe_def)
  have zz: "z = era * 146097 + r400" by (simp add: era_def r400_def)
  have "(400 * era + yoe) div 400 = era" "(400 * era + yoe) mod 400 = yoe"
    using yoe by auto
  then have "days_of y m d = era * 146097 + yoe * 365 + (25 * c + q) - c + doy - 719468"
    unfolding days_of_def y' Let_def using yq res(3) by (simp add: dd_def)
  also have "\<dots> = days"
    using zz e by (simp add: z_def yoe_def)
  finally have inv: "days_of y m d = days" .
  have leap: "leap (400 * era + yoe + 1)" if "doy = 365"
  proof -
    from e that have a3: "a = 3" and qc: "q = 24 \<longrightarrow> c = 3" and bq: "0 \<le> q" "q \<le> 24" by auto
    have "400 * era + yoe + 1 = 4 * (100 * era + 25 * c + q + 1)"
      using a3 by (simp add: yoe_def)
    then have "4 dvd 400 * era + yoe + 1" by simp
    moreover have "400 dvd 400 * era + yoe + 1" if "100 dvd 400 * era + yoe + 1"
    proof -
      have "400 * era + yoe + 1 = 100 * (4 * era + c) + (4 * q + 4)"
        using a3 by (simp add: yoe_def)
      with that have "100 dvd 4 * q + 4" by (metis dvd_add_right_iff dvd_triv_left)
      then have "q = 24" using bq by presburger
      with qc a3 have "400 * era + yoe + 1 = 400 * (era + 1)" by (simp add: yoe_def)
      then show ?thesis by simp
    qed
    ultimately show ?thesis by (auto simp: leap_def)
  qed
  have "d \<le> days_in m y"
  proof (cases "mp = 11")
    case True
    then have "m = 2" "y = 400 * era + yoe + 1" using res by auto
    moreover have "d \<le> 29 \<and> (d = 29 \<longrightarrow> doy = 365)" using mo True res(3) by blast
    ultimately show ?thesis
      using leap by (cases "d = 29") (auto simp: days_in_def)
  next
    case False
    then show ?thesis
      using mo res by (auto simp: days_in_def)
  qed
  with inv mo res show ?thesis by auto
qed

section \<open>Formatting\<close>

definition pad :: "nat \<Rightarrow> nat \<Rightarrow> string" where
  "pad w n = replicate (w - length (dec_nat n)) CHR ''0'' @ dec_nat n"

text \<open>\<open>appendInt(b, year, 4)\<close>: a minus sign, then at least four digits.\<close>

definition fmt_year :: "int \<Rightarrow> string" where
  "fmt_year y = (if y < 0 then CHR ''-'' # pad 4 (nat (- y)) else pad 4 (nat y))"

definition fmt_date :: "int \<Rightarrow> string" where
  "fmt_date days =
     (case civil days of (y, m, d) \<Rightarrow> fmt_year y @ ''-'' @ pad 2 (nat m) @ ''-'' @ pad 2 (nat d))"

definition fmt_clock :: "int \<Rightarrow> string" where
  "fmt_clock s = pad 2 (nat (s div 3600)) @ '':'' @ pad 2 (nat (s div 60 mod 60)) @ '':'' @ pad 2 (nat (s mod 60))"

text \<open>\<open>.999999999\<close>: nanoseconds with trailing zeros removed, nothing at all when zero.\<close>

definition trim_zeros :: "string \<Rightarrow> string" where
  "trim_zeros s = rev (dropWhile (\<lambda>c. c = CHR ''0'') (rev s))"

definition fmt_frac :: "int \<Rightarrow> string" where
  "fmt_frac n = (let ds = trim_zeros (pad 9 (nat n)) in if ds = [] then [] else CHR ''.'' # ds)"

text \<open>\<open>Z07:00\<close>: \<open>Z\<close> for UTC, otherwise a sign, hours and minutes.\<close>

definition fmt_zone :: "int \<Rightarrow> string" where
  "fmt_zone off =
     (if off = 0 then ''Z''
      else let z = nat (\<bar>quot off 60\<bar>)
           in (if quot off 60 < 0 then ''-'' else ''+'') @ pad 2 (z div 60) @ '':'' @ pad 2 (z mod 60))"

definition fmt_local :: "gtime \<Rightarrow> int \<times> int" where
  "fmt_local t = ((unix t + offset t) div 86400, (unix t + offset t) mod 86400)"

definition fmt_rfc3339 :: "gtime \<Rightarrow> string" where
  "fmt_rfc3339 t =
     (case fmt_local t of (days, s) \<Rightarrow> fmt_date days @ ''T'' @ fmt_clock s @ fmt_zone (offset t))"

definition fmt_rfc3339_nano :: "gtime \<Rightarrow> string" where
  "fmt_rfc3339_nano t =
     (case fmt_local t of (days, s) \<Rightarrow>
        fmt_date days @ ''T'' @ fmt_clock s @ fmt_frac (nsec t) @ fmt_zone (offset t))"

section \<open>Parsing\<close>

text \<open>
  \<open>time.Parse\<close> in either layout: both accept a fraction of a second of any length after \<open>.\<close> or
  \<open>,\<close> (the first nine digits count), and an hour of one digit. The fields are checked for their
  ranges, zone hours up to 24 and zone minutes up to 60.
\<close>

definition num2 :: "string \<Rightarrow> (int \<times> string) option" where
  "num2 s =
     (case s of
        a # b # r \<Rightarrow> if is_digit a \<and> is_digit b then Some (int (10 * dval a + dval b), r) else None
      | _ \<Rightarrow> None)"

definition num_hour :: "string \<Rightarrow> (int \<times> string) option" where
  "num_hour s =
     (case s of
        [] \<Rightarrow> None
      | a # r \<Rightarrow> if \<not> is_digit a then None
                 else (case num2 s of Some x \<Rightarrow> Some x | None \<Rightarrow> Some (int (dval a), r)))"

definition num4 :: "string \<Rightarrow> (int \<times> string) option" where
  "num4 s =
     (if 4 \<le> length s \<and> list_all is_digit (take 4 s) then Some (int (undec (take 4 s)), drop 4 s) else None)"

definition lit :: "char \<Rightarrow> string \<Rightarrow> string option" where
  "lit c s = (case s of [] \<Rightarrow> None | d # r \<Rightarrow> if d = c then Some r else None)"

definition parse_frac :: "string \<Rightarrow> int \<times> string" where
  "parse_frac s =
     (case s of
        p # d # _ \<Rightarrow>
          if (p = CHR ''.'' \<or> p = CHR '','') \<and> is_digit d then
            (let ds = takeWhile is_digit (tl s); k = take 9 ds
             in (int (undec k * 10 ^ (9 - length k)), dropWhile is_digit (tl s)))
          else (0, s)
      | _ \<Rightarrow> (0, s))"

definition parse_zone :: "string \<Rightarrow> (int \<times> string) option" where
  "parse_zone s =
     (case s of
        [] \<Rightarrow> None
      | c # r \<Rightarrow>
          if c = CHR ''Z'' then Some (0, r)
          else if c = CHR ''+'' \<or> c = CHR ''-'' then
            Option.bind (num2 r) (\<lambda>(hh, r1).
            Option.bind (lit (CHR '':'') r1) (\<lambda>r2.
            Option.bind (num2 r2) (\<lambda>(mm, r3).
              if 24 < hh \<or> 60 < mm then None
              else Some ((if c = CHR ''-'' then - 1 else 1) * ((hh * 60 + mm) * 60), r3))))
          else None)"

definition parse_rfc3339 :: "string \<Rightarrow> gtime option" where
  "parse_rfc3339 s =
     Option.bind (num4 s) (\<lambda>(y, s1).
     Option.bind (lit (CHR ''-'') s1) (\<lambda>s2.
     Option.bind (num2 s2) (\<lambda>(mo, s3).
     Option.bind (lit (CHR ''-'') s3) (\<lambda>s4.
     Option.bind (num2 s4) (\<lambda>(d, s5).
     Option.bind (lit (CHR ''T'') s5) (\<lambda>s6.
     Option.bind (num_hour s6) (\<lambda>(h, s7).
     Option.bind (lit (CHR '':'') s7) (\<lambda>s8.
     Option.bind (num2 s8) (\<lambda>(mi, s9).
     Option.bind (lit (CHR '':'') s9) (\<lambda>s10.
     Option.bind (num2 s10) (\<lambda>(se, s11).
       case parse_frac s11 of (n, s12) \<Rightarrow>
     Option.bind (parse_zone s12) (\<lambda>(off, s13).
       if s13 \<noteq> [] \<or> mo < 1 \<or> 12 < mo \<or> d < 1 \<or> days_in mo y < d \<or> 24 \<le> h \<or> 60 \<le> mi \<or> 60 \<le> se then None
       else Some \<lparr>unix = days_of y mo d * 86400 + h * 3600 + mi * 60 + se - off, nsec = n, offset = off\<rparr>))))))))))))"

section \<open>Round trip\<close>

lemma undec_append: "undec (s @ t) = undec s * 10 ^ length t + undec t"
proof (induction t rule: rev_induct)
  case Nil
  then show ?case by (simp add: undec_def)
next
  case (snoc c t)
  have "undec (s @ t @ [c]) = undec ((s @ t) @ [c])" by simp
  also have "\<dots> = undec (s @ t) * 10 + dval c" by (rule undec_snoc)
  finally show ?case
    using snoc by (simp add: undec_snoc algebra_simps)
qed

lemma digit_0 [simp]: "digit 0 = CHR ''0''"
  using of_char_eq_iff [of "digit 0" "CHR ''0''", where ?'a = nat] of_char_digit [of 0] by simp

lemma undec_zeros [simp]: "undec (replicate k CHR ''0'') = 0"
proof (induction k)
  case 0
  then show ?case by (simp add: undec_def)
next
  case (Suc k)
  have "replicate (Suc k) CHR ''0'' = replicate k CHR ''0'' @ [CHR ''0'']"
    by (simp add: replicate_append_same)
  with Suc show ?case by (simp only: undec_snoc) (simp add: dval_def)
qed

lemma is_digit_0 [simp]: "is_digit CHR ''0''"
  by (simp add: is_digit_def)

lemma length_dec_nat: "n < 10 ^ w \<Longrightarrow> 0 < w \<Longrightarrow> length (dec_nat n) \<le> w"
proof (induction w arbitrary: n)
  case 0
  then show ?case by simp
next
  case (Suc w)
  show ?case
  proof (cases "n < 10")
    case True
    then show ?thesis by (subst dec_nat.simps) simp
  next
    case False
    then have "0 < w" using Suc.prems by (cases w) auto
    moreover have "n div 10 < 10 ^ w" using Suc.prems by (simp add: less_mult_imp_div_less mult.commute)
    ultimately have "length (dec_nat (n div 10)) \<le> w" by (rule Suc.IH [rotated])
    with False show ?thesis by (subst dec_nat.simps) simp
  qed
qed

lemma pad_props:
  assumes "n < 10 ^ w" "0 < w"
  shows "length (pad w n) = w" "undec (pad w n) = n" "list_all is_digit (pad w n)"
  using length_dec_nat [OF assms] dec_nat_digits [of n]
  by (auto simp: pad_def undec_append list_all_iff)

lemma pad2: "n < 100 \<Longrightarrow> \<exists>a b. pad 2 n = [a, b] \<and> is_digit a \<and> is_digit b \<and> 10 * dval a + dval b = n"
proof -
  assume "n < 100"
  then have p: "length (pad 2 n) = 2" "undec (pad 2 n) = n" "list_all is_digit (pad 2 n)"
    using pad_props [of n 2] by simp_all
  then obtain a b where "pad 2 n = [a, b]" by (auto simp: length_Suc_conv numeral_2_eq_2)
  with p show ?thesis by (auto simp: undec_def)
qed

lemma num2_pad: "n < 100 \<Longrightarrow> num2 (pad 2 n @ r) = Some (int n, r)"
  using pad2 [of n] by (auto simp: num2_def)

lemma num_hour_pad: "n < 100 \<Longrightarrow> num_hour (pad 2 n @ r) = Some (int n, r)"
  using pad2 [of n] num2_pad [of n r] by (auto simp: num_hour_def)

lemma num4_pad: "n < 10000 \<Longrightarrow> num4 (pad 4 n @ r) = Some (int n, r)"
  using pad_props [of n 4] by (simp add: num4_def)

lemma lit_Cons [simp]: "lit c (d # r) = (if d = c then Some r else None)"
  by (simp add: lit_def)

lemma trim_zeros_append: "\<exists>k. s = trim_zeros s @ replicate k CHR ''0''"
proof -
  have "rev s = takeWhile (\<lambda>c. c = CHR ''0'') (rev s) @ rev (trim_zeros s)"
    by (simp add: trim_zeros_def)
  then have "s = trim_zeros s @ rev (takeWhile (\<lambda>c. c = CHR ''0'') (rev s))"
    by (metis rev_append rev_rev_ident)
  moreover have "takeWhile (\<lambda>c. c = x) t = replicate (length (takeWhile (\<lambda>c. c = x) t)) x" for t and x :: char
    by (induction t) auto
  ultimately show ?thesis
    by (metis rev_replicate)
qed

lemma parse_fmt_frac:
  assumes "0 \<le> n" "n < nanos" "z = c # z'" "\<not> is_digit c" "c \<noteq> CHR ''.''" "c \<noteq> CHR '',''"
  shows "parse_frac (fmt_frac n @ z) = (n, z)"
proof -
  define ds where "ds = trim_zeros (pad 9 (nat n))"
  have p: "length (pad 9 (nat n)) = 9" "undec (pad 9 (nat n)) = nat n" "list_all is_digit (pad 9 (nat n))"
    using pad_props [of "nat n" 9] assms(1,2) by simp_all
  obtain k where k: "pad 9 (nat n) = ds @ replicate k CHR ''0''"
    using trim_zeros_append unfolding ds_def by blast
  have dig: "list_all is_digit ds" using p(3) k by (simp add: list_all_append)
  have k9: "k = 9 - length ds" "length ds \<le> 9" using p(1) k by auto
  have val: "undec ds * 10 ^ (9 - length ds) = nat n" using p(2) k k9 by (simp add: undec_append)
  have tw: "takeWhile is_digit (ds @ z) = ds" "dropWhile is_digit (ds @ z) = z"
    using dig assms(3,4) by (simp_all add: takeWhile_append2 dropWhile_append2 list_all_iff)
  show ?thesis
  proof (cases ds)
    case Nil
    then have "n = 0" using val assms(1) by (simp add: undec_def)
    moreover have "fmt_frac n = []"
      using Nil by (simp add: fmt_frac_def ds_def)
    ultimately show ?thesis
      using assms(3,5,6) by (cases z') (auto simp: parse_frac_def)
  next
    case (Cons d dr)
    have "fmt_frac n @ z = CHR ''.'' # d # dr @ z"
      using Cons by (simp add: fmt_frac_def ds_def [symmetric])
    moreover have "is_digit d" using dig Cons by simp
    ultimately have "parse_frac (fmt_frac n @ z) = (int (undec (take 9 ds) * 10 ^ (9 - length (take 9 ds))), z)"
      using tw Cons by (simp add: parse_frac_def Let_def)
    then show ?thesis using k9(2) val assms(1) by simp
  qed
qed

definition wf_offset :: "int \<Rightarrow> bool" where
  "wf_offset off \<longleftrightarrow> 60 dvd off \<and> \<bar>off\<bar> < 90000"

lemma parse_fmt_zone:
  assumes "wf_offset off"
  shows "parse_zone (fmt_zone off) = Some (off, [])"
proof (cases "off = 0")
  case True
  then show ?thesis by (simp add: fmt_zone_def parse_zone_def)
next
  case False
  obtain m where m: "off = 60 * m" using assms by (auto simp: wf_offset_def)
  then have m0: "m \<noteq> 0" "\<bar>m\<bar> < 1500" using False assms by (auto simp: wf_offset_def)
  have q: "quot off 60 = m" using m0(1) by (simp add: quot_def m sgn_mult abs_mult abs_mult_sgn mult.commute)
  define z where "z = nat \<bar>m\<bar>"
  have z: "z div 60 < 100" "z mod 60 < 100" "z div 60 \<le> 24" "z mod 60 \<le> 60"
    using m0(2) by (auto simp: z_def nat_less_iff less_mult_imp_div_less)
  have zz: "int (z div 60) * 60 + int (z mod 60) = \<bar>m\<bar>"
    using div_mult_mod_eq [of z 60] unfolding z_def by linarith
  have n1: "num2 (pad 2 (z div 60) @ r) = Some (int (z div 60), r)" for r by (rule num2_pad [OF z(1)])
  have n2: "num2 (pad 2 (z mod 60)) = Some (int (z mod 60), [])" using num2_pad [OF z(2), of "[]"] by simp
  have "fmt_zone off = (if m < 0 then CHR ''-'' else CHR ''+'') # pad 2 (z div 60) @ CHR '':'' # pad 2 (z mod 60)"
    using False q by (simp add: fmt_zone_def Let_def z_def)
  then show ?thesis
    using z zz m by (auto simp: parse_zone_def n1 n2)
qed

lemma fmt_zone_head: "\<exists>c r. fmt_zone off = c # r \<and> \<not> is_digit c \<and> c \<noteq> CHR ''.'' \<and> c \<noteq> CHR '',''"
  by (auto simp: fmt_zone_def Let_def is_digit_def)

definition year_of :: "gtime \<Rightarrow> int" where
  "year_of t = fst (civil (fst (fmt_local t)))"

text \<open>Times whose text is unambiguous: a four-digit year and a zone of whole minutes.\<close>

definition wf_time :: "gtime \<Rightarrow> bool" where
  "wf_time t \<longleftrightarrow> 0 \<le> nsec t \<and> nsec t < nanos \<and> 0 \<le> year_of t \<and> year_of t < 10000 \<and> wf_offset (offset t)"

theorem parse_format_nano:
  assumes "wf_time t"
  shows "parse_rfc3339 (fmt_rfc3339_nano t) = Some t"
proof -
  obtain days s where ds: "fmt_local t = (days, s)" by (cases "fmt_local t")
  obtain y m d where c: "civil days = (y, m, d)" by (cases "civil days")
  have y: "0 \<le> y" "y < 10000" using assms ds c by (auto simp: wf_time_def year_of_def)
  have cp: "days_of y m d = days" "1 \<le> m" "m \<le> 12" "1 \<le> d" "d \<le> days_in m y"
    using civil_props [OF c] by auto
  have "days_in m y \<le> 31" by (simp add: days_in_def)
  then have d31: "d \<le> 31" using cp(5) by linarith
  have s: "0 \<le> s" "s < 86400" "days * 86400 + s = unix t + offset t"
    using ds by (auto simp: fmt_local_def)
  define h where "h = s div 3600"
  define mi where "mi = s div 60 mod 60"
  define se where "se = s mod 60"
  have hms: "h * 3600 + mi * 60 + se = s"
  proof -
    have "s div 3600 = s div 60 div 60" by (simp add: zdiv_zmult2_eq)
    moreover have "s = 60 * (s div 60) + s mod 60" "s div 60 = 60 * (s div 60 div 60) + s div 60 mod 60"
      by simp_all
    ultimately show ?thesis unfolding h_def mi_def se_def by linarith
  qed
  have b: "0 \<le> h" "h < 24" "0 \<le> mi" "mi < 60" "0 \<le> se" "se < 60"
    using s(1,2) by (auto simp: h_def mi_def se_def)
  have fy: "fmt_year y = pad 4 (nat y)" using y by (simp add: fmt_year_def)
  have frac: "parse_frac (fmt_frac (nsec t) @ fmt_zone (offset t)) = (nsec t, fmt_zone (offset t))"
    using assms fmt_zone_head [of "offset t"] by (auto simp: wf_time_def intro!: parse_fmt_frac)
  have zone: "parse_zone (fmt_zone (offset t)) = Some (offset t, [])"
    using assms by (auto simp: wf_time_def intro: parse_fmt_zone)
  have shape: "fmt_rfc3339_nano t = pad 4 (nat y) @ CHR ''-'' # pad 2 (nat m) @ CHR ''-'' # pad 2 (nat d)
      @ CHR ''T'' # pad 2 (nat h) @ CHR '':'' # pad 2 (nat mi) @ CHR '':'' # pad 2 (nat se)
      @ fmt_frac (nsec t) @ fmt_zone (offset t)"
    by (simp add: fmt_rfc3339_nano_def ds fmt_date_def c fy fmt_clock_def h_def mi_def se_def)
  have "days * 86400 + h * 3600 + mi * 60 + se - offset t = unix t"
    using hms s(3) by linarith
  then show ?thesis
    unfolding shape parse_rfc3339_def
    using y cp b d31 frac zone by (simp add: num4_pad num2_pad num_hour_pad nat_less_iff)
qed

section \<open>Durations\<close>

abbreviation millisecond :: duration where
  "millisecond \<equiv> 1000000"

abbreviation second :: duration where
  "second \<equiv> 1000000000"

text \<open>\<open>d.Milliseconds()\<close> and \<open>time.Duration(ms) * time.Millisecond\<close>, which may wrap.\<close>

definition dur_millis :: "duration \<Rightarrow> int" where
  "dur_millis d = quot d millisecond"

definition millis_dur :: "int \<Rightarrow> duration" where
  "millis_dur ms = i64 (ms * millisecond)"

text \<open>\<open>Duration.String\<close>: the largest unit below a second, otherwise hours, minutes, seconds.\<close>

definition frac_text :: "nat \<Rightarrow> nat \<Rightarrow> string" where
  "frac_text prec u =
     (let ds = trim_zeros (pad prec (u mod 10 ^ prec)) in if ds = [] then [] else CHR ''.'' # ds)"

definition dur_text :: "duration \<Rightarrow> string" where
  "dur_text d =
     (let u = nat \<bar>d\<bar>;
          t = (if u = 0 then ''0s''
               else if u < 1000 then dec_nat u @ ''ns''
               else if u < 1000000 then dec_nat (u div 1000) @ frac_text 3 u @ [CHR 0xC2, CHR 0xB5, CHR ''s'']
               else if u < 1000000000 then dec_nat (u div 1000000) @ frac_text 6 u @ ''ms''
               else (let secs = u div 1000000000; mins = secs div 60; hours = mins div 60
                     in (if hours = 0 then [] else dec_nat hours @ ''h'')
                        @ (if mins = 0 then [] else dec_nat (mins mod 60) @ ''m'')
                        @ dec_nat (secs mod 60) @ frac_text 9 u @ ''s''))
      in if d < 0 then CHR ''-'' # t else t)"

text \<open>\<open>time.ParseDuration\<close>: signed sums of decimal numbers with units.\<close>

definition unit_of :: "string \<Rightarrow> nat option" where
  "unit_of = map_of
     [(''ns'', 1), (''us'', 1000), ([CHR 0xC2, CHR 0xB5, CHR ''s''], 1000), ([CHR 0xCE, CHR 0xBC, CHR ''s''], 1000),
      (''ms'', 1000000), (''s'', 1000000000), (''m'', 60000000000), (''h'', 3600000000000)]"

abbreviation two63 :: nat where
  "two63 \<equiv> 9223372036854775808"

definition leading_int :: "string \<Rightarrow> nat option" where
  "leading_int ds = (if undec ds \<le> two63 then Some (undec ds) else None)"

fun leading_frac :: "string \<Rightarrow> nat \<Rightarrow> nat \<Rightarrow> nat \<times> nat" where
  "leading_frac [] x scale = (x, scale)"
| "leading_frac (c # ds) x scale =
     (if (two63 - 1) div 10 < x \<or> two63 < x * 10 + dval c then (x, scale)
      else leading_frac ds (x * 10 + dval c) (scale * 10))"

definition f64_mult :: "rat \<Rightarrow> rat \<Rightarrow> rat" where
  "f64_mult a b = (case round64 (a * b) of Fin r \<Rightarrow> r | _ \<Rightarrow> 0)"

definition dur_term :: "nat \<Rightarrow> nat \<times> nat \<Rightarrow> nat \<Rightarrow> nat option" where
  "dur_term v fs u =
     (case fs of (f, scale) \<Rightarrow>
        if two63 div u < v then None
        else let w = v * u + (if f = 0 then 0
               else nat (trunc (f64_mult (f64_mult (of_nat f) 1) (f64_mult (of_nat u) (1 / of_nat scale)))))
             in if two63 < w then None else Some w)"

definition is_num_char :: "char \<Rightarrow> bool" where
  "is_num_char c \<longleftrightarrow> is_digit c \<or> c = CHR ''.''"

fun dur_terms :: "nat \<Rightarrow> nat \<Rightarrow> string \<Rightarrow> nat option" where
  "dur_terms 0 acc s = None"
| "dur_terms (Suc fuel) acc s =
     (if s = [] then Some acc
      else if \<not> is_num_char (hd s) then None
      else let ds = takeWhile is_digit s; s1 = dropWhile is_digit s;
               dot = (s1 \<noteq> [] \<and> hd s1 = CHR ''.'');
               s2 = (if dot then tl s1 else s1);
               fs = (if dot then takeWhile is_digit s2 else []);
               s3 = (if dot then dropWhile is_digit s2 else s2);
               u = takeWhile (\<lambda>c. \<not> is_num_char c) s3
           in if ds = [] \<and> fs = [] then None
              else (case (leading_int ds, unit_of u) of
                      (Some v, Some un) \<Rightarrow>
                        (case dur_term v (leading_frac fs 0 1) un of
                           None \<Rightarrow> None
                         | Some w \<Rightarrow> if two63 < acc + w then None
                                     else dur_terms fuel (acc + w) (dropWhile (\<lambda>c. \<not> is_num_char c) s3))
                    | _ \<Rightarrow> None))"

definition parse_duration :: "string \<Rightarrow> duration option" where
  "parse_duration s =
     (case split_sign s of (neg, t) \<Rightarrow>
        if t = ''0'' then Some 0
        else if t = [] then None
        else (case dur_terms (Suc (length t)) 0 t of
                None \<Rightarrow> None
              | Some d \<Rightarrow> if neg then Some (- int d) else if d = two63 then None else Some (int d)))"

lemma parse_duration_Nil [simp]: "parse_duration [] = None"
  by (simp add: parse_duration_def split_sign_def)

end
