(* ===== verification/Go_Value.thy ===== *)
theory Go_Value
  imports Go_Json Go_Time
begin

text \<open>
  Go's \<open>any\<close>: the dynamic values that event data and extension attributes hold. \<open>to_json\<close> is
  \<open>json.Marshal\<close> (None: the encoder returns an error), \<open>of_json\<close> is \<open>json.Unmarshal\<close> into an
  \<open>any\<close> (numbers become \<open>float64\<close>; None: a number out of range) and \<open>fmt_v\<close> is \<open>%v\<close>.
  \<open>AOther\<close> is a value of any further type, known by its JSON encoding, if it has one, and its
  \<open>%v\<close> text.
\<close>

datatype any =
    ANil
  | ABool bool
  | AInt int
  | AInt64 int
  | AFloat f64
  | AStr string
  | ATime gtime
  | ANumber string
  | ASlice "any list"
  | AMap "(string \<times> any) list"
  | AOther "json option" string

type_synonym ext_map = "(string \<times> any) list"

section \<open>JSON encoding\<close>

definition time_json :: "gtime \<Rightarrow> json option" where
  "time_json t =
     (if 0 \<le> year_of t \<and> year_of t < 10000 \<and> \<bar>quot (offset t) 3600\<bar> < 24
      then Some (JStr (fmt_rfc3339_nano t)) else None)"

fun to_json :: "any \<Rightarrow> json option" where
  "to_json ANil = Some JNull"
| "to_json (ABool b) = Some (JBool b)"
| "to_json (AInt n) = Some (JNum (dec_int n))"
| "to_json (AInt64 n) = Some (JNum (dec_int n))"
| "to_json (AFloat f) = map_option JNum (fmt_json_f64 f)"
| "to_json (AStr s) = Some (JStr s)"
| "to_json (ATime t) = time_json t"
| "to_json (ANumber s) =
     (if s = [] then Some (JNum ''0'') else if wf_num s then Some (JNum s) else None)"
| "to_json (ASlice xs) = map_option JArr (those (map to_json xs))"
| "to_json (AMap m) =
     map_option (\<lambda>kvs. JObj (by_key kvs)) (those (map (\<lambda>kv. map_option (Pair (fst kv)) (to_json (snd kv))) m))"
| "to_json (AOther j _) = j"

section \<open>JSON decoding\<close>

text \<open>The number a literal denotes.\<close>

definition num_val :: "string \<Rightarrow> rat" where
  "num_val t =
     (let neg = (t \<noteq> [] \<and> hd t = CHR ''-''); u = (if neg then tl t else t);
          i = takeWhile is_digit u; r = dropWhile is_digit u;
          f = (if r \<noteq> [] \<and> hd r = CHR ''.'' then takeWhile is_digit (tl r) else []);
          r2 = (if r \<noteq> [] \<and> hd r = CHR ''.'' then dropWhile is_digit (tl r) else r);
          e = (if r2 = [] then 0 else fst (parse_int (tl r2)));
          v = of_nat (undec (i @ f)) * 10 powi (e - int (length f))
      in if neg then - v else v)"

fun of_json :: "json \<Rightarrow> any option" where
  "of_json JNull = Some ANil"
| "of_json (JBool b) = Some (ABool b)"
| "of_json (JNum t) = (case round64 (num_val t) of Fin r \<Rightarrow> Some (AFloat (Fin r)) | _ \<Rightarrow> None)"
| "of_json (JStr s) = Some (AStr s)"
| "of_json (JArr xs) = map_option ASlice (those (map of_json xs))"
| "of_json (JObj kvs) =
     map_option (\<lambda>m. AMap (mputs m [])) (those (map (\<lambda>kv. map_option (Pair (fst kv)) (of_json (snd kv))) kvs))"

section \<open>Printing with %v\<close>

fun spaced :: "string list \<Rightarrow> string" where
  "spaced [] = []"
| "spaced [x] = x"
| "spaced (x # y # xs) = x @ CHR '' '' # spaced (y # xs)"

definition time_text :: "gtime \<Rightarrow> string" where
  "time_text t =
     (case fmt_local t of (days, s) \<Rightarrow>
        let z = nat (\<bar>quot (offset t) 60\<bar>);
            off = (if quot (offset t) 60 < 0 then ''-'' else ''+'') @ pad 2 (z div 60) @ pad 2 (z mod 60)
        in fmt_date days @ '' '' @ fmt_clock s @ fmt_frac (nsec t) @ '' '' @ off @ '' ''
           @ (if offset t = 0 then ''UTC'' else off))"

fun fmt_v :: "any \<Rightarrow> string" where
  "fmt_v ANil = ''<nil>''"
| "fmt_v (ABool b) = (if b then ''true'' else ''false'')"
| "fmt_v (AInt n) = dec_int n"
| "fmt_v (AInt64 n) = dec_int n"
| "fmt_v (AFloat f) = fmt_v_f64 f"
| "fmt_v (AStr s) = s"
| "fmt_v (ATime t) = time_text t"
| "fmt_v (ANumber s) = s"
| "fmt_v (ASlice xs) = ''['' @ spaced (map fmt_v xs) @ '']''"
| "fmt_v (AMap m) =
     ''map['' @ spaced (map (\<lambda>kv. fst kv @ CHR '':'' # snd kv) (by_key (map (\<lambda>kv. (fst kv, fmt_v (snd kv))) m))) @ '']''"
| "fmt_v (AOther _ s) = s"

section \<open>Integers through JSON\<close>

lemma hd_dec_nat_pos: "0 < n \<Longrightarrow> hd (dec_nat n) \<noteq> CHR ''0''"
proof (induction n rule: dec_nat.induct)
  case (1 n)
  show ?case
  proof (cases "n < 10")
    case True
    then have "hd (dec_nat n) = digit n" by (subst dec_nat.simps) simp
    moreover have "digit n \<noteq> CHR ''0''"
      using True 1(2) by (metis dval_digit digit_0 less_numeral_extra(3) zero_less_numeral)
    ultimately show ?thesis by simp
  next
    case False
    then have "hd (dec_nat n) = hd (dec_nat (n div 10))"
      by (subst dec_nat.simps) simp
    with False 1 show ?thesis by simp
  qed
qed

lemma scan_int_dec_nat: "scan_int (dec_nat n) = Some (dec_nat n, [])"
proof (cases "n = 0")
  case True
  then have "dec_nat n = ''0''" by (subst dec_nat.simps) simp
  then show ?thesis by (simp add: scan_int_def)
next
  case False
  have tw: "takeWhile is_digit (dec_nat n) = dec_nat n" "dropWhile is_digit (dec_nat n) = []"
    using dec_nat_digits [of n] by (auto simp: list_all_iff takeWhile_eq_all_conv dropWhile_eq_Nil_conv)
  show ?thesis
    using False hd_dec_nat_pos [of n] hd_dec_nat_digit [of n] tw
    by (cases "dec_nat n") (auto simp: scan_int_def scan_digits_def)
qed

lemma wf_num_dec_int [simp]: "wf_num (dec_int n)"
proof -
  have m: "hd (dec_nat k) \<noteq> CHR ''-''" for k
    using hd_dec_nat_digit [of k] by auto
  show ?thesis
    using scan_int_dec_nat [of "nat n"] scan_int_dec_nat [of "nat (- n)"] m [of "nat n"]
    by (cases "dec_nat (nat n)")
      (auto simp: wf_num_def scan_num_def dec_int_def scan_frac_def scan_exp_def)
qed

lemma digits_all:
  "list_all is_digit s \<Longrightarrow> takeWhile is_digit s = s" "list_all is_digit s \<Longrightarrow> dropWhile is_digit s = []"
  by (auto simp: list_all_iff takeWhile_eq_all_conv dropWhile_eq_Nil_conv)

lemma num_val_dec_int [simp]: "num_val (dec_int n) = of_int n"
proof -
  have m: "hd (dec_nat k) \<noteq> CHR ''-''" for k
    using hd_dec_nat_digit [of k] by auto
  show ?thesis
    using m [of "nat n"] by (simp add: num_val_def dec_int_def digits_all dec_nat_digits Let_def)
qed

text \<open>An integer of at most 53 bits decodes to the float of the same value.\<close>

lemma of_json_int: "\<bar>n\<bar> \<le> 2 ^ 53 \<Longrightarrow> of_json (JNum (dec_int n)) = Some (AFloat (Fin (of_int n)))"
  by (simp add: round64_int)


section \<open>Every encoding is well-formed text\<close>

lemma ilog_le:
  assumes "1 < b" "0 < x"
  shows "of_nat b powi ilog b x \<le> x"
proof -
  obtain n d where q: "quotient_of x = (n, d)" by (cases "quotient_of x")
  have d: "0 < d" using quotient_of_denom_pos [OF q] .
  have x: "x = of_int n / of_int d" using quotient_of_div [OF q] .
  have n: "0 < n" using assms(2) d unfolding x by (simp add: zero_less_divide_iff)
  define ln where "ln = floorlog b (nat n)"
  define ld where "ld = floorlog b (nat d)"
  have bn: "b ^ (ln - 1) \<le> nat n" and bd: "nat d < b ^ ld"
    using floorlog_bounds [of "nat n" b] floorlog_bounds [of "nat d" b] n d assms(1)
    by (auto simp: ln_def ld_def)
  have ln: "0 < ln" using n assms(1) by (simp add: ln_def floorlog_def)
  have b0: "(of_nat b :: rat) \<noteq> 0" using assms(1) by simp
  have "(of_nat b :: rat) ^ (ln - 1) \<le> of_int n"
    using bn n by (metis of_int_of_nat_eq of_nat_le_iff of_nat_power nat_0_le less_imp_le)
  moreover have "of_int d \<le> (of_nat b :: rat) ^ ld"
    using bd d by (metis less_imp_le of_int_of_nat_eq of_nat_le_iff of_nat_power nat_0_le)
  ultimately have "of_nat b ^ (ln - 1) / of_nat b ^ ld \<le> x"
    unfolding x using d n by (intro frac_le) auto
  moreover have "of_nat b powi (int ln - int ld - 1) = (of_nat b :: rat) ^ (ln - 1) / of_nat b ^ ld"
  proof -
    have "int ln - int ld - 1 = int (ln - 1) - int ld" using ln by simp
    then show ?thesis
      by (simp only: power_int_diff [OF disjI1 [OF b0]] power_int_of_nat)
  qed
  ultimately have "of_nat b powi (int ln - int ld - 1) \<le> x" by simp
  then show ?thesis
    by (simp add: ilog_def q Let_def ln_def [symmetric] ld_def [symmetric])
qed

lemma round_half_even_ge: "of_int k \<le> x \<Longrightarrow> k \<le> round_half_even x"
  using le_floor_iff [of k x] by (auto simp: round_half_even_def Let_def)

lemma dec_digits_pos:
  assumes "0 < x" "0 < d"
  shows "0 < fst (dec_digits d x)"
proof -
  define e where "e = ilog 10 x"
  define m where "m = round_half_even (x * 10 powi (int d - 1 - e))"
  have "10 powi e \<le> x" using ilog_le [of 10 x] assms(1) by (simp add: e_def)
  then have "10 powi e * 10 powi (int d - 1 - e) \<le> x * 10 powi (int d - 1 - e)"
    by (intro mult_right_mono) auto
  moreover have "(10 :: rat) powi e * 10 powi (int d - 1 - e) = 10 ^ (d - 1)"
  proof -
    have ten: "(10 :: rat) \<noteq> 0" by simp
    have "e + (int d - 1 - e) = int (d - 1)" using assms(2) by simp
    then show ?thesis
      using power_int_add [OF disjI1 [OF ten], of e "int d - 1 - e"]
      by (simp only: power_int_of_nat)
  qed
  ultimately have "of_int (10 ^ (d - 1)) \<le> x * 10 powi (int d - 1 - e)" by simp
  then have m: "10 ^ (d - 1) \<le> m" unfolding m_def by (rule round_half_even_ge)
  moreover have "(0 :: int) < 10 ^ (d - 1)" by simp
  ultimately have "0 < m" by linarith
  moreover have "0 < m div 10" if "m = 10 ^ d"
    using that assms(2) by (cases d) auto
  ultimately show ?thesis
    by (auto simp: dec_digits_def e_def [symmetric] m_def [symmetric] Let_def)
qed

lemma shortest_digits:
  assumes "0 < x"
  shows "\<exists>n. 0 < n \<and> fst (shortest x) = dec_nat n"
proof -
  define d where "d = (case find (reads_back x) [1..<18] of None \<Rightarrow> 17 | Some d \<Rightarrow> d)"
  have "0 < d"
    unfolding d_def by (auto split: option.splits dest!: find_Some_iff [THEN iffD1])
  then have "0 < nat (fst (dec_digits d x))"
    using dec_digits_pos [OF assms] by simp
  then show ?thesis
    unfolding shortest_def Let_def d_def [symmetric] by (cases "dec_digits d x") auto
qed

text \<open>The pieces of a number literal.\<close>

lemma scan_digits_stop:
  "list_all is_digit ds \<Longrightarrow> (r = [] \<or> \<not> is_digit (hd r)) \<Longrightarrow> scan_digits (ds @ r) = (ds, r)"
  by (cases r) (auto simp: scan_digits_def list_all_iff takeWhile_append2 dropWhile_append2)

lemma wf_num_parts:
  assumes sg: "sg = [] \<or> sg = ''-''"
    and i: "i = ''0'' \<or> all_digits i \<and> hd i \<noteq> CHR ''0''"
    and f: "f = [] \<or> (\<exists>ds. f = CHR ''.'' # ds \<and> all_digits ds)"
    and e: "ex = [] \<or> (\<exists>s ds. ex = CHR ''e'' # s # ds \<and> (s = CHR ''+'' \<or> s = CHR ''-'') \<and> all_digits ds)"
  shows "wf_num (sg @ i @ f @ ex)"
proof -
  have ie: "i \<noteq> []" "hd i \<noteq> CHR ''-''" using i by (cases i; auto simp: all_digits_def)+
  have fh: "f @ ex = [] \<or> \<not> is_digit (hd (f @ ex))" using f e by (auto simp: is_digit_def)
  have eh: "ex = [] \<or> \<not> is_digit (hd ex) \<and> hd ex \<noteq> CHR ''.''" using e by (auto simp: is_digit_def)
  have s1: "scan_int (i @ f @ ex) = Some (i, f @ ex)"
    using i fh scan_digits_stop [of i "f @ ex"]
    by (cases i) (auto simp: scan_int_def all_digits_def)
  have s2: "scan_frac (f @ ex) = Some (f, ex)"
    using f eh scan_digits_stop [of "tl f" ex]
    by (cases ex) (auto simp: scan_frac_def all_digits_def)
  have s3: "scan_exp ex = Some (ex, [])"
  proof (cases "ex = []")
    case False
    with e obtain s ds where "ex = CHR ''e'' # s # ds" "s = CHR ''+'' \<or> s = CHR ''-''" "all_digits ds"
      by auto
    then show ?thesis
      using scan_digits_stop [of ds "[]"]
      by (auto simp: scan_exp_def is_exp_def all_digits_def Let_def)
  qed (simp add: scan_exp_def)
  show ?thesis
    using sg ie s1 s2 s3 by (cases i) (auto simp: wf_num_def scan_num_def)
qed

lemma all_digits_zeros [simp]: "list_all is_digit (zeros n)"
  by (induction n) auto

lemma all_digits_append: "all_digits a \<Longrightarrow> list_all is_digit b \<Longrightarrow> all_digits (a @ b)" 
  "list_all is_digit b \<Longrightarrow> all_digits a \<Longrightarrow> all_digits (b @ a)"
  by (auto simp: all_digits_def)

lemma fmt_f_wf:
  assumes "0 < n" "sg = [] \<or> sg = ''-''"
  shows "wf_num (sg @ fmt_f (dec_nat n, e))"
proof -
  have h: "hd (dec_nat n) \<noteq> CHR ''0''" "list_all is_digit (dec_nat n)" "dec_nat n \<noteq> []"
    using hd_dec_nat_pos assms(1) dec_nat_digits by auto
  consider "e < 0" | "0 \<le> e" "length (dec_nat n) \<le> nat e + 1" | "0 \<le> e" "nat e + 1 < length (dec_nat n)"
    by linarith
  then show ?thesis
  proof cases
    case 1
    have "wf_num (sg @ ''0'' @ (CHR ''.'' # zeros (nat (- e - 1)) @ dec_nat n) @ [])"
      using assms(2) by (intro wf_num_parts) (auto intro: all_digits_append)
    with 1 show ?thesis by (simp add: fmt_f_def)
  next
    case 2
    have "wf_num (sg @ (dec_nat n @ zeros (nat e + 1 - length (dec_nat n))) @ [] @ [])"
      using assms(2) h by (intro wf_num_parts) (auto simp: hd_append intro: all_digits_append)
    with 2 show ?thesis by (simp add: fmt_f_def)
  next
    case 3
    have "wf_num (sg @ take (nat e + 1) (dec_nat n) @ (CHR ''.'' # drop (nat e + 1) (dec_nat n)) @ [])"
      using assms(2) h 3 by (intro wf_num_parts)
        (auto simp: all_digits_def hd_take list_all_iff dest: in_set_takeD in_set_dropD)
    with 3 show ?thesis by (simp add: fmt_f_def)
  qed
qed

lemma fmt_e_wf:
  assumes "0 < n" "sg = [] \<or> sg = ''-''"
  shows "wf_num (sg @ fmt_e w (dec_nat n, e))"
proof -
  have h: "hd (dec_nat n) \<noteq> CHR ''0''" "list_all is_digit (dec_nat n)" "dec_nat n \<noteq> []"
    using hd_dec_nat_pos assms(1) dec_nat_digits by auto
  define x where "x = dec_nat (nat \<bar>e\<bar>)"
  define f where "f = (if length (dec_nat n) = 1 then [] else CHR ''.'' # drop 1 (dec_nat n))"
  have i: "all_digits (take 1 (dec_nat n)) \<and> hd (take 1 (dec_nat n)) \<noteq> CHR ''0''"
    using h by (cases "dec_nat n") (auto simp: all_digits_def)
  have f: "f = [] \<or> (\<exists>ds. f = CHR ''.'' # ds \<and> all_digits ds)"
    using h unfolding f_def by (cases "dec_nat n") (auto simp: all_digits_def)
  have x: "all_digits (zeros (w - length x) @ x)"
    unfolding x_def by (intro all_digits_append) auto
  have "wf_num (sg @ take 1 (dec_nat n) @ f @ (CHR ''e'' # (if e < 0 then CHR ''-'' else CHR ''+'') # zeros (w - length x) @ x))"
    using assms(2) i f x by (intro wf_num_parts) auto
  then show ?thesis
    by (auto simp: fmt_e_def f_def x_def Let_def split: if_splits)
qed

lemma wf_num_json_f64: "fmt_json_f64 f = Some t \<Longrightarrow> wf_num t"
proof (cases f)
  case (Fin r)
  assume t: "fmt_json_f64 f = Some t"
  show ?thesis
  proof (cases "r = 0")
    case True
    with t Fin show ?thesis
      using wf_num_parts [of "[]" "''0''" "[]" "[]"] by simp
  next
    case False
    obtain ds e where s: "shortest \<bar>r\<bar> = (ds, e)" by (cases "shortest \<bar>r\<bar>")
    obtain n where n: "0 < n" "ds = dec_nat n" using shortest_digits [of "\<bar>r\<bar>"] False s by auto
    show ?thesis
      using t Fin False s n fmt_e_wf [OF n(1), of "[]"] fmt_e_wf [OF n(1), of "''-''"]
        fmt_f_wf [OF n(1), of "[]"] fmt_f_wf [OF n(1), of "''-''"]
      by (auto simp: with_sign_def split: if_splits)
  qed
qed auto

lemma wf_num_zero [simp]: "wf_num ''0''"
  using wf_num_parts [of "[]" "''0''" "[]" "[]"] by simp

text \<open>Values whose further types encode to well-formed text.\<close>

fun wf_any :: "any \<Rightarrow> bool" where
  "wf_any (ASlice xs) = list_all wf_any xs"
| "wf_any (AMap m) = list_all (\<lambda>kv. wf_any (snd kv)) m"
| "wf_any (AOther (Some j) _) = wf_json j"
| "wf_any _ = True"

lemma those_Some: "those xs = Some ys \<longleftrightarrow> xs = map Some ys"
  by (induction xs arbitrary: ys) (auto split: option.splits)

lemma wf_to_json: "to_json a = Some j \<Longrightarrow> wf_any a \<Longrightarrow> wf_json j"
proof (induction a arbitrary: j)
  case (ASlice xs)
  then obtain ys where ys: "map to_json xs = map Some ys" "j = JArr ys"
    by (auto simp: those_Some)
  have "wf_json y" if "y \<in> set ys" for y
  proof -
    have "Some y \<in> set (map to_json xs)" using that ys by simp
    then obtain x where "x \<in> set xs" "to_json x = Some y" by auto
    then show ?thesis using ASlice by (auto simp: list_all_iff)
  qed
  then show ?case using ys by (auto simp: list_all_iff)
next
  case (AMap m)
  then obtain ys where ys: "map (\<lambda>kv. map_option (Pair (fst kv)) (to_json (snd kv))) m = map Some ys"
    "j = JObj (by_key ys)"
    by (auto simp: those_Some)
  have "wf_json (snd y)" if "y \<in> set ys" for y
  proof -
    have "Some y \<in> set (map (\<lambda>kv. map_option (Pair (fst kv)) (to_json (snd kv))) m)"
      using that ys by simp
    then obtain x where x: "x \<in> set m" "map_option (Pair (fst x)) (to_json (snd x)) = Some y"
      by (metis (no_types, lifting) imageE list.set_map)
    from x(2) have "to_json (snd x) = Some (snd y)" by (cases "to_json (snd x)") auto
    note x = x(1) this
    have "snd x \<in> Basic_BNFs.snds x" by (cases x) simp
    with AMap.IH [OF x(1)] x(2) AMap.prems(2) x(1) show ?thesis by (auto simp: list_all_iff)
  qed
  then show ?case using ys(2) by (simp add: list_all_iff)
next
  case (AOther jo s)
  then show ?case by (cases jo) auto
next
  case (ATime t)
  then show ?case by (auto simp: time_json_def split: if_splits)
qed (auto simp: wf_num_json_f64 split: if_splits intro: wf_num_json_f64)

end
