(* ===== verification/Ce_Errors.thy ===== *)
theory Ce_Errors
  imports Go_Time
begin

text \<open>
  Errors as values, and the classification of handler errors
  (\<open>internal/runtime/cloudevents/errors.go\<close>, sentinels of \<open>internal/runtime/errors/errors.go\<close>).
  A Go error is a tree: a sentinel variable, a wrapper made by \<open>fmt.Errorf("... %w")\<close>, a join, or
  one of the program's error types with its cause. \<open>errors_is\<close> and \<open>errors_as_retry_after\<close> are
  the walks of \<open>errors.Is\<close> and \<open>errors.As\<close> over that tree with the \<open>Is\<close> and \<open>Unwrap\<close> methods of
  the program's types; \<open>ClassifyError\<close> decides by them.
\<close>

section \<open>Error values\<close>

datatype sentinel =
    ErrRetry
  | ErrDeadLetter
  | ErrSkip
  | ErrUnprocessable
  | ErrServiceRequired
  | ErrHandlerRequired
  | ErrConsumeQueueRequired
  | ErrHandlerNameRequired
  | ErrConsumeMessageTypeRequired
  | ErrConsumeMessagePointerNeeded
  | ErrPublisherRequired
  | ErrTopicRequired
  | ErrConfigRequired
  | ErrLoggerRequired
  | ErrEventPayloadRequired
  | CtxCanceled
  | CtxDeadlineExceeded
  | OtherSentinel nat string

datatype gerror =
    Sentinel sentinel
  | Plain string
  | Wrapped string gerror
  | Joined "gerror list"
  | RetryAfterError duration "gerror option"
  | DeadLetterError string "gerror option"
  | UnprocessableEventError string gerror
  | ConfigValidationError gerror

definition ce_sentinel_text :: "sentinel \<Rightarrow> string" where
  "ce_sentinel_text s =
     (case s of
        ErrRetry \<Rightarrow> ''protoflow: retry message''
      | ErrDeadLetter \<Rightarrow> ''protoflow: send to dead letter queue''
      | ErrSkip \<Rightarrow> ''protoflow: skip message''
      | _ \<Rightarrow> ''protoflow: unprocessable message'')"

definition sentinel_text :: "sentinel \<Rightarrow> string" where
  "sentinel_text s =
     (case s of
        ErrServiceRequired \<Rightarrow> ''protoflow: event service is required''
      | ErrHandlerRequired \<Rightarrow> ''protoflow: handler function is required''
      | ErrConsumeQueueRequired \<Rightarrow> ''protoflow: consume queue is required''
      | ErrHandlerNameRequired \<Rightarrow> ''protoflow: handler name is required''
      | ErrConsumeMessageTypeRequired \<Rightarrow> ''protoflow: consume message type is required''
      | ErrConsumeMessagePointerNeeded \<Rightarrow> ''protoflow: consume message type must be a pointer''
      | ErrPublisherRequired \<Rightarrow> ''protoflow: publisher is required''
      | ErrTopicRequired \<Rightarrow> ''protoflow: topic is required''
      | ErrConfigRequired \<Rightarrow> ''protoflow: configuration is required''
      | ErrLoggerRequired \<Rightarrow> ''protoflow: logger is required''
      | ErrEventPayloadRequired \<Rightarrow> ''protoflow: event payload is required''
      | CtxCanceled \<Rightarrow> ''context canceled''
      | CtxDeadlineExceeded \<Rightarrow> ''context deadline exceeded''
      | OtherSentinel _ t \<Rightarrow> t
      | _ \<Rightarrow> ce_sentinel_text s)"

text \<open>\<open>ErrRetryAfter\<close> and \<open>ErrDeadLetterWithReason\<close>, the constructors the handlers call.\<close>

definition ErrRetryAfter :: "duration \<Rightarrow> gerror option \<Rightarrow> gerror" where
  "ErrRetryAfter delay cause = RetryAfterError delay cause"

definition ErrDeadLetterWithReason :: "string \<Rightarrow> gerror option \<Rightarrow> gerror" where
  "ErrDeadLetterWithReason reason cause = DeadLetterError reason cause"

definition NewConfigValidationError :: "gerror option \<Rightarrow> gerror option" where
  "NewConfigValidationError err = map_option ConfigValidationError err"

text \<open>The \<open>Error\<close> methods.\<close>

fun lines_text :: "string list \<Rightarrow> string" where
  "lines_text [] = []"
| "lines_text [x] = x"
| "lines_text (x # y # xs) = x @ CHR 0x0A # lines_text (y # xs)"

definition retry_after_text :: "duration \<Rightarrow> string option \<Rightarrow> string" where
  "retry_after_text delay cause =
     (case cause of
        Some c \<Rightarrow> ''protoflow: retry after '' @ dur_text delay @ '': '' @ c
      | None \<Rightarrow> ''protoflow: retry after '' @ dur_text delay)"

definition dead_letter_text :: "string \<Rightarrow> string option \<Rightarrow> string" where
  "dead_letter_text reason cause =
     (case cause of
        Some c \<Rightarrow> ''protoflow: dead letter ('' @ reason @ ''): '' @ c
      | None \<Rightarrow> ''protoflow: dead letter ('' @ reason @ '')'')"

definition unprocessable_text :: "string \<Rightarrow> string \<Rightarrow> string" where
  "unprocessable_text msg t = ''unprocessable event: '' @ msg @ '' error: '' @ t"

definition config_validation_text :: "string \<Rightarrow> string" where
  "config_validation_text t = ''protoflow: invalid configuration: '' @ t"

fun err_text :: "gerror \<Rightarrow> string" where
  "err_text (Sentinel s) = sentinel_text s"
| "err_text (Plain t) = t"
| "err_text (Wrapped t _) = t"
| "err_text (Joined es) = lines_text (map err_text es)"
| "err_text (RetryAfterError d c) = retry_after_text d (map_option err_text c)"
| "err_text (DeadLetterError r c) = dead_letter_text r (map_option err_text c)"
| "err_text (UnprocessableEventError m e) = unprocessable_text m (err_text e)"
| "err_text (ConfigValidationError e) = config_validation_text (err_text e)"

section \<open>errors.Is and errors.As\<close>

text \<open>What a target of \<open>errors.Is\<close> can be: a sentinel, or a value of one of the two error types.\<close>

datatype target = TSentinel sentinel | TRetryAfter | TDeadLetter

text \<open>The \<open>Is\<close> methods of the two types.\<close>

definition RetryAfterError_Is :: "target \<Rightarrow> bool" where
  "RetryAfterError_Is t \<longleftrightarrow> t = TSentinel ErrRetry \<or> t = TRetryAfter"

definition DeadLetterError_Is :: "target \<Rightarrow> bool" where
  "DeadLetterError_Is t \<longleftrightarrow> t = TSentinel ErrDeadLetter \<or> t = TDeadLetter"

text \<open>The \<open>Unwrap\<close> methods: the errors directly below one.\<close>

fun unwrap :: "gerror \<Rightarrow> gerror list" where
  "unwrap (Wrapped _ e) = [e]"
| "unwrap (Joined es) = es"
| "unwrap (RetryAfterError _ c) = (case c of None \<Rightarrow> [] | Some e \<Rightarrow> [e])"
| "unwrap (DeadLetterError _ c) = (case c of None \<Rightarrow> [] | Some e \<Rightarrow> [e])"
| "unwrap (ConfigValidationError e) = [e]"
| "unwrap _ = []"

lemma size_in_list: "x \<in> set xs \<Longrightarrow> size x < Suc (size_list size xs)"
  by (induction xs) auto

lemma unwrap_size: "e' \<in> set (unwrap e) \<Longrightarrow> size e' < size e"
  by (cases e) (auto split: option.splits simp: size_in_list)

definition matches :: "gerror \<Rightarrow> target \<Rightarrow> bool" where
  "matches e t =
     (case e of
        Sentinel s \<Rightarrow> t = TSentinel s
      | RetryAfterError _ _ \<Rightarrow> RetryAfterError_Is t
      | DeadLetterError _ _ \<Rightarrow> DeadLetterError_Is t
      | _ \<Rightarrow> False)"

function errors_is :: "gerror \<Rightarrow> target \<Rightarrow> bool" where
  "errors_is e t = (matches e t \<or> list_ex (\<lambda>e'. errors_is e' t) (unwrap e))"
  by pat_completeness auto
termination
  by (relation "measure (\<lambda>(e, t). size e)") (auto dest: unwrap_size)

declare errors_is.simps [simp del]

text \<open>\<open>errors.As(err, &retryAfter)\<close>: the first \<open>*RetryAfterError\<close> of a depth-first walk.\<close>

definition first_some :: "'a option list \<Rightarrow> 'a option" where
  "first_some xs = (case filter (\<lambda>x. x \<noteq> None) xs of [] \<Rightarrow> None | x # _ \<Rightarrow> x)"

lemma first_some_simps [simp]:
  "first_some [] = None" "first_some (None # xs) = first_some xs" "first_some (Some x # xs) = Some x"
  by (simp_all add: first_some_def)

function errors_as_retry_after :: "gerror \<Rightarrow> (duration \<times> gerror option) option" where
  "errors_as_retry_after e =
     (case e of
        RetryAfterError d c \<Rightarrow> Some (d, c)
      | _ \<Rightarrow> first_some (map errors_as_retry_after (unwrap e)))"
  by pat_completeness auto
termination
  by (relation "measure size") (auto dest: unwrap_size simp: size_in_list split: option.splits)

declare errors_as_retry_after.simps [simp del]

section \<open>Classification\<close>

datatype HandlerResult = ResultAck | ResultRetry | ResultRetryAfter | ResultDeadLetter | ResultSkip

definition ClassifyError :: "gerror option \<Rightarrow> HandlerResult \<times> duration" where
  "ClassifyError err =
     (case err of
        None \<Rightarrow> (ResultAck, 0)
      | Some e \<Rightarrow>
          (case errors_as_retry_after e of
             Some (delay, _) \<Rightarrow> (ResultRetryAfter, delay)
           | None \<Rightarrow>
               if errors_is e (TSentinel ErrDeadLetter) then (ResultDeadLetter, 0)
               else if errors_is e (TSentinel ErrSkip) then (ResultSkip, 0)
               else if errors_is e (TSentinel ErrUnprocessable) then (ResultDeadLetter, 0)
               else if errors_is e (TSentinel ErrRetry) then (ResultRetry, 0)
               else (ResultRetry, 0)))"

definition IsRetryable :: "gerror option \<Rightarrow> bool" where
  "IsRetryable err =
     (case err of
        None \<Rightarrow> False
      | Some _ \<Rightarrow> (let result = fst (ClassifyError err) in result = ResultRetry \<or> result = ResultRetryAfter))"

definition ShouldDeadLetter :: "gerror option \<Rightarrow> bool" where
  "ShouldDeadLetter err =
     (case err of None \<Rightarrow> False | Some _ \<Rightarrow> fst (ClassifyError err) = ResultDeadLetter)"

section \<open>What the walks find\<close>

text \<open>The errors of a tree in the order of a depth-first walk.\<close>

function nodes :: "gerror \<Rightarrow> gerror list" where
  "nodes e = e # concat (map nodes (unwrap e))"
  by pat_completeness auto
termination
  by (relation "measure size") (auto dest: unwrap_size)

declare nodes.simps [simp del]

lemma errors_is_nodes: "errors_is e t \<longleftrightarrow> (\<exists>n \<in> set (nodes e). matches n t)"
proof (induction e t rule: errors_is.induct)
  case (1 e t)
  then show ?case
    by (subst errors_is.simps, subst nodes.simps) (auto simp: list_ex_iff)
qed

definition retry_after_of :: "gerror \<Rightarrow> (duration \<times> gerror option) option" where
  "retry_after_of e = (case e of RetryAfterError d c \<Rightarrow> Some (d, c) | _ \<Rightarrow> None)"

lemma first_some_append:
  "first_some (xs @ ys) = (case first_some xs of None \<Rightarrow> first_some ys | Some x \<Rightarrow> Some x)"
proof (induction xs)
  case Nil
  then show ?case by simp
next
  case (Cons x xs)
  then show ?case by (cases x) auto
qed

lemma first_some_concat:
  "first_some (concat xss) = first_some (map first_some xss)"
proof (induction xss)
  case Nil
  then show ?case by simp
next
  case (Cons xs xss)
  then show ?case by (cases "first_some xs") (auto simp: first_some_append)
qed

lemma errors_as_nodes: "errors_as_retry_after e = first_some (map retry_after_of (nodes e))"
proof (induction e rule: errors_as_retry_after.induct)
  case (1 e)
  show ?case
  proof (cases "retry_after_of e")
    case None
    then have ne: "e \<noteq> RetryAfterError d c" for d c
      by (auto simp: retry_after_of_def)
    then have "errors_as_retry_after e = first_some (map errors_as_retry_after (unwrap e))"
      by (subst errors_as_retry_after.simps) (auto split: gerror.splits)
    also have "map errors_as_retry_after (unwrap e) = map (\<lambda>x. first_some (map retry_after_of (nodes x))) (unwrap e)"
      using 1 ne by (cases e) auto
    also have "first_some \<dots> = first_some (map retry_after_of (nodes e))"
      by (subst (2) nodes.simps) (simp add: None map_concat first_some_concat comp_def)
    finally show ?thesis .
  next
    case (Some dc)
    then show ?thesis
      by (subst errors_as_retry_after.simps, subst nodes.simps)
        (auto simp: retry_after_of_def split: gerror.splits)
  qed
qed

lemma first_some_None_iff: "first_some xs = None \<longleftrightarrow> (\<forall>x \<in> set xs. x = None)"
  by (induction xs) (auto simp: first_some_def)

lemma nodes_Wrapped: "nodes (Wrapped t e) = Wrapped t e # nodes e"
  by (subst nodes.simps) simp

text \<open>The decision the documentation of the package lists, over the errors found in the tree.\<close>

definition requests :: "gerror \<Rightarrow> sentinel \<Rightarrow> bool" where
  "requests e s \<longleftrightarrow>
     Sentinel s \<in> set (nodes e)
     \<or> (s = ErrDeadLetter \<and> (\<exists>r c. DeadLetterError r c \<in> set (nodes e)))
     \<or> (s = ErrRetry \<and> (\<exists>d c. RetryAfterError d c \<in> set (nodes e)))"

lemma matches_sentinel:
  "matches n (TSentinel s) \<longleftrightarrow> n = Sentinel s \<or> (s = ErrDeadLetter \<and> (\<exists>r c. n = DeadLetterError r c))
     \<or> (s = ErrRetry \<and> (\<exists>d c. n = RetryAfterError d c))"
  by (cases n) (auto simp: matches_def RetryAfterError_Is_def DeadLetterError_Is_def)

lemma errors_is_requests: "errors_is e (TSentinel s) \<longleftrightarrow> requests e s"
  unfolding errors_is_nodes requests_def matches_sentinel by blast

lemma retry_after_of_None: "retry_after_of n = None \<longleftrightarrow> (\<forall>d c. n \<noteq> RetryAfterError d c)"
  by (cases n) (auto simp: retry_after_of_def)

lemma errors_as_None: "errors_as_retry_after e = None \<longleftrightarrow> (\<forall>d c. RetryAfterError d c \<notin> set (nodes e))"
  by (auto simp: errors_as_nodes first_some_None_iff retry_after_of_None)

text \<open>
  C11. \<open>ClassifyError\<close> is a total decision by the errors that occur anywhere in the chain of the
  handler's error: a retry-after error wins over everything else (and supplies the delay), then
  a dead-letter request, then a skip, then an unprocessable mark (dead letter), and every
  other error is retried; only the nil error acknowledges.
\<close>

theorem classify_decision:
  "ClassifyError None = (ResultAck, 0)
   \<and> fst (ClassifyError (Some e)) =
      (if \<exists>d c. RetryAfterError d c \<in> set (nodes e) then ResultRetryAfter
       else if requests e ErrDeadLetter then ResultDeadLetter
       else if requests e ErrSkip then ResultSkip
       else if requests e ErrUnprocessable then ResultDeadLetter
       else ResultRetry)
   \<and> (fst (ClassifyError (Some e)) \<noteq> ResultRetryAfter \<longrightarrow> snd (ClassifyError (Some e)) = 0)"
  using errors_as_None [of e]
  by (auto simp: ClassifyError_def errors_is_requests split: option.splits)

lemma classify_decision_witness:
  "ClassifyError (Some (Joined [Sentinel ErrSkip, Wrapped ''x'' (DeadLetterError ''bad'' None)])) = (ResultDeadLetter, 0)"
  using classify_decision [of "Joined [Sentinel ErrSkip, Wrapped ''x'' (DeadLetterError ''bad'' None)]"]
  by (simp add: nodes.simps requests_def prod_eq_iff)

text \<open>A chain of \<open>fmt.Errorf("...: %w", err)\<close> around an error.\<close>

fun wrap_all :: "string list \<Rightarrow> gerror \<Rightarrow> gerror" where
  "wrap_all [] e = e"
| "wrap_all (t # ts) e = Wrapped t (wrap_all ts e)"

lemma errors_is_Wrapped: "errors_is (Wrapped t e) x = errors_is e x"
  by (subst errors_is.simps) (simp add: matches_def)

lemma errors_as_Wrapped: "errors_as_retry_after (Wrapped t e) = errors_as_retry_after e"
  by (subst errors_as_retry_after.simps) (cases "errors_as_retry_after e"; simp)

lemma classify_Wrapped: "ClassifyError (Some (Wrapped t e)) = ClassifyError (Some e)"
  by (simp add: ClassifyError_def errors_is_Wrapped errors_as_Wrapped)

text \<open>
  Wrapping a handler error with \<open>fmt.Errorf("...: %w", err)\<close>, however often, never changes
  what happens to the message: result and delay stay those of the wrapped error.
\<close>

theorem classify_wrap_all: "ClassifyError (Some (wrap_all ts e)) = ClassifyError (Some e)"
  by (induction ts) (simp_all add: classify_Wrapped)

end
