(* ===== verification/Ce_Event.thy ===== *)
theory Ce_Event
  imports Go_Value Ce_Errors
begin

text \<open>
  CloudEvents (\<open>internal/runtime/cloudevents/event.go\<close>): the event record, its builders and
  typed extension getters, validation, the JSON format and cloning.

  \<open>Extensions\<close> is a Go map, so two copies of an event can share it. The record is therefore
  polymorphic in what stands for that map: \<open>event\<close> holds the map itself (None: nil) and is what
  the value-level operations use; \<open>event_ref\<close> holds the address of a map in a store and is what
  the section on sharing uses for \<open>WithExtension\<close> and \<open>Clone\<close>.
\<close>

section \<open>The event\<close>

record 'm event_of =
  SpecVersion :: string
  Type :: string
  Source :: string
  ID :: string
  Time :: gtime
  DataContentType :: "string option"
  DataSchema :: "string option"
  Subject :: "string option"
  Data :: any
  DataBase64 :: "string option"
  Extensions :: "'m option"

type_synonym event = "ext_map event_of"

definition SpecVersionConst :: string where
  "SpecVersionConst = ''1.0''"

definition zero_event :: "'m event_of" where
  "zero_event =
     \<lparr>SpecVersion = [], Type = [], Source = [], ID = [], Time = zero_time, DataContentType = None,
      DataSchema = None, Subject = None, Data = ANil, DataBase64 = None, Extensions = None\<rparr>"

text \<open>\<open>New\<close> and \<open>NewWithID\<close>; the fresh ULID and the clock are arguments.\<close>

definition New :: "string \<Rightarrow> gtime \<Rightarrow> string \<Rightarrow> string \<Rightarrow> any \<Rightarrow> event" where
  "New ulid now eventType source data =
     zero_event
       \<lparr>SpecVersion := SpecVersionConst, Type := eventType, Source := source, ID := ulid,
        Time := now\<lparr>offset := 0\<rparr>, Data := data, Extensions := Some []\<rparr>"

definition NewWithID :: "string \<Rightarrow> gtime \<Rightarrow> string \<Rightarrow> string \<Rightarrow> string \<Rightarrow> any \<Rightarrow> event" where
  "NewWithID ulid now eid eventType source data = (New ulid now eventType source data)\<lparr>ID := eid\<rparr>"

definition WithSubject :: "'m event_of \<Rightarrow> string \<Rightarrow> 'm event_of" where
  "WithSubject e subject = e\<lparr>Subject := Some subject\<rparr>"

definition WithDataContentType :: "'m event_of \<Rightarrow> string \<Rightarrow> 'm event_of" where
  "WithDataContentType e contentType = e\<lparr>DataContentType := Some contentType\<rparr>"

definition WithDataSchema :: "'m event_of \<Rightarrow> string \<Rightarrow> 'm event_of" where
  "WithDataSchema e schema = e\<lparr>DataSchema := Some schema\<rparr>"

text \<open>The map an event's extensions are read from and written to: a nil map reads as empty.\<close>

definition exts :: "event \<Rightarrow> ext_map" where
  "exts e = (case Extensions e of None \<Rightarrow> [] | Some m \<Rightarrow> m)"

definition WithExtension :: "event \<Rightarrow> string \<Rightarrow> any \<Rightarrow> event" where
  "WithExtension e key value = e\<lparr>Extensions := Some (mput key value (exts e))\<rparr>"

section \<open>Typed getters\<close>

definition GetExtension :: "event \<Rightarrow> string \<Rightarrow> any" where
  "GetExtension e key =
     (case Extensions e of
        None \<Rightarrow> ANil
      | Some m \<Rightarrow> (case map_of m key of None \<Rightarrow> ANil | Some v \<Rightarrow> v))"

definition GetExtensionString :: "event \<Rightarrow> string \<Rightarrow> string" where
  "GetExtensionString e key =
     (case GetExtension e key of ANil \<Rightarrow> [] | AStr s \<Rightarrow> s | v \<Rightarrow> fmt_v v)"

definition GetExtensionInt :: "event \<Rightarrow> string \<Rightarrow> int" where
  "GetExtensionInt e key =
     (case GetExtension e key of
        ANil \<Rightarrow> 0
      | AInt n \<Rightarrow> n
      | AInt64 n \<Rightarrow> n
      | AFloat f \<Rightarrow> f64_int64 f
      | ANumber s \<Rightarrow> fst (parse_int s)
      | _ \<Rightarrow> 0)"

definition GetExtensionInt64 :: "event \<Rightarrow> string \<Rightarrow> int" where
  "GetExtensionInt64 e key =
     (case GetExtension e key of
        ANil \<Rightarrow> 0
      | AInt n \<Rightarrow> n
      | AInt64 n \<Rightarrow> n
      | AFloat f \<Rightarrow> f64_int64 f
      | ANumber s \<Rightarrow> fst (parse_int s)
      | _ \<Rightarrow> 0)"

definition GetExtensionBool :: "event \<Rightarrow> string \<Rightarrow> bool" where
  "GetExtensionBool e key = (case GetExtension e key of ABool b \<Rightarrow> b | _ \<Rightarrow> False)"

definition GetExtensionTime :: "event \<Rightarrow> string \<Rightarrow> gtime" where
  "GetExtensionTime e key =
     (case GetExtension e key of
        ANil \<Rightarrow> zero_time
      | ATime t \<Rightarrow> t
      | AStr s \<Rightarrow> (case parse_rfc3339 s of None \<Rightarrow> zero_time | Some t \<Rightarrow> t)
      | AInt64 n \<Rightarrow> utc_time n 0
      | AFloat f \<Rightarrow> utc_time (f64_int64 f) 0
      | ANumber s \<Rightarrow> utc_time (fst (parse_int s)) 0
      | _ \<Rightarrow> zero_time)"

section \<open>Validation\<close>

text \<open>\<open>%q\<close> on valid UTF-8 whose characters from \<open>0x80\<close> on are printable.\<close>

definition quote_char :: "char \<Rightarrow> string" where
  "quote_char c =
     (let n = code c
      in if n = 34 \<or> n = 92 then [CHR 0x5C, c]
         else if n = 7 then [CHR 0x5C, CHR ''a'']
         else if n = 8 then [CHR 0x5C, CHR ''b'']
         else if n = 9 then [CHR 0x5C, CHR ''t'']
         else if n = 10 then [CHR 0x5C, CHR ''n'']
         else if n = 11 then [CHR 0x5C, CHR ''v'']
         else if n = 12 then [CHR 0x5C, CHR ''f'']
         else if n = 13 then [CHR 0x5C, CHR ''r'']
         else if n < 32 \<or> n = 127 then [CHR 0x5C, CHR ''x'', hexd (n div 16), hexd (n mod 16)]
         else [c])"

definition quoted :: "string \<Rightarrow> string" where
  "quoted s = CHR 0x22 # concat (map quote_char s) @ [CHR 0x22]"

definition Validate :: "'m event_of \<Rightarrow> gerror option" where
  "Validate e =
     (if SpecVersion e = [] then Some (Plain ''specversion is required'')
      else if SpecVersion e \<noteq> SpecVersionConst
      then Some (Plain (''specversion must be '' @ quoted SpecVersionConst @ '', got '' @ quoted (SpecVersion e)))
      else if Type e = [] then Some (Plain ''type is required'')
      else if Source e = [] then Some (Plain ''source is required'')
      else if ID e = [] then Some (Plain ''id is required'')
      else None)"

section \<open>The JSON format\<close>

definition attr :: "string \<Rightarrow> ('a \<Rightarrow> any) \<Rightarrow> 'a option \<Rightarrow> ext_map \<Rightarrow> ext_map" where
  "attr key f v m = (case v of None \<Rightarrow> m | Some x \<Rightarrow> mput key (f x) m)"

definition event_attrs :: "event \<Rightarrow> ext_map" where
  "event_attrs e =
     (let m = [(''specversion'', AStr (SpecVersion e)), (''type'', AStr (Type e)),
               (''source'', AStr (Source e)), (''id'', AStr (ID e))];
          m = (if is_zero_time (Time e) then m else mput ''time'' (AStr (fmt_rfc3339_nano (Time e))) m);
          m = attr ''datacontenttype'' AStr (DataContentType e) m;
          m = attr ''dataschema'' AStr (DataSchema e) m;
          m = attr ''subject'' AStr (Subject e) m;
          m = (if Data e = ANil then m else mput ''data'' (Data e) m)
      in attr ''data_base64'' AStr (DataBase64 e) m)"

text \<open>\<open>MarshalJSON\<close>: None when the encoder fails on the data or an extension.\<close>

definition MarshalJSON :: "event \<Rightarrow> string option" where
  "MarshalJSON e = map_option json_text (to_json (AMap (mputs (exts e) (event_attrs e))))"

type_synonym raw_map = "(string \<times> json) list"

text \<open>\<open>json.Unmarshal(raw, &s)\<close> into a string: null leaves the string as it is.\<close>

definition json_kind :: "json \<Rightarrow> string" where
  "json_kind j =
     (case j of JNull \<Rightarrow> ''null'' | JBool _ \<Rightarrow> ''bool'' | JNum _ \<Rightarrow> ''number'' | JStr _ \<Rightarrow> ''string''
      | JArr _ \<Rightarrow> ''array'' | JObj _ \<Rightarrow> ''object'')"

definition json_type_error :: "json \<Rightarrow> string \<Rightarrow> gerror" where
  "json_type_error j ty = Plain (''json: cannot unmarshal '' @ json_kind j @ '' into Go value of type '' @ ty)"

definition unmarshal_string :: "string \<Rightarrow> json \<Rightarrow> gerror + string" where
  "unmarshal_string s raw =
     (case raw of JStr t \<Rightarrow> Inr t | JNull \<Rightarrow> Inr s | _ \<Rightarrow> Inl (json_type_error raw ''string''))"

definition wrap_err :: "string \<Rightarrow> gerror \<Rightarrow> gerror" where
  "wrap_err what err = Wrapped (what @ '': '' @ err_text err) err"

text \<open>\<open>if raw, ok := m[key]; ok { ... }\<close> around the decoding of one string attribute.\<close>

definition string_attr ::
  "raw_map \<Rightarrow> string \<Rightarrow> ('m event_of \<Rightarrow> string) \<Rightarrow> (string \<Rightarrow> 'm event_of \<Rightarrow> 'm event_of)
   \<Rightarrow> 'm event_of \<Rightarrow> gerror + 'm event_of" where
  "string_attr m key old set_field e =
     (case map_of m key of
        None \<Rightarrow> Inr e
      | Some raw \<Rightarrow>
          (case unmarshal_string (old e) raw of
             Inl err \<Rightarrow> Inl (wrap_err (''invalid '' @ key) err)
           | Inr v \<Rightarrow> Inr (set_field v e)))"

definition unmarshalRequiredAttrs :: "raw_map \<Rightarrow> 'm event_of \<Rightarrow> gerror + 'm event_of" where
  "unmarshalRequiredAttrs m e =
     sbind (string_attr m ''specversion'' SpecVersion (\<lambda>v e. e\<lparr>SpecVersion := v\<rparr>) e) (\<lambda>e.
     sbind (string_attr m ''type'' Type (\<lambda>v e. e\<lparr>Type := v\<rparr>) e) (\<lambda>e.
     sbind (string_attr m ''source'' Source (\<lambda>v e. e\<lparr>Source := v\<rparr>) e) (\<lambda>e.
     string_attr m ''id'' ID (\<lambda>v e. e\<lparr>ID := v\<rparr>) e)))"

definition time_parse_error :: "string \<Rightarrow> gerror" where
  "time_parse_error s = Plain (''cannot parse '' @ quoted s)"

definition unmarshalTime :: "json \<Rightarrow> 'm event_of \<Rightarrow> gerror + 'm event_of" where
  "unmarshalTime raw e =
     (case unmarshal_string [] raw of
        Inl err \<Rightarrow> Inl (wrap_err ''invalid time'' err)
      | Inr timeStr \<Rightarrow>
          (case parse_rfc3339 timeStr of
             Some t \<Rightarrow> Inr (e\<lparr>Time := t\<rparr>)
           | None \<Rightarrow>
               (case parse_rfc3339 timeStr of
                  Some t \<Rightarrow> Inr (e\<lparr>Time := t\<rparr>)
                | None \<Rightarrow> Inl (wrap_err ''invalid time format'' (time_parse_error timeStr)))))"

definition time_attr :: "raw_map \<Rightarrow> 'm event_of \<Rightarrow> gerror + 'm event_of" where
  "time_attr m e = (case map_of m ''time'' of None \<Rightarrow> Inr e | Some raw \<Rightarrow> unmarshalTime raw e)"

definition data_range_error :: gerror where
  "data_range_error = Plain ''json: cannot unmarshal number into Go value of type float64''"

definition data_attr :: "raw_map \<Rightarrow> 'm event_of \<Rightarrow> gerror + 'm event_of" where
  "data_attr m e =
     (case map_of m ''data'' of
        None \<Rightarrow> Inr e
      | Some raw \<Rightarrow>
          (case of_json raw of
             None \<Rightarrow> Inl (wrap_err ''invalid data'' data_range_error)
           | Some v \<Rightarrow> Inr (e\<lparr>Data := v\<rparr>)))"

definition unmarshalOptionalAttrs :: "raw_map \<Rightarrow> 'm event_of \<Rightarrow> gerror + 'm event_of" where
  "unmarshalOptionalAttrs m e =
     sbind (time_attr m e) (\<lambda>e.
     sbind (string_attr m ''datacontenttype'' (\<lambda>_. []) (\<lambda>v e. e\<lparr>DataContentType := Some v\<rparr>) e) (\<lambda>e.
     sbind (string_attr m ''dataschema'' (\<lambda>_. []) (\<lambda>v e. e\<lparr>DataSchema := Some v\<rparr>) e) (\<lambda>e.
     sbind (string_attr m ''subject'' (\<lambda>_. []) (\<lambda>v e. e\<lparr>Subject := Some v\<rparr>) e) (\<lambda>e.
     sbind (data_attr m e) (\<lambda>e.
     string_attr m ''data_base64'' (\<lambda>_. []) (\<lambda>v e. e\<lparr>DataBase64 := Some v\<rparr>) e)))))"

definition knownCloudEventsAttrs :: "string set" where
  "knownCloudEventsAttrs =
     {''specversion'', ''type'', ''source'', ''id'', ''time'', ''datacontenttype'', ''dataschema'',
      ''subject'', ''data'', ''data_base64''}"

text \<open>An extension whose value does not decode is skipped.\<close>

fun unmarshal_exts :: "raw_map \<Rightarrow> ext_map \<Rightarrow> ext_map" where
  "unmarshal_exts [] acc = acc"
| "unmarshal_exts ((k, raw) # m) acc =
     (if k \<in> knownCloudEventsAttrs then unmarshal_exts m acc
      else case of_json raw of
             None \<Rightarrow> unmarshal_exts m acc
           | Some v \<Rightarrow> unmarshal_exts m (mput k v acc))"

definition unmarshalExtensions :: "raw_map \<Rightarrow> event \<Rightarrow> event" where
  "unmarshalExtensions m e = e\<lparr>Extensions := Some (unmarshal_exts m [])\<rparr>"

definition raw_members :: "string \<Rightarrow> gerror + raw_map" where
  "raw_members data =
     (case json_parse data of
        None \<Rightarrow> Inl (Plain ''invalid JSON'')
      | Some (JObj kvs) \<Rightarrow> Inr (mputs kvs [])
      | Some JNull \<Rightarrow> Inr []
      | Some j \<Rightarrow> Inl (json_type_error j ''map[string]json.RawMessage''))"

text \<open>\<open>UnmarshalJSON\<close> on a receiver; callers drop the receiver on an error.\<close>

definition UnmarshalJSON :: "event \<Rightarrow> string \<Rightarrow> gerror + event" where
  "UnmarshalJSON e data =
     sbind (raw_members data) (\<lambda>m.
     sbind (unmarshalRequiredAttrs m e) (\<lambda>e.
     sbind (unmarshalOptionalAttrs m e) (\<lambda>e.
     Inr (unmarshalExtensions m e))))"

section \<open>What the getters read\<close>

lemma exts_simps [simp]:
  "Extensions e = Some m \<Longrightarrow> exts e = m" "Extensions e = None \<Longrightarrow> exts e = []"
  by (simp_all add: exts_def)

lemma exts_update [simp]: "exts (e\<lparr>Extensions := Some m\<rparr>) = m"
  by simp

lemma GetExtension_exts: "GetExtension e k = (case map_of (exts e) k of None \<Rightarrow> ANil | Some v \<Rightarrow> v)"
  by (cases "Extensions e") (simp_all add: GetExtension_def)

lemma GetExtension_With [ext_simps]:
  "GetExtension (WithExtension e k v) k' = (if k' = k then v else GetExtension e k')"
  by (simp add: GetExtension_exts WithExtension_def)

text \<open>The getters read an event through \<open>GetExtension\<close> only.\<close>

lemma getters_cong:
  assumes "GetExtension e k = GetExtension e' k"
  shows "GetExtensionString e k = GetExtensionString e' k" "GetExtensionInt e k = GetExtensionInt e' k"
    "GetExtensionInt64 e k = GetExtensionInt64 e' k" "GetExtensionBool e k = GetExtensionBool e' k"
    "GetExtensionTime e k = GetExtensionTime e' k"
  using assms by (simp_all add: GetExtensionString_def GetExtensionInt_def GetExtensionInt64_def
      GetExtensionBool_def GetExtensionTime_def)

lemma getters_With_other [ext_simps]:
  assumes "k' \<noteq> k"
  shows "GetExtensionString (WithExtension e k v) k' = GetExtensionString e k'"
    "GetExtensionInt (WithExtension e k v) k' = GetExtensionInt e k'"
    "GetExtensionInt64 (WithExtension e k v) k' = GetExtensionInt64 e k'"
    "GetExtensionBool (WithExtension e k v) k' = GetExtensionBool e k'"
    "GetExtensionTime (WithExtension e k v) k' = GetExtensionTime e k'"
  by (rule getters_cong, simp add: GetExtension_With assms)+

lemma getters_With_same [ext_simps]:
  "GetExtensionString (WithExtension e k (AStr s)) k = s"
  "GetExtensionInt (WithExtension e k (AInt n)) k = n"
  "GetExtensionInt64 (WithExtension e k (AInt64 n)) k = n"
  "GetExtensionBool (WithExtension e k (ABool b)) k = b"
  "GetExtensionTime (WithExtension e k (AStr s)) k = (case parse_rfc3339 s of None \<Rightarrow> zero_time | Some t \<Rightarrow> t)"
  by (simp_all add: GetExtensionString_def GetExtensionInt_def GetExtensionInt64_def
      GetExtensionBool_def GetExtensionTime_def GetExtension_With)

lemma fields_With [ext_simps]:
  "SpecVersion (WithExtension e k v) = SpecVersion e" "Type (WithExtension e k v) = Type e"
  "Source (WithExtension e k v) = Source e" "ID (WithExtension e k v) = ID e"
  "Time (WithExtension e k v) = Time e" "Data (WithExtension e k v) = Data e"
  by (simp_all add: WithExtension_def)

section \<open>Validation decides\<close>

text \<open>
  \<open>Validate\<close> accepts exactly the events with spec version 1.0 and a type, a source and an id;
  what \<open>New\<close> builds from a non-empty type, source and ULID is accepted, and the optional
  attributes and extensions never matter.
\<close>

theorem validate_decision:
  "(Validate (e :: event) = None \<longleftrightarrow>
      SpecVersion e = ''1.0'' \<and> Type e \<noteq> [] \<and> Source e \<noteq> [] \<and> ID e \<noteq> [])
   \<and> (Validate (New u now t s d) = None \<longleftrightarrow> u \<noteq> [] \<and> t \<noteq> [] \<and> s \<noteq> [])
   \<and> Validate (WithExtension (WithSubject e x) k v) = Validate e"
  by (auto simp: Validate_def New_def SpecVersionConst_def WithExtension_def WithSubject_def)

section \<open>The JSON round trip\<close>

lemma attr_lookup [simp]:
  "map_of (attr key f v m) k = (if k = key \<and> v \<noteq> None then map_option f v else map_of m k)"
  by (cases v) (auto simp: attr_def)

lemma attr_wf [simp]: "wf_map m \<Longrightarrow> wf_map (attr key f v m)"
  by (cases v) (auto simp: attr_def)

lemma wf_event_attrs: "wf_map (event_attrs e)"
  by (simp add: event_attrs_def Let_def)

lemma event_attrs_lookup:
  "map_of (event_attrs e) ''specversion'' = Some (AStr (SpecVersion e))"
  "map_of (event_attrs e) ''type'' = Some (AStr (Type e))"
  "map_of (event_attrs e) ''source'' = Some (AStr (Source e))"
  "map_of (event_attrs e) ''id'' = Some (AStr (ID e))"
  "map_of (event_attrs e) ''time'' =
     (if is_zero_time (Time e) then None else Some (AStr (fmt_rfc3339_nano (Time e))))"
  "map_of (event_attrs e) ''datacontenttype'' = map_option AStr (DataContentType e)"
  "map_of (event_attrs e) ''dataschema'' = map_option AStr (DataSchema e)"
  "map_of (event_attrs e) ''subject'' = map_option AStr (Subject e)"
  "map_of (event_attrs e) ''data'' = (if Data e = ANil then None else Some (Data e))"
  "map_of (event_attrs e) ''data_base64'' = map_option AStr (DataBase64 e)"
  by (simp_all add: event_attrs_def Let_def del: update.simps)

lemma event_attrs_unknown: "k \<notin> knownCloudEventsAttrs \<Longrightarrow> map_of (event_attrs e) k = None"
  by (simp add: event_attrs_def Let_def knownCloudEventsAttrs_def del: update.simps)

lemma those_members:
  "those (map (\<lambda>kv. map_option (Pair (fst kv)) (f (snd kv))) m) = Some kvs
   \<Longrightarrow> map fst kvs = map fst m \<and> map_of kvs k = Option.bind (map_of m k) f"
proof (induction m arbitrary: kvs)
  case Nil
  then show ?case by simp
next
  case (Cons kv m)
  then show ?case by (cases kv) (auto split: option.splits)
qed

lemma unmarshal_exts_lookup:
  assumes "wf_map m"
  shows "map_of (unmarshal_exts m acc) k =
    (if k \<in> knownCloudEventsAttrs then map_of acc k
     else case map_of m k of
            None \<Rightarrow> map_of acc k
          | Some raw \<Rightarrow> (case of_json raw of None \<Rightarrow> map_of acc k | Some v \<Rightarrow> Some v))"
  using assms
proof (induction m acc rule: unmarshal_exts.induct)
  case (1 acc)
  then show ?case by simp
next
  case (2 k' raw m acc)
  have "map_of m k' = None"
    using "2.prems" by (auto simp: map_of_eq_None_iff)
  with 2 show ?case
    by (cases "k \<in> knownCloudEventsAttrs"; cases "k' \<in> knownCloudEventsAttrs"; cases "of_json raw")
      (auto split: option.split)
qed

text \<open>
  Events that a JSON document can carry: extensions under their own names, and a time with an
  unambiguous text.
\<close>

definition wf_event :: "event \<Rightarrow> bool" where
  "wf_event e \<longleftrightarrow>
     wf_map (exts e) \<and> list_all (\<lambda>k. k \<notin> knownCloudEventsAttrs) (map fst (exts e))
     \<and> wf_any (Data e) \<and> list_all wf_any (map snd (exts e))
     \<and> (if is_zero_time (Time e) then Time e = zero_time else wf_time (Time e))"

text \<open>What a decoder sees of an extension.\<close>

definition json_stable :: "any \<Rightarrow> any option" where
  "json_stable v = Option.bind (to_json v) of_json"

definition event_members :: "event \<Rightarrow> ext_map" where
  "event_members e = mputs (exts e) (event_attrs e)"

lemma wf_members: "wf_map (event_members e)"
  by (simp add: event_members_def wf_event_attrs)

lemma members_lookup:
  assumes "wf_event e"
  shows "map_of (event_members e) k =
    (if k \<in> knownCloudEventsAttrs then map_of (event_attrs e) k else map_of (exts e) k)"
proof -
  have "map_of (event_members e) k = (map_of (event_attrs e) ++ map_of (exts e)) k"
    using assms by (simp add: event_members_def map_of_mputs wf_event_def)
  moreover have "k \<in> knownCloudEventsAttrs \<Longrightarrow> map_of (exts e) k = None"
    using assms by (auto simp: wf_event_def list_all_iff map_of_eq_None_iff)
  ultimately show ?thesis
    using event_attrs_unknown [of k e] by (auto simp: map_add_def split: option.splits)
qed

lemma wf_any_members:
  assumes "wf_event e"
  shows "wf_any (AMap (event_members e))"
proof -
  have "wf_any v" if "map_of (event_members e) k = Some v" for k v
  proof (cases "k \<in> knownCloudEventsAttrs")
    case True
    with that members_lookup [OF assms, of k] have "map_of (event_attrs e) k = Some v" by simp
    with True show ?thesis
      using assms by (auto simp: knownCloudEventsAttrs_def event_attrs_lookup wf_event_def split: if_splits)
  next
    case False
    with that members_lookup [OF assms, of k] have "map_of (exts e) k = Some v" by simp
    then have "v \<in> set (map snd (exts e))" by (force dest: map_of_SomeD)
    then show ?thesis using assms by (auto simp: wf_event_def list_all_iff)
  qed
  then show ?thesis
    using wf_members [of e] by (auto simp: list_all_iff map_of_eq_Some_iff)
qed

text \<open>The members a decoder finds in the text of an event.\<close>

lemma raw_members_marshal:
  assumes "wf_event e" "MarshalJSON e = Some s"
  obtains m where "raw_members s = Inr m" "wf_map m"
    "\<And>k. map_of m k =
       Option.bind (if k \<in> knownCloudEventsAttrs then map_of (event_attrs e) k else map_of (exts e) k) to_json"
proof -
  from assms(2) obtain j where j: "to_json (AMap (event_members e)) = Some j" "s = json_text j"
    by (auto simp: MarshalJSON_def event_members_def)
  then obtain kvs where kvs: "j = JObj (by_key kvs)"
    "those (map (\<lambda>kv. map_option (Pair (fst kv)) (to_json (snd kv))) (event_members e)) = Some kvs"
    by auto
  have "wf_json j" using wf_to_json [OF j(1) wf_any_members [OF assms(1)]] .
  then have p: "json_parse s = Some j" using j(2) json_parse_text by simp
  have wf: "wf_map kvs" using those_members [OF kvs(2)] wf_members [of e] by simp
  show thesis
  proof (rule that)
    show "raw_members s = Inr (mputs (by_key kvs) [])" by (simp add: raw_members_def p kvs(1))
    show "wf_map (mputs (by_key kvs) [])" by simp
    show "map_of (mputs (by_key kvs) []) k =
        Option.bind (if k \<in> knownCloudEventsAttrs then map_of (event_attrs e) k else map_of (exts e) k) to_json" for k
      using those_members [OF kvs(2), of k] members_lookup [OF assms(1), of k] wf
      by (simp add: map_of_mputs)
  qed
qed

lemma string_attr_some:
  "map_of m key = Some (JStr v) \<Longrightarrow> string_attr m key old sf e = Inr (sf v e)"
  "map_of m key = None \<Longrightarrow> string_attr m key old sf e = Inr e"
  by (simp_all add: string_attr_def unmarshal_string_def)

lemma time_attr_marshal:
  assumes "map_of m ''time'' = (if is_zero_time t then None else Some (JStr (fmt_rfc3339_nano t)))"
    "if is_zero_time t then t = zero_time else wf_time t" "Time e = zero_time"
  shows "time_attr m e = Inr (e\<lparr>Time := t\<rparr>)"
  using assms by (auto simp: time_attr_def unmarshalTime_def unmarshal_string_def parse_format_nano split: if_splits)

lemma zero_fields:
  "Time zero_event = zero_time" "DataContentType zero_event = None" "DataSchema zero_event = None"
  "Subject zero_event = None" "Data zero_event = ANil" "DataBase64 zero_event = None"
  by (simp_all add: zero_event_def)

lemma bind_AStr: "Option.bind (map_option AStr v) to_json = map_option JStr v"
  by (cases v) simp_all

lemma attrs_marshal:
  assumes "wf_event e"
    and m: "\<And>k. k \<in> knownCloudEventsAttrs \<Longrightarrow> map_of m k = Option.bind (map_of (event_attrs e) k) to_json"
    and d: "json_stable (Data e) = Some d"
  shows "sbind (unmarshalRequiredAttrs m zero_event) (unmarshalOptionalAttrs m)
    = Inr (e\<lparr>Data := d, Extensions := None\<rparr>)"
proof -
  have t: "if is_zero_time (Time e) then Time e = zero_time else wf_time (Time e)"
    using assms(1) by (simp add: wf_event_def)
  have l: "map_of m ''specversion'' = Some (JStr (SpecVersion e))"
    "map_of m ''type'' = Some (JStr (Type e))" "map_of m ''source'' = Some (JStr (Source e))"
    "map_of m ''id'' = Some (JStr (ID e))"
    "map_of m ''time'' = (if is_zero_time (Time e) then None else Some (JStr (fmt_rfc3339_nano (Time e))))"
    "map_of m ''datacontenttype'' = map_option JStr (DataContentType e)"
    "map_of m ''dataschema'' = map_option JStr (DataSchema e)"
    "map_of m ''subject'' = map_option JStr (Subject e)"
    "map_of m ''data_base64'' = map_option JStr (DataBase64 e)"
    "map_of m ''data'' = (if Data e = ANil then None else to_json (Data e))"
    by (simp_all add: m knownCloudEventsAttrs_def event_attrs_lookup bind_AStr)
  have r: "unmarshalRequiredAttrs m zero_event
      = Inr (zero_event\<lparr>SpecVersion := SpecVersion e, Type := Type e, Source := Source e, ID := ID e\<rparr>)"
    by (simp add: unmarshalRequiredAttrs_def string_attr_some l)
  have da: "data_attr m x = Inr (x\<lparr>Data := d\<rparr>)" if "Data x = ANil" for x :: event
  proof (cases "Data e = ANil")
    case True
    then have "d = ANil" using d by (simp add: json_stable_def)
    with True that show ?thesis by (simp add: data_attr_def l)
  next
    case False
    with d show ?thesis by (auto simp: data_attr_def l json_stable_def bind_eq_Some_conv)
  qed
  have f: "string_attr m ''datacontenttype'' old (\<lambda>v e. e\<lparr>DataContentType := Some v\<rparr>) x
        = Inr (x\<lparr>DataContentType := DataContentType e\<rparr>)" if "DataContentType x = None" for x :: event and old
    using that by (cases "DataContentType e"; cases x) (simp_all add: string_attr_some l)
  have g: "string_attr m ''dataschema'' old (\<lambda>v e. e\<lparr>DataSchema := Some v\<rparr>) x
        = Inr (x\<lparr>DataSchema := DataSchema e\<rparr>)" if "DataSchema x = None" for x :: event and old
    using that by (cases "DataSchema e"; cases x) (simp_all add: string_attr_some l)
  have h: "string_attr m ''subject'' old (\<lambda>v e. e\<lparr>Subject := Some v\<rparr>) x
        = Inr (x\<lparr>Subject := Subject e\<rparr>)" if "Subject x = None" for x :: event and old
    using that by (cases "Subject e"; cases x) (simp_all add: string_attr_some l)
  have b: "string_attr m ''data_base64'' old (\<lambda>v e. e\<lparr>DataBase64 := Some v\<rparr>) x
        = Inr (x\<lparr>DataBase64 := DataBase64 e\<rparr>)" if "DataBase64 x = None" for x :: event and old
    using that by (cases "DataBase64 e"; cases x) (simp_all add: string_attr_some l)
  have ta: "time_attr m x = Inr (x\<lparr>Time := Time e\<rparr>)" if "Time x = zero_time" for x :: event
    by (rule time_attr_marshal [OF l(5) t that])
  show ?thesis
    by (simp add: r unmarshalOptionalAttrs_def ta f g h b da zero_fields) (cases e, simp add: zero_event_def)
qed

lemma event_roundtrip:
  assumes "wf_event e" "MarshalJSON e = Some s" "json_stable (Data e) = Some d"
  shows "\<exists>m. UnmarshalJSON zero_event s = Inr (e\<lparr>Data := d, Extensions := Some m\<rparr>)
      \<and> (\<forall>k. map_of m k = Option.bind (map_of (exts e) k) json_stable)"
proof -
  obtain raw where raw: "raw_members s = Inr raw" "wf_map raw"
    "\<And>k. map_of raw k =
       Option.bind (if k \<in> knownCloudEventsAttrs then map_of (event_attrs e) k else map_of (exts e) k) to_json"
    using raw_members_marshal [OF assms(1,2)] by blast
  have "sbind (unmarshalRequiredAttrs raw zero_event) (unmarshalOptionalAttrs raw)
      = Inr (e\<lparr>Data := d, Extensions := None\<rparr>)"
    using attrs_marshal [OF assms(1) _ assms(3), of raw] raw(3) by simp
  then obtain x where x: "unmarshalRequiredAttrs raw zero_event = Inr x"
    "unmarshalOptionalAttrs raw x = Inr (e\<lparr>Data := d, Extensions := None\<rparr>)"
    by (auto simp: sbind_Inr)
  have "UnmarshalJSON zero_event s = Inr (e\<lparr>Data := d, Extensions := Some (unmarshal_exts raw [])\<rparr>)"
    by (simp add: UnmarshalJSON_def raw(1) x unmarshalExtensions_def)
  moreover have "map_of (unmarshal_exts raw []) k = Option.bind (map_of (exts e) k) json_stable" for k
  proof (cases "k \<in> knownCloudEventsAttrs")
    case True
    then have "map_of (exts e) k = None"
      using assms(1) by (auto simp: wf_event_def list_all_iff map_of_eq_None_iff)
    with True show ?thesis by (simp add: unmarshal_exts_lookup [OF raw(2)])
  next
    case False
    with raw(3) [of k] show ?thesis
      by (cases "map_of (exts e) k")
        (auto simp: unmarshal_exts_lookup [OF raw(2)] json_stable_def split: option.splits)
  qed
  ultimately show ?thesis by blast
qed

text \<open>
  C12. JSON round trip. An event that \<open>MarshalJSON\<close> writes is read back by \<open>UnmarshalJSON\<close>
  attribute for attribute; its data and each of its extensions come back as what a decoder
  makes of their encodings (integers as floats of the same value), no extension is lost
  unless its own encoding does not decode, and none is added.
\<close>

theorem marshal_roundtrip:
  assumes "wf_event e" "MarshalJSON e = Some s" "json_stable (Data e) = Some d"
  shows "\<exists>m. UnmarshalJSON zero_event s = Inr (e\<lparr>Data := d, Extensions := Some m\<rparr>)
      \<and> (\<forall>k. map_of m k = Option.bind (map_of (exts e) k) json_stable)"
  by (rule event_roundtrip [OF assms])

definition sample_event :: event where
  "sample_event =
     (New ''01J'' (utc_time 1700000000 0) ''order.created'' ''/shop'' (AStr ''hi''))
       \<lparr>Subject := Some ''o-7'', Extensions := Some [(''pf_attempt'', AInt 2)]\<rparr>"

lemma marshal_roundtrip_witness:
  "\<exists>s m. MarshalJSON sample_event = Some s
     \<and> UnmarshalJSON zero_event s = Inr (sample_event\<lparr>Data := AStr ''hi'', Extensions := Some m\<rparr>)
     \<and> map_of m ''pf_attempt'' = json_stable (AInt 2)"
proof -
  have wf: "wf_event sample_event" by code_simp
  have "MarshalJSON sample_event \<noteq> None" by code_simp
  then obtain s where s: "MarshalJSON sample_event = Some s" by blast
  have d: "json_stable (Data sample_event) = Some (AStr ''hi'')" by code_simp
  have "map_of (exts sample_event) ''pf_attempt'' = Some (AInt 2)" by code_simp
  with marshal_roundtrip [OF wf s d] s show ?thesis by auto
qed

section \<open>Sharing of the extension map\<close>

text \<open>
  The same operations over a store of maps: an event holds the address of its map, copies of an
  event share it, and \<open>make\<close> allocates a fresh one.
\<close>

type_synonym event_ref = "nat event_of"
type_synonym ext_store = "ext_map list"

definition deref :: "ext_store \<Rightarrow> event_ref \<Rightarrow> event" where
  "deref h e =
     \<lparr>SpecVersion = SpecVersion e, Type = Type e, Source = Source e, ID = ID e, Time = Time e,
      DataContentType = DataContentType e, DataSchema = DataSchema e, Subject = Subject e,
      Data = Data e, DataBase64 = DataBase64 e, Extensions = map_option ((!) h) (Extensions e)\<rparr>"

definition valid_ref :: "ext_store \<Rightarrow> event_ref \<Rightarrow> bool" where
  "valid_ref h e \<longleftrightarrow> (case Extensions e of None \<Rightarrow> True | Some a \<Rightarrow> a < length h \<and> wf_map (h ! a))"

definition WithExtension_ref :: "ext_store \<Rightarrow> event_ref \<Rightarrow> string \<Rightarrow> any \<Rightarrow> ext_store \<times> event_ref" where
  "WithExtension_ref h e key value =
     (case Extensions e of
        None \<Rightarrow> (h @ [mput key value []], e\<lparr>Extensions := Some (length h)\<rparr>)
      | Some a \<Rightarrow> (h[a := mput key value (h ! a)], e))"

definition Clone :: "ext_store \<Rightarrow> event_ref \<Rightarrow> ext_store \<times> event_ref" where
  "Clone h e =
     (case Extensions e of
        None \<Rightarrow> (h, e)
      | Some a \<Rightarrow> (h @ [mputs (h ! a) []], e\<lparr>Extensions := Some (length h)\<rparr>))"

text \<open>
  Sharing. \<open>WithExtension\<close> returns the receiver with the attribute set, and when the receiver
  has a map it is changed too, as is every copy of it; an event with another map is not
  affected. This is the meaning of the value-level \<open>WithExtension\<close>.
\<close>

theorem with_extension_shares:
  assumes "valid_ref h e" "valid_ref h x" "WithExtension_ref h e k v = (h', e')"
  shows "deref h' e' = WithExtension (deref h e) k v
    \<and> deref h' x =
      (if Extensions x = Extensions e \<and> Extensions e \<noteq> None
       then WithExtension (deref h x) k v else deref h x)"
  using assms
  by (auto simp: WithExtension_ref_def deref_def WithExtension_def exts_def valid_ref_def nth_append nth_list_update
      split: option.splits)

lemma with_extension_shares_witness:
  "deref [[(''a'', AInt 1)], [(''a'', AInt 1), (''b'', AInt 2)]] (zero_event\<lparr>Extensions := Some 1\<rparr>)
   = WithExtension (deref [[(''a'', AInt 1)], [(''a'', AInt 1)]] (zero_event\<lparr>Extensions := Some 1\<rparr>)) ''b'' (AInt 2)"
  using with_extension_shares [of "[[(''a'', AInt 1)], [(''a'', AInt 1)]]" "zero_event\<lparr>Extensions := Some 1\<rparr>"
      "zero_event\<lparr>Extensions := Some 0\<rparr>" "''b''" "AInt 2"
      "[[(''a'', AInt 1)], [(''a'', AInt 1), (''b'', AInt 2)]]" "zero_event\<lparr>Extensions := Some 1\<rparr>"]
  by (simp add: valid_ref_def WithExtension_ref_def)

text \<open>
  Isolation. A clone reads the same as its original, and setting an extension on either of
  the two afterwards is not seen through the other.
\<close>

theorem clone_isolates:
  assumes "valid_ref h e" "Clone h e = (h1, c)"
    and "WithExtension_ref h1 c k v = (h2, c')" "WithExtension_ref h1 e k v = (h3, e')"
  shows "deref h1 c = deref h e \<and> deref h2 e = deref h e \<and> deref h3 c = deref h e
    \<and> deref h2 c' = WithExtension (deref h e) k v \<and> deref h3 e' = WithExtension (deref h e) k v"
  using assms
  by (auto simp: Clone_def WithExtension_ref_def deref_def WithExtension_def exts_def valid_ref_def
      nth_append nth_list_update mputs_copy split: option.splits if_splits)

lemma clone_isolates_witness:
  "deref [[(''a'', AInt 1)], [(''a'', AInt 1), (''b'', AInt 2)]] (zero_event\<lparr>Extensions := Some 0\<rparr>)
   = deref [[(''a'', AInt 1)]] (zero_event\<lparr>Extensions := Some 0\<rparr>)"
  using clone_isolates [of "[[(''a'', AInt 1)]]" "zero_event\<lparr>Extensions := Some 0\<rparr>"
      "[[(''a'', AInt 1)], [(''a'', AInt 1)]]" "zero_event\<lparr>Extensions := Some 1\<rparr>" "''b''" "AInt 2"
      "[[(''a'', AInt 1)], [(''a'', AInt 1), (''b'', AInt 2)]]" "zero_event\<lparr>Extensions := Some 1\<rparr>"
      "[[(''a'', AInt 1), (''b'', AInt 2)], [(''a'', AInt 1)]]" "zero_event\<lparr>Extensions := Some 0\<rparr>"]
  by (simp add: valid_ref_def Clone_def WithExtension_ref_def)

end
