(* ===== verification/Ce_Extensions.thy ===== *)
theory Ce_Extensions
  imports Ce_Event
begin

text \<open>
  The protoflow extensions (\<open>internal/runtime/cloudevents/extensions.go\<close>): attempt counters,
  retry times, dead-letter marks, tracing context and delays, all kept in the extension map of
  an event; and the CloudEvents time format (\<open>time.go\<close>). A setter takes an \<open>*Event\<close>: it is a
  function to the event afterwards, and creates the map when it is nil.
\<close>

section \<open>Keys\<close>

definition ExtAttempt :: string where "ExtAttempt = ''pf_attempt''"
definition ExtMaxAttempts :: string where "ExtMaxAttempts = ''pf_max_attempts''"
definition ExtNextAttemptAt :: string where "ExtNextAttemptAt = ''pf_next_attempt_at''"
definition ExtDeadLetter :: string where "ExtDeadLetter = ''pf_dead_letter''"
definition ExtTraceID :: string where "ExtTraceID = ''pf_trace_id''"
definition ExtParentID :: string where "ExtParentID = ''pf_parent_id''"
definition ExtDelayMs :: string where "ExtDelayMs = ''pf_delay_ms''"
definition ExtEventVersion :: string where "ExtEventVersion = ''pf_event_version''"
definition ExtOriginalTopic :: string where "ExtOriginalTopic = ''pf_original_topic''"
definition ExtErrorMessage :: string where "ExtErrorMessage = ''pf_error_message''"
definition ExtCorrelationID :: string where "ExtCorrelationID = ''pf_correlation_id''"

lemmas ext_keys = ExtAttempt_def ExtMaxAttempts_def ExtNextAttemptAt_def ExtDeadLetter_def ExtTraceID_def
  ExtParentID_def ExtDelayMs_def ExtEventVersion_def ExtOriginalTopic_def ExtErrorMessage_def
  ExtCorrelationID_def

definition DefaultMaxAttempts :: int where
  "DefaultMaxAttempts = 3"

section \<open>Attempts\<close>

definition GetAttempt :: "event \<Rightarrow> int" where
  "GetAttempt evt = GetExtensionInt evt ExtAttempt"

definition SetAttempt :: "event \<Rightarrow> int \<Rightarrow> event" where
  "SetAttempt evt n = WithExtension evt ExtAttempt (AInt n)"

definition GetMaxAttempts :: "event \<Rightarrow> int" where
  "GetMaxAttempts evt =
     (let v = GetExtensionInt evt ExtMaxAttempts in if v = 0 then DefaultMaxAttempts else v)"

definition SetMaxAttempts :: "event \<Rightarrow> int \<Rightarrow> event" where
  "SetMaxAttempts evt n = WithExtension evt ExtMaxAttempts (AInt n)"

definition IncrementAttempt :: "event \<Rightarrow> event \<times> int" where
  "IncrementAttempt evt =
     (let current = GetAttempt evt; newAttempt = i64 (current + 1)
      in (SetAttempt evt newAttempt, newAttempt))"

definition ExceedsMaxAttempts :: "event \<Rightarrow> bool" where
  "ExceedsMaxAttempts evt \<longleftrightarrow> GetMaxAttempts evt \<le> GetAttempt evt"

section \<open>Next attempt, dead letter, tracing, delay, version\<close>

definition GetNextAttemptAt :: "event \<Rightarrow> gtime" where
  "GetNextAttemptAt evt = GetExtensionTime evt ExtNextAttemptAt"

definition SetNextAttemptAt :: "event \<Rightarrow> gtime \<Rightarrow> event" where
  "SetNextAttemptAt evt t = WithExtension evt ExtNextAttemptAt (AStr (fmt_rfc3339 t))"

definition SetNextAttemptAfter :: "gtime \<Rightarrow> event \<Rightarrow> duration \<Rightarrow> event" where
  "SetNextAttemptAfter now evt d = SetNextAttemptAt evt (time_add now d)"

definition IsDeadLetter :: "event \<Rightarrow> bool" where
  "IsDeadLetter evt = GetExtensionBool evt ExtDeadLetter"

definition SetDeadLetter :: "event \<Rightarrow> bool \<Rightarrow> event" where
  "SetDeadLetter evt isDead = WithExtension evt ExtDeadLetter (ABool isDead)"

definition GetOriginalTopic :: "event \<Rightarrow> string" where
  "GetOriginalTopic evt = GetExtensionString evt ExtOriginalTopic"

definition SetOriginalTopic :: "event \<Rightarrow> string \<Rightarrow> event" where
  "SetOriginalTopic evt topic = WithExtension evt ExtOriginalTopic (AStr topic)"

definition GetErrorMessage :: "event \<Rightarrow> string" where
  "GetErrorMessage evt = GetExtensionString evt ExtErrorMessage"

definition SetErrorMessage :: "event \<Rightarrow> string \<Rightarrow> event" where
  "SetErrorMessage evt msg = WithExtension evt ExtErrorMessage (AStr msg)"

definition GetTraceID :: "event \<Rightarrow> string" where
  "GetTraceID evt = GetExtensionString evt ExtTraceID"

definition SetTraceID :: "event \<Rightarrow> string \<Rightarrow> event" where
  "SetTraceID evt traceID = WithExtension evt ExtTraceID (AStr traceID)"

definition GetParentID :: "event \<Rightarrow> string" where
  "GetParentID evt = GetExtensionString evt ExtParentID"

definition SetParentID :: "event \<Rightarrow> string \<Rightarrow> event" where
  "SetParentID evt parentID = WithExtension evt ExtParentID (AStr parentID)"

definition GetCorrelationID :: "event \<Rightarrow> string" where
  "GetCorrelationID evt = GetExtensionString evt ExtCorrelationID"

definition SetCorrelationID :: "event \<Rightarrow> string \<Rightarrow> event" where
  "SetCorrelationID evt correlationID = WithExtension evt ExtCorrelationID (AStr correlationID)"

definition GetDelayMs :: "event \<Rightarrow> int" where
  "GetDelayMs evt = GetExtensionInt64 evt ExtDelayMs"

definition SetDelayMs :: "event \<Rightarrow> int \<Rightarrow> event" where
  "SetDelayMs evt delayMs = WithExtension evt ExtDelayMs (AInt64 delayMs)"

definition GetDelay :: "event \<Rightarrow> duration" where
  "GetDelay evt = millis_dur (GetDelayMs evt)"

definition SetDelay :: "event \<Rightarrow> duration \<Rightarrow> event" where
  "SetDelay evt d = SetDelayMs evt (dur_millis d)"

definition GetEventVersion :: "event \<Rightarrow> string" where
  "GetEventVersion evt = GetExtensionString evt ExtEventVersion"

definition SetEventVersion :: "event \<Rightarrow> string \<Rightarrow> event" where
  "SetEventVersion evt version = WithExtension evt ExtEventVersion (AStr version)"

section \<open>Helpers\<close>

definition PrepareForRetry :: "gtime \<Rightarrow> event \<Rightarrow> duration \<Rightarrow> event" where
  "PrepareForRetry now evt delay = SetNextAttemptAfter now (fst (IncrementAttempt evt)) delay"

definition PrepareForDLQ :: "event \<Rightarrow> string \<Rightarrow> gerror option \<Rightarrow> event" where
  "PrepareForDLQ evt originalTopic err =
     (let evt = SetDeadLetter evt True; evt = SetOriginalTopic evt originalTopic
      in case err of None \<Rightarrow> evt | Some x \<Rightarrow> SetErrorMessage evt (err_text x))"

definition DLQTopic :: "string \<Rightarrow> string" where
  "DLQTopic eventType = eventType @ ''.dead''"

definition CopyTracingContext :: "event \<Rightarrow> event \<Rightarrow> event" where
  "CopyTracingContext src dst =
     (let dst = (if GetTraceID src \<noteq> [] then SetTraceID dst (GetTraceID src) else dst);
          dst = (if GetParentID src \<noteq> [] then SetParentID dst (GetParentID src) else dst)
      in if GetCorrelationID src \<noteq> [] then SetCorrelationID dst (GetCorrelationID src) else dst)"

lemmas ext_get_defs = GetAttempt_def GetMaxAttempts_def GetNextAttemptAt_def IsDeadLetter_def
  GetOriginalTopic_def GetErrorMessage_def GetTraceID_def GetParentID_def GetCorrelationID_def
  GetDelayMs_def GetDelay_def GetEventVersion_def

lemmas ext_set_defs = SetAttempt_def SetMaxAttempts_def SetNextAttemptAt_def SetNextAttemptAfter_def
  SetDeadLetter_def SetOriginalTopic_def SetErrorMessage_def SetTraceID_def SetParentID_def
  SetCorrelationID_def SetDelayMs_def SetDelay_def SetEventVersion_def

section \<open>Attempt counting\<close>

definition increments :: "nat \<Rightarrow> event \<Rightarrow> event" where
  "increments n = ((\<lambda>e. fst (IncrementAttempt e)) ^^ n)"

lemma GetAttempt_Increment: "GetAttempt (fst (IncrementAttempt e)) = i64 (GetAttempt e + 1)"
  by (simp add: IncrementAttempt_def Let_def GetAttempt_def SetAttempt_def getters_With_same)

lemma GetMaxAttempts_Increment: "GetMaxAttempts (fst (IncrementAttempt e)) = GetMaxAttempts e"
  by (simp add: IncrementAttempt_def Let_def GetMaxAttempts_def SetAttempt_def ext_keys getters_With_other)

lemma increments_Suc: "increments (Suc n) e = fst (IncrementAttempt (increments n e))"
  by (simp add: increments_def)

lemma GetMaxAttempts_increments: "GetMaxAttempts (increments n e) = GetMaxAttempts e"
  by (induction n) (simp_all add: increments_Suc GetMaxAttempts_Increment, simp add: increments_def)

lemma GetAttempt_increments:
  "GetAttempt e = a \<Longrightarrow> in_i64 a \<Longrightarrow> in_i64 (a + int n) \<Longrightarrow> GetAttempt (increments n e) = a + int n"
proof (induction n)
  case 0
  then show ?case by (simp add: increments_def)
next
  case (Suc n)
  then have "in_i64 (a + int n)" by (auto simp: in_i64_def)
  with Suc show ?case by (simp add: increments_Suc GetAttempt_Increment algebra_simps)
qed

text \<open>
  Attempts. Counting up with \<open>IncrementAttempt\<close> from attempt \<open>a\<close> reaches the limit after exactly
  \<open>max - a\<close> increments and not earlier: \<open>ExceedsMaxAttempts\<close> turns true at the first attempt
  that is not below the limit. A limit that is missing, zero or not a number counts as 3.
\<close>

theorem attempts_reach_limit:
  assumes "0 \<le> GetAttempt e" "GetAttempt e + int n \<le> max_int64"
  shows "ExceedsMaxAttempts (increments n e) \<longleftrightarrow> GetMaxAttempts e - GetAttempt e \<le> int n"
  using assms GetAttempt_increments [OF refl, of e n] GetMaxAttempts_increments [of n e]
  by (auto simp: ExceedsMaxAttempts_def in_i64_def)

lemma attempts_reach_limit_witness:
  "ExceedsMaxAttempts (increments 3 zero_event) \<and> \<not> ExceedsMaxAttempts (increments 2 zero_event)"
  using attempts_reach_limit [of zero_event 3] attempts_reach_limit [of zero_event 2]
  by (simp add: ext_get_defs GetExtensionInt_def GetExtension_def zero_event_def DefaultMaxAttempts_def)

text \<open>The layout \<open>RFC3339\<close> is \<open>RFC3339Nano\<close> of the time without its fraction of a second.\<close>

lemma fmt_rfc3339_whole: "fmt_rfc3339 t = fmt_rfc3339_nano (t\<lparr>nsec := 0\<rparr>)"
proof -
  have "fmt_frac 0 = []" by code_simp
  then show ?thesis by (simp add: fmt_rfc3339_def fmt_rfc3339_nano_def fmt_local_def)
qed

lemma wf_time_whole: "wf_time t \<Longrightarrow> wf_time (t\<lparr>nsec := 0\<rparr>)"
  by (simp add: wf_time_def year_of_def fmt_local_def)

lemma parse_format_whole: "wf_time t \<Longrightarrow> parse_rfc3339 (fmt_rfc3339 t) = Some (t\<lparr>nsec := 0\<rparr>)"
  using parse_format_nano [OF wf_time_whole] by (simp add: fmt_rfc3339_whole)

section \<open>Retry, dead letter, delay\<close>

text \<open>
  \<open>PrepareForRetry\<close> raises the attempt by one and stores when the next attempt is due, to the
  second: \<open>GetNextAttemptAt\<close> reads back the current time plus the delay without its fraction.
  No other extension and no attribute of the event changes.
\<close>

theorem prepare_for_retry:
  assumes "wf_time (time_add now d)"
  shows "GetAttempt (PrepareForRetry now e d) = i64 (GetAttempt e + 1)
    \<and> GetNextAttemptAt (PrepareForRetry now e d) = (time_add now d)\<lparr>nsec := 0\<rparr>
    \<and> (k = ExtAttempt \<or> k = ExtNextAttemptAt \<or> GetExtension (PrepareForRetry now e d) k = GetExtension e k)
    \<and> (PrepareForRetry now e d)\<lparr>Extensions := None\<rparr> = e\<lparr>Extensions := None\<rparr>"
proof -
  have "ExtAttempt \<noteq> ExtNextAttemptAt" by (simp add: ext_keys)
  then show ?thesis
    using GetAttempt_Increment [of e]
    by (auto simp: PrepareForRetry_def ext_get_defs ext_set_defs IncrementAttempt_def Let_def ext_simps
        parse_format_whole [OF assms]) (simp add: WithExtension_def)
qed

lemma prepare_for_retry_witness:
  "GetNextAttemptAt (PrepareForRetry (utc_time 1700000000 250000000) zero_event 90000000000)
   = utc_time 1700000090 0"
proof -
  have "wf_time (time_add (utc_time 1700000000 250000000) 90000000000)" by code_simp
  from prepare_for_retry [OF this, of zero_event] show ?thesis
    by (simp add: time_add_def utc_time_def)
qed

text \<open>
  \<open>PrepareForDLQ\<close> marks the event dead, stores the topic and, when there is an error, its
  text; without an error an earlier message stays. All other extensions, the attempt counters
  and the tracing context among them, and all attributes are kept.
\<close>

theorem prepare_for_dlq:
  "IsDeadLetter (PrepareForDLQ e t err) \<and> GetOriginalTopic (PrepareForDLQ e t err) = t
   \<and> GetErrorMessage (PrepareForDLQ e t err) =
       (case err of None \<Rightarrow> GetErrorMessage e | Some x \<Rightarrow> err_text x)
   \<and> (k \<in> {ExtDeadLetter, ExtOriginalTopic, ExtErrorMessage}
      \<or> GetExtension (PrepareForDLQ e t err) k = GetExtension e k)
   \<and> (PrepareForDLQ e t err)\<lparr>Extensions := None\<rparr> = e\<lparr>Extensions := None\<rparr>"
proof -
  have k: "ExtDeadLetter \<noteq> ExtOriginalTopic" "ExtDeadLetter \<noteq> ExtErrorMessage" "ExtOriginalTopic \<noteq> ExtErrorMessage"
    by (simp_all add: ext_keys)
  have w: "(WithExtension x k v)\<lparr>Extensions := None\<rparr> = x\<lparr>Extensions := None\<rparr>" for x k v
    by (simp add: WithExtension_def)
  show ?thesis
    using k k [symmetric]
    by (cases err) (auto simp: PrepareForDLQ_def ext_get_defs ext_set_defs Let_def ext_simps w)
qed

lemma prepare_for_dlq_witness:
  "GetErrorMessage (PrepareForDLQ zero_event ''orders'' (Some (Sentinel ErrSkip))) = ''protoflow: skip message''"
  using prepare_for_dlq [of zero_event "''orders''" "Some (Sentinel ErrSkip)" "''x''"]
  by (simp add: sentinel_text_def ce_sentinel_text_def)

lemma abs_quot_mult:
  assumes "0 < b"
  shows "\<bar>quot a b * b\<bar> \<le> \<bar>a\<bar>"
proof -
  have "0 \<le> \<bar>a\<bar> mod b" using assms by simp
  moreover have "\<bar>a\<bar> div b * b = \<bar>a\<bar> - \<bar>a\<bar> mod b" by (simp add: minus_mod_eq_div_mult)
  moreover have "0 \<le> \<bar>a\<bar> div b" using assms by (simp add: pos_imp_zdiv_nonneg_iff)
  ultimately show ?thesis using assms by (simp add: quot_def abs_mult abs_sgn_eq)
qed

lemma quot_error:
  assumes "0 < b"
  shows "\<bar>quot a b * b - a\<bar> < b"
proof -
  have "quot a b * b - a = - sgn a * (\<bar>a\<bar> mod b)"
    using assms by (simp add: quot_def minus_mod_eq_div_mult [symmetric] mult.assoc right_diff_distrib sgn_mult_abs)
  then have "\<bar>quot a b * b - a\<bar> \<le> \<bar>a\<bar> mod b"
    using assms by (simp add: abs_mult abs_sgn_eq)
  also have "\<dots> < b" using assms by simp
  finally show ?thesis .
qed

lemma GetDelayMs_Set: "GetDelayMs (SetDelayMs e n) = n"
  by (simp add: GetDelayMs_def SetDelayMs_def ext_simps)

text \<open>
  \<open>SetDelay\<close> keeps whole milliseconds: \<open>GetDelay\<close> returns the delay rounded towards zero to a
  millisecond, never wraps around, and is exact for whole milliseconds.
\<close>

theorem delay_whole_millis:
  assumes "in_i64 d"
  shows "GetDelay (SetDelay e d) = quot d millisecond * millisecond
    \<and> \<bar>GetDelay (SetDelay e d) - d\<bar> < millisecond
    \<and> GetDelayMs (SetDelay e d) = quot d millisecond"
proof -
  have "in_i64 (quot d millisecond * millisecond)"
    using abs_quot_mult [of millisecond d] assms
    by (cases "d = min_int64") (auto simp: in_i64_def quot_def)
  moreover have "\<bar>quot d millisecond * millisecond - d\<bar> < millisecond"
    by (rule quot_error) simp
  ultimately show ?thesis
    by (simp add: GetDelay_def SetDelay_def millis_dur_def dur_millis_def GetDelayMs_Set)
qed

lemma delay_whole_millis_witness:
  "GetDelay (SetDelay zero_event 1500000001) = 1500000000"
  using delay_whole_millis [of 1500000001 zero_event] by (simp add: in_i64_def quot_def)

lemma wf_event_With:
  assumes "wf_event e" "k \<notin> knownCloudEventsAttrs" "wf_any v"
  shows "wf_event (WithExtension e k v)"
proof -
  have s: "set (mput k v m) \<subseteq> insert (k, v) (set m)" for m :: ext_map
    by (induction m) auto
  show ?thesis
    using assms s [of "exts e"] by (auto simp: wf_event_def WithExtension_def list_all_iff)
qed

lemma json_stable_int:
  assumes "\<bar>n\<bar> \<le> 2 ^ 53"
  shows "json_stable (AInt n) = Some (AFloat (Fin (of_int n)))"
    "json_stable (AInt64 n) = Some (AFloat (Fin (of_int n)))"
  using of_json_int [OF assms] by (simp_all add: json_stable_def del: of_json.simps)

text \<open>
  Attempt counters survive the wire: an event sent with attempt number \<open>n\<close> (up to 53 bits)
  and a delay of \<open>ms\<close> milliseconds is received with the same id, attempt and delay, although
  the decoder turns the integers into floats.
\<close>

theorem counters_survive_json:
  assumes "wf_event e" "json_stable (Data e) = Some d" "\<bar>n\<bar> \<le> 2 ^ 53" "\<bar>ms\<bar> \<le> 2 ^ 53"
    "MarshalJSON (SetDelayMs (SetAttempt e n) ms) = Some s"
  shows "\<exists>e'. UnmarshalJSON zero_event s = Inr e' \<and> ID e' = ID e \<and> GetAttempt e' = n \<and> GetDelayMs e' = ms"
proof -
  let ?x = "SetDelayMs (SetAttempt e n) ms"
  have "wf_event ?x"
    using assms(1) by (simp add: SetDelayMs_def SetAttempt_def wf_event_With ext_keys knownCloudEventsAttrs_def)
  moreover have "json_stable (Data ?x) = Some d"
    using assms(2) by (simp add: SetDelayMs_def SetAttempt_def ext_simps)
  ultimately obtain m where m: "UnmarshalJSON zero_event s = Inr (?x\<lparr>Data := d, Extensions := Some m\<rparr>)"
    "\<And>k. map_of m k = Option.bind (map_of (exts ?x) k) json_stable"
    using event_roundtrip assms(5) by blast
  have "map_of (exts ?x) ExtAttempt = Some (AInt n)" "map_of (exts ?x) ExtDelayMs = Some (AInt64 ms)"
    by (simp_all add: SetDelayMs_def SetAttempt_def WithExtension_def ext_keys)
  then have l: "map_of m ExtAttempt = Some (AFloat (Fin (of_int n)))"
    "map_of m ExtDelayMs = Some (AFloat (Fin (of_int ms)))"
    using m(2) json_stable_int assms(3,4) by simp_all
  have "in_i64 n" "in_i64 ms" using assms(3,4) by (auto simp: in_i64_def)
  with l have "GetAttempt (?x\<lparr>Data := d, Extensions := Some m\<rparr>) = n \<and> GetDelayMs (?x\<lparr>Data := d, Extensions := Some m\<rparr>) = ms"
    by (simp add: GetAttempt_def GetDelayMs_def GetExtensionInt_def GetExtensionInt64_def GetExtension_def del: f64_int64.simps)
  moreover have "ID ?x = ID e" by (simp add: SetDelayMs_def SetAttempt_def ext_simps)
  ultimately show ?thesis using m(1) by simp
qed

lemma counters_survive_json_witness:
  "\<exists>s e'. MarshalJSON (SetDelayMs (SetAttempt sample_event 3) 1500) = Some s
     \<and> UnmarshalJSON zero_event s = Inr e' \<and> GetAttempt e' = 3 \<and> GetDelayMs e' = 1500"
proof -
  have "MarshalJSON (SetDelayMs (SetAttempt sample_event 3) 1500) \<noteq> None" by code_simp
  then obtain s where s: "MarshalJSON (SetDelayMs (SetAttempt sample_event 3) 1500) = Some s" by blast
  have "wf_event sample_event" "json_stable (Data sample_event) = Some (AStr ''hi'')" by code_simp+
  from counters_survive_json [OF this _ _ s] s show ?thesis by auto
qed

section \<open>Tracing\<close>

text \<open>
  \<open>CopyTracingContext\<close> gives the destination the trace, parent and correlation ids of the
  source where the source has them, keeps its own otherwise, and touches nothing else.
\<close>

theorem copy_tracing_context:
  "GetTraceID (CopyTracingContext src dst) = (if GetTraceID src \<noteq> [] then GetTraceID src else GetTraceID dst)
   \<and> GetParentID (CopyTracingContext src dst) = (if GetParentID src \<noteq> [] then GetParentID src else GetParentID dst)
   \<and> GetCorrelationID (CopyTracingContext src dst)
       = (if GetCorrelationID src \<noteq> [] then GetCorrelationID src else GetCorrelationID dst)
   \<and> (k \<in> {ExtTraceID, ExtParentID, ExtCorrelationID}
      \<or> GetExtension (CopyTracingContext src dst) k = GetExtension dst k)"
proof -
  have k: "ExtTraceID \<noteq> ExtParentID" "ExtTraceID \<noteq> ExtCorrelationID" "ExtParentID \<noteq> ExtCorrelationID"
    by (simp_all add: ext_keys)
  show ?thesis
    using k k [symmetric]
    by (simp add: CopyTracingContext_def ext_get_defs ext_set_defs Let_def ext_simps)
qed

section \<open>Times of the CloudEvents format\<close>

text \<open>
  \<open>time.Parse\<close> for a date, a separator and a clock with a zone part: the shape of all layouts that
  \<open>ParseTime\<close> tries, the date alone excepted.
\<close>

definition parse_datetime ::
  "(string \<Rightarrow> string option) \<Rightarrow> (string \<Rightarrow> (int \<times> string) option) \<Rightarrow> string \<Rightarrow> gtime option" where
  "parse_datetime sep zone s =
     Option.bind (num4 s) (\<lambda>(y, s1).
     Option.bind (lit (CHR ''-'') s1) (\<lambda>s2.
     Option.bind (num2 s2) (\<lambda>(mo, s3).
     Option.bind (lit (CHR ''-'') s3) (\<lambda>s4.
     Option.bind (num2 s4) (\<lambda>(d, s5).
     Option.bind (sep s5) (\<lambda>s6.
     Option.bind (num_hour s6) (\<lambda>(h, s7).
     Option.bind (lit (CHR '':'') s7) (\<lambda>s8.
     Option.bind (num2 s8) (\<lambda>(mi, s9).
     Option.bind (lit (CHR '':'') s9) (\<lambda>s10.
     Option.bind (num2 s10) (\<lambda>(se, s11).
       case parse_frac s11 of (n, s12) \<Rightarrow>
     Option.bind (zone s12) (\<lambda>(off, s13).
       if s13 \<noteq> [] \<or> mo < 1 \<or> 12 < mo \<or> d < 1 \<or> days_in mo y < d \<or> 24 \<le> h \<or> 60 \<le> mi \<or> 60 \<le> se then None
       else Some \<lparr>unix = days_of y mo d * 86400 + h * 3600 + mi * 60 + se - off, nsec = n, offset = off\<rparr>))))))))))))"

lemma parse_datetime_rfc3339: "parse_datetime (lit (CHR ''T'')) parse_zone = parse_rfc3339"
  by (rule ext) (simp only: parse_datetime_def parse_rfc3339_def)

definition parse_date :: "string \<Rightarrow> gtime option" where
  "parse_date s =
     Option.bind (num4 s) (\<lambda>(y, s1).
     Option.bind (lit (CHR ''-'') s1) (\<lambda>s2.
     Option.bind (num2 s2) (\<lambda>(mo, s3).
     Option.bind (lit (CHR ''-'') s3) (\<lambda>s4.
     Option.bind (num2 s4) (\<lambda>(d, s5).
       if s5 \<noteq> [] \<or> mo < 1 \<or> 12 < mo \<or> d < 1 \<or> days_in mo y < d then None
       else Some (utc_time (days_of y mo d * 86400) 0))))))"

text \<open>A blank in a layout stands for any number of blanks, none only at the end of the text.\<close>

definition blanks :: "string \<Rightarrow> string option" where
  "blanks s = (if s \<noteq> [] \<and> hd s \<noteq> CHR '' '' then None else Some (dropWhile (\<lambda>c. c = CHR '' '') s))"

definition no_zone :: "string \<Rightarrow> (int \<times> string) option" where
  "no_zone s = Some (0, s)"

definition time_formats :: "(string \<Rightarrow> gtime option) list" where
  "time_formats =
     [parse_datetime (lit (CHR ''T'')) (\<lambda>s. map_option (Pair 0) (lit (CHR ''Z'') s)),
      parse_datetime (lit (CHR ''T'')) no_zone,
      parse_datetime blanks no_zone,
      parse_date]"

text \<open>The quoting of package \<open>time\<close>.\<close>

definition time_quote :: "string \<Rightarrow> string" where
  "time_quote s =
     CHR 0x22 # concat (map (\<lambda>c. if code c < 32 \<or> 128 \<le> code c
        then [CHR 0x5C, CHR ''x'', hexd (code c div 16), hexd (code c mod 16)]
        else if c = CHR 0x22 \<or> c = CHR 0x5C then [CHR 0x5C, c] else [c]) s) @ [CHR 0x22]"

definition ParseTime :: "string \<Rightarrow> gerror + gtime" where
  "ParseTime s =
     (case parse_rfc3339 s of
        Some t \<Rightarrow> Inr t
      | None \<Rightarrow>
          (case parse_rfc3339 s of
             Some t \<Rightarrow> Inr t
           | None \<Rightarrow>
               (case filter (\<lambda>r. r \<noteq> None) (map (\<lambda>format. format s) time_formats) of
                  Some t # _ \<Rightarrow> Inr t
                | _ \<Rightarrow> Inl (Plain (''parsing time '' @ time_quote s @ ''cannot parse as CloudEvents time'')))))"

definition FormatTime :: "gtime \<Rightarrow> string" where
  "FormatTime t = (if is_zero_time t then [] else fmt_rfc3339 (t\<lparr>offset := 0\<rparr>))"

text \<open>
  \<open>ParseTime\<close> reads back what \<open>FormatTime\<close> writes: the same instant to the second, in UTC,
  whatever zone the time was in.
\<close>

theorem parse_format_time:
  assumes "wf_time (t\<lparr>offset := 0\<rparr>)" "\<not> is_zero_time t"
  shows "ParseTime (FormatTime t) = Inr (utc_time (unix t) 0)"
  using parse_format_whole [OF assms(1)] assms(2) by (simp add: ParseTime_def FormatTime_def utc_time_def)

lemma parse_format_time_witness:
  "ParseTime (FormatTime \<lparr>unix = 1700000000, nsec = 7, offset = 7200\<rparr>) = Inr (utc_time 1700000000 0)"
proof -
  have "wf_time (\<lparr>unix = 1700000000, nsec = 7, offset = 7200\<rparr>\<lparr>offset := 0\<rparr>)" by code_simp
  from parse_format_time [OF this] show ?thesis by (simp add: is_zero_time_def)
qed

lemma time_formats_examples:
  "ParseTime ''2024-02-29'' = Inr (utc_time 1709164800 0)"
  "ParseTime ''2024-02-29 01:02:03'' = Inr (utc_time 1709168523 0)"
  by code_simp+

end
