(* ===== verification/Rt_Config.thy ===== *)
theory Rt_Config
  imports Ce_Errors
begin

text \<open>
  The service configuration (\<open>internal/runtime/config/config.go\<close>): the record, whose selectors are
  the code's getters, and its validation. Its printing is in \<open>Rt_Config_Print\<close>.
\<close>

record config =
  PubSubSystem :: string
  KafkaBrokers :: "string list"
  KafkaClientID :: string
  KafkaConsumerGroup :: string
  RabbitMQURL :: string
  NATSURL :: string
  HTTPServerAddress :: string
  HTTPPublisherURL :: string
  IOFile :: string
  SQLiteFile :: string
  PostgresURL :: string
  PoisonQueue :: string
  AWSRegion :: string
  AWSAccountID :: string
  AWSAccessKeyID :: string
  AWSSecretAccessKey :: string
  AWSEndpoint :: string
  RetryMaxRetries :: int
  RetryInitialInterval :: duration
  RetryMaxInterval :: duration
  MetricsEnabled :: bool
  MetricsPort :: int
  WebUIEnabled :: bool
  WebUIPort :: int
  WebUICORSAllowedOrigins :: "string list"

definition zero_config :: config where
  "zero_config =
     \<lparr>PubSubSystem = [], KafkaBrokers = [], KafkaClientID = [], KafkaConsumerGroup = [], RabbitMQURL = [],
      NATSURL = [], HTTPServerAddress = [], HTTPPublisherURL = [], IOFile = [], SQLiteFile = [],
      PostgresURL = [], PoisonQueue = [], AWSRegion = [], AWSAccountID = [], AWSAccessKeyID = [],
      AWSSecretAccessKey = [], AWSEndpoint = [], RetryMaxRetries = 0, RetryInitialInterval = 0,
      RetryMaxInterval = 0, MetricsEnabled = False, MetricsPort = 0, WebUIEnabled = False, WebUIPort = 0,
      WebUICORSAllowedOrigins = []\<rparr>"

text \<open>\<open>strings.ToLower\<close> on ASCII; other bytes are kept.\<close>

definition lower_char :: "char \<Rightarrow> char" where
  "lower_char c = (if 65 \<le> (of_char c :: nat) \<and> (of_char c :: nat) \<le> 90 then char_of (of_char c + 32 :: nat) else c)"

definition to_lower :: "string \<Rightarrow> string" where
  "to_lower s = map lower_char s"

definition validateTransport :: "config \<Rightarrow> gerror list" where
  "validateTransport c =
     (let sys = to_lower (PubSubSystem c)
      in if sys = ''kafka'' then
           (if KafkaBrokers c = [] then [Plain ''kafka: brokers are required''] else [])
         else if sys = ''rabbitmq'' then
           (if RabbitMQURL c = [] then [Plain ''rabbitmq: URL is required''] else [])
         else if sys = ''nats'' then
           (if NATSURL c = [] then [Plain ''nats: URL is required''] else [])
         else if sys = ''aws'' then
           (if AWSRegion c = [] then [Plain ''aws: region is required''] else [])
         else [])"

definition validateRetry :: "config \<Rightarrow> gerror list" where
  "validateRetry c =
     (if RetryMaxRetries c < 0 then [Plain ''retry: max retries cannot be negative''] else [])
     @ (if RetryInitialInterval c < 0 then [Plain ''retry: initial interval cannot be negative''] else [])
     @ (if RetryMaxInterval c < 0 then [Plain ''retry: max interval cannot be negative''] else [])
     @ (if 0 < RetryMaxInterval c \<and> 0 < RetryInitialInterval c \<and> RetryMaxInterval c < RetryInitialInterval c
        then [Plain ''retry: initial interval cannot exceed max interval''] else [])"

definition validatePorts :: "config \<Rightarrow> gerror list" where
  "validatePorts c =
     (if MetricsPort c < 0 \<or> 65535 < MetricsPort c
      then [Plain (''metrics: invalid port '' @ dec_int (MetricsPort c))] else [])
     @ (if WebUIPort c < 0 \<or> 65535 < WebUIPort c
        then [Plain (''webui: invalid port '' @ dec_int (WebUIPort c))] else [])"

text \<open>\<open>errors.Join\<close> of a list without nils: nil when there is nothing to join.\<close>

definition errors_join :: "gerror list \<Rightarrow> gerror option" where
  "errors_join es = (if es = [] then None else Some (Joined es))"

definition Config_Validate :: "config \<Rightarrow> gerror option" where
  "Config_Validate c = errors_join (validateTransport c @ validateRetry c @ validatePorts c)"

definition ValidateConfig :: "config option \<Rightarrow> gerror option" where
  "ValidateConfig c = (case c of None \<Rightarrow> Some (Plain ''config is nil'') | Some c \<Rightarrow> Config_Validate c)"

section \<open>What a valid configuration is\<close>

definition required_setting :: "config \<Rightarrow> bool" where
  "required_setting c \<longleftrightarrow>
     (case to_lower (PubSubSystem c) of
        s \<Rightarrow> (s \<noteq> ''kafka'' \<or> KafkaBrokers c \<noteq> []) \<and> (s \<noteq> ''rabbitmq'' \<or> RabbitMQURL c \<noteq> [])
          \<and> (s \<noteq> ''nats'' \<or> NATSURL c \<noteq> []) \<and> (s \<noteq> ''aws'' \<or> AWSRegion c \<noteq> []))"

text \<open>
  \<open>Validate\<close> accepts exactly the configurations whose transport has its required setting,
  whose retry numbers are not negative and ordered, and whose ports are valid; zero intervals
  and ports are always acceptable, and the transport's name is compared without case.
\<close>

theorem config_validate_decision:
  "ValidateConfig (Some c) = None \<longleftrightarrow>
     required_setting c
     \<and> 0 \<le> RetryMaxRetries c \<and> 0 \<le> RetryInitialInterval c \<and> 0 \<le> RetryMaxInterval c
     \<and> (RetryMaxInterval c = 0 \<or> RetryInitialInterval c \<le> RetryMaxInterval c)
     \<and> 0 \<le> MetricsPort c \<and> MetricsPort c \<le> 65535 \<and> 0 \<le> WebUIPort c \<and> WebUIPort c \<le> 65535"
  by (auto simp: ValidateConfig_def Config_Validate_def errors_join_def validateTransport_def
      validateRetry_def validatePorts_def required_setting_def Let_def)

end
