(* ===== verification/Transport_Registry.thy ===== *)
theory Transport_Registry
  imports Rt_Config Ce_Event
begin

text \<open>
  The transport registry and the capability sets (\<open>transport/registry.go\<close>,
  \<open>transport/capabilities.go\<close>, \<open>transport/transports/transports.go\<close>, the \<open>Register\<close> functions of
  the transport packages and \<open>internal/runtime/transport/factory.go\<close>). The registry's two maps
  are its state; the mutex makes each operation one step. What a builder constructs is a
  parameter: a builder is a function from the configuration to an error or a transport.
\<close>

section \<open>Capabilities\<close>

record capabilities =
  SupportsDelay :: bool
  SupportsNativeDLQ :: bool
  SupportsOrdering :: bool
  SupportsTracing :: bool
  SupportsBatching :: bool
  SupportsAck :: bool
  SupportsNack :: bool
  SupportsPriority :: bool
  SupportsPartitioning :: bool
  MaxMessageSize :: int
  MaxDelayDuration :: int
  Name :: string
  Version :: string

definition zero_capabilities :: capabilities where
  "zero_capabilities =
     \<lparr>SupportsDelay = False, SupportsNativeDLQ = False, SupportsOrdering = False, SupportsTracing = False,
      SupportsBatching = False, SupportsAck = False, SupportsNack = False, SupportsPriority = False,
      SupportsPartitioning = False, MaxMessageSize = 0, MaxDelayDuration = 0, Name = [], Version = []\<rparr>"

definition RequiresDelayEmulation :: "capabilities \<Rightarrow> bool" where
  "RequiresDelayEmulation c \<longleftrightarrow> \<not> SupportsDelay c"

definition RequiresDLQEmulation :: "capabilities \<Rightarrow> bool" where
  "RequiresDLQEmulation c \<longleftrightarrow> \<not> SupportsNativeDLQ c"

definition SupportsReliableDelivery :: "capabilities \<Rightarrow> bool" where
  "SupportsReliableDelivery c \<longleftrightarrow> SupportsAck c \<and> SupportsNack c"

definition ChannelCapabilities :: capabilities where
  "ChannelCapabilities =
     zero_capabilities\<lparr>Name := ''channel'', SupportsOrdering := True, SupportsAck := True, SupportsNack := True\<rparr>"

definition KafkaCapabilities :: capabilities where
  "KafkaCapabilities =
     zero_capabilities\<lparr>Name := ''kafka'', SupportsOrdering := True, SupportsTracing := True,
       SupportsBatching := True, SupportsAck := True, SupportsPartitioning := True, MaxMessageSize := 1048576\<rparr>"

definition RabbitMQCapabilities :: capabilities where
  "RabbitMQCapabilities =
     zero_capabilities\<lparr>Name := ''rabbitmq'', SupportsDelay := True, SupportsNativeDLQ := True,
       SupportsOrdering := True, SupportsTracing := True, SupportsAck := True, SupportsNack := True,
       SupportsPriority := True\<rparr>"

definition NATSCapabilities :: capabilities where
  "NATSCapabilities =
     zero_capabilities\<lparr>Name := ''nats'', SupportsTracing := True, MaxMessageSize := 1048576\<rparr>"

definition NATSJetStreamCapabilities :: capabilities where
  "NATSJetStreamCapabilities =
     zero_capabilities\<lparr>Name := ''nats-jetstream'', SupportsDelay := True, SupportsNativeDLQ := True,
       SupportsOrdering := True, SupportsTracing := True, SupportsBatching := True, SupportsAck := True,
       SupportsNack := True, MaxMessageSize := 1048576\<rparr>"

definition AWSCapabilities :: capabilities where
  "AWSCapabilities =
     zero_capabilities\<lparr>Name := ''aws'', SupportsDelay := True, SupportsNativeDLQ := True,
       SupportsOrdering := True, SupportsTracing := True, SupportsBatching := True, SupportsAck := True,
       SupportsNack := True, MaxMessageSize := 262144, MaxDelayDuration := 900000\<rparr>"

definition SQLiteCapabilities :: capabilities where
  "SQLiteCapabilities =
     zero_capabilities\<lparr>Name := ''sqlite'', SupportsDelay := True, SupportsNativeDLQ := True,
       SupportsOrdering := True, SupportsBatching := True, SupportsAck := True, SupportsNack := True\<rparr>"

definition PostgresCapabilities :: capabilities where
  "PostgresCapabilities =
     zero_capabilities\<lparr>Name := ''postgres'', SupportsDelay := True, SupportsNativeDLQ := True,
       SupportsOrdering := True, SupportsBatching := True, SupportsAck := True, SupportsNack := True,
       SupportsPriority := True\<rparr>"

definition HTTPCapabilities :: capabilities where
  "HTTPCapabilities = zero_capabilities\<lparr>Name := ''http'', SupportsTracing := True\<rparr>"

definition IOCapabilities :: capabilities where
  "IOCapabilities = zero_capabilities\<lparr>Name := ''io'', SupportsOrdering := True\<rparr>"

lemmas capability_sets = ChannelCapabilities_def KafkaCapabilities_def RabbitMQCapabilities_def
  NATSCapabilities_def NATSJetStreamCapabilities_def AWSCapabilities_def SQLiteCapabilities_def
  PostgresCapabilities_def HTTPCapabilities_def IOCapabilities_def zero_capabilities_def

section \<open>The registry\<close>

type_synonym 't builder = "config \<Rightarrow> gerror + 't"

record 't registry =
  builders :: "(string \<times> 't builder) list"
  caps_map :: "(string \<times> capabilities) list"

definition NewRegistry :: "'t registry" where
  "NewRegistry = \<lparr>builders = [], caps_map = []\<rparr>"

definition Register :: "'t registry \<Rightarrow> string \<Rightarrow> 't builder \<Rightarrow> 't registry" where
  "Register r name builder = r\<lparr>builders := mput name builder (builders r)\<rparr>"

definition RegisterWithCapabilities ::
  "'t registry \<Rightarrow> string \<Rightarrow> 't builder \<Rightarrow> capabilities \<Rightarrow> 't registry" where
  "RegisterWithCapabilities r name builder caps =
     r\<lparr>builders := mput name builder (builders r), caps_map := mput name caps (caps_map r)\<rparr>"

definition GetCapabilities :: "'t registry \<Rightarrow> string \<Rightarrow> capabilities" where
  "GetCapabilities r name =
     (case map_of (caps_map r) name of
        Some caps \<Rightarrow> caps
      | None \<Rightarrow> zero_capabilities\<lparr>Name := name\<rparr>)"

definition Names :: "'t registry \<Rightarrow> string list" where
  "Names r = map fst (builders r)"

definition Has :: "'t registry \<Rightarrow> string \<Rightarrow> bool" where
  "Has r name \<longleftrightarrow> map_of (builders r) name \<noteq> None"

definition Registry_Build :: "'t registry \<Rightarrow> config option \<Rightarrow> gerror + 't" where
  "Registry_Build r cfg =
     (case cfg of
        None \<Rightarrow> Inl (Plain ''config is required'')
      | Some c \<Rightarrow>
          (case map_of (builders r) (PubSubSystem c) of
             None \<Rightarrow> Inl (Plain (''unknown transport: '' @ quoted (PubSubSystem c)
                 @ '' (registered: ['' @ spaced (Names r) @ ''])''))
           | Some builder \<Rightarrow> builder c))"

text \<open>
  The \<open>Register\<close> functions of the transport packages. \<open>build\<close> stands for their \<open>Build\<close>
  functions, by package name.
\<close>

definition aws_Register :: "(string \<Rightarrow> 't builder) \<Rightarrow> 't registry \<Rightarrow> 't registry" where
  "aws_Register build r = RegisterWithCapabilities r ''aws'' (build ''aws'') AWSCapabilities"

definition channel_Register :: "(string \<Rightarrow> 't builder) \<Rightarrow> 't registry \<Rightarrow> 't registry" where
  "channel_Register build r = RegisterWithCapabilities r ''channel'' (build ''channel'') ChannelCapabilities"

definition http_Register :: "(string \<Rightarrow> 't builder) \<Rightarrow> 't registry \<Rightarrow> 't registry" where
  "http_Register build r = RegisterWithCapabilities r ''http'' (build ''http'') HTTPCapabilities"

definition io_Register :: "(string \<Rightarrow> 't builder) \<Rightarrow> 't registry \<Rightarrow> 't registry" where
  "io_Register build r = RegisterWithCapabilities r ''io'' (build ''io'') IOCapabilities"

definition jetstream_Register :: "(string \<Rightarrow> 't builder) \<Rightarrow> 't registry \<Rightarrow> 't registry" where
  "jetstream_Register build r =
     RegisterWithCapabilities r ''nats-jetstream'' (build ''jetstream'') NATSJetStreamCapabilities"

definition kafka_Register :: "(string \<Rightarrow> 't builder) \<Rightarrow> 't registry \<Rightarrow> 't registry" where
  "kafka_Register build r = RegisterWithCapabilities r ''kafka'' (build ''kafka'') KafkaCapabilities"

definition nats_Register :: "(string \<Rightarrow> 't builder) \<Rightarrow> 't registry \<Rightarrow> 't registry" where
  "nats_Register build r = RegisterWithCapabilities r ''nats'' (build ''nats'') NATSCapabilities"

definition postgres_Register :: "(string \<Rightarrow> 't builder) \<Rightarrow> 't registry \<Rightarrow> 't registry" where
  "postgres_Register build r =
     (let r = RegisterWithCapabilities r ''postgres'' (build ''postgres'') PostgresCapabilities
      in RegisterWithCapabilities r ''postgresql'' (build ''postgres'') PostgresCapabilities)"

definition rabbitmq_Register :: "(string \<Rightarrow> 't builder) \<Rightarrow> 't registry \<Rightarrow> 't registry" where
  "rabbitmq_Register build r = RegisterWithCapabilities r ''rabbitmq'' (build ''rabbitmq'') RabbitMQCapabilities"

definition sqlite_Register :: "(string \<Rightarrow> 't builder) \<Rightarrow> 't registry \<Rightarrow> 't registry" where
  "sqlite_Register build r = RegisterWithCapabilities r ''sqlite'' (build ''sqlite'') SQLiteCapabilities"

lemmas register_defs = aws_Register_def channel_Register_def http_Register_def io_Register_def
  jetstream_Register_def kafka_Register_def nats_Register_def postgres_Register_def
  rabbitmq_Register_def sqlite_Register_def RegisterWithCapabilities_def

text \<open>\<open>transports.Register\<close>, which runs when package \<open>transports\<close> is imported.\<close>

definition transports_Register :: "(string \<Rightarrow> 't builder) \<Rightarrow> 't registry \<Rightarrow> 't registry" where
  "transports_Register build r =
     (let r = aws_Register build r; r = channel_Register build r; r = http_Register build r;
          r = io_Register build r; r = jetstream_Register build r; r = kafka_Register build r;
          r = nats_Register build r; r = postgres_Register build r; r = rabbitmq_Register build r
      in sqlite_Register build r)"

text \<open>
  The default factory. Its file imports the ten transport packages for their side effects, but
  none of them has an \<open>init\<close> function, so the default registry is still the new one.
\<close>

definition factory_registry :: "'t registry" where
  "factory_registry = NewRegistry"

definition defaultFactory_Build :: "'t registry \<Rightarrow> config option \<Rightarrow> gerror + 't" where
  "defaultFactory_Build r conf =
     (case conf of None \<Rightarrow> Inl (Plain ''config is required'') | Some c \<Rightarrow> Registry_Build r (Some c))"

section \<open>Lookups\<close>

text \<open>A registry is a store of builders with capabilities by name.\<close>

definition put_transport :: "'t registry \<Rightarrow> string \<Rightarrow> 't builder \<times> capabilities \<Rightarrow> 't registry" where
  "put_transport r name bc = RegisterWithCapabilities r name (fst bc) (snd bc)"

definition get_transport :: "'t registry \<Rightarrow> string \<Rightarrow> ('t builder \<times> capabilities) option" where
  "get_transport r name =
     (case (map_of (builders r) name, map_of (caps_map r) name) of
        (Some b, Some c) \<Rightarrow> Some (b, c)
      | _ \<Rightarrow> None)"

interpretation reg: keyed_store put_transport get_transport NewRegistry
  by unfold_locales
    (auto simp: put_transport_def get_transport_def RegisterWithCapabilities_def NewRegistry_def split: option.splits)

text \<open>The names under which package \<open>transports\<close> registers, with package and capabilities.\<close>

definition transport_table :: "(string \<times> string \<times> capabilities) list" where
  "transport_table =
     [(''aws'', ''aws'', AWSCapabilities), (''channel'', ''channel'', ChannelCapabilities),
      (''http'', ''http'', HTTPCapabilities), (''io'', ''io'', IOCapabilities),
      (''nats-jetstream'', ''jetstream'', NATSJetStreamCapabilities), (''kafka'', ''kafka'', KafkaCapabilities),
      (''nats'', ''nats'', NATSCapabilities), (''postgres'', ''postgres'', PostgresCapabilities),
      (''postgresql'', ''postgres'', PostgresCapabilities), (''rabbitmq'', ''rabbitmq'', RabbitMQCapabilities),
      (''sqlite'', ''sqlite'', SQLiteCapabilities)]"

definition table_entries :: "(string \<Rightarrow> 't builder) \<Rightarrow> (string \<times> 't builder \<times> capabilities) list" where
  "table_entries build = map (\<lambda>(n, p, c). (n, build p, c)) transport_table"

lemma transports_Register_fold:
  "transports_Register build NewRegistry
   = fold (\<lambda>(k, v) r. put_transport r k v) (table_entries build) NewRegistry"
  by (simp add: transports_Register_def table_entries_def transport_table_def Let_def put_transport_def
      aws_Register_def channel_Register_def http_Register_def io_Register_def jetstream_Register_def
      kafka_Register_def nats_Register_def postgres_Register_def rabbitmq_Register_def sqlite_Register_def)

lemma wf_table_entries: "wf_map (table_entries build)"
  by (simp add: table_entries_def transport_table_def)

definition in_step :: "'t registry \<Rightarrow> bool" where
  "in_step r \<longleftrightarrow> map fst (builders r) = map fst (caps_map r)"

lemma keys_mput_cong: "map fst m = map fst m' \<Longrightarrow> map fst (mput k a m) = map fst (mput k b m')"
  by (simp add: update_keys)

lemma in_step_put: "in_step r \<Longrightarrow> in_step (put_transport r k v)"
  by (simp add: in_step_def put_transport_def RegisterWithCapabilities_def keys_mput_cong)

lemma in_step_puts: "in_step r \<Longrightarrow> in_step (fold (\<lambda>(k, v) r. put_transport r k v) kvs r)"
  by (induction kvs arbitrary: r) (auto simp: in_step_put split: prod.splits)

lemma in_step_lookup:
  assumes "in_step r"
  shows "map_of (builders r) n = map_option fst (get_transport r n)"
    "map_of (caps_map r) n = map_option snd (get_transport r n)"
proof -
  have "map_of (builders r) n = None \<longleftrightarrow> map_of (caps_map r) n = None"
    using assms by (metis in_step_def list.set_map map_of_eq_None_iff)
  then show "map_of (builders r) n = map_option fst (get_transport r n)"
    "map_of (caps_map r) n = map_option snd (get_transport r n)"
    by (auto simp: get_transport_def split: option.splits)
qed

text \<open>
  Importing package \<open>transports\<close> makes exactly the eleven names of the table available: each
  builds with its package's builder and reports its package's capabilities (\<open>postgresql\<close> those of
  \<open>postgres\<close>); any other name is an unknown transport with no capability but its name.
\<close>

theorem transports_registered:
  "Registry_Build (transports_Register build NewRegistry) (Some c) =
     (case map_of transport_table (PubSubSystem c) of
        Some (p, _) \<Rightarrow> build p c
      | None \<Rightarrow> Inl (Plain (''unknown transport: '' @ quoted (PubSubSystem c)
          @ '' (registered: ['' @ spaced (map fst transport_table) @ ''])'')))
   \<and> GetCapabilities (transports_Register build NewRegistry) n =
     (case map_of transport_table n of Some (_, caps) \<Rightarrow> caps | None \<Rightarrow> zero_capabilities\<lparr>Name := n\<rparr>)"
proof -
  let ?r = "transports_Register build NewRegistry"
  have g: "get_transport ?r k = map_of (table_entries build) k" for k
    unfolding transports_Register_fold by (rule reg.get_puts_distinct) (rule wf_table_entries)
  have s: "in_step ?r"
    unfolding transports_Register_fold by (rule in_step_puts) (simp add: in_step_def NewRegistry_def)
  have t: "map_of (table_entries build) k = map_option (\<lambda>(p, c). (build p, c)) (map_of transport_table k)" for k
    using map_of_map [of "\<lambda>pc. (build (fst pc), snd pc)" transport_table]
    by (simp add: table_entries_def case_prod_unfold map_prod_def fun_eq_iff)
  have "Names ?r = map fst transport_table"
    by (simp add: Names_def transports_Register_def Let_def register_defs NewRegistry_def transport_table_def)
  then show ?thesis
    by (auto simp: Registry_Build_def GetCapabilities_def in_step_lookup [OF s] g t split: option.splits)
qed

text \<open>
  The default factory finds no transport. Its registry holds what importing the transport
  packages registered, which is nothing, so every configuration is an unknown transport and no
  transport reports a capability, until the program imports package \<open>transports\<close> or registers by
  itself.
\<close>

theorem default_factory_knows_no_transport:
  "defaultFactory_Build factory_registry (Some c)
     = Inl (Plain (''unknown transport: '' @ quoted (PubSubSystem c) @ '' (registered: [])''))
   \<and> GetCapabilities factory_registry n = zero_capabilities\<lparr>Name := n\<rparr>
   \<and> \<not> SupportsDelay (GetCapabilities factory_registry n)"
  by (simp add: defaultFactory_Build_def Registry_Build_def factory_registry_def NewRegistry_def
      Names_def GetCapabilities_def zero_capabilities_def)

end
