(* ===== verification/Ce_Api.thy ===== *)
theory Ce_Api
  imports Ce_Extensions Transport_Registry
begin

text \<open>
  Publishing and consuming CloudEvents (\<open>internal/runtime/cloudevents_api.go\<close>): the translation
  between events and Watermill messages, the publishing calls with their options, and the
  consumer wrapper that turns a handler's error into acknowledgement, retry, delayed
  republication or dead-lettering.

  The publisher is Watermill's interface: a parameter \<open>topic, message, world\<close> to an error and the
  next world. A handler gets a copy of the event that shares the extension map and the data
  with the caller's copy; it returns its error, the event as it left it, and the next world.
  Contexts and log output are left out.
\<close>

section \<open>Messages\<close>

text \<open>Watermill's message: an id, string metadata and a payload.\<close>

record message =
  UUID :: string
  Metadata :: "(string \<times> string) list"
  Payload :: string

definition NewMessage :: "string \<Rightarrow> string \<Rightarrow> message" where
  "NewMessage uuid payload = \<lparr>UUID = uuid, Metadata = [], Payload = payload\<rparr>"

text \<open>
  How the consumer of a subscription answers a message: it acknowledges or refuses it, or the
  context of the subscription ends first.
\<close>

datatype answer = AnswerAck | AnswerNack | ContextDone

type_synonym 'w publisher = "string \<Rightarrow> message \<Rightarrow> 'w \<Rightarrow> gerror option \<times> 'w"

section \<open>From event to message and back\<close>

definition set_opt :: "string \<Rightarrow> string option \<Rightarrow> (string \<times> string) list \<Rightarrow> (string \<times> string) list" where
  "set_opt key v m = (case v of None \<Rightarrow> m | Some x \<Rightarrow> mput key x m)"

definition core_metadata :: "event \<Rightarrow> (string \<times> string) list" where
  "core_metadata evt =
     (let m = [(''ce_specversion'', SpecVersion evt), (''ce_type'', Type evt),
               (''ce_source'', Source evt), (''ce_id'', ID evt)];
          m = (if is_zero_time (Time evt) then m else mput ''ce_time'' (fmt_rfc3339_nano (Time evt)) m);
          m = set_opt ''ce_datacontenttype'' (DataContentType evt) m;
          m = set_opt ''ce_subject'' (Subject evt) m
      in set_opt ''ce_dataschema'' (DataSchema evt) m)"

text \<open>The text of an extension in the metadata; nil values are left out.\<close>

definition ext_text :: "any \<Rightarrow> string option" where
  "ext_text v =
     (case v of
        AStr s \<Rightarrow> Some s
      | AInt n \<Rightarrow> Some (dec_int n)
      | AInt64 n \<Rightarrow> Some (dec_int n)
      | AFloat f \<Rightarrow> Some (fmt_v_f64 f)
      | ABool b \<Rightarrow> Some (if b then ''true'' else ''false'')
      | ANil \<Rightarrow> None
      | _ \<Rightarrow> Some (fmt_v v))"

fun ext_metadata :: "ext_map \<Rightarrow> (string \<times> string) list \<Rightarrow> (string \<times> string) list" where
  "ext_metadata [] m = m"
| "ext_metadata ((k, v) # es) m = ext_metadata es (set_opt k (ext_text v) m)"

definition marshal_error :: gerror where
  "marshal_error = Plain ''json: error calling MarshalJSON for type cloudevents.Event''"

definition toWatermillMessage :: "event \<Rightarrow> gerror + message" where
  "toWatermillMessage evt =
     (case Validate evt of
        Some err \<Rightarrow> Inl (wrap_err ''invalid CloudEvent'' err)
      | None \<Rightarrow>
          (case MarshalJSON evt of
             None \<Rightarrow> Inl (wrap_err ''failed to marshal CloudEvent'' marshal_error)
           | Some payload \<Rightarrow>
               Inr ((NewMessage (ID evt) payload)
                 \<lparr>Metadata := ext_metadata (exts evt) (core_metadata evt)\<rparr>)))"

definition isCloudEventsMetadata :: "string \<Rightarrow> bool" where
  "isCloudEventsMetadata key \<longleftrightarrow>
     key \<in> {''ce_specversion'', ''ce_type'', ''ce_source'', ''ce_id'', ''ce_time'',
            ''ce_datacontenttype'', ''ce_subject'', ''ce_dataschema''}"

definition first_nonempty :: "string list \<Rightarrow> string \<Rightarrow> string" where
  "first_nonempty vs dflt = (case filter (\<lambda>v. v \<noteq> []) vs of [] \<Rightarrow> dflt | v # _ \<Rightarrow> v)"

fun metadata_exts :: "(string \<times> string) list \<Rightarrow> ext_map \<Rightarrow> ext_map" where
  "metadata_exts [] acc = acc"
| "metadata_exts ((k, v) # m) acc =
     metadata_exts m (if isCloudEventsMetadata k then acc else mput k (AStr v) acc)"

definition metadata_time :: "(string \<times> string) list \<Rightarrow> gtime" where
  "metadata_time m =
     (let v = mget m ''ce_time''
      in if v = [] then zero_time
         else case parse_rfc3339 v of
                Some t \<Rightarrow> t
              | None \<Rightarrow> (case parse_rfc3339 v of Some t \<Rightarrow> t | None \<Rightarrow> zero_time))"

definition synthetic_event :: "message \<Rightarrow> event" where
  "synthetic_event msg =
     zero_event
       \<lparr>SpecVersion := SpecVersionConst, ID := UUID msg,
        Type := first_nonempty [mget (Metadata msg) ''ce_type'', mget (Metadata msg) ''event_message_schema''] ''unknown'',
        Source := first_nonempty [mget (Metadata msg) ''ce_source'', mget (Metadata msg) ''event_source''] ''unknown'',
        Time := metadata_time (Metadata msg), Data := AStr (Payload msg),
        Extensions := Some (metadata_exts (Metadata msg) [])\<rparr>"

definition tryFromWatermillMessage :: "message \<Rightarrow> event" where
  "tryFromWatermillMessage msg =
     (case UnmarshalJSON zero_event (Payload msg) of
        Inr evt \<Rightarrow>
          if Validate evt = None then (if ID evt = [] then evt\<lparr>ID := UUID msg\<rparr> else evt)
          else synthetic_event msg
      | Inl _ \<Rightarrow> synthetic_event msg)"

section \<open>Publishing\<close>

text \<open>
  What the calls of this file use of a service: its publisher, if it has one, the configured
  transport name, and the capability lookup of the registry.
\<close>

record 'w service =
  svc_publisher :: "'w publisher option"
  svc_system :: string
  svc_capabilities :: "string \<Rightarrow> capabilities"

definition PublishEvent :: "'w service option \<Rightarrow> event \<Rightarrow> 'w \<Rightarrow> gerror option \<times> 'w" where
  "PublishEvent s evt w =
     (case s of
        None \<Rightarrow> (Some (Plain ''event service is nil''), w)
      | Some svc \<Rightarrow>
          (case svc_publisher svc of
             None \<Rightarrow> (Some (Sentinel ErrPublisherRequired), w)
           | Some publish \<Rightarrow>
               (case Validate evt of
                  Some err \<Rightarrow> (Some (wrap_err ''invalid CloudEvent'' err), w)
                | None \<Rightarrow>
                    (case toWatermillMessage evt of
                       Inl err \<Rightarrow> (Some err, w)
                     | Inr msg \<Rightarrow> publish (Type evt) msg w))))"

definition PublishEventAfter :: "'w service option \<Rightarrow> event \<Rightarrow> duration \<Rightarrow> 'w \<Rightarrow> gerror option \<times> 'w" where
  "PublishEventAfter s evt delay w = PublishEvent s (if 0 < delay then SetDelay evt delay else evt) w"

record publishOptions =
  po_subject :: "string option"
  po_dataContentType :: "string option"
  po_dataSchema :: "string option"
  po_extensions :: ext_map
  po_maxAttempts :: int
  po_traceID :: string
  po_parentID :: string
  po_correlationID :: string

type_synonym PublishOption = "publishOptions \<Rightarrow> publishOptions"

definition no_options :: publishOptions where
  "no_options =
     \<lparr>po_subject = None, po_dataContentType = None, po_dataSchema = None, po_extensions = [],
      po_maxAttempts = 0, po_traceID = [], po_parentID = [], po_correlationID = []\<rparr>"

definition Opt_WithSubject :: "string \<Rightarrow> PublishOption" where
  "Opt_WithSubject subject po = po\<lparr>po_subject := Some subject\<rparr>"

definition Opt_WithDataContentType :: "string \<Rightarrow> PublishOption" where
  "Opt_WithDataContentType contentType po = po\<lparr>po_dataContentType := Some contentType\<rparr>"

definition Opt_WithDataSchema :: "string \<Rightarrow> PublishOption" where
  "Opt_WithDataSchema schema po = po\<lparr>po_dataSchema := Some schema\<rparr>"

definition Opt_WithExtension :: "string \<Rightarrow> any \<Rightarrow> PublishOption" where
  "Opt_WithExtension key value po = po\<lparr>po_extensions := mput key value (po_extensions po)\<rparr>"

definition Opt_WithMaxAttempts :: "int \<Rightarrow> PublishOption" where
  "Opt_WithMaxAttempts n po = po\<lparr>po_maxAttempts := n\<rparr>"

definition Opt_WithTracing :: "string \<Rightarrow> string \<Rightarrow> PublishOption" where
  "Opt_WithTracing traceID parentID po = po\<lparr>po_traceID := traceID, po_parentID := parentID\<rparr>"

definition Opt_WithCorrelationID :: "string \<Rightarrow> PublishOption" where
  "Opt_WithCorrelationID correlationID po = po\<lparr>po_correlationID := correlationID\<rparr>"

definition applyPublishOptions :: "event \<Rightarrow> PublishOption list \<Rightarrow> event" where
  "applyPublishOptions evt opts =
     (let po = fold (\<lambda>opt po. opt po) opts no_options;
          evt = (if po_subject po \<noteq> None then evt\<lparr>Subject := po_subject po\<rparr> else evt);
          evt = (if po_dataContentType po \<noteq> None then evt\<lparr>DataContentType := po_dataContentType po\<rparr> else evt);
          evt = (if po_dataSchema po \<noteq> None then evt\<lparr>DataSchema := po_dataSchema po\<rparr> else evt);
          evt = (if 0 < po_maxAttempts po then SetMaxAttempts evt (po_maxAttempts po) else evt);
          evt = (if po_traceID po \<noteq> [] then SetTraceID evt (po_traceID po) else evt);
          evt = (if po_parentID po \<noteq> [] then SetParentID evt (po_parentID po) else evt);
          evt = (if po_correlationID po \<noteq> [] then SetCorrelationID evt (po_correlationID po) else evt)
      in fold (\<lambda>(k, v) e. WithExtension e k v) (po_extensions po) evt)"

definition PublishData ::
  "string \<Rightarrow> gtime \<Rightarrow> 'w service option \<Rightarrow> string \<Rightarrow> string \<Rightarrow> any \<Rightarrow> PublishOption list \<Rightarrow> 'w \<Rightarrow> gerror option \<times> 'w" where
  "PublishData ulid now s eventType source data opts w =
     PublishEvent s (applyPublishOptions (New ulid now eventType source data) opts) w"

definition PublishDataAfter ::
  "string \<Rightarrow> gtime \<Rightarrow> 'w service option \<Rightarrow> string \<Rightarrow> string \<Rightarrow> any \<Rightarrow> duration \<Rightarrow> PublishOption list \<Rightarrow> 'w
   \<Rightarrow> gerror option \<times> 'w" where
  "PublishDataAfter ulid now s eventType source data delay opts w =
     PublishEventAfter s (applyPublishOptions (New ulid now eventType source data) opts) delay w"

section \<open>Consuming\<close>

type_synonym 'w handler = "event \<Rightarrow> 'w \<Rightarrow> gerror option \<times> event \<times> 'w"

definition sendToCloudEventsDLQ ::
  "'w service \<Rightarrow> string \<Rightarrow> event \<Rightarrow> gerror option \<Rightarrow> 'w \<Rightarrow> gerror option \<times> 'w" where
  "sendToCloudEventsDLQ s eventType evt err w =
     (let evt = PrepareForDLQ evt eventType err; (pubErr, w') = PublishEvent (Some s) evt w
      in case pubErr of Some _ \<Rightarrow> (None, w') | None \<Rightarrow> (None, w'))"

definition handleCloudEventsResult ::
  "'w service \<Rightarrow> string \<Rightarrow> event \<Rightarrow> gerror option \<Rightarrow> 'w \<Rightarrow> gerror option \<times> 'w" where
  "handleCloudEventsResult s eventType evt err w =
     (case ClassifyError err of
        (ResultAck, _) \<Rightarrow> (None, w)
      | (ResultSkip, _) \<Rightarrow> (None, w)
      | (ResultRetry, _) \<Rightarrow>
          if ExceedsMaxAttempts evt then sendToCloudEventsDLQ s eventType evt err w else (err, w)
      | (ResultRetryAfter, delay) \<Rightarrow>
          if ExceedsMaxAttempts evt then sendToCloudEventsDLQ s eventType evt err w
          else if SupportsDelay (svc_capabilities s (svc_system s)) then
            (case PublishEvent (Some s) (SetDelay evt delay) w of
               (Some _, w') \<Rightarrow> (err, w')
             | (None, w') \<Rightarrow> (None, w'))
          else (err, w)
      | (ResultDeadLetter, _) \<Rightarrow> sendToCloudEventsDLQ s eventType evt err w)"

text \<open>
  The handler works on a copy of the event; what it writes to the extension map and into the
  data is seen afterwards, its assignments to other fields are not.
\<close>

definition shared_part :: "event \<Rightarrow> event \<Rightarrow> event" where
  "shared_part evt left = evt\<lparr>Extensions := Extensions left, Data := Data left\<rparr>"

definition wrapCloudEventsHandler ::
  "'w service \<Rightarrow> string \<Rightarrow> 'w handler \<Rightarrow> message \<Rightarrow> 'w \<Rightarrow> gerror option \<times> 'w" where
  "wrapCloudEventsHandler s eventType handler msg w =
     (let evt = fst (IncrementAttempt (tryFromWatermillMessage msg));
          (err, left, w') = handler evt w
      in handleCloudEventsResult s eventType (shared_part evt left) err w')"

text \<open>A consumer as the router holds it: handler name, topic and the wrapped handler.\<close>

record 'w consumer =
  con_name :: string
  con_topic :: string
  con_handler :: "message \<Rightarrow> 'w \<Rightarrow> gerror option \<times> 'w"

definition ConsumeEvents ::
  "'w service option \<Rightarrow> string \<Rightarrow> 'w handler option \<Rightarrow> 'w consumer list \<Rightarrow> gerror option \<times> 'w consumer list" where
  "ConsumeEvents s eventType handler cons =
     (case s of
        None \<Rightarrow> (Some (Sentinel ErrServiceRequired), cons)
      | Some svc \<Rightarrow>
          (case handler of
             None \<Rightarrow> (Some (Sentinel ErrHandlerRequired), cons)
           | Some h \<Rightarrow>
               if eventType = [] then (Some (Sentinel ErrConsumeMessageTypeRequired), cons)
               else (None, cons @ [\<lparr>con_name = ''cloudevents-'' @ eventType, con_topic = eventType,
                                    con_handler = wrapCloudEventsHandler svc eventType h\<rparr>])))"

record 'w CloudEventsHandlerRegistration =
  reg_Name :: string
  reg_EventType :: string
  reg_Handler :: "'w handler option"
  reg_MaxAttempts :: int

definition RegisterCloudEventsHandler ::
  "'w service option \<Rightarrow> 'w CloudEventsHandlerRegistration \<Rightarrow> 'w consumer list \<Rightarrow> gerror option \<times> 'w consumer list" where
  "RegisterCloudEventsHandler s reg cons =
     (case s of
        None \<Rightarrow> (Some (Sentinel ErrServiceRequired), cons)
      | Some _ \<Rightarrow>
          (case reg_Handler reg of
             None \<Rightarrow> (Some (Sentinel ErrHandlerRequired), cons)
           | Some h \<Rightarrow>
               if reg_EventType reg = [] then (Some (Sentinel ErrConsumeMessageTypeRequired), cons)
               else
                 (let maxAttempts = (if reg_MaxAttempts reg \<le> 0 then DefaultMaxAttempts else reg_MaxAttempts reg)
                  in ConsumeEvents s (reg_EventType reg) (Some (\<lambda>evt. h (SetMaxAttempts evt maxAttempts))) cons)))"

definition GetTransportCapabilities :: "'w service option \<Rightarrow> capabilities" where
  "GetTransportCapabilities s =
     (case s of None \<Rightarrow> zero_capabilities | Some svc \<Rightarrow> svc_capabilities svc (svc_system svc))"

text \<open>\<open>EventContext\<close>: the event with an optional publisher for responses.\<close>

definition EventContext_Publish ::
  "string \<Rightarrow> gtime \<Rightarrow> event \<Rightarrow> 'w service option \<Rightarrow> string \<Rightarrow> string \<Rightarrow> any \<Rightarrow> 'w \<Rightarrow> gerror option \<times> 'w" where
  "EventContext_Publish ulid now received pub eventType source data w =
     (case pub of
        None \<Rightarrow> (Some (Plain ''publisher not available in context''), w)
      | Some _ \<Rightarrow> PublishEvent pub (CopyTracingContext received (New ulid now eventType source data)) w)"

text \<open>\<open>UnmarshalData\<close>; \<open>decode\<close> is \<open>json.Unmarshal\<close> into the caller's type.\<close>

definition EventContext_UnmarshalData :: "event \<Rightarrow> (string \<Rightarrow> gerror + 'a) \<Rightarrow> gerror + 'a" where
  "EventContext_UnmarshalData evt decode =
     (if Data evt = ANil then Inl (Plain ''event has no data'')
      else if DataBase64 evt \<noteq> None then Inl (Plain ''base64 data not supported, use DataBase64 directly'')
      else case to_json (Data evt) of
             None \<Rightarrow> Inl (wrap_err ''failed to marshal event data'' marshal_error)
           | Some j \<Rightarrow> decode (json_text j))"

section \<open>Messages carry events\<close>

lemma set_opt_lookup [simp]:
  "map_of (set_opt key v m) k = (if k = key \<and> v \<noteq> None then v else map_of m k)"
  by (cases v) (auto simp: set_opt_def)

lemma ext_metadata_lookup:
  "wf_map es \<Longrightarrow> map_of (ext_metadata es m) k =
     (case Option.bind (map_of es k) ext_text of Some t \<Rightarrow> Some t | None \<Rightarrow> map_of m k)"
proof (induction es m rule: ext_metadata.induct)
  case (1 m)
  then show ?case by simp
next
  case (2 k' v es m)
  then have "map_of es k' = None" by (auto simp: map_of_eq_None_iff)
  with 2 show ?case by (auto split: option.splits)
qed

lemma core_metadata_lookup:
  "map_of (core_metadata e) ''ce_type'' = Some (Type e)"
  "map_of (core_metadata e) ''ce_source'' = Some (Source e)"
  "map_of (core_metadata e) ''ce_id'' = Some (ID e)"
  "map_of (core_metadata e) ''ce_specversion'' = Some (SpecVersion e)"
  by (simp_all add: core_metadata_def Let_def del: update.simps)

lemma core_metadata_other: "\<not> isCloudEventsMetadata k \<Longrightarrow> map_of (core_metadata e) k = None"
  by (simp add: core_metadata_def Let_def isCloudEventsMetadata_def del: update.simps)

lemma toWatermill_Inr:
  "toWatermillMessage e = Inr msg \<longleftrightarrow>
     Validate e = None \<and> (\<exists>s. MarshalJSON e = Some s
        \<and> msg = \<lparr>UUID = ID e, Metadata = ext_metadata (exts e) (core_metadata e), Payload = s\<rparr>)"
  by (auto simp: toWatermillMessage_def NewMessage_def split: option.splits)

text \<open>
  The message made for an event has the event's id as its id, and its metadata shows each
  extension that is not nil as text under the extension's own name, so that a transport reads
  them without decoding the payload; type, source and id appear under their \<open>ce_\<close> names unless
  an extension is named like that.
\<close>

theorem message_metadata:
  assumes "toWatermillMessage e = Inr msg" "wf_map (exts e)"
  shows "UUID msg = ID e
    \<and> (\<not> isCloudEventsMetadata k \<longrightarrow> map_of (Metadata msg) k = Option.bind (map_of (exts e) k) ext_text)
    \<and> (map_of (exts e) k = None \<longrightarrow> map_of (Metadata msg) k = map_of (core_metadata e) k)
    \<and> (map_of (exts e) ''ce_type'' = None \<longrightarrow> mget (Metadata msg) ''ce_type'' = Type e)"
proof -
  from assms(1) have m: "Metadata msg = ext_metadata (exts e) (core_metadata e)" "UUID msg = ID e"
    by (auto simp: toWatermill_Inr)
  show ?thesis
    using core_metadata_other [of k e]
    by (auto simp: m ext_metadata_lookup [OF assms(2)] mget_def core_metadata_lookup split: option.splits)
qed

lemma message_metadata_witness:
  "\<exists>msg. toWatermillMessage sample_event = Inr msg \<and> mget (Metadata msg) ''pf_attempt'' = ''2''
     \<and> mget (Metadata msg) ''ce_type'' = ''order.created''"
proof -
  have "\<not> isl (toWatermillMessage sample_event)" by code_simp
  then obtain msg where m: "toWatermillMessage sample_event = Inr msg" by (cases "toWatermillMessage sample_event") auto
  have x: "wf_map (exts sample_event)" "map_of (exts sample_event) ''pf_attempt'' = Some (AInt 2)"
    "map_of (exts sample_event) ''ce_type'' = None" "\<not> isCloudEventsMetadata ''pf_attempt''"
    "Type sample_event = ''order.created''" "ext_text (AInt 2) = Some ''2''"
    by code_simp+
  from message_metadata [OF m x(1), of "''pf_attempt''"] m x show ?thesis
    by (auto simp: mget_def)
qed

lemma message_decodes:
  assumes "wf_event e" "json_stable (Data e) = Some d" "toWatermillMessage e = Inr msg"
  shows "\<exists>m. tryFromWatermillMessage msg = e\<lparr>Data := d, Extensions := Some m\<rparr>
     \<and> (\<forall>k. map_of m k = Option.bind (map_of (exts e) k) json_stable)"
proof -
  from assms(3) obtain s where s: "Validate e = None" "MarshalJSON e = Some s" "Payload msg = s"
    by (auto simp: toWatermill_Inr)
  obtain m where m: "UnmarshalJSON zero_event s = Inr (e\<lparr>Data := d, Extensions := Some m\<rparr>)"
    "\<And>k. map_of m k = Option.bind (map_of (exts e) k) json_stable"
    using event_roundtrip [OF assms(1) s(2) assms(2)] by blast
  have "Validate (e\<lparr>Data := d, Extensions := Some m\<rparr>) = None" "ID e \<noteq> []"
    using s(1) by (auto simp: Validate_def split: if_splits)
  with m s(3) show ?thesis by (auto simp: tryFromWatermillMessage_def)
qed

text \<open>
  C3. A CloudEvent sent is the CloudEvent received: the consumer side decodes the message made
  for a valid event to the same event, never to a synthetic one, with data and extensions as
  a JSON decoder returns them.
\<close>

theorem message_roundtrip:
  assumes "wf_event e" "json_stable (Data e) = Some d" "toWatermillMessage e = Inr msg"
  shows "\<exists>m. tryFromWatermillMessage msg = e\<lparr>Data := d, Extensions := Some m\<rparr>
     \<and> (\<forall>k. map_of m k = Option.bind (map_of (exts e) k) json_stable)"
  using message_decodes [OF assms] .

lemma message_roundtrip_witness:
  "\<exists>msg m. toWatermillMessage sample_event = Inr msg
     \<and> tryFromWatermillMessage msg = sample_event\<lparr>Data := AStr ''hi'', Extensions := Some m\<rparr>"
proof -
  have "\<not> isl (toWatermillMessage sample_event)" by code_simp
  then obtain msg where m: "toWatermillMessage sample_event = Inr msg" by (cases "toWatermillMessage sample_event") auto
  have "wf_event sample_event" "json_stable (Data sample_event) = Some (AStr ''hi'')" by code_simp+
  from message_roundtrip [OF this m] m show ?thesis by auto
qed

lemma first_nonempty_dflt: "dflt \<noteq> [] \<Longrightarrow> first_nonempty vs dflt \<noteq> []"
proof -
  assume "dflt \<noteq> []"
  moreover have "v \<noteq> []" if "filter (\<lambda>v. v \<noteq> []) vs = v # r" for v r
  proof -
    have "v \<in> set (filter (\<lambda>v. v \<noteq> []) vs)" unfolding that by simp
    then show ?thesis by simp
  qed
  ultimately show ?thesis
    by (cases "filter (\<lambda>v. v \<noteq> []) vs") (simp_all add: first_nonempty_def)
qed

lemma synthetic_valid: "UUID msg \<noteq> [] \<Longrightarrow> Validate (synthetic_event msg) = None"
  by (simp add: Validate_def synthetic_event_def SpecVersionConst_def first_nonempty_dflt)

lemma synthetic_fields:
  "ID (synthetic_event msg) = UUID msg" "Data (synthetic_event msg) = AStr (Payload msg)"
  "Extensions (synthetic_event msg) \<noteq> None"
  by (simp_all add: synthetic_event_def)

lemma unmarshal_has_map: "UnmarshalJSON e s = Inr e' \<Longrightarrow> Extensions e' \<noteq> None"
  by (auto simp: UnmarshalJSON_def sbind_Inr unmarshalExtensions_def)

text \<open>
  Whatever the payload of a message with an id, the handler is given a valid event with an
  extension map: the decoded event, or a synthetic one that has the message's id and the raw
  payload as its data.
\<close>

theorem try_from_valid:
  assumes "UUID msg \<noteq> []"
  shows "Validate (tryFromWatermillMessage msg) = None
    \<and> Extensions (tryFromWatermillMessage msg) \<noteq> None
    \<and> (UnmarshalJSON zero_event (Payload msg) = Inr (tryFromWatermillMessage msg)
       \<or> (ID (tryFromWatermillMessage msg) = UUID msg
          \<and> Data (tryFromWatermillMessage msg) = AStr (Payload msg)))"
proof (cases "UnmarshalJSON zero_event (Payload msg)")
  case (Inl err)
  then show ?thesis
    using synthetic_valid [OF assms] synthetic_fields by (simp add: tryFromWatermillMessage_def)
next
  case (Inr e)
  show ?thesis
  proof (cases "Validate e = None")
    case True
    then have "ID e \<noteq> []" by (auto simp: Validate_def split: if_splits)
    with True Inr unmarshal_has_map [OF Inr] show ?thesis by (simp add: tryFromWatermillMessage_def)
  next
    case False
    with Inr have "tryFromWatermillMessage msg = synthetic_event msg"
      by (cases "Validate e") (simp_all add: tryFromWatermillMessage_def)
    with synthetic_valid [OF assms] synthetic_fields show ?thesis by simp
  qed
qed

lemma try_from_valid_witness:
  "Validate (tryFromWatermillMessage \<lparr>UUID = ''u1'', Metadata = [], Payload = ''not json''\<rparr>) = None"
  using try_from_valid [of "\<lparr>UUID = ''u1'', Metadata = [], Payload = ''not json''\<rparr>"] by simp

section \<open>What the consumer does with a handler's error\<close>

lemma PrepareForDLQ_fields [simp]:
  "Type (PrepareForDLQ e t err) = Type e" "ID (PrepareForDLQ e t err) = ID e"
  "Validate (PrepareForDLQ e t err) = Validate e" "Data (PrepareForDLQ e t err) = Data e"
  by (simp_all add: PrepareForDLQ_def Let_def ext_set_defs WithExtension_def Validate_def split: option.splits)

lemma SetDelay_fields [simp]:
  "Type (SetDelay e d) = Type e" "ID (SetDelay e d) = ID e" "Validate (SetDelay e d) = Validate e"
  "Data (SetDelay e d) = Data e"
  by (simp_all add: SetDelay_def SetDelayMs_def WithExtension_def Validate_def)

lemma Increment_fields [simp]:
  "Type (fst (IncrementAttempt e)) = Type e" "ID (fst (IncrementAttempt e)) = ID e"
  "Validate (fst (IncrementAttempt e)) = Validate e" "Data (fst (IncrementAttempt e)) = Data e"
  by (simp_all add: IncrementAttempt_def Let_def SetAttempt_def WithExtension_def Validate_def)

lemma shared_part_fields [simp]:
  "Type (shared_part e l) = Type e" "ID (shared_part e l) = ID e" "Validate (shared_part e l) = Validate e"
  "exts (shared_part e l) = exts l"
  by (simp_all add: shared_part_def Validate_def exts_def)

lemma sendDLQ_result: "sendToCloudEventsDLQ s et evt err w = (None, snd (PublishEvent (Some s) (PrepareForDLQ evt et err) w))"
  by (simp add: sendToCloudEventsDLQ_def case_prod_unfold Let_def split: option.splits)

text \<open>The event a handler is given for a message.\<close>

definition delivered :: "message \<Rightarrow> event" where
  "delivered msg = fst (IncrementAttempt (tryFromWatermillMessage msg))"

lemma wrap_unfold:
  "wrapCloudEventsHandler s et h msg w =
     (case h (delivered msg) w of
        (err, left, w') \<Rightarrow> handleCloudEventsResult s et (shared_part (delivered msg) left) err w')"
  by (simp add: wrapCloudEventsHandler_def delivered_def Let_def)

text \<open>
  Dead-lettering acknowledges the message in every case and publishes the marked event to the
  topic named by its own type: the topic \<open>DLQTopic\<close> gives, the type followed by \<open>.dead\<close>, gets
  nothing from it, whatever the publisher does.
\<close>

theorem dead_letter_topic:
  assumes "svc_publisher s = Some publish" "Validate evt = None"
    "toWatermillMessage (PrepareForDLQ evt eventType err) = Inr m"
  shows "sendToCloudEventsDLQ s eventType evt err w = (None, snd (publish (Type evt) m w))
    \<and> Type evt \<noteq> DLQTopic (Type evt)"
  using assms by (simp add: sendDLQ_result PublishEvent_def DLQTopic_def)

text \<open>
  Delivering the same message again and again, until it is acknowledged, at most \<open>n\<close> times. How often a
  transport delivers a message is not this function's matter: \<open>n\<close> is an argument.
\<close>

fun redeliver :: "('w service \<times> string \<times> 'w handler) \<Rightarrow> message \<Rightarrow> nat \<Rightarrow> 'w \<Rightarrow> gerror option list \<times> 'w" where
  "redeliver c msg 0 w = ([], w)"
| "redeliver (s, et, h) msg (Suc n) w =
     (case wrapCloudEventsHandler s et h msg w of
        (None, w') \<Rightarrow> ([None], w')
      | (Some e, w') \<Rightarrow> (case redeliver (s, et, h) msg n w' of (rs, w'') \<Rightarrow> (Some e # rs, w'')))"

text \<open>What a handler leaves of the event it got from a message, and of the world.\<close>

abbreviation left_event :: "'w handler \<Rightarrow> message \<Rightarrow> 'w \<Rightarrow> event" where
  "left_event h msg w \<equiv> shared_part (delivered msg) (fst (snd (h (delivered msg) w)))"

abbreviation left_world :: "'w handler \<Rightarrow> message \<Rightarrow> 'w \<Rightarrow> 'w" where
  "left_world h msg w \<equiv> snd (snd (h (delivered msg) w))"

lemma plain_retry_once:
  assumes "fst (h (delivered msg) w) = Some err" "fst (ClassifyError (Some err)) = ResultRetry"
  shows "wrapCloudEventsHandler s et h msg w =
    (if ExceedsMaxAttempts (left_event h msg w)
     then (None, snd (PublishEvent (Some s) (PrepareForDLQ (left_event h msg w) et (Some err)) (left_world h msg w)))
     else (Some err, left_world h msg w))"
proof -
  obtain left w1 where h: "h (delivered msg) w = (Some err, left, w1)" using assms(1) by (cases "h (delivered msg) w") auto
  obtain d where "ClassifyError (Some err) = (ResultRetry, d)" using assms(2) by (cases "ClassifyError (Some err)") auto
  then show ?thesis by (simp add: wrap_unfold h handleCloudEventsResult_def sendDLQ_result)
qed

lemma plain_retries:
  assumes "\<And>w. h (delivered msg) w = (Some err, delivered msg, w)"
    "fst (ClassifyError (Some err)) = ResultRetry"
    "\<not> ExceedsMaxAttempts (delivered msg)"
  shows "redeliver (s, et, h) msg n w = (replicate n (Some err), w)"
proof (induction n)
  case (Suc n)
  have "shared_part (delivered msg) (delivered msg) = delivered msg" by (simp add: shared_part_def)
  then have "wrapCloudEventsHandler s et h msg w = (Some err, w)"
    using assms plain_retry_once [of h msg w err s et] by simp
  with Suc show ?case by simp
qed simp

text \<open>
  C6. Plain retries are not counted. Let a handler fail on every delivery of a message with an error
  classified as retry. If the event as the handler leaves it is below its limit of attempts on
  each delivery, then every redelivery fails, the attempt number being read from the payload that a
  retry does not change, and the message is neither acknowledged nor is anything published for it: the
  limit is not reached by retrying. If the event is not below its limit (which a registration with a limit
  of its own writes into it), the delivery is acknowledged and the event sent to the dead letter
  queue at once, without any retry: the limit decides at the first delivery or never.
\<close>

theorem plain_retry_never_exceeds:
  assumes "\<And>w. \<exists>err. fst (h (delivered msg) w) = Some err \<and> fst (ClassifyError (Some err)) = ResultRetry"
  shows "((\<forall>w. \<not> ExceedsMaxAttempts (left_event h msg w)) \<longrightarrow>
        length (fst (redeliver (s, et, h) msg n w)) = n
        \<and> list_all (\<lambda>r. r \<noteq> None) (fst (redeliver (s, et, h) msg n w))
        \<and> snd (redeliver (s, et, h) msg n w) = ((\<lambda>w. left_world h msg w) ^^ n) w)
    \<and> (ExceedsMaxAttempts (left_event h msg w) \<longrightarrow>
        redeliver (s, et, h) msg (Suc n) w
          = ([None], snd (PublishEvent (Some s) (PrepareForDLQ (left_event h msg w) et (fst (h (delivered msg) w)))
                       (left_world h msg w))))"
proof (intro conjI impI)
  show "redeliver (s, et, h) msg (Suc n) w
      = ([None], snd (PublishEvent (Some s) (PrepareForDLQ (left_event h msg w) et (fst (h (delivered msg) w))) (left_world h msg w)))"
    if "ExceedsMaxAttempts (left_event h msg w)"
  proof -
    obtain err where "fst (h (delivered msg) w) = Some err" "fst (ClassifyError (Some err)) = ResultRetry" using assms by blast
    with plain_retry_once [of h msg w err s et] that show ?thesis by simp
  qed
next
  assume below: "\<forall>w. \<not> ExceedsMaxAttempts (left_event h msg w)"
  have "length (fst (redeliver (s, et, h) msg n w)) = n \<and> list_all (\<lambda>r. r \<noteq> None) (fst (redeliver (s, et, h) msg n w))
      \<and> snd (redeliver (s, et, h) msg n w) = ((\<lambda>w. left_world h msg w) ^^ n) w" for w
  proof (induction n arbitrary: w)
    case (Suc n)
    obtain err where e: "fst (h (delivered msg) w) = Some err" "fst (ClassifyError (Some err)) = ResultRetry" using assms by blast
    from plain_retry_once [of h msg w err s et, OF e] below have "wrapCloudEventsHandler s et h msg w = (Some err, left_world h msg w)" by simp
    with Suc [of "left_world h msg w"] show ?case
      by (auto simp: funpow_Suc_right simp del: funpow.simps(2) split: prod.splits)
  qed simp
  then show "length (fst (redeliver (s, et, h) msg n w)) = n" "list_all (\<lambda>r. r \<noteq> None) (fst (redeliver (s, et, h) msg n w))"
    "snd (redeliver (s, et, h) msg n w) = ((\<lambda>w. left_world h msg w) ^^ n) w" by blast+
qed

lemma retry_after_sent:
  assumes "h (delivered msg) w = (Some err, left, w1)"
    "ClassifyError (Some err) = (ResultRetryAfter, d)"
    "\<not> ExceedsMaxAttempts (shared_part (delivered msg) left)"
    "SupportsDelay (svc_capabilities s (svc_system s))"
    "svc_publisher s = Some publish" "Validate (delivered msg) = None"
    "toWatermillMessage (SetDelay (shared_part (delivered msg) left) d) = Inr m"
    "wf_map (exts left)"
  shows "wrapCloudEventsHandler s et h msg w =
      (case publish (Type (delivered msg)) m w1 of
         (None, w2) \<Rightarrow> (None, w2)
       | (Some _, w2) \<Rightarrow> (Some err, w2))
    \<and> mget (Metadata m) ExtDelayMs = dec_int (quot d millisecond)
    \<and> UUID m = ID (delivered msg)"
proof -
  let ?e = "shared_part (delivered msg) left"
  have v: "Validate ?e = None" "Type ?e = Type (delivered msg)" "ID ?e = ID (delivered msg)"
    using assms(6) by simp_all
  then have "PublishEvent (Some s) (SetDelay ?e d) w1 = publish (Type (delivered msg)) m w1"
    using assms(5,7) by (simp add: PublishEvent_def)
  then have r: "wrapCloudEventsHandler s et h msg w =
      (case publish (Type (delivered msg)) m w1 of (None, w2) \<Rightarrow> (None, w2) | (Some _, w2) \<Rightarrow> (Some err, w2))"
    using assms(2,3,4) by (simp add: wrap_unfold assms(1) handleCloudEventsResult_def split: option.splits prod.splits)
  have x: "exts (SetDelay ?e d) = mput ExtDelayMs (AInt64 (quot d millisecond)) (exts left)"
    by (simp add: SetDelay_def SetDelayMs_def WithExtension_def dur_millis_def)
  have "wf_map (exts (SetDelay ?e d))" using assms(8) unfolding x by simp
  then have "map_of (Metadata m) ExtDelayMs = Some (dec_int (quot d millisecond))"
    using assms(7) by (auto simp: toWatermill_Inr ext_metadata_lookup x ext_text_def)
  with r v assms(7) show ?thesis by (auto simp: toWatermill_Inr mget_def)
qed

text \<open>
  Delayed retry. For a retry-after error below the limit, on a transport with delays, the event
  is published again to its own topic, carrying the raised attempt number and the delay in
  milliseconds both for the consumer and in the message's metadata; the original is
  acknowledged exactly when that succeeded, and otherwise the handler's error is returned.
\<close>

theorem retry_after_republishes:
  assumes "h (delivered msg) w = (Some err, left, w1)"
    "ClassifyError (Some err) = (ResultRetryAfter, d)"
    "\<not> ExceedsMaxAttempts (shared_part (delivered msg) left)"
    "SupportsDelay (svc_capabilities s (svc_system s))"
    "svc_publisher s = Some publish" "Validate (delivered msg) = None"
    "toWatermillMessage (SetDelay (shared_part (delivered msg) left) d) = Inr m"
    "wf_map (exts left)"
  shows "wrapCloudEventsHandler s et h msg w =
      (case publish (Type (delivered msg)) m w1 of
         (None, w2) \<Rightarrow> (None, w2)
       | (Some _, w2) \<Rightarrow> (Some err, w2))
    \<and> mget (Metadata m) ExtDelayMs = dec_int (quot d millisecond)
    \<and> UUID m = ID (delivered msg)"
  using retry_after_sent [of h, OF assms] .

text \<open>A publisher that records the topics, and a message that is no CloudEvent.\<close>

definition topic_log :: "string list publisher" where
  "topic_log topic msg w = (None, w @ [topic])"

definition raw_message :: message where
  "raw_message = \<lparr>UUID = ''u1'', Metadata = [(''ce_type'', ''job'')], Payload = ''x''\<rparr>"

definition log_service :: "string list service" where
  "log_service = \<lparr>svc_publisher = Some topic_log, svc_system = ''sqlite'', svc_capabilities = (\<lambda>_. SQLiteCapabilities)\<rparr>"

lemma not_isl: "\<not> isl r \<Longrightarrow> \<exists>x. r = Inr x"
  by (cases r) auto

lemma dead_letter_topic_witness:
  "sendToCloudEventsDLQ log_service ''order.created'' sample_event (Some (Sentinel ErrDeadLetter)) []
   = (None, [''order.created''])"
proof -
  have "\<not> isl (toWatermillMessage (PrepareForDLQ sample_event ''order.created'' (Some (Sentinel ErrDeadLetter))))"
    "Validate sample_event = None"
    by code_simp+
  then obtain m where
    "toWatermillMessage (PrepareForDLQ sample_event ''order.created'' (Some (Sentinel ErrDeadLetter))) = Inr m"
    "Validate sample_event = None"
    using not_isl by blast
  from dead_letter_topic [of log_service topic_log, OF _ this(2,1)] show ?thesis
    by (simp add: log_service_def topic_log_def sample_event_def New_def)
qed

text \<open>
  A handler that fails and counts its calls, plain and behind a registration with a limit of one.
\<close>

definition failing :: "string list handler" where
  "failing evt w = (Some (Plain ''boom''), evt, w @ [''call''])"

lemma plain_retry_never_exceeds_witness:
  "length (fst (redeliver (log_service, ''job'', failing) raw_message 100 [])) = 100
   \<and> list_all (\<lambda>r. r \<noteq> None) (fst (redeliver (log_service, ''job'', failing) raw_message 100 []))
   \<and> fst (redeliver (log_service, ''job'', \<lambda>evt. failing (SetMaxAttempts evt 1)) raw_message 100 []) = [None]"
proof -
  have c: "fst (ClassifyError (Some (Plain ''boom''))) = ResultRetry"
    by (simp add: ClassifyError_def errors_as_retry_after.simps errors_is_requests requests_def nodes.simps)
  have "\<not> ExceedsMaxAttempts (shared_part (delivered raw_message) (delivered raw_message))" by code_simp
  then have b: "\<forall>w. \<not> ExceedsMaxAttempts (left_event failing raw_message w)" by (simp add: failing_def)
  have "ExceedsMaxAttempts (shared_part (delivered raw_message) (SetMaxAttempts (delivered raw_message) 1))" by code_simp
  then have x: "ExceedsMaxAttempts (left_event (\<lambda>evt. failing (SetMaxAttempts evt 1)) raw_message [])" by (simp add: failing_def)
  have f: "\<exists>err. fst (failing evt w) = Some err \<and> fst (ClassifyError (Some err)) = ResultRetry" for evt w
    using c by (simp add: failing_def)
  from plain_retry_never_exceeds [of failing raw_message log_service "''job''" 100 "[]", OF f] b
    plain_retry_never_exceeds [of "\<lambda>evt. failing (SetMaxAttempts evt 1)" raw_message log_service "''job''" 99 "[]", OF f] x
  show ?thesis by simp
qed

lemma retry_after_republishes_witness:
  "wrapCloudEventsHandler log_service ''job'' (\<lambda>evt w. (Some (RetryAfterError 2500000000 None), evt, w)) raw_message []
   = (None, [''job''])"
proof -
  let ?x = "SetDelay (shared_part (delivered raw_message) (delivered raw_message)) 2500000000"
  have "\<not> isl (toWatermillMessage ?x)" by code_simp
  then obtain m where m: "toWatermillMessage ?x = Inr m" using not_isl by blast
  have e: "\<not> ExceedsMaxAttempts (shared_part (delivered raw_message) (delivered raw_message))"
    "Validate (delivered raw_message) = None" "wf_map (exts (delivered raw_message))"
    "Type (delivered raw_message) = ''job''"
    by code_simp+
  have c: "ClassifyError (Some (RetryAfterError 2500000000 None)) = (ResultRetryAfter, 2500000000)"
    by (simp add: ClassifyError_def errors_as_retry_after.simps)
  have p: "svc_publisher log_service = Some topic_log" by (simp add: log_service_def)
  have d: "SupportsDelay (svc_capabilities log_service (svc_system log_service))"
    by (simp add: log_service_def SQLiteCapabilities_def)
  from retry_after_republishes [where h = "\<lambda>evt w. (Some (RetryAfterError 2500000000 None), evt, w)" and w = "[]",
      OF refl c e(1) d p e(2) m e(3), of "''job''"] e(4)
  show ?thesis by (simp add: topic_log_def)
qed

section \<open>Registration\<close>

text \<open>
  A handler registered with a maximum of attempts decides by it: the consumer put on the router
  listens on the topic of the event type, is named after it whatever name the registration
  gives, and hands the handler an event whose limit is the registered one, or 3 when the
  registration has none.
\<close>

theorem registration_sets_limit:
  assumes "reg_Handler reg = Some h" "reg_EventType reg \<noteq> []"
  shows "\<exists>con. RegisterCloudEventsHandler (Some s) reg cons = (None, cons @ [con])
    \<and> con_topic con = reg_EventType reg \<and> con_name con = ''cloudevents-'' @ reg_EventType reg
    \<and> con_handler con msg w =
        (case h (SetMaxAttempts (delivered msg)
                  (if reg_MaxAttempts reg \<le> 0 then 3 else reg_MaxAttempts reg)) w of
           (err, left, w') \<Rightarrow>
             handleCloudEventsResult s (reg_EventType reg) (shared_part (delivered msg) left) err w')
    \<and> GetMaxAttempts (SetMaxAttempts (delivered msg)
                  (if reg_MaxAttempts reg \<le> 0 then 3 else reg_MaxAttempts reg))
        = (if reg_MaxAttempts reg \<le> 0 then 3 else reg_MaxAttempts reg)"
  using assms
  by (auto simp: RegisterCloudEventsHandler_def ConsumeEvents_def Let_def DefaultMaxAttempts_def wrap_unfold
      GetMaxAttempts_def SetMaxAttempts_def ext_simps fun_eq_iff)

lemma registration_sets_limit_witness:
  "\<exists>con. RegisterCloudEventsHandler (Some log_service)
      \<lparr>reg_Name = ''mine'', reg_EventType = ''job'', reg_Handler = Some (\<lambda>evt w. (None, evt, w)), reg_MaxAttempts = 0\<rparr> []
     = (None, [con]) \<and> con_name con = ''cloudevents-job''"
  using registration_sets_limit [of "\<lparr>reg_Name = ''mine'', reg_EventType = ''job'',
      reg_Handler = Some (\<lambda>evt w. (None, evt, w)), reg_MaxAttempts = 0\<rparr>" "\<lambda>evt w. (None, evt, w)" log_service "[]" raw_message "[]"]
  by auto

section \<open>What a publisher promises\<close>

text \<open>
  A message as a queue hands it out again: the same message, its metadata in the order of the keys.
\<close>

definition norm_message :: "message \<Rightarrow> message" where
  "norm_message m = m\<lparr>Metadata := by_key (Metadata m)\<rparr>"

lemma norm_message_simps [simp]: "UUID (norm_message m) = UUID m" "Payload (norm_message m) = Payload m"
  by (simp_all add: norm_message_def)

lemma wf_set_opt: "wf_map m \<Longrightarrow> wf_map (set_opt k v m)"
  by (simp add: set_opt_def split: option.splits)

lemma wf_core_metadata: "wf_map (core_metadata e)"
  by (simp add: core_metadata_def Let_def wf_set_opt)

lemma wf_ext_metadata: "wf_map m \<Longrightarrow> wf_map (ext_metadata es m)"
  by (induction es m rule: ext_metadata.induct) (auto simp: wf_set_opt)

lemma wf_toWatermill: "toWatermillMessage e = Inr m \<Longrightarrow> wf_map (Metadata m)"
  by (auto simp: toWatermill_Inr wf_ext_metadata wf_core_metadata)

lemma handle_cases:
  "handleCloudEventsResult s et e err w
     \<in> {(err, w), (None, w), sendToCloudEventsDLQ s et e err w,
        case PublishEvent (Some s) (SetDelay e (snd (ClassifyError err))) w of
          (Some _, w') \<Rightarrow> (err, w') | (None, w') \<Rightarrow> (None, w')}"
proof -
  obtain a d where c: "ClassifyError err = (a, d)" by (cases "ClassifyError err")
  show ?thesis by (cases a) (simp_all add: handleCloudEventsResult_def c)
qed

text \<open>
  A publisher of a queue: a successful call adds exactly the message, under its topic, behind
  everything that waits; a failed call changes nothing that waits.
\<close>

locale message_sink =
  fixes publish :: "'w publisher"
    and queued :: "'w \<Rightarrow> (string \<times> message) list"
  assumes publish_ok:
      "publish t m w = (None, w') \<Longrightarrow> wf_map (Metadata m) \<Longrightarrow> queued w' = queued w @ [(t, norm_message m)]"
    and publish_err: "publish t m w = (Some e, w') \<Longrightarrow> queued w' = queued w"
begin

lemma PublishEvent_queued:
  assumes "svc_publisher s = Some publish" "PublishEvent (Some s) e w = (r, w')"
  shows "(\<exists>err. r = Some err \<and> queued w' = queued w)
    \<or> (\<exists>m. r = None \<and> toWatermillMessage e = Inr m \<and> queued w' = queued w @ [(Type e, norm_message m)])"
proof (cases "Validate e = None \<and> \<not> isl (toWatermillMessage e)")
  case True
  then obtain m where m: "toWatermillMessage e = Inr m" by (cases "toWatermillMessage e") auto
  with True assms have "publish (Type e) m w = (r, w')" by (simp add: PublishEvent_def)
  with m publish_ok publish_err wf_toWatermill [OF m] show ?thesis by (cases r) auto
next
  case False
  with assms show ?thesis by (auto simp: PublishEvent_def isl_def split: option.splits sum.splits)
qed

lemma handle_result_queued:
  assumes "svc_publisher s = Some publish" "handleCloudEventsResult s et e err w = (r, w')"
  shows "queued w' = queued w
    \<or> (\<exists>m. r = None \<and> queued w' = queued w @ [(Type e, m)] \<and> UUID m = ID e)"
proof -
  have p: "queued (snd (PublishEvent (Some s) x w)) = queued w
      \<or> (\<exists>m. fst (PublishEvent (Some s) x w) = None \<and> queued (snd (PublishEvent (Some s) x w)) = queued w @ [(Type x, m)]
          \<and> UUID m = ID x)" for x
    using PublishEvent_queued [OF assms(1), of x w]
    by (cases "PublishEvent (Some s) x w") (fastforce simp: toWatermill_Inr)
  show ?thesis
    using handle_cases [of s et e err w] assms(2) p [of "SetDelay e (snd (ClassifyError err))"]
      p [of "PrepareForDLQ e et err"]
    by (cases "PublishEvent (Some s) (SetDelay e (snd (ClassifyError err))) w")
      (auto simp: sendDLQ_result split: option.splits)
qed

text \<open>
  A consumer whose handler leaves the queue alone publishes at most one message, to the topic of
  the event's type and with the event's id, and only when it acknowledges the original.
\<close>

lemma consume_queued:
  assumes "svc_publisher s = Some publish" "h (delivered msg) w = (err, left, w1)" "queued w1 = queued w"
    "wrapCloudEventsHandler s et h msg w = (r, w')"
  shows "queued w' = queued w
    \<or> (\<exists>m. r = None \<and> queued w' = queued w @ [(Type (delivered msg), m)] \<and> UUID m = ID (delivered msg))"
  using handle_result_queued [OF assms(1), of et "shared_part (delivered msg) left" err w1 r w'] assms
  by (simp add: wrap_unfold)

end

end
