(* ===== verification/Sql_Table.thy ===== *)
theory Sql_Table
  imports Ce_Api
begin

text \<open>
  The two tables of the SQL transports (\<open>initSchema\<close> in \<open>transport/sqlite/sqlite.go\<close> and
  \<open>transport/postgres/postgres.go\<close>) and the statements the transports run on them. Rows are kept
  in the order of their ids. A column of metadata is a parameter: text in SQLite, a JSON value
  in Postgres. Times are instants in nanoseconds. A statement fails only on the constraint
  \<open>UNIQUE(uuid)\<close>; failures of the connection are not modelled.
\<close>

section \<open>Rows\<close>

record 'm msg_row =
  row_id :: int
  row_uuid :: string
  row_topic :: string
  row_payload :: string
  row_metadata :: 'm
  row_created :: int
  row_available :: int
  row_locked :: "int option"
  row_retries :: int
  row_status :: string

record 'm dlq_row =
  dlq_id :: int
  dlq_uuid :: string
  dlq_topic :: string
  dlq_payload :: string
  dlq_metadata :: 'm
  dlq_error :: string
  dlq_failed :: int
  dlq_retries :: int

record 'm db =
  messages :: "'m msg_row list"
  next_id :: int
  dead :: "'m dlq_row list"
  next_dlq :: int

definition empty_db :: "'m db" where
  "empty_db = \<lparr>messages = [], next_id = 1, dead = [], next_dlq = 1\<rparr>"

section \<open>Statements\<close>

text \<open>The columns an insertion names; the others take their defaults.\<close>

record 'm new_row =
  new_uuid :: string
  new_topic :: string
  new_payload :: string
  new_metadata :: 'm
  new_available :: int

definition make_row :: "int \<Rightarrow> int \<Rightarrow> 'm new_row \<Rightarrow> 'm msg_row" where
  "make_row i created n =
     \<lparr>row_id = i, row_uuid = new_uuid n, row_topic = new_topic n, row_payload = new_payload n,
      row_metadata = new_metadata n, row_created = created, row_available = new_available n,
      row_locked = None, row_retries = 0, row_status = ''pending''\<rparr>"

definition uuids :: "'m db \<Rightarrow> string list" where
  "uuids d = map row_uuid (messages d)"

definition insert_row :: "int \<Rightarrow> 'm new_row \<Rightarrow> 'm db \<Rightarrow> 'm db option" where
  "insert_row created n d =
     (if new_uuid n \<in> set (uuids d) then None
      else Some (d\<lparr>messages := messages d @ [make_row (next_id d) created n], next_id := next_id d + 1\<rparr>))"

fun insert_rows :: "int \<Rightarrow> 'm new_row list \<Rightarrow> 'm db \<Rightarrow> 'm db option" where
  "insert_rows created [] d = Some d"
| "insert_rows created (n # ns) d =
     (case insert_row created n d of None \<Rightarrow> None | Some d' \<Rightarrow> insert_rows created ns d')"

definition find_row :: "int \<Rightarrow> 'm db \<Rightarrow> 'm msg_row option" where
  "find_row i d = find (\<lambda>r. row_id r = i) (messages d)"

definition update_row :: "int \<Rightarrow> ('m msg_row \<Rightarrow> 'm msg_row) \<Rightarrow> 'm db \<Rightarrow> 'm db" where
  "update_row i f d = d\<lparr>messages := map (\<lambda>r. if row_id r = i then f r else r) (messages d)\<rparr>"

definition delete_row :: "int \<Rightarrow> 'm db \<Rightarrow> 'm db" where
  "delete_row i d = d\<lparr>messages := filter (\<lambda>r. row_id r \<noteq> i) (messages d)\<rparr>"

text \<open>The condition of the polling query, and its first row in the order of \<open>available_at\<close>.\<close>

definition fetchable :: "string \<Rightarrow> int \<Rightarrow> 'm msg_row \<Rightarrow> bool" where
  "fetchable topic now r \<longleftrightarrow>
     row_topic r = topic \<and> row_status r = ''pending'' \<and> row_available r \<le> now
     \<and> (case row_locked r of None \<Rightarrow> True | Some l \<Rightarrow> l < now)"

definition next_row :: "string \<Rightarrow> int \<Rightarrow> 'm db \<Rightarrow> 'm msg_row option" where
  "next_row topic now d =
     (case filter (fetchable topic now) (sort_key row_available (messages d)) of
        [] \<Rightarrow> None
      | r # _ \<Rightarrow> Some r)"

definition dead_row :: "int \<Rightarrow> int \<Rightarrow> 'm msg_row \<Rightarrow> 'm dlq_row" where
  "dead_row i failed r =
     \<lparr>dlq_id = i, dlq_uuid = row_uuid r, dlq_topic = row_topic r, dlq_payload = row_payload r,
      dlq_metadata = row_metadata r, dlq_error = ''max retries exceeded'', dlq_failed = failed,
      dlq_retries = row_retries r\<rparr>"

text \<open>\<open>INSERT INTO dead_letter_queue ... SELECT ... FROM messages WHERE id = ?\<close>\<close>

definition insert_dead :: "int \<Rightarrow> int \<Rightarrow> 'm db \<Rightarrow> 'm db" where
  "insert_dead failed i d =
     (case find_row i d of
        None \<Rightarrow> d
      | Some r \<Rightarrow> d\<lparr>dead := dead d @ [dead_row (next_dlq d) failed r], next_dlq := next_dlq d + 1\<rparr>)"

definition delete_dead :: "('m dlq_row \<Rightarrow> bool) \<Rightarrow> 'm db \<Rightarrow> 'm db" where
  "delete_dead P d = d\<lparr>dead := filter (\<lambda>x. \<not> P x) (dead d)\<rparr>"

definition pending_count :: "string \<Rightarrow> 'm db \<Rightarrow> int" where
  "pending_count topic d =
     int (length (filter (\<lambda>r. row_topic r = topic \<and> row_status r = ''pending'') (messages d)))"

definition dlq_count :: "string \<Rightarrow> 'm db \<Rightarrow> int" where
  "dlq_count topic d = int (length (filter (\<lambda>x. dlq_topic x = topic) (dead d)))"

section \<open>Metadata columns\<close>

definition metadata_json :: "(string \<times> string) list \<Rightarrow> json" where
  "metadata_json m = JObj (by_key (map (\<lambda>(k, v). (k, JStr v)) m))"

text \<open>\<open>json.Unmarshal\<close> into a \<open>map[string]string\<close>: a member that is no string reads as empty.\<close>

definition json_metadata :: "json \<Rightarrow> (string \<times> string) list" where
  "json_metadata j =
     (case j of
        JObj kvs \<Rightarrow> mputs (map (\<lambda>(k, x). (k, case x of JStr s \<Rightarrow> s | _ \<Rightarrow> [])) kvs) []
      | _ \<Rightarrow> [])"

definition metadata_text :: "(string \<times> string) list \<Rightarrow> string" where
  "metadata_text m = json_text (metadata_json m)"

definition text_metadata :: "string \<Rightarrow> (string \<times> string) list" where
  "text_metadata s =
     (if s = [] then [] else case json_parse s of None \<Rightarrow> [] | Some j \<Rightarrow> json_metadata j)"

lemma insort_map:
  "insort_key fst (k, f v) (map (\<lambda>(k, v). (k, f v)) xs) = map (\<lambda>(k, v). (k, f v)) (insort_key fst (k, v) xs)"
  by (induction xs) auto

lemma by_key_map: "by_key (map (\<lambda>(k, v). (k, f v)) m) = map (\<lambda>(k, v). (k, f v)) (by_key m)"
  unfolding by_key_def by (induction m) (auto simp: insort_map)

lemma json_metadata_inverse: "wf_map m \<Longrightarrow> json_metadata (metadata_json m) = by_key m"
  unfolding metadata_json_def json_metadata_def by_key_map
  by (simp add: mputs_copy case_prod_unfold comp_def)

lemma text_metadata_inverse: "wf_map m \<Longrightarrow> text_metadata (metadata_text m) = by_key m"
proof -
  assume "wf_map m"
  have "wf_json (metadata_json m)"
    by (auto simp: metadata_json_def list_all_iff)
  then have "json_parse (metadata_text m) = Some (metadata_json m)"
    by (simp add: metadata_text_def json_parse_text)
  moreover have "metadata_text m \<noteq> []"
    by (simp add: metadata_text_def metadata_json_def)
  ultimately show ?thesis
    using \<open>wf_map m\<close> by (simp add: text_metadata_def json_metadata_inverse)
qed

section \<open>The transports' interface\<close>

text \<open>How the wait for a message ends: acknowledged, refused, or the subscription ends first.\<close>

datatype outcome = Acked | Nacked | Cancelled | TransportClosed

text \<open>
  Where a call of \<open>nackMessage\<close> is, whose statements are not one transaction: before the query of the
  retry count, past it with the limit reached or with a count below it, past the reading of the
  clock, and (in SQLite) between the two statements that move the row to the dead letter queue.
\<close>

datatype refusal = Asked | Limit | Copied | Below int | Due int

text \<open>A call that nobody gets in the way of: one part after another, at most three in all.\<close>

primrec refuse_all :: "nat \<Rightarrow> (refusal \<Rightarrow> 's \<Rightarrow> refusal option \<times> 's) \<Rightarrow> refusal \<Rightarrow> 's \<Rightarrow> 's" where
  "refuse_all 0 f c s = s"
| "refuse_all (Suc n) f c s =
     (case f c s of (None, s') \<Rightarrow> s' | (Some c', s') \<Rightarrow> refuse_all n f c' s')"

fun parts_left :: "refusal \<Rightarrow> nat" where
  "parts_left Asked = 3"
| "parts_left Limit = 2"
| "parts_left (Below n) = 2"
| "parts_left _ = 1"

lemma refuse_all_enough:
  assumes "\<And>c s c' s'. f c s = (Some c', s') \<Longrightarrow> parts_left c' < parts_left c" "parts_left c \<le> n"
  shows "refuse_all n f c s = refuse_all (parts_left c) f c s"
  using assms(2)
proof (induction n arbitrary: c s rule: less_induct)
  case (less n)
  obtain m where m: "parts_left c = Suc m" by (cases c) auto
  then obtain k where n: "n = Suc k" using less.prems by (cases n) auto
  show ?case
  proof (cases "f c s")
    case (Pair q s')
    show ?thesis
    proof (cases q)
      case None
      with Pair m n show ?thesis by simp
    next
      case (Some c')
      have l: "parts_left c' \<le> m" using assms(1) [of c s c' s'] Pair Some m by simp
      then have "refuse_all k f c' s' = refuse_all (parts_left c') f c' s'"
        "refuse_all m f c' s' = refuse_all (parts_left c') f c' s'"
        using less.IH [of k c' s'] less.IH [of m c' s'] less.prems m n by simp_all
      then show ?thesis using Pair Some m n by simp
    qed
  qed
qed

text \<open>An entry of the dead letter queue as the transports list it, and a page of the list.\<close>

record DLQMessage =
  dm_ID :: int
  dm_UUID :: string
  dm_OriginalTopic :: string
  dm_Payload :: string
  dm_Metadata :: "(string \<times> string) list"
  dm_ErrorMessage :: string
  dm_FailedAt :: int
  dm_RetryCount :: int

definition page :: "int \<Rightarrow> int \<Rightarrow> 'a list \<Rightarrow> 'a list" where
  "page limit off xs =
     (let ys = drop (nat off) xs in if limit < 0 then ys else take (nat limit) ys)"

text \<open>
  When a published message falls due: now, or after its \<open>protoflow_delay\<close> when that is a duration.
\<close>

definition available_at :: "int \<Rightarrow> message \<Rightarrow> int" where
  "available_at now msg =
     (let delayStr = mget (Metadata msg) ''protoflow_delay''
      in if delayStr = [] then now
         else case parse_duration delayStr of Some delay \<Rightarrow> now + delay | None \<Rightarrow> now)"

section \<open>What the statements do\<close>

text \<open>Ids and uuids are unique and ids are below the sequence.\<close>

definition wf_db :: "'m db \<Rightarrow> bool" where
  "wf_db d \<longleftrightarrow>
     distinct (map row_id (messages d)) \<and> list_all (\<lambda>r. row_id r < next_id d) (messages d)
     \<and> distinct (uuids d)
     \<and> distinct (map dlq_id (dead d)) \<and> list_all (\<lambda>x. dlq_id x < next_dlq d) (dead d)
     \<and> list_all (\<lambda>r. row_status r = ''pending'' \<and> 0 \<le> row_retries r) (messages d)"

lemma wf_empty_db: "wf_db empty_db"
  by (simp add: wf_db_def empty_db_def uuids_def)

lemma make_row_simps [simp]:
  "row_id (make_row i c n) = i" "row_uuid (make_row i c n) = new_uuid n" "row_topic (make_row i c n) = new_topic n"
  "row_payload (make_row i c n) = new_payload n" "row_metadata (make_row i c n) = new_metadata n"
  "row_available (make_row i c n) = new_available n" "row_locked (make_row i c n) = None"
  "row_retries (make_row i c n) = 0" "row_status (make_row i c n) = ''pending''"
  by (simp_all add: make_row_def)

lemma wf_insert_row: "wf_db d \<Longrightarrow> insert_row c n d = Some d' \<Longrightarrow> wf_db d'"
proof -
  assume w: "wf_db d" and i: "insert_row c n d = Some d'"
  then have d': "d' = d\<lparr>messages := messages d @ [make_row (next_id d) c n], next_id := next_id d + 1\<rparr>"
    and u: "new_uuid n \<notin> set (uuids d)"
    by (auto simp: insert_row_def split: if_splits)
  have "next_id d \<notin> set (map row_id (messages d))" "list_all (\<lambda>r. row_id r < next_id d + 1) (messages d)"
    using w by (force simp: wf_db_def list_all_iff)+
  with w u show "wf_db d'" by (simp add: d' wf_db_def uuids_def)
qed

lemma wf_insert_rows: "wf_db d \<Longrightarrow> insert_rows c ns d = Some d' \<Longrightarrow> wf_db d'"
  by (induction c ns d rule: insert_rows.induct) (auto split: option.splits dest: wf_insert_row)

lemma insert_rows_messages:
  assumes "insert_rows c ns d = Some d'"
  shows "\<exists>rs. messages d' = messages d @ rs \<and> map row_uuid rs = map new_uuid ns
     \<and> map row_topic rs = map new_topic ns \<and> map row_payload rs = map new_payload ns
     \<and> map row_metadata rs = map new_metadata ns \<and> map row_available rs = map new_available ns
     \<and> list_all (\<lambda>r. row_retries r = 0 \<and> row_locked r = None \<and> row_status r = ''pending'') rs
     \<and> dead d' = dead d \<and> next_dlq d' = next_dlq d"
  using assms
proof (induction c ns d rule: insert_rows.induct)
  case (1 c d)
  then show ?case by simp
next
  case (2 c n ns d)
  then obtain d1 where d1: "insert_row c n d = Some d1" "insert_rows c ns d1 = Some d'"
    by (auto split: option.splits)
  from "2.IH" [OF d1] obtain rs where rs: "messages d' = messages d1 @ rs" "map row_uuid rs = map new_uuid ns"
    "map row_topic rs = map new_topic ns" "map row_payload rs = map new_payload ns"
    "map row_metadata rs = map new_metadata ns" "map row_available rs = map new_available ns"
    "list_all (\<lambda>r. row_retries r = 0 \<and> row_locked r = None \<and> row_status r = ''pending'') rs"
    "dead d' = dead d1" "next_dlq d' = next_dlq d1"
    by blast
  have "messages d1 = messages d @ [make_row (next_id d) c n]" "dead d1 = dead d" "next_dlq d1 = next_dlq d"
    using d1(1) by (auto simp: insert_row_def split: if_splits)
  with rs show ?case by (intro exI [of _ "make_row (next_id d) c n # rs"]) simp
qed

text \<open>The insertions of one transaction succeed exactly when no id occurs twice.\<close>

lemma insert_rows_defined:
  "insert_rows c ns d \<noteq> None \<longleftrightarrow>
     distinct (map new_uuid ns) \<and> set (map new_uuid ns) \<inter> set (uuids d) = {}"
proof (induction c ns d rule: insert_rows.induct)
  case (1 c d)
  then show ?case by simp
next
  case (2 c n ns d)
  show ?case
  proof (cases "insert_row c n d")
    case None
    then show ?thesis by (auto simp: insert_row_def split: if_splits)
  next
    case (Some d1)
    then have "set (uuids d1) = insert (new_uuid n) (set (uuids d))" "new_uuid n \<notin> set (uuids d)"
      by (auto simp: insert_row_def uuids_def split: if_splits)
    with Some 2 [OF Some] show ?thesis by auto
  qed
qed

lemma find_row_SomeD:
  assumes "find_row i d = Some r"
  shows "r \<in> set (messages d)" "row_id r = i"
  using assms by (auto simp: find_row_def find_Some_iff)

lemma find_row_unique: "wf_db d \<Longrightarrow> r \<in> set (messages d) \<Longrightarrow> find_row (row_id r) d = Some r"
  unfolding wf_db_def find_row_def
  by (induction "messages d" arbitrary: d) (auto simp: find_Some_iff in_set_conv_nth distinct_conv_nth) 

lemma next_row_SomeD:
  assumes "next_row topic now d = Some r"
  shows "r \<in> set (messages d)" "fetchable topic now r"
    "\<forall>x \<in> set (messages d). fetchable topic now x \<longrightarrow> row_available r \<le> row_available x"
proof -
  from assms obtain rs where f: "filter (fetchable topic now) (sort_key row_available (messages d)) = r # rs"
    by (auto simp: next_row_def split: list.splits)
  have s: "sorted (map row_available (filter (fetchable topic now) (sort_key row_available (messages d))))"
    by (simp add: sorted_filter)
  have m: "set (r # rs) = {x \<in> set (messages d). fetchable topic now x}"
    unfolding f [symmetric] by auto
  show "r \<in> set (messages d)" "fetchable topic now r" using m by auto
  show "\<forall>x \<in> set (messages d). fetchable topic now x \<longrightarrow> row_available r \<le> row_available x"
    using s m unfolding f by auto
qed

lemma next_row_None: "next_row topic now d = None \<longleftrightarrow> (\<forall>r \<in> set (messages d). \<not> fetchable topic now r)"
proof -
  have "next_row topic now d = None \<longleftrightarrow> filter (fetchable topic now) (sort_key row_available (messages d)) = []"
    by (simp add: next_row_def split: list.splits)
  then show ?thesis by (simp add: filter_empty_conv)
qed

lemma wf_delete_row: "wf_db d \<Longrightarrow> wf_db (delete_row i d)"
  by (auto simp: wf_db_def delete_row_def uuids_def list_all_iff distinct_map inj_on_def)

definition keeps :: "('m msg_row \<Rightarrow> 'm msg_row) \<Rightarrow> bool" where
  "keeps f \<longleftrightarrow> (\<forall>r. row_id (f r) = row_id r \<and> row_uuid (f r) = row_uuid r \<and> row_topic (f r) = row_topic r
     \<and> row_payload (f r) = row_payload r \<and> row_metadata (f r) = row_metadata r
     \<and> row_status (f r) = row_status r \<and> row_retries r \<le> row_retries (f r))"

lemma update_row_keeps:
  assumes "keeps f"
  shows "map row_id (messages (update_row i f d)) = map row_id (messages d)"
    "uuids (update_row i f d) = uuids d" "dead (update_row i f d) = dead d"
    "next_id (update_row i f d) = next_id d" "next_dlq (update_row i f d) = next_dlq d"
  using assms by (auto simp: update_row_def uuids_def keeps_def)

lemma wf_update_row:
  "keeps f \<Longrightarrow> wf_db d \<Longrightarrow> wf_db (update_row i f d)"
proof -
  assume k: "keeps f" and w: "wf_db d"
  have "row_id x < next_id d \<and> row_status x = ''pending'' \<and> 0 \<le> row_retries x"
    if x: "x \<in> set (messages (update_row i f d))" for x
  proof -
    from x obtain r where r: "r \<in> set (messages d)" "x = (if row_id r = i then f r else r)"
      by (auto simp: update_row_def)
    then have "row_id r < next_id d \<and> row_status r = ''pending'' \<and> 0 \<le> row_retries r"
      using w by (auto simp: wf_db_def list_all_iff)
    then show ?thesis using r(2) k by (auto simp: keeps_def intro: order_trans)
  qed
  then show "wf_db (update_row i f d)"
    using w update_row_keeps [OF k, of i d] by (simp add: wf_db_def list_all_iff)
qed

lemma wf_insert_dead: "wf_db d \<Longrightarrow> wf_db (insert_dead t i d)"
  by (auto simp: wf_db_def insert_dead_def dead_row_def uuids_def list_all_iff split: option.splits)

lemma wf_delete_dead: "wf_db d \<Longrightarrow> wf_db (delete_dead P d)"
  by (auto simp: wf_db_def delete_dead_def uuids_def list_all_iff distinct_map inj_on_def)

section \<open>Rows by id\<close>

lemma find_update:
  assumes "\<And>r. row_id (f r) = row_id r"
  shows "find_row i (update_row i f d) = map_option f (find_row i d)"
proof -
  have "find (\<lambda>r. row_id r = i) (map (\<lambda>r. if row_id r = i then f r else r) xs)
      = map_option f (find (\<lambda>r. row_id r = i) xs)" for xs
    by (induction xs) (auto simp: assms)
  then show ?thesis by (simp add: find_row_def update_row_def)
qed

lemma find_delete: "find_row i (delete_row i d) = None"
  by (simp add: find_row_def delete_row_def find_None_iff)

lemma find_row_dead [simp]: "find_row i (insert_dead c j d) = find_row i d"
  by (simp add: find_row_def insert_dead_def split: option.splits)

lemma filter_find:
  "distinct (map row_id xs) \<Longrightarrow> find (\<lambda>r. row_id r = i) xs = Some r \<Longrightarrow> filter (\<lambda>r. row_id r = i) xs = [r]"
proof (induction xs)
  case Nil
  then show ?case by simp
next
  case (Cons x xs)
  show ?case
  proof (cases "row_id x = i")
    case True
    have "row_id y \<noteq> row_id x" if "y \<in> set xs" for y
      using that Cons.prems(1) by (metis distinct.simps(2) image_eqI list.set_map list.simps(9))
    with True have "filter (\<lambda>r. row_id r = i) xs = []"
      by (simp add: filter_empty_conv)
    with True Cons.prems show ?thesis by simp
  next
    case False
    with Cons show ?thesis by simp
  qed
qed

lemma delete_locked: "delete_row i (update_row i f d) = delete_row i d" if "\<And>r. row_id (f r) = row_id r"
proof -
  have "filter (\<lambda>r. row_id r \<noteq> i) (map (\<lambda>r. if row_id r = i then f r else r) xs) = filter (\<lambda>r. row_id r \<noteq> i) xs" for xs
    by (induction xs) (auto simp: that)
  then show ?thesis by (simp add: delete_row_def update_row_def)
qed

lemma keeps_lock: "keeps (\<lambda>x :: 'm msg_row. x\<lparr>row_locked := l\<rparr>)"
  and keeps_retry: "keeps (\<lambda>x :: 'm msg_row. x\<lparr>row_retries := row_retries x + 1, row_locked := None, row_available := a\<rparr>)"
  by (simp_all add: keeps_def)

section \<open>Waiting in line\<close>

text \<open>The rows of a topic that fall due no later than a given one.\<close>

definition ahead :: "string \<Rightarrow> 'm msg_row \<Rightarrow> 'm db \<Rightarrow> nat" where
  "ahead topic x d =
     length (filter (\<lambda>r. row_topic r = topic \<and> row_available r \<le> row_available x \<and> row_id r \<noteq> row_id x) (messages d))"

lemma ahead_unchanged:
  assumes "\<And>r. row_id (f r) = row_id r \<and> row_topic (f r) = row_topic r \<and> row_available (f r) = row_available r"
  shows "ahead topic x (update_row i f d) = ahead topic x d"
proof -
  let ?g = "\<lambda>r. if row_id r = i then f r else r"
  have "row_id (?g r) = row_id r" "row_topic (?g r) = row_topic r" "row_available (?g r) = row_available r" for r
    using assms [of r] by auto
  then show ?thesis unfolding ahead_def update_row_def by (simp add: filter_map comp_def)
qed

lemma ahead_insert_dead [simp]: "ahead topic x (insert_dead c i d) = ahead topic x d"
  by (simp add: ahead_def insert_dead_def split: option.splits)

lemma ahead_less:
  assumes "r \<in> set (messages d)" "row_id r \<noteq> row_id x" "row_topic r = topic" "row_available r \<le> row_available x"
    "length (filter (\<lambda>r. row_topic r = topic \<and> row_available r \<le> row_available x \<and> row_id r \<noteq> row_id x) ys)
      = length (filter (\<lambda>y. row_id y \<noteq> row_id r)
          (filter (\<lambda>r. row_topic r = topic \<and> row_available r \<le> row_available x \<and> row_id r \<noteq> row_id x) (messages d)))"
    "messages d' = ys"
  shows "ahead topic x d' < ahead topic x d"
proof -
  have "r \<in> set (filter (\<lambda>r. row_topic r = topic \<and> row_available r \<le> row_available x \<and> row_id r \<noteq> row_id x) (messages d))"
    using assms(1-4) by simp
  from length_filter_less [OF this, of "\<lambda>y. row_id y \<noteq> row_id r"] show ?thesis
    unfolding ahead_def assms(6) assms(5) by blast
qed

lemma ahead_delete:
  assumes "r \<in> set (messages d)" "row_id r \<noteq> row_id x" "row_topic r = topic" "row_available r \<le> row_available x"
  shows "ahead topic x (delete_row (row_id r) d) < ahead topic x d"
  by (rule ahead_less [OF assms]) (auto simp: delete_row_def conj_ac)

lemma ahead_postpone:
  assumes "r \<in> set (messages d)" "row_id r \<noteq> row_id x" "row_topic r = topic" "row_available r \<le> row_available x"
    "\<And>y. row_available x < row_available (f y)"
  shows "ahead topic x (update_row (row_id r) f d) < ahead topic x d"
proof (rule ahead_less [OF assms(1-4)])
  let ?A = "\<lambda>r. row_topic r = topic \<and> row_available r \<le> row_available x \<and> row_id r \<noteq> row_id x"
  let ?g = "\<lambda>y. if row_id y = row_id r then f y else y"
  have "?A (?g y) \<longleftrightarrow> ?A y \<and> row_id y \<noteq> row_id r" for y using assms(5) [of y] by auto
  then show "length (filter ?A (map ?g (messages d))) = length (filter (\<lambda>y. row_id y \<noteq> row_id r) (filter ?A (messages d)))"
    by (simp only: filter_map comp_def length_map filter_filter)
qed (simp add: update_row_def)

lemma other_row_stays:
  assumes "x \<in> set (messages d)" "row_id x \<noteq> i"
  shows "x \<in> set (messages (update_row i f d))" "x \<in> set (messages (delete_row i d))"
    "x \<in> set (messages (insert_dead c j d))"
  using assms by (force simp: update_row_def delete_row_def insert_dead_def split: option.splits)+

lemma fetchable_later: "fetchable topic now x \<Longrightarrow> now \<le> now' \<Longrightarrow> fetchable topic now' x"
  by (auto simp: fetchable_def split: option.splits)

text \<open>
  How a fetched row leaves the line: it is deleted, dead-lettered, or put off until after \<open>now\<close>.
  Another row that was due keeps its place, with one row less ahead of it.
\<close>

inductive settled :: "int \<Rightarrow> int \<Rightarrow> 'm db \<Rightarrow> 'm db \<Rightarrow> bool" where
  acked: "settled now i d (delete_row i d)"
| dead: "settled now i d (delete_row i (insert_dead c i d))"
| later: "now < a \<Longrightarrow> settled now i d
     (update_row i (\<lambda>y. y\<lparr>row_retries := row_retries y + 1, row_locked := None, row_available := a\<rparr>) d)"

lemma settled_wf: "settled now i d d' \<Longrightarrow> wf_db d \<Longrightarrow> wf_db d'"
  by (induction rule: settled.induct) (simp_all add: wf_delete_row wf_insert_dead wf_update_row keeps_retry)

lemma settled_overtakes:
  assumes "next_row topic now d = Some r" "wf_db d" "x \<in> set (messages d)" "fetchable topic now x" "r \<noteq> x"
    "settled now (row_id r) (update_row (row_id r) (\<lambda>y. y\<lparr>row_locked := l\<rparr>) d) d'"
  shows "wf_db d' \<and> x \<in> set (messages d') \<and> ahead topic x d' < ahead topic x d"
proof -
  let ?d = "update_row (row_id r) (\<lambda>y. y\<lparr>row_locked := l\<rparr>) d" and ?r = "r\<lparr>row_locked := l\<rparr>"
  have r: "r \<in> set (messages d)" "row_topic ?r = topic" "row_available ?r \<le> row_available x"
    using next_row_SomeD [OF assms(1)] assms(3,4) by (auto simp: fetchable_def)
  have i: "row_id ?r \<noteq> row_id x"
    using assms(5) find_row_unique [OF assms(2) r(1)] find_row_unique [OF assms(2,3)] by auto
  have x1: "x \<in> set (messages ?d)" using other_row_stays(1) [OF assms(3)] i by simp
  have a1: "ahead topic x ?d = ahead topic x d" by (simp add: ahead_unchanged)
  have l1: "?r \<in> set (messages ?d)" using r(1) by (force simp: update_row_def)
  have av: "row_available x \<le> now" using assms(4) by (simp add: fetchable_def)
  have "wf_db ?d" using assms(2) by (simp add: wf_update_row keeps_lock)
  then have "wf_db d'" by (rule settled_wf [OF assms(6)])
  moreover from assms(6) have "x \<in> set (messages d') \<and> ahead topic x d' < ahead topic x d"
  proof cases
    case acked
    with ahead_delete [OF l1 i r(2,3)] x1 i show ?thesis by (simp add: other_row_stays a1)
  next
    case (dead c)
    have "?r \<in> set (messages (insert_dead c (row_id r) ?d))" using l1 by (simp add: insert_dead_def split: option.splits)
    from ahead_delete [OF this i r(2,3)] show ?thesis
      unfolding dead using x1 i other_row_stays(3) [OF x1, of "row_id r"] by (simp add: other_row_stays(2) a1)
  next
    case (later a)
    with ahead_postpone [OF l1 i r(2,3)] x1 i av show ?thesis by (simp add: other_row_stays(1) a1)
  qed
  ultimately show ?thesis by blast
qed

section \<open>What a table holds\<close>

text \<open>Topic and payload of the messages of a database, alive and dead.\<close>

definition msg_items :: "'m db \<Rightarrow> (string \<times> string) multiset" where
  "msg_items d = image_mset (\<lambda>r. (row_topic r, row_payload r)) (mset (messages d))"

definition dead_items :: "'m db \<Rightarrow> (string \<times> string) multiset" where
  "dead_items d = image_mset (\<lambda>x. (dlq_topic x, dlq_payload x)) (mset (dead d))"

lemma items_insert_row:
  "insert_row c n d = Some d' \<Longrightarrow>
     msg_items d' = add_mset (new_topic n, new_payload n) (msg_items d) \<and> dead_items d' = dead_items d"
  by (auto simp: insert_row_def msg_items_def dead_items_def split: if_splits)

lemma items_insert_rows:
  "insert_rows c ns d = Some d' \<Longrightarrow>
     msg_items d' = msg_items d + image_mset (\<lambda>n. (new_topic n, new_payload n)) (mset ns) \<and> dead_items d' = dead_items d"
proof (induction c ns d rule: insert_rows.induct)
  case (1 c d)
  then show ?case by simp
next
  case (2 c n ns d)
  then obtain d1 where d1: "insert_row c n d = Some d1" "insert_rows c ns d1 = Some d'"
    by (auto split: option.splits)
  from items_insert_row [OF d1(1)] "2.IH" [OF d1] show ?case by simp
qed

lemma items_update_row:
  assumes "keeps f"
  shows "msg_items (update_row i f d) = msg_items d" "dead_items (update_row i f d) = dead_items d"
proof -
  have e: "row_topic (if row_id r = i then f r else r) = row_topic r"
    "row_payload (if row_id r = i then f r else r) = row_payload r" for r
    using assms by (auto simp: keeps_def)
  show "msg_items (update_row i f d) = msg_items d"
    unfolding msg_items_def update_row_def by (simp add: multiset.map_comp comp_def e)
  show "dead_items (update_row i f d) = dead_items d" by (simp add: dead_items_def update_row_def)
qed

lemma image_filter_split:
  "image_mset f (mset xs) = image_mset f (mset (filter (\<lambda>x. \<not> P x) xs)) + image_mset f (mset (filter P xs))"
  by (induction xs) auto

lemma find_row_None: "find_row i d = None \<longleftrightarrow> (\<forall>r \<in> set (messages d). row_id r \<noteq> i)"
  by (auto simp: find_row_def find_None_iff)

lemma items_delete_row:
  assumes "wf_db d"
  shows "msg_items d = msg_items (delete_row i d)
      + (case find_row i d of None \<Rightarrow> {#} | Some r \<Rightarrow> {#(row_topic r, row_payload r)#})"
    "dead_items (delete_row i d) = dead_items d"
proof -
  have f: "filter (\<lambda>r. row_id r = i) (messages d) = (case find_row i d of None \<Rightarrow> [] | Some r \<Rightarrow> [r])"
  proof (cases "find_row i d")
    case None
    moreover from this have "\<forall>r \<in> set (messages d). row_id r \<noteq> i" by (simp add: find_row_None)
    ultimately show ?thesis by (simp add: filter_empty_conv)
  next
    case (Some r)
    then show ?thesis using assms filter_find [of "messages d" i r] by (simp add: wf_db_def find_row_def)
  qed
  have m: "messages (delete_row i d) = filter (\<lambda>r. \<not> row_id r = i) (messages d)"
    by (simp add: delete_row_def)
  show "msg_items d = msg_items (delete_row i d)
      + (case find_row i d of None \<Rightarrow> {#} | Some r \<Rightarrow> {#(row_topic r, row_payload r)#})"
    unfolding msg_items_def m
    by (subst image_filter_split [where P = "\<lambda>r. row_id r = i"]) (simp only: f, simp split: option.splits)
  show "dead_items (delete_row i d) = dead_items d" by (simp add: dead_items_def delete_row_def)
qed

lemma items_insert_dead:
  "msg_items (insert_dead c i d) = msg_items d"
  "dead_items (insert_dead c i d) = dead_items d
     + (case find_row i d of None \<Rightarrow> {#} | Some r \<Rightarrow> {#(row_topic r, row_payload r)#})"
  by (auto simp: msg_items_def dead_items_def insert_dead_def dead_row_def split: option.splits)

lemma items_delete_dead:
  "msg_items (delete_dead P d) = msg_items d"
  "dead_items d = dead_items (delete_dead P d) + image_mset (\<lambda>x. (dlq_topic x, dlq_payload x)) (mset (filter P (dead d)))"
proof -
  have m: "dead (delete_dead P d) = filter (\<lambda>x. \<not> P x) (dead d)" by (simp add: delete_dead_def)
  show "dead_items d = dead_items (delete_dead P d) + image_mset (\<lambda>x. (dlq_topic x, dlq_payload x)) (mset (filter P (dead d)))"
    unfolding dead_items_def m by (rule image_filter_split)
  show "msg_items (delete_dead P d) = msg_items d" by (simp add: msg_items_def delete_dead_def)
qed

text \<open>The items of the rows whose ids are in a set.\<close>

definition items_in :: "int set \<Rightarrow> 'm db \<Rightarrow> (string \<times> string) multiset" where
  "items_in A d = image_mset (\<lambda>r. (row_topic r, row_payload r)) (mset (filter (\<lambda>r. row_id r \<in> A) (messages d)))"

lemma items_in_mono: "A \<subseteq> B \<Longrightarrow> items_in A d \<subseteq># items_in B d"
proof -
  assume s: "A \<subseteq> B"
  have "mset (filter (\<lambda>r. row_id r \<in> A) xs) \<subseteq># mset (filter (\<lambda>r. row_id r \<in> B) xs)" for xs :: "'m msg_row list"
    using s by (induction xs) (auto intro: subset_mset.order_trans)
  then show ?thesis unfolding items_in_def by (rule image_mset_subseteq_mono)
qed

lemma items_in_split: "msg_items d = items_in (- A) d + items_in A d"
  unfolding items_in_def msg_items_def
  by (subst image_filter_split [where P = "\<lambda>r. row_id r \<in> A"]) simp

lemma items_in_update:
  assumes "keeps f"
  shows "items_in A (update_row i f d) = items_in A d"
proof -
  have "row_id (f r) = row_id r" "row_topic (f r) = row_topic r" "row_payload (f r) = row_payload r" for r
    using assms by (auto simp: keeps_def)
  then have e: "(row_topic (if row_id r = i then f r else r), row_payload (if row_id r = i then f r else r)) = (row_topic r, row_payload r)"
    "row_id (if row_id r = i then f r else r) = row_id r" for r
    by simp_all
  show ?thesis unfolding items_in_def update_row_def by (simp add: filter_map comp_def e multiset.map_comp del: prod.inject)
qed

lemma items_in_delete: "items_in A (delete_row i d) = items_in (A - {i}) d"
proof -
  have "(\<lambda>r. row_id r \<noteq> i \<and> row_id r \<in> A) = (\<lambda>r :: 'a msg_row. row_id r \<in> A - {i})" by auto
  then show ?thesis by (simp add: items_in_def delete_row_def)
qed

lemma items_in_insert_dead [simp]: "items_in A (insert_dead c i d) = items_in A d"
  by (simp add: items_in_def insert_dead_def split: option.splits)

lemma items_in_delete_dead [simp]: "items_in A (delete_dead P d) = items_in A d"
  by (simp add: items_in_def delete_dead_def)

lemma items_in_row:
  assumes "wf_db d"
  shows "items_in (insert i A) d = items_in (A - {i}) d
    + (case find_row i d of None \<Rightarrow> {#} | Some r \<Rightarrow> {#(row_topic r, row_payload r)#})"
proof -
  have "items_in B d = items_in (B - {i}) d + items_in (B \<inter> {i}) d" for B
    unfolding items_in_def by (subst image_filter_split [where P = "\<lambda>r. row_id r = i"]) (simp add: conj_commute conj_left_commute)
  from this [of "insert i A"] have "items_in (insert i A) d = items_in (A - {i}) d + items_in {i} d" by simp
  moreover from items_in_split [of d "{i}"] items_delete_row(1) [OF assms, of i] items_in_delete [of UNIV i d]
  have "items_in {i} d = (case find_row i d of None \<Rightarrow> {#} | Some r \<Rightarrow> {#(row_topic r, row_payload r)#})"
    by (simp add: items_in_def msg_items_def Compl_eq_Diff_UNIV)
  ultimately show ?thesis by simp
qed

text \<open>New rows get new ids.\<close>

lemma insert_rows_ids:
  "insert_rows c ns d = Some d' \<Longrightarrow>
     next_id d \<le> next_id d' \<and> (\<exists>rs. messages d' = messages d @ rs \<and> list_all (\<lambda>r. next_id d \<le> row_id r) rs)"
proof (induction c ns d rule: insert_rows.induct)
  case (2 c n ns d)
  then obtain d1 where d1: "insert_row c n d = Some d1" "insert_rows c ns d1 = Some d'"
    by (auto split: option.splits)
  from d1(1) have "messages d1 = messages d @ [make_row (next_id d) c n]" "next_id d1 = next_id d + 1"
    by (auto simp: insert_row_def split: if_splits)
  with "2.IH" [OF d1] show ?case by (force simp: list_all_iff)
qed simp

lemma items_in_append:
  assumes "messages d' = messages d @ rs" "\<And>r. r \<in> set rs \<Longrightarrow> row_id r \<notin> A"
  shows "items_in A d' = items_in A d"
proof -
  have "filter (\<lambda>r. row_id r \<in> A) rs = []" using assms(2) by (simp add: filter_empty_conv)
  then show ?thesis by (simp add: items_in_def assms(1))
qed

lemma dead_insert_rows: "insert_rows c ns d = Some d' \<Longrightarrow> dead d' = dead d"
  using insert_rows_messages by blast

text \<open>
  Watermill's router, a parameter: it acknowledges a message whose handler returned no error, and
  refuses one whose handler returned an error.
\<close>

definition router_acks ::
  "((message \<Rightarrow> 'w \<Rightarrow> gerror option \<times> 'w) \<Rightarrow> message \<Rightarrow> 'w \<Rightarrow> outcome \<times> 'w) \<Rightarrow> bool" where
  "router_acks route \<longleftrightarrow> (\<forall>h msg w w'. h msg w = (None, w') \<longrightarrow> route h msg w = (Acked, w'))"

definition router_nacks ::
  "((message \<Rightarrow> 'w \<Rightarrow> gerror option \<times> 'w) \<Rightarrow> message \<Rightarrow> 'w \<Rightarrow> outcome \<times> 'w) \<Rightarrow> bool" where
  "router_nacks route \<longleftrightarrow> (\<forall>h msg w e w'. h msg w = (Some e, w') \<longrightarrow> route h msg w = (Nacked, w'))"

section \<open>Republishing from a handler\<close>

text \<open>
  A queue that refuses a message whose id it already has. While a handler runs, the SQL
  transports still have the row of its message, so the handler's event cannot be published again
  under its own id.
\<close>

locale unique_sink =
  fixes publish :: "'w publisher"
    and holds :: "'w \<Rightarrow> string set"
  assumes publish_taken: "UUID m \<in> holds w \<Longrightarrow> \<exists>e. publish t m w = (Some e, w)"
begin

lemma republish_refused:
  assumes "svc_publisher s = Some publish" "ID e \<in> holds w"
  shows "\<exists>err. PublishEvent (Some s) e w = (Some err, w)"
  using assms publish_taken
  by (fastforce simp: PublishEvent_def toWatermill_Inr split: option.splits sum.splits)

lemma dead_letter_dropped:
  assumes "svc_publisher s = Some publish" "ID (delivered msg) \<in> holds w"
    "h (delivered msg) w = (Some err, left, w)" "fst (ClassifyError (Some err)) = ResultDeadLetter"
  shows "wrapCloudEventsHandler s topic h msg w = (None, w)"
proof -
  let ?e = "PrepareForDLQ (shared_part (delivered msg) left) topic (Some err)"
  obtain d where c: "ClassifyError (Some err) = (ResultDeadLetter, d)"
    using assms(4) by (cases "ClassifyError (Some err)") auto
  obtain x where x: "PublishEvent (Some s) ?e w = (Some x, w)"
    using republish_refused [OF assms(1), of ?e w] assms(2) by auto
  show ?thesis by (simp add: wrap_unfold assms(3) handleCloudEventsResult_def c sendDLQ_result x)
qed

end

lemma insert_taken: "new_uuid n \<in> set (uuids d) \<Longrightarrow> insert_row c n d = None"
  by (simp add: insert_row_def)

section \<open>Dead letter queue management\<close>

text \<open>
  The interface \<open>DLQManager\<close> with \<open>QueueIntrospector\<close>: replaying a topic moves all its dead letters
  back among the waiting messages or fails without effect, purging removes them, and neither
  touches another topic.
\<close>

locale dlq_manager =
  fixes pending dlq :: "string \<Rightarrow> 's \<Rightarrow> int"
    and replay_all :: "string \<Rightarrow> 's \<Rightarrow> (gerror + int) \<times> 's"
    and purge :: "string \<Rightarrow> 's \<Rightarrow> int \<times> 's"
  assumes replay_all_ok: "replay_all q s = (Inr n, s') \<Longrightarrow> n = dlq q s"
      "replay_all q s = (Inr n, s') \<Longrightarrow> dlq p s' = (if p = q then 0 else dlq p s)"
      "replay_all q s = (Inr n, s') \<Longrightarrow> pending p s' = pending p s + (if p = q then n else 0)"
    and replay_all_err: "replay_all q s = (Inl e, s') \<Longrightarrow> s' = s"
    and purge_ok: "purge q s = (n, s') \<Longrightarrow> n = dlq q s"
      "purge q s = (n, s') \<Longrightarrow> dlq p s' = (if p = q then 0 else dlq p s)"
      "purge q s = (n, s') \<Longrightarrow> pending p s' = pending p s"
begin

lemma replay_conserves: "replay_all q s = (r, s') \<Longrightarrow> pending p s' + dlq p s' = pending p s + dlq p s"
  using replay_all_err [of q s _ s'] replay_all_ok(1) [of q s _ s'] replay_all_ok(2) [of q s _ s' p]
    replay_all_ok(3) [of q s _ s' p]
  by (cases r) auto

lemma replay_twice:
  "replay_all q s = (Inr n, s1) \<Longrightarrow> replay_all q s1 = (Inr k, s2) \<Longrightarrow>
     k = 0 \<and> pending p s2 = pending p s1 \<and> dlq p s2 = dlq p s1"
  using replay_all_ok(1) [of q s1 k s2] replay_all_ok(2) [of q s n s1 q]
    replay_all_ok(2) [of q s1 k s2 p] replay_all_ok(2) [of q s n s1 p] replay_all_ok(3) [of q s1 k s2 p]
  by auto

lemma purge_after_replay: "replay_all q s = (Inr n, s1) \<Longrightarrow> fst (purge q s1) = 0"
  using purge_ok(1) [of q s1] replay_all_ok(2) [of q s n s1 q] by (cases "purge q s1") auto

lemma replay_after_purge: "purge q s = (n, s1) \<Longrightarrow> replay_all q s1 = (Inr k, s2) \<Longrightarrow> k = 0"
  using replay_all_ok(1) [of q s1 k s2] purge_ok(2) [of q s n s1 q] by auto

end

lemma pending_insert_rows:
  assumes "insert_rows c ns d = Some d'" "list_all (\<lambda>n. new_topic n = q) ns"
  shows "pending_count p d' = pending_count p d + (if p = q then int (length ns) else 0)"
proof -
  from insert_rows_messages [OF assms(1)] obtain rs where rs: "messages d' = messages d @ rs"
    "map row_topic rs = map new_topic ns" "list_all (\<lambda>r. row_retries r = 0 \<and> row_locked r = None \<and> row_status r = ''pending'') rs"
    by auto
  have l: "length rs = length ns" using rs(2) map_eq_imp_length_eq by blast
  have "set (map row_topic rs) \<subseteq> {q}" unfolding rs(2) using assms(2) by (auto simp: list_all_iff)
  then have t: "row_topic r = q" if "r \<in> set rs" for r using that by auto
  have "filter (\<lambda>r. row_topic r = p \<and> row_status r = ''pending'') rs = (if p = q then rs else [])"
    using t rs(3) by (auto simp: filter_id_conv filter_empty_conv list_all_iff)
  then show ?thesis by (simp add: pending_count_def rs(1) l)
qed

lemma dlq_count_delete: "dlq_count p (delete_dead (\<lambda>x. dlq_topic x = q) d) = (if p = q then 0 else dlq_count p d)"
proof (cases "p = q")
  case True
  then show ?thesis by (simp add: dlq_count_def delete_dead_def)
next
  case False
  then have "(\<lambda>x. dlq_topic x \<noteq> q \<and> dlq_topic x = p) = (\<lambda>x :: 'a dlq_row. dlq_topic x = p)" by auto
  with False show ?thesis by (simp add: dlq_count_def delete_dead_def)
qed

lemma pending_delete_dead [simp]: "pending_count p (delete_dead P d) = pending_count p d"
  by (simp add: pending_count_def delete_dead_def)

end
