(* ===== verification/Sqlite.thy ===== *)
theory Sqlite
  imports Sql_Table
begin

text \<open>
  The SQLite transport (\<open>transport/sqlite/sqlite.go\<close>): publishing, the polling consumer with its
  lock, acknowledgement, backoff and dead-lettering, and the management of the dead letter queue.
  The state is the database, the configuration and the closed flag, with the clock that
  \<open>time.Now\<close> reads. A call whose transaction is rolled back returns its error and the state
  unchanged. Instants are compared as numbers; SQLite compares their texts, in the same order.
\<close>

section \<open>Configuration and state\<close>

record sqlite_config =
  FilePath :: string
  PollInterval :: duration
  MaxRetries :: int

definition DefaultPollInterval :: duration where
  "DefaultPollInterval = 100 * millisecond"

definition DefaultMaxRetries :: int where
  "DefaultMaxRetries = 3"

definition withDefaults :: "sqlite_config \<Rightarrow> sqlite_config" where
  "withDefaults c =
     (let c = (if FilePath c = [] then c\<lparr>FilePath := ''protoflow_queue.db''\<rparr> else c);
          c = (if PollInterval c \<le> 0 then c\<lparr>PollInterval := DefaultPollInterval\<rparr> else c)
      in if MaxRetries c < 0 then c\<lparr>MaxRetries := DefaultMaxRetries\<rparr> else c)"

record sqlite =
  sq_db :: "string db"
  sq_config :: sqlite_config
  sq_closed :: bool
  sq_now :: int

definition sqlite_New :: "sqlite_config \<Rightarrow> int \<Rightarrow> sqlite" where
  "sqlite_New cfg now = \<lparr>sq_db = empty_db, sq_config = withDefaults cfg, sq_closed = False, sq_now = now\<rparr>"

definition sqlite_Build :: "config \<Rightarrow> int \<Rightarrow> sqlite" where
  "sqlite_Build cfg now = sqlite_New \<lparr>FilePath = SQLiteFile cfg, PollInterval = 0, MaxRetries = 0\<rparr> now"

text \<open>\<open>DEFAULT CURRENT_TIMESTAMP\<close> has no fraction of a second.\<close>

definition current_timestamp :: "int \<Rightarrow> int" where
  "current_timestamp now = now div nanos * nanos"

section \<open>Publishing\<close>

definition sqlite_row :: "int \<Rightarrow> string \<Rightarrow> message \<Rightarrow> string new_row" where
  "sqlite_row now topic msg =
     \<lparr>new_uuid = UUID msg, new_topic = topic, new_payload = Payload msg,
      new_metadata = metadata_text (Metadata msg), new_available = available_at now msg\<rparr>"

definition unique_violation :: gerror where
  "unique_violation = Plain ''UNIQUE constraint failed: messages.uuid''"

definition sqlite_Publish :: "string \<Rightarrow> message list \<Rightarrow> sqlite \<Rightarrow> gerror option \<times> sqlite" where
  "sqlite_Publish topic msgs t =
     (if sq_closed t then (Some (Plain ''transport is closed''), t)
      else case insert_rows (current_timestamp (sq_now t)) (map (sqlite_row (sq_now t) topic) msgs) (sq_db t) of
             None \<Rightarrow> (Some (wrap_err ''failed to insert message'' unique_violation), t)
           | Some d \<Rightarrow> (None, t\<lparr>sq_db := d\<rparr>))"

definition sqlite_publish :: "sqlite publisher" where
  "sqlite_publish topic msg t = sqlite_Publish topic [msg] t"

section \<open>Consuming\<close>

definition sqlite_fetchAndLockMessage :: "string \<Rightarrow> sqlite \<Rightarrow> string msg_row option \<times> sqlite" where
  "sqlite_fetchAndLockMessage topic t =
     (case next_row topic (sq_now t) (sq_db t) of
        None \<Rightarrow> (None, t)
      | Some r \<Rightarrow>
          (Some r, t\<lparr>sq_db := update_row (row_id r)
             (\<lambda>x. x\<lparr>row_locked := Some (sq_now t + 30 * second)\<rparr>) (sq_db t)\<rparr>))"

definition sqlite_message :: "string msg_row \<Rightarrow> message" where
  "sqlite_message r =
     \<lparr>UUID = row_uuid r, Metadata = text_metadata (row_metadata r), Payload = row_payload r\<rparr>"

definition sqlite_ackMessage :: "int \<Rightarrow> sqlite \<Rightarrow> sqlite" where
  "sqlite_ackMessage i t = t\<lparr>sq_db := delete_row i (sq_db t)\<rparr>"

text \<open>
  \<open>nackMessage\<close> is a query, the insertion into the dead letter queue and a deletion, or a query, a
  look at the clock and an update. Each commits by itself: others can come in between, as they do in
  the reachable states below and in \<open>Sql_Lifecycle\<close>. \<open>sqlite_nackMessage\<close> is the call
  that nobody comes in between.
\<close>

definition sqlite_nack_part :: "int \<Rightarrow> refusal \<Rightarrow> sqlite \<Rightarrow> refusal option \<times> sqlite" where
  "sqlite_nack_part i c t =
     (case c of
        Asked \<Rightarrow>
          (case find_row i (sq_db t) of
             None \<Rightarrow> (None, t)
           | Some r \<Rightarrow>
               (Some (if MaxRetries (sq_config t) \<le> row_retries r then Limit else Below (row_retries r)), t))
      | Limit \<Rightarrow> (Some Copied, t\<lparr>sq_db := insert_dead (current_timestamp (sq_now t)) i (sq_db t)\<rparr>)
      | Copied \<Rightarrow> (None, t\<lparr>sq_db := delete_row i (sq_db t)\<rparr>)
      | Below retryCount \<Rightarrow>
          (let backoffSeconds = 1 * (retryCount + 1);
               availableAt = sq_now t + i64 (backoffSeconds * second)
           in (Some (Due availableAt), t))
      | Due availableAt \<Rightarrow>
          (None, t\<lparr>sq_db := update_row i
             (\<lambda>x. x\<lparr>row_retries := row_retries x + 1, row_locked := None, row_available := availableAt\<rparr>)
             (sq_db t)\<rparr>))"

definition sqlite_nackMessage :: "int \<Rightarrow> sqlite \<Rightarrow> sqlite" where
  "sqlite_nackMessage i t = refuse_all 3 (sqlite_nack_part i) Asked t"

lemma sqlite_nack_shrinks: "sqlite_nack_part i c t = (Some c', t') \<Longrightarrow> parts_left c' < parts_left c"
  by (auto simp: sqlite_nack_part_def Let_def split: refusal.splits option.splits if_splits)

lemma sqlite_nackMessage_alone:
  "sqlite_nackMessage i t =
     (case find_row i (sq_db t) of
        None \<Rightarrow> t
      | Some r \<Rightarrow>
          if MaxRetries (sq_config t) \<le> row_retries r
          then t\<lparr>sq_db := delete_row i (insert_dead (current_timestamp (sq_now t)) i (sq_db t))\<rparr>
          else t\<lparr>sq_db := update_row i
                 (\<lambda>x. x\<lparr>row_retries := row_retries x + 1, row_locked := None,
                        row_available := sq_now t + i64 (1 * (row_retries r + 1) * second)\<rparr>) (sq_db t)\<rparr>)"
  by (simp add: sqlite_nackMessage_def sqlite_nack_part_def numeral_3_eq_3 Let_def split: option.splits)

definition sqlite_unlockMessage :: "int \<Rightarrow> sqlite \<Rightarrow> sqlite" where
  "sqlite_unlockMessage i t = t\<lparr>sq_db := update_row i (\<lambda>x. x\<lparr>row_locked := None\<rparr>) (sq_db t)\<rparr>"

definition sqlite_handleMessageResult :: "outcome \<Rightarrow> int \<Rightarrow> sqlite \<Rightarrow> sqlite" where
  "sqlite_handleMessageResult out i t =
     (case out of
        Acked \<Rightarrow> sqlite_ackMessage i t
      | Nacked \<Rightarrow> sqlite_nackMessage i t
      | Cancelled \<Rightarrow> sqlite_unlockMessage i t
      | TransportClosed \<Rightarrow> sqlite_unlockMessage i t)"

text \<open>
  One tick of the poller. \<open>consumer\<close> is what happens between the hand-over of the message and its
  outcome: it sees the transport, and can publish to it. A refusal at the end is the one that nobody
  comes in between.
\<close>

definition sqlite_processAvailableMessages ::
  "string \<Rightarrow> (message \<Rightarrow> sqlite \<Rightarrow> outcome \<times> sqlite) \<Rightarrow> sqlite \<Rightarrow> sqlite" where
  "sqlite_processAvailableMessages topic consumer t =
     (case sqlite_fetchAndLockMessage topic t of
        (None, t') \<Rightarrow> t'
      | (Some r, t') \<Rightarrow>
          (case consumer (sqlite_message r) t' of
             (out, t'') \<Rightarrow> sqlite_handleMessageResult out (row_id r) t''))"

definition sqlite_Close :: "sqlite \<Rightarrow> sqlite" where
  "sqlite_Close t = t\<lparr>sq_closed := True\<rparr>"

section \<open>Dead letter queue\<close>

definition sqlite_GetPendingCount :: "string \<Rightarrow> sqlite \<Rightarrow> int" where
  "sqlite_GetPendingCount topic t = pending_count topic (sq_db t)"

definition sqlite_GetDLQCount :: "string \<Rightarrow> sqlite \<Rightarrow> int" where
  "sqlite_GetDLQCount topic t = dlq_count topic (sq_db t)"

definition sqlite_replay_row :: "int \<Rightarrow> string dlq_row \<Rightarrow> string new_row" where
  "sqlite_replay_row now x =
     \<lparr>new_uuid = dlq_uuid x @ ''-replay-'' @ dec_int now, new_topic = dlq_topic x, new_payload = dlq_payload x,
      new_metadata = dlq_metadata x, new_available = current_timestamp now\<rparr>"

definition sqlite_replay :: "(string dlq_row \<Rightarrow> bool) \<Rightarrow> sqlite \<Rightarrow> (gerror + int) \<times> sqlite" where
  "sqlite_replay P t =
     (let xs = filter P (dead (sq_db t))
      in case insert_rows (current_timestamp (sq_now t)) (map (sqlite_replay_row (sq_now t)) xs) (sq_db t) of
           None \<Rightarrow> (Inl unique_violation, t)
         | Some d \<Rightarrow> (Inr (int (length xs)), t\<lparr>sq_db := delete_dead P d\<rparr>))"

definition sqlite_ReplayDLQMessage :: "int \<Rightarrow> sqlite \<Rightarrow> gerror option \<times> sqlite" where
  "sqlite_ReplayDLQMessage i t =
     (case sqlite_replay (\<lambda>x. dlq_id x = i) t of
        (Inl err, t') \<Rightarrow> (Some err, t')
      | (Inr _, t') \<Rightarrow> (None, t'))"

definition sqlite_ReplayAllDLQ :: "string \<Rightarrow> sqlite \<Rightarrow> (gerror + int) \<times> sqlite" where
  "sqlite_ReplayAllDLQ topic t = sqlite_replay (\<lambda>x. dlq_topic x = topic) t"

definition sqlite_PurgeDLQ :: "string \<Rightarrow> sqlite \<Rightarrow> int \<times> sqlite" where
  "sqlite_PurgeDLQ topic t =
     (dlq_count topic (sq_db t), t\<lparr>sq_db := delete_dead (\<lambda>x. dlq_topic x = topic) (sq_db t)\<rparr>)"

definition sqlite_dlq_message :: "string dlq_row \<Rightarrow> DLQMessage" where
  "sqlite_dlq_message x =
     \<lparr>dm_ID = dlq_id x, dm_UUID = dlq_uuid x, dm_OriginalTopic = dlq_topic x, dm_Payload = dlq_payload x,
      dm_Metadata = text_metadata (dlq_metadata x), dm_ErrorMessage = dlq_error x,
      dm_FailedAt = dlq_failed x, dm_RetryCount = dlq_retries x\<rparr>"

definition sqlite_ListDLQMessages :: "string \<Rightarrow> int \<Rightarrow> int \<Rightarrow> sqlite \<Rightarrow> DLQMessage list" where
  "sqlite_ListDLQMessages topic limit off t =
     map sqlite_dlq_message
       (page limit off
         (sort_key (\<lambda>x. - dlq_failed x) (filter (\<lambda>x. dlq_topic x = topic) (dead (sq_db t)))))"

section \<open>The queue as a message sink\<close>

definition sqlite_queued :: "sqlite \<Rightarrow> (string \<times> message) list" where
  "sqlite_queued t = map (\<lambda>r. (row_topic r, sqlite_message r)) (messages (sq_db t))"

interpretation sqlite_sink: message_sink sqlite_publish sqlite_queued
proof unfold_locales
  fix t m w w'
  assume p: "sqlite_publish t m w = (None, w')" and wf: "wf_map (Metadata m)"
  from p obtain d where d: "insert_rows (current_timestamp (sq_now w)) [sqlite_row (sq_now w) t m] (sq_db w) = Some d"
    "w' = w\<lparr>sq_db := d\<rparr>"
    by (auto simp: sqlite_publish_def sqlite_Publish_def split: if_splits option.splits)
  then have "messages d = messages (sq_db w) @ [make_row (next_id (sq_db w)) (current_timestamp (sq_now w)) (sqlite_row (sq_now w) t m)]"
    by (auto simp: insert_row_def split: option.splits if_splits)
  with d(2) wf show "sqlite_queued w' = sqlite_queued w @ [(t, norm_message m)]"
    by (simp add: sqlite_queued_def sqlite_message_def sqlite_row_def norm_message_def text_metadata_inverse)
next
  fix t m w e w'
  assume "sqlite_publish t m w = (Some e, w')"
  then have "w' = w" by (auto simp: sqlite_publish_def sqlite_Publish_def split: if_splits option.splits)
  then show "sqlite_queued w' = sqlite_queued w" by simp
qed

section \<open>Publishing\<close>

text \<open>
  \<open>Publish\<close> is all or nothing: it succeeds exactly when the transport is open and no message id is
  in the table already or given twice, and then the table has the messages in order, unlocked,
  with retry count zero, due now or after their \<open>protoflow_delay\<close>; otherwise the state is
  unchanged.
\<close>

theorem sqlite_publish_atomic:
  "(fst (sqlite_Publish topic msgs t) = None \<longleftrightarrow>
      \<not> sq_closed t \<and> distinct (map UUID msgs) \<and> set (map UUID msgs) \<inter> set (uuids (sq_db t)) = {})
   \<and> (fst (sqlite_Publish topic msgs t) \<noteq> None \<longrightarrow> snd (sqlite_Publish topic msgs t) = t)
   \<and> (fst (sqlite_Publish topic msgs t) = None \<longrightarrow>
       (\<exists>rs. messages (sq_db (snd (sqlite_Publish topic msgs t))) = messages (sq_db t) @ rs
         \<and> map row_uuid rs = map UUID msgs \<and> map row_payload rs = map Payload msgs
         \<and> map row_available rs = map (available_at (sq_now t)) msgs
         \<and> list_all (\<lambda>r. row_retries r = 0 \<and> row_locked r = None \<and> row_status r = ''pending'') rs))"
proof -
  let ?ns = "map (sqlite_row (sq_now t) topic) msgs"
  let ?c = "current_timestamp (sq_now t)"
  have u: "map new_uuid ?ns = map UUID msgs" "map new_payload ?ns = map Payload msgs"
    "map new_available ?ns = map (available_at (sq_now t)) msgs"
    by (simp_all add: sqlite_row_def)
  show ?thesis
  proof (cases "insert_rows ?c ?ns (sq_db t)")
    case None
    with insert_rows_defined [of ?c ?ns "sq_db t"] show ?thesis
      unfolding u by (auto simp: sqlite_Publish_def)
  next
    case (Some d)
    from insert_rows_messages [OF Some] insert_rows_defined [of ?c ?ns "sq_db t"] Some
    show ?thesis unfolding u by (auto simp: sqlite_Publish_def)
  qed
qed

lemma sqlite_publish_atomic_witness:
  "fst (sqlite_Publish ''a'' [\<lparr>UUID = ''u'', Metadata = [], Payload = ''p''\<rparr>] (sqlite_New \<lparr>FilePath = [], PollInterval = 0, MaxRetries = 1\<rparr> 0)) = None"
  using sqlite_publish_atomic [of "''a''" "[\<lparr>UUID = ''u'', Metadata = [], Payload = ''p''\<rparr>]" "sqlite_New \<lparr>FilePath = [], PollInterval = 0, MaxRetries = 1\<rparr> 0"]
  by (simp add: sqlite_New_def empty_db_def uuids_def)

text \<open>
  C19. Delays asked for through the CloudEvents calls are not kept on SQLite: the message of an event
  with any delay is due at once, since the transport looks for its delay under another
  metadata key than the one the delay is stored under.
\<close>

theorem sqlite_ignores_event_delay:
  assumes "toWatermillMessage (SetDelay e d) = Inr m" "wf_map (exts e)" "map_of (exts e) ''protoflow_delay'' = None"
  shows "available_at now m = now \<and> mget (Metadata m) ExtDelayMs = dec_int (quot d millisecond)"
proof -
  have x: "exts (SetDelay e d) = mput ExtDelayMs (AInt64 (quot d millisecond)) (exts e)"
    by (simp add: SetDelay_def SetDelayMs_def WithExtension_def dur_millis_def)
  have m: "Metadata m = ext_metadata (exts (SetDelay e d)) (core_metadata (SetDelay e d))"
    using assms(1) by (auto simp: toWatermill_Inr)
  have w: "wf_map (exts (SetDelay e d))" using assms(2) unfolding x by simp
  have c: "map_of (core_metadata (SetDelay e d)) ''protoflow_delay'' = None"
    by (rule core_metadata_other) (simp add: isCloudEventsMetadata_def)
  have "map_of (Metadata m) ''protoflow_delay'' = None"
    using assms(3) by (simp add: m ext_metadata_lookup [OF w]) (simp add: x ExtDelayMs_def c)
  moreover have "map_of (Metadata m) ExtDelayMs = Some (dec_int (quot d millisecond))"
    by (simp add: m ext_metadata_lookup [OF w]) (simp add: x ext_text_def)
  ultimately show ?thesis by (simp add: available_at_def mget_def)
qed

lemma sqlite_ignores_event_delay_witness:
  "\<exists>m. toWatermillMessage (SetDelay sample_event 250000000) = Inr m \<and> available_at 7 m = 7"
proof -
  have "\<not> isl (toWatermillMessage (SetDelay sample_event 250000000))" by code_simp
  then obtain m where m: "toWatermillMessage (SetDelay sample_event 250000000) = Inr m" using not_isl by blast
  have "wf_map (exts sample_event)" "map_of (exts sample_event) ''protoflow_delay'' = None" by code_simp+
  from sqlite_ignores_event_delay [OF m this, of 7] m show ?thesis by blast
qed

section \<open>Fetching\<close>

lemma fetch_Some:
  assumes "sqlite_fetchAndLockMessage topic t = (Some r, t')"
  shows "next_row topic (sq_now t) (sq_db t) = Some r"
    "t' = t\<lparr>sq_db := update_row (row_id r) (\<lambda>x. x\<lparr>row_locked := Some (sq_now t + 30 * second)\<rparr>) (sq_db t)\<rparr>"
  using assms by (auto simp: sqlite_fetchAndLockMessage_def split: option.splits)

text \<open>
  The poller takes the due message of the topic that has waited longest, and holds it
  exclusively: as long as the lock of 30 seconds has not run out, no further fetch returns the
  same row, on any topic.
\<close>

theorem sqlite_fetch_exclusive:
  assumes "sqlite_fetchAndLockMessage topic t = (Some r, t')"
    "sqlite_fetchAndLockMessage topic' (t'\<lparr>sq_now := now\<rparr>) = (Some r', t'')"
    "now \<le> sq_now t + 30 * second"
  shows "row_id r' \<noteq> row_id r
    \<and> row_topic r = topic \<and> row_available r \<le> sq_now t
    \<and> (\<forall>x \<in> set (messages (sq_db t)). fetchable topic (sq_now t) x \<longrightarrow> row_available r \<le> row_available x)"
proof -
  have r: "next_row topic (sq_now t) (sq_db t) = Some r"
    and t': "sq_db t' = update_row (row_id r) (\<lambda>x. x\<lparr>row_locked := Some (sq_now t + 30 * second)\<rparr>) (sq_db t)"
    using fetch_Some [OF assms(1)] by simp_all
  have r': "next_row topic' now (sq_db t') = Some r'"
    using fetch_Some(1) [OF assms(2)] by simp
  have "row_id r' \<noteq> row_id r"
  proof
    assume "row_id r' = row_id r"
    moreover have "r' \<in> set (messages (sq_db t'))" "fetchable topic' now r'"
      using next_row_SomeD [OF r'] by auto
    ultimately have "row_locked r' = Some (sq_now t + 30 * second)"
      unfolding t' by (auto simp: update_row_def split: if_splits)
    with \<open>fetchable topic' now r'\<close> assms(3) show False by (simp add: fetchable_def)
  qed
  with next_row_SomeD [OF r] show ?thesis by (auto simp: fetchable_def)
qed

section \<open>Retries\<close>

text \<open>A refusal at a given time.\<close>

definition nack_at :: "int \<Rightarrow> int \<Rightarrow> sqlite \<Rightarrow> sqlite" where
  "nack_at i now t = sqlite_nackMessage i (t\<lparr>sq_now := now\<rparr>)"

lemma nack_below:
  assumes "find_row i (sq_db t) = Some r" "row_retries r < MaxRetries (sq_config t)"
    "in_i64 ((row_retries r + 1) * second)"
  shows "find_row i (sq_db (nack_at i now t))
      = Some (r\<lparr>row_retries := row_retries r + 1, row_locked := None, row_available := now + (row_retries r + 1) * second\<rparr>)"
    "sq_config (nack_at i now t) = sq_config t" "dead (sq_db (nack_at i now t)) = dead (sq_db t)"
  using assms by (simp_all add: nack_at_def sqlite_nackMessage_alone Let_def find_update) (simp add: update_row_def)

lemma nack_limit:
  assumes "find_row i (sq_db t) = Some r" "MaxRetries (sq_config t) \<le> row_retries r"
  shows "find_row i (sq_db (nack_at i now t)) = None"
    "dead (sq_db (nack_at i now t)) = dead (sq_db t) @ [dead_row (next_dlq (sq_db t)) (current_timestamp now) r]"
  using assms by (simp_all add: nack_at_def sqlite_nackMessage_alone find_delete) (simp add: delete_row_def insert_dead_def)

lemma nacks_below:
  assumes "find_row i (sq_db t) = Some r" "0 \<le> row_retries r"
    "row_retries r + int (length ts) \<le> MaxRetries (sq_config t)" "ts \<noteq> []"
    "MaxRetries (sq_config t) \<le> 9223372036"
  shows "find_row i (sq_db (fold (nack_at i) ts t))
      = Some (r\<lparr>row_retries := row_retries r + int (length ts), row_locked := None,
                row_available := last ts + (row_retries r + int (length ts)) * second\<rparr>)
    \<and> sq_config (fold (nack_at i) ts t) = sq_config t \<and> dead (sq_db (fold (nack_at i) ts t)) = dead (sq_db t)"
  using assms
proof (induction ts arbitrary: t r)
  case Nil
  then show ?case by simp
next
  case (Cons now ts)
  let ?r = "r\<lparr>row_retries := row_retries r + 1, row_locked := None, row_available := now + (row_retries r + 1) * second\<rparr>"
  have "in_i64 ((row_retries r + 1) * second)"
    using Cons.prems by (auto simp: in_i64_def)
  note n = nack_below [OF Cons.prems(1) _ this, of now]
  show ?case
  proof (cases "ts = []")
    case True
    with Cons.prems n show ?thesis by simp
  next
    case False
    have "find_row i (sq_db (nack_at i now t)) = Some ?r" using n(1) Cons.prems by simp
    from Cons.IH [OF this] False n Cons.prems show ?thesis by (simp add: add.assoc)
  qed
qed

text \<open>
  C10. Retry budget. A row refused again and again, at whatever times, goes through exactly the
  configured number of retries: after the \<open>k\<close>-th refusal it is unlocked with retry count \<open>k\<close> and due
  \<open>k\<close> seconds later, and the refusal after the last retry moves it, with its final count, out
  of the table to the end of the dead letter queue.
\<close>

theorem sqlite_retry_budget:
  assumes "find_row i (sq_db t) = Some r" "row_retries r = 0"
    "0 < k" "int k \<le> MaxRetries (sq_config t)" "MaxRetries (sq_config t) \<le> 9223372036"
    "length ts = k" "length us = nat (MaxRetries (sq_config t))"
  shows "find_row i (sq_db (fold (nack_at i) ts t))
      = Some (r\<lparr>row_retries := int k, row_locked := None, row_available := last ts + int k * second\<rparr>)
    \<and> find_row i (sq_db (nack_at i now (fold (nack_at i) us t))) = None
    \<and> (\<exists>x. dead (sq_db (nack_at i now (fold (nack_at i) us t))) = dead (sq_db t) @ [x]
        \<and> dlq_uuid x = row_uuid r \<and> dlq_topic x = row_topic r \<and> dlq_payload x = row_payload r
        \<and> dlq_retries x = MaxRetries (sq_config t))"
proof -
  have a: "find_row i (sq_db (fold (nack_at i) ts t))
      = Some (r\<lparr>row_retries := int k, row_locked := None, row_available := last ts + int k * second\<rparr>)"
    using nacks_below [OF assms(1), of ts] assms by (cases ts) auto
  have "0 < length us" using assms(3,4,7) by linarith
  then have "us \<noteq> []" by simp
  then have f: "find_row i (sq_db (fold (nack_at i) us t))
      = Some (r\<lparr>row_retries := MaxRetries (sq_config t), row_locked := None,
          row_available := last us + MaxRetries (sq_config t) * second\<rparr>)"
    "sq_config (fold (nack_at i) us t) = sq_config t"
    "dead (sq_db (fold (nack_at i) us t)) = dead (sq_db t)"
    using nacks_below [OF assms(1), of us] assms by auto
  from nack_limit [OF f(1), of now] f(2,3) a show ?thesis
    by (auto simp: dead_row_def)
qed

text \<open>
  A transport made by \<open>Build\<close> does not retry at all: it leaves \<open>MaxRetries\<close> at zero, which is not
  replaced by the default of three, so the first refusal of any row moves it to the dead
  letter queue.
\<close>

theorem sqlite_build_never_retries:
  assumes "sq_config t = sq_config (sqlite_Build cfg start)" "find_row i (sq_db t) = Some r" "0 \<le> row_retries r"
  shows "find_row i (sq_db (sqlite_nackMessage i t)) = None
    \<and> dead (sq_db (sqlite_nackMessage i t))
        = dead (sq_db t) @ [dead_row (next_dlq (sq_db t)) (current_timestamp (sq_now t)) r]"
proof -
  have "MaxRetries (sq_config t) = 0"
    unfolding assms(1) by (simp add: sqlite_Build_def sqlite_New_def withDefaults_def Let_def)
  with nack_limit [OF assms(2), of "sq_now t"] assms(3) show ?thesis by (simp add: nack_at_def)
qed

section \<open>Republishing from a handler\<close>

definition sqlite_holds :: "sqlite \<Rightarrow> string set" where
  "sqlite_holds t = set (uuids (sq_db t))"

interpretation sqlite_unique: unique_sink sqlite_publish sqlite_holds
  by unfold_locales (auto simp: sqlite_publish_def sqlite_Publish_def sqlite_holds_def sqlite_row_def insert_taken)

lemma fetch_holds:
  assumes "sqlite_fetchAndLockMessage topic t = (Some r, t1)"
  shows "row_uuid r \<in> sqlite_holds t1"
proof -
  have "uuids (sq_db t1) = uuids (sq_db t)"
    using fetch_Some(2) [OF assms] update_row_keeps [OF keeps_lock] by simp
  then show ?thesis
    using next_row_SomeD(1) [OF fetch_Some(1) [OF assms]] by (auto simp: uuids_def sqlite_holds_def)
qed

text \<open>
  C1. On SQLite a dead-lettered CloudEvent is lost. When the handler of a polled event asks for the
  dead letter queue, publishing the marked event fails on the id of the row being handled, the
  message is acknowledged nevertheless, and its row is deleted: afterwards the event is neither
  in the table nor in the dead letter queue.
\<close>

theorem sqlite_dead_letter_lost:
  assumes "sqlite_fetchAndLockMessage topic t = (Some r, t1)"
    "svc_publisher s = Some sqlite_publish" "router_acks route"
    "ID (delivered (sqlite_message r)) = row_uuid r"
    "h (delivered (sqlite_message r)) t1 = (Some err, left, t1)"
    "fst (ClassifyError (Some err)) = ResultDeadLetter"
  shows "sqlite_processAvailableMessages topic (route (wrapCloudEventsHandler s topic h)) t
    = t\<lparr>sq_db := delete_row (row_id r) (sq_db t)\<rparr>"
proof -
  have "ID (delivered (sqlite_message r)) \<in> sqlite_holds t1"
    using fetch_holds [OF assms(1)] assms(4) by simp
  from sqlite_unique.dead_letter_dropped [where h = h, OF assms(2) this assms(5,6)]
  have "wrapCloudEventsHandler s topic h (sqlite_message r) t1 = (None, t1)" .
  then have "route (wrapCloudEventsHandler s topic h) (sqlite_message r) t1 = (Acked, t1)"
    using assms(3) by (simp add: router_acks_def)
  then show ?thesis
    using assms(1) fetch_Some(2) [OF assms(1)]
    by (simp add: sqlite_processAvailableMessages_def sqlite_handleMessageResult_def sqlite_ackMessage_def delete_locked)
qed

section \<open>Reachable states\<close>

text \<open>
  The transport with a record of what was published, acknowledged and purged, and the steps that
  publishers, pollers, administrators and time make, in any order. \<open>sys_refusals\<close> are the calls of
  \<open>nackMessage\<close> under way, each with the id of its row and the point it has reached; each part of each is
  a step of its own, and one may be given up at any point. \<open>sys_copied\<close> and \<open>sys_removed\<close>
  record what their insertions into the dead letter queue have copied and their deletions removed.
\<close>

record sqlite_sys =
  sys_t :: sqlite
  sys_refusals :: "(int \<times> refusal) multiset"
  sys_published :: "(string \<times> string) multiset"
  sys_acked :: "(string \<times> string) multiset"
  sys_purged :: "(string \<times> string) multiset"
  sys_copied :: "(string \<times> string) multiset"
  sys_removed :: "(string \<times> string) multiset"

abbreviation sys_db :: "sqlite_sys \<Rightarrow> string db" where
  "sys_db s \<equiv> sq_db (sys_t s)"

definition row_items :: "int \<Rightarrow> sqlite \<Rightarrow> (string \<times> string) multiset" where
  "row_items i t = (case find_row i (sq_db t) of None \<Rightarrow> {#} | Some r \<Rightarrow> {#(row_topic r, row_payload r)#})"

definition sys_nack_part :: "int \<Rightarrow> refusal \<Rightarrow> sqlite_sys \<Rightarrow> refusal option \<times> sqlite_sys" where
  "sys_nack_part i c s =
     (case sqlite_nack_part i c (sys_t s) of
        (c', t') \<Rightarrow>
          (c', s\<lparr>sys_t := t',
                 sys_copied := sys_copied s + (if c = Limit then row_items i (sys_t s) else {#}),
                 sys_removed := sys_removed s + (if c = Copied then row_items i (sys_t s) else {#})\<rparr>))"

definition at_point :: "int \<Rightarrow> refusal option \<Rightarrow> (int \<times> refusal) multiset" where
  "at_point i c = (case c of None \<Rightarrow> {#} | Some c \<Rightarrow> {#(i, c)#})"

inductive sqlite_step :: "sqlite_sys \<Rightarrow> sqlite_sys \<Rightarrow> bool" where
  publish: "sqlite_Publish topic msgs (sys_t s) = (r, t') \<Longrightarrow>
     sqlite_step s (s\<lparr>sys_t := t', sys_published := sys_published s
       + (if r = None then mset (map (\<lambda>m. (topic, Payload m)) msgs) else {#})\<rparr>)"
| tick: "sq_now (sys_t s) \<le> now \<Longrightarrow> sqlite_step s (s\<lparr>sys_t := (sys_t s)\<lparr>sq_now := now\<rparr>\<rparr>)"
| fetch: "sqlite_fetchAndLockMessage topic (sys_t s) = (r, t') \<Longrightarrow> sqlite_step s (s\<lparr>sys_t := t'\<rparr>)"
| finish: "out \<noteq> Nacked \<Longrightarrow>
     sqlite_step s (s\<lparr>sys_t := sqlite_handleMessageResult out i (sys_t s),
       sys_acked := sys_acked s + (if out = Acked then row_items i (sys_t s) else {#})\<rparr>)"
| refuse: "sqlite_step s (s\<lparr>sys_refusals := sys_refusals s + at_point i (Some Asked)\<rparr>)"
| proceed: "(i, c) \<in># sys_refusals s \<Longrightarrow> sys_nack_part i c s = (c', s') \<Longrightarrow>
     sqlite_step s (s'\<lparr>sys_refusals := sys_refusals s - {#(i, c)#} + at_point i c'\<rparr>)"
| abandon: "(i, c) \<in># sys_refusals s \<Longrightarrow> sqlite_step s (s\<lparr>sys_refusals := sys_refusals s - {#(i, c)#}\<rparr>)"
| replay: "sqlite_ReplayDLQMessage i (sys_t s) = (r, t') \<Longrightarrow> sqlite_step s (s\<lparr>sys_t := t'\<rparr>)"
| replay_all: "sqlite_ReplayAllDLQ topic (sys_t s) = (n, t') \<Longrightarrow> sqlite_step s (s\<lparr>sys_t := t'\<rparr>)"
| purge: "sqlite_PurgeDLQ topic (sys_t s) = (n, t') \<Longrightarrow>
     sqlite_step s (s\<lparr>sys_t := t', sys_purged := sys_purged s
       + mset (map (\<lambda>x. (dlq_topic x, dlq_payload x)) (filter (\<lambda>x. dlq_topic x = topic) (dead (sys_db s))))\<rparr>)"
| close: "sqlite_step s (s\<lparr>sys_t := sqlite_Close (sys_t s)\<rparr>)"

definition sqlite_init :: "sqlite_config \<Rightarrow> int \<Rightarrow> sqlite_sys" where
  "sqlite_init cfg now =
     \<lparr>sys_t = sqlite_New cfg now, sys_refusals = {#}, sys_published = {#}, sys_acked = {#}, sys_purged = {#},
      sys_copied = {#}, sys_removed = {#}\<rparr>"

inductive sqlite_reach :: "sqlite_config \<Rightarrow> int \<Rightarrow> sqlite_sys \<Rightarrow> bool" for cfg now where
  init: "sqlite_reach cfg now (sqlite_init cfg now)"
| step: "sqlite_reach cfg now s \<Longrightarrow> sqlite_step s s' \<Longrightarrow> sqlite_reach cfg now s'"

text \<open>
  The ids of the rows between the two statements of a move, and the account: what a move has copied
  and not yet removed is in both tables. A refusal past its query is about a row that was there.
\<close>

definition in_move :: "(int \<times> refusal) multiset \<Rightarrow> int set" where
  "in_move R = {i. (i, Copied) \<in># R}"

definition accounted :: "sqlite_sys \<Rightarrow> bool" where
  "accounted s \<longleftrightarrow>
     sys_published s + sys_copied s
       = msg_items (sys_db s) + dead_items (sys_db s) + sys_acked s + sys_purged s + sys_removed s
     \<and> sys_removed s + items_in (in_move (sys_refusals s)) (sys_db s) \<subseteq># sys_copied s
     \<and> (\<forall>(i, c) \<in># sys_refusals s. c \<noteq> Asked \<longrightarrow> i < next_id (sys_db s))"

lemma accountedI:
  assumes "sys_published s + sys_copied s
       = msg_items (sys_db s) + dead_items (sys_db s) + sys_acked s + sys_purged s + sys_removed s"
    "sys_removed s + items_in (in_move (sys_refusals s)) (sys_db s) \<subseteq># sys_copied s"
    "\<And>i c. (i, c) \<in># sys_refusals s \<Longrightarrow> c \<noteq> Asked \<Longrightarrow> i < next_id (sys_db s)"
  shows "accounted s"
  using assms by (auto simp: accounted_def)

lemma accountedD:
  assumes "accounted s"
  shows "sys_published s + sys_copied s
       = msg_items (sys_db s) + dead_items (sys_db s) + sys_acked s + sys_purged s + sys_removed s"
    "sys_removed s + items_in (in_move (sys_refusals s)) (sys_db s) \<subseteq># sys_copied s"
    "(i, c) \<in># sys_refusals s \<Longrightarrow> c \<noteq> Asked \<Longrightarrow> i < next_id (sys_db s)"
  using assms by (auto simp: accounted_def)

lemma wf_replay: "wf_db (sq_db t) \<Longrightarrow> sqlite_replay P t = (r, t') \<Longrightarrow> wf_db (sq_db t')"
  by (auto simp: sqlite_replay_def Let_def wf_delete_dead dest: wf_insert_rows split: option.splits)

lemma items_replay:
  assumes "sqlite_replay P t = (r, t')"
  shows "msg_items (sq_db t') + dead_items (sq_db t') = msg_items (sq_db t) + dead_items (sq_db t)"
proof (cases "insert_rows (current_timestamp (sq_now t)) (map (sqlite_replay_row (sq_now t)) (filter P (dead (sq_db t)))) (sq_db t)")
  case None
  with assms show ?thesis by (simp add: sqlite_replay_def)
next
  case (Some d)
  then have t': "sq_db t' = delete_dead P d"
    using assms by (auto simp: sqlite_replay_def Let_def)
  have "msg_items d = msg_items (sq_db t) + image_mset (\<lambda>x. (dlq_topic x, dlq_payload x)) (mset (filter P (dead d)))"
    using items_insert_rows [OF Some] dead_insert_rows [OF Some]
    by (simp add: multiset.map_comp comp_def sqlite_replay_row_def)
  then show ?thesis
    using items_insert_rows [OF Some] items_delete_dead(1) [of P d] items_delete_dead(2) [of d P]
    by (simp add: t' ac_simps)
qed

lemma fetch_None: "sqlite_fetchAndLockMessage topic t = (None, t') \<Longrightarrow> t' = t"
  by (auto simp: sqlite_fetchAndLockMessage_def split: option.splits)

lemma fetch_items:
  assumes "sqlite_fetchAndLockMessage topic t = (Some r, t')"
  shows "(wf_db (sq_db t) \<longrightarrow> wf_db (sq_db t')) \<and> msg_items (sq_db t') = msg_items (sq_db t)
    \<and> dead_items (sq_db t') = dead_items (sq_db t)"
  using fetch_Some(2) [OF assms] by (simp add: wf_update_row keeps_lock items_update_row [OF keeps_lock])

lemma wf_finish: "wf_db (sq_db t) \<Longrightarrow> wf_db (sq_db (sqlite_handleMessageResult out i t))"
  by (cases out) (auto simp: sqlite_handleMessageResult_def sqlite_ackMessage_def sqlite_unlockMessage_def
      sqlite_nackMessage_alone wf_delete_row wf_insert_dead wf_update_row keeps_lock keeps_retry
      split: option.splits)

lemma finish_items:
  assumes "wf_db (sq_db t)" "out \<noteq> Nacked"
  shows "msg_items (sq_db t) + dead_items (sq_db t)
    = msg_items (sq_db (sqlite_handleMessageResult out i t)) + dead_items (sq_db (sqlite_handleMessageResult out i t))
      + (if out = Acked then row_items i t else {#})"
    "items_in A (sq_db (sqlite_handleMessageResult out i t)) \<subseteq># items_in A (sq_db t)"
    "next_id (sq_db (sqlite_handleMessageResult out i t)) = next_id (sq_db t)"
  using assms(2) items_delete_row [OF assms(1), of i]
  by (cases out; simp add: sqlite_handleMessageResult_def sqlite_ackMessage_def sqlite_unlockMessage_def row_items_def
      items_update_row [OF keeps_lock] items_in_update [OF keeps_lock] items_in_delete items_in_mono update_row_keeps [OF keeps_lock]
; simp add: delete_row_def)+

text \<open>A part of a refusal.\<close>

lemma wf_part: "wf_db (sq_db t) \<Longrightarrow> wf_db (sq_db (snd (sqlite_nack_part i c t)))"
  by (cases c) (auto simp: sqlite_nack_part_def wf_delete_row wf_insert_dead wf_update_row keeps_retry split: option.split)

lemma part_next_id: "next_id (sq_db (snd (sqlite_nack_part i c t))) = next_id (sq_db t)"
  by (cases c) (auto simp: sqlite_nack_part_def delete_row_def insert_dead_def update_row_def split: option.split)

lemma part_items:
  assumes "wf_db (sq_db t)"
  shows "msg_items (sq_db t) + dead_items (sq_db t) + (if c = Limit then row_items i t else {#})
    = msg_items (sq_db (snd (sqlite_nack_part i c t))) + dead_items (sq_db (snd (sqlite_nack_part i c t)))
      + (if c = Copied then row_items i t else {#})"
proof (cases c)
  case Limit
  then show ?thesis
    using items_insert_dead [of "current_timestamp (sq_now t)" i "sq_db t"] by (simp add: sqlite_nack_part_def row_items_def)
next
  case Copied
  then show ?thesis using items_delete_row [OF assms, of i] by (simp add: sqlite_nack_part_def row_items_def)
next
  case (Due a)
  then show ?thesis by (simp add: sqlite_nack_part_def items_update_row [OF keeps_retry])
qed (simp_all add: sqlite_nack_part_def split: option.split)

lemma part_moves:
  assumes "wf_db (sq_db t)" "(i, c) \<in># R" "sqlite_nack_part i c t = (c', t')"
  shows "items_in (in_move (R - {#(i, c)#} + at_point i c')) (sq_db t') + (if c = Copied then row_items i t else {#})
    \<subseteq># items_in (in_move R) (sq_db t) + (if c = Limit then row_items i t else {#})"
proof (cases c)
  case Limit
  then have c': "c' = Some Copied" "sq_db t' = insert_dead (current_timestamp (sq_now t)) i (sq_db t)"
    using assms(3) by (auto simp: sqlite_nack_part_def)
  have m: "in_move (R - {#(i, Limit)#} + at_point i c') = insert i (in_move R)"
    by (auto simp: in_move_def at_point_def c'(1) in_diff_count)
  have "items_in (insert i (in_move R)) (sq_db t) = items_in (in_move R - {i}) (sq_db t) + row_items i t"
    by (simp only: items_in_row [OF assms(1)] row_items_def)
  moreover have "items_in (in_move R - {i}) (sq_db t) \<subseteq># items_in (in_move R) (sq_db t)" by (rule items_in_mono) blast
  ultimately show ?thesis using Limit by (simp add: m c'(2))
next
  case Copied
  then have c': "c' = None" "sq_db t' = delete_row i (sq_db t)" and i: "insert i (in_move R) = in_move R"
    using assms(2,3) by (auto simp: sqlite_nack_part_def in_move_def)
  have "in_move (R - {#(i, c)#} + at_point i c') - {i} \<subseteq> in_move R - {i}"
    by (auto simp: in_move_def at_point_def c'(1) dest: in_diffD)
  then have "items_in (in_move (R - {#(i, c)#} + at_point i c') - {i}) (sq_db t) \<subseteq># items_in (in_move R - {i}) (sq_db t)"
    by (rule items_in_mono)
  moreover have "items_in (in_move R) (sq_db t) = items_in (in_move R - {i}) (sq_db t) + row_items i t"
    using items_in_row [OF assms(1), of i "in_move R"] by (simp only: i row_items_def)
  ultimately show ?thesis using Copied by (simp add: c'(2) items_in_delete)
next
  case (Due a)
  then have c': "c' = None" "sq_db t' = update_row i (\<lambda>x. x\<lparr>row_retries := row_retries x + 1, row_locked := None, row_available := a\<rparr>) (sq_db t)"
    using assms(3) by (auto simp: sqlite_nack_part_def)
  have "in_move (R - {#(i, c)#} + at_point i c') \<subseteq> in_move R" by (auto simp: in_move_def at_point_def c'(1) dest: in_diffD)
  with Due show ?thesis by (simp add: c'(2) items_in_update [OF keeps_retry] items_in_mono)
next
  case (Below n)
  then have c': "c' = Some (Due (sq_now t + i64 ((n + 1) * second)))" "t' = t"
    using assms(3) by (auto simp: sqlite_nack_part_def)
  have "in_move (R - {#(i, c)#} + at_point i c') \<subseteq> in_move R" by (auto simp: in_move_def at_point_def c'(1) dest: in_diffD)
  with Below show ?thesis by (simp add: c'(2) items_in_mono)
next
  case Asked
  then have c': "c' \<noteq> Some Copied" "t' = t"
    using assms(3) by (auto simp: sqlite_nack_part_def split: option.splits if_splits)
  have "in_move (R - {#(i, c)#} + at_point i c') \<subseteq> in_move R"
    using c'(1) by (auto simp: in_move_def at_point_def dest: in_diffD split: option.splits)
  with Asked show ?thesis by (simp add: c'(2) items_in_mono)
qed

lemma part_row:
  assumes "wf_db (sq_db t)" "sqlite_nack_part i Asked t = (Some c', t')"
  shows "i < next_id (sq_db t)"
proof -
  from assms(2) obtain r where "find_row i (sq_db t) = Some r" by (auto simp: sqlite_nack_part_def split: option.splits)
  from find_row_SomeD [OF this] assms(1) show ?thesis by (auto simp: wf_db_def list_all_iff)
qed

section \<open>Nothing is lost\<close>

lemma accounted_frame:
  assumes "accounted s" "sys_refusals s' = sys_refusals s" "sys_copied s' = sys_copied s" "sys_removed s' = sys_removed s"
    "sys_published s' + (msg_items (sys_db s) + dead_items (sys_db s) + sys_acked s + sys_purged s)
      = sys_published s + (msg_items (sys_db s') + dead_items (sys_db s') + sys_acked s' + sys_purged s')"
    "items_in (in_move (sys_refusals s)) (sys_db s') \<subseteq># items_in (in_move (sys_refusals s)) (sys_db s)"
    "next_id (sys_db s) \<le> next_id (sys_db s')"
  shows "accounted s'"
proof (rule accountedI)
  note a = accountedD [OF assms(1)]
  define m m' where "m = msg_items (sys_db s) + dead_items (sys_db s) + sys_acked s + sys_purged s"
    and "m' = msg_items (sys_db s') + dead_items (sys_db s') + sys_acked s' + sys_purged s'"
  have "sys_published s' + m = sys_published s + m'" "sys_published s + sys_copied s = m + sys_removed s"
    using assms(5) a(1) by (simp_all only: m_def m'_def)
  then have "m + (sys_published s' + sys_copied s) = m + (m' + sys_removed s)"
    by (metis union_assoc union_commute)
  then show "sys_published s' + sys_copied s'
      = msg_items (sys_db s') + dead_items (sys_db s') + sys_acked s' + sys_purged s' + sys_removed s'"
    by (simp only: assms(3,4) m'_def add_left_cancel)
  show "sys_removed s' + items_in (in_move (sys_refusals s')) (sys_db s') \<subseteq># sys_copied s'"
    using a(2) assms(6) unfolding assms(2-4) by (meson subset_mset.add_left_mono subset_mset.order_trans)
  show "i < next_id (sys_db s')" if "(i, c) \<in># sys_refusals s'" "c \<noteq> Asked" for i c
    using a(3) [of i c] that assms(7) by (simp add: assms(2))
qed

lemma moves_append:
  assumes "accounted s" "messages d = messages (sys_db s) @ rs" "list_all (\<lambda>r. next_id (sys_db s) \<le> row_id r) rs"
  shows "items_in (in_move (sys_refusals s)) d = items_in (in_move (sys_refusals s)) (sys_db s)"
  using assms(2)
proof (rule items_in_append)
  fix r assume "r \<in> set rs"
  then have "next_id (sys_db s) \<le> row_id r" using assms(3) by (simp add: list_all_iff)
  then show "row_id r \<notin> in_move (sys_refusals s)" using accountedD(3) [OF assms(1), of "row_id r" Copied] by (auto simp: in_move_def)
qed

lemma replay_moves:
  assumes "accounted s" "sqlite_replay P (sys_t s) = (r, t')"
  shows "items_in (in_move (sys_refusals s)) (sq_db t') = items_in (in_move (sys_refusals s)) (sys_db s)
    \<and> next_id (sys_db s) \<le> next_id (sq_db t')"
proof (cases r)
  case Inl
  with assms(2) show ?thesis by (auto simp: sqlite_replay_def Let_def split: option.splits)
next
  case (Inr n)
  with assms(2) obtain d ns where d: "insert_rows (current_timestamp (sq_now (sys_t s))) ns (sys_db s) = Some d"
    "sq_db t' = delete_dead P d"
    by (auto simp: sqlite_replay_def Let_def split: option.splits)
  from insert_rows_ids [OF d(1)] obtain rs where rs: "next_id (sys_db s) \<le> next_id d"
    "messages d = messages (sys_db s) @ rs" "list_all (\<lambda>r. next_id (sys_db s) \<le> row_id r) rs"
    by blast
  have "next_id (sq_db t') = next_id d" by (simp add: d(2) delete_dead_def)
  with moves_append [OF assms(1) rs(2,3)] rs(1) show ?thesis by (simp add: d(2))
qed

text \<open>What is read off a sum when parts of it are exchanged.\<close>

lemma proceed_accounted:
  assumes "accounted s" "wf_db (sys_db s)" "(i, c) \<in># sys_refusals s" "sys_nack_part i c s = (c', s1)"
  defines "s' \<equiv> s1\<lparr>sys_refusals := sys_refusals s - {#(i, c)#} + at_point i c'\<rparr>"
  shows "accounted s'"
proof -
  note a = accountedD [OF assms(1)]
  obtain t' where p: "sqlite_nack_part i c (sys_t s) = (c', t')"
    using assms(4) by (auto simp: sys_nack_part_def split: prod.splits)
  have s': "sys_t s' = t'" "sys_refusals s' = sys_refusals s - {#(i, c)#} + at_point i c'"
    "sys_published s' = sys_published s" "sys_acked s' = sys_acked s" "sys_purged s' = sys_purged s"
    "sys_copied s' = sys_copied s + (if c = Limit then row_items i (sys_t s) else {#})"
    "sys_removed s' = sys_removed s + (if c = Copied then row_items i (sys_t s) else {#})"
    using assms(4) p by (auto simp: sys_nack_part_def s'_def)
  show ?thesis
  proof (rule accountedI)
    define x y where "x = (if c = Limit then row_items i (sys_t s) else {#})" and "y = (if c = Copied then row_items i (sys_t s) else {#})"
    have "msg_items (sys_db s) + dead_items (sys_db s) + x = msg_items (sq_db t') + dead_items (sq_db t') + y"
      using part_items [OF assms(2), of c i] p by (simp add: x_def y_def)
    then have "sys_published s + sys_copied s + x
        = msg_items (sq_db t') + dead_items (sq_db t') + y + sys_acked s + sys_purged s + sys_removed s"
      unfolding a(1) by (metis (no_types, lifting) union_assoc union_commute)
    then show "sys_published s' + sys_copied s'
        = msg_items (sys_db s') + dead_items (sys_db s') + sys_acked s' + sys_purged s' + sys_removed s'"
      unfolding s' x_def y_def by (simp only: ac_simps)
    have "items_in (in_move (sys_refusals s')) (sq_db t') + y \<subseteq># items_in (in_move (sys_refusals s)) (sys_db s) + x"
      using part_moves [OF assms(2,3) p] by (simp only: x_def y_def s'(2))
    then have "sys_removed s + (items_in (in_move (sys_refusals s')) (sq_db t') + y)
        \<subseteq># sys_removed s + (items_in (in_move (sys_refusals s)) (sys_db s) + x)"
      by (rule subset_mset.add_left_mono)
    also have "\<dots> = (sys_removed s + items_in (in_move (sys_refusals s)) (sys_db s)) + x" by (simp only: union_assoc)
    also have "\<dots> \<subseteq># sys_copied s + x" using a(2) by (rule subset_mset.add_right_mono)
    finally show "sys_removed s' + items_in (in_move (sys_refusals s')) (sys_db s') \<subseteq># sys_copied s'"
      by (simp only: s'(1,6,7) x_def y_def ac_simps)
    show "j < next_id (sys_db s')" if "(j, d) \<in># sys_refusals s'" "d \<noteq> Asked" for j d
    proof -
      have n: "next_id (sq_db t') = next_id (sys_db s)" using part_next_id [of i c "sys_t s"] p by simp
      consider "(j, d) \<in># sys_refusals s" | "j = i" "c' = Some d"
        using \<open>(j, d) \<in># sys_refusals s'\<close> by (auto simp: s'(2) at_point_def dest: in_diffD split: option.splits)
      then show ?thesis
      proof cases
        case 1
        then show ?thesis using a(3) that(2) by (simp add: s'(1) n)
      next
        case 2
        then show ?thesis
          using a(3) [OF assms(3)] part_row [OF assms(2), of i d t'] p by (cases "c = Asked") (auto simp: s'(1) n)
      qed
    qed
  qed
qed

lemma step_wf:
  assumes "sqlite_step s s'" "wf_db (sys_db s)"
  shows "wf_db (sys_db s')"
  using assms(1)
proof cases
  case (publish topic msgs r t')
  then show ?thesis
    using assms(2) by (auto simp: sqlite_Publish_def dest: wf_insert_rows split: if_splits option.splits)
next
  case (fetch topic r t')
  then show ?thesis using assms by (cases r) (auto dest!: fetch_items fetch_None)
next
  case (proceed i c c' s1)
  then show ?thesis using wf_part [OF assms(2), of i c] by (auto simp: sys_nack_part_def split: prod.splits)
next
  case (replay i r t')
  then obtain x where "sqlite_replay (\<lambda>x. dlq_id x = i) (sys_t s) = (x, t')"
    by (auto simp: sqlite_ReplayDLQMessage_def split: prod.splits sum.splits)
  then show ?thesis using wf_replay [OF assms(2)] replay(1) by simp
next
  case (replay_all topic n t')
  then show ?thesis using wf_replay [OF assms(2)] by (simp add: sqlite_ReplayAllDLQ_def)
qed (use assms(2) in \<open>auto simp: wf_finish sqlite_PurgeDLQ_def wf_delete_dead sqlite_Close_def\<close>)

lemma step_accounted:
  assumes "sqlite_step s s'" "wf_db (sys_db s)" "accounted s"
  shows "wf_db (sys_db s') \<and> accounted s'"
proof -
  note frame = accounted_frame [OF assms(3)]
  from assms(1) have "accounted s'"
  proof cases
    case (publish topic msgs r t')
    show ?thesis
    proof (cases "r = None")
      case True
      with publish(2) obtain d where d: "insert_rows (current_timestamp (sq_now (sys_t s)))
          (map (sqlite_row (sq_now (sys_t s)) topic) msgs) (sys_db s) = Some d" "t' = (sys_t s)\<lparr>sq_db := d\<rparr>"
        by (auto simp: sqlite_Publish_def split: if_splits option.splits)
      from insert_rows_ids [OF d(1)] obtain rs where rs: "next_id (sys_db s) \<le> next_id d"
        "messages d = messages (sys_db s) @ rs" "list_all (\<lambda>r. next_id (sys_db s) \<le> row_id r) rs"
        by blast
      have "msg_items d = msg_items (sys_db s) + mset (map (\<lambda>m. (topic, Payload m)) msgs)" "dead_items d = dead_items (sys_db s)"
        using items_insert_rows [OF d(1)] by (simp_all add: multiset.map_comp comp_def sqlite_row_def)
      then show ?thesis
        unfolding publish(1) using moves_append [OF assms(3) rs(2,3)] rs(1) True
        by (intro frame) (simp_all add: d(2) ac_simps)
    next
      case False
      with publish have "t' = sys_t s" by (auto simp: sqlite_Publish_def split: if_splits option.splits)
      then show ?thesis unfolding publish(1) using False by (intro frame) auto
    qed
  next
    case (tick now)
    then show ?thesis by (intro frame) simp_all
  next
    case (fetch topic r t')
    then show ?thesis
    proof (cases r)
      case None
      then show ?thesis using fetch by (intro frame) (auto dest: fetch_None)
    next
      case (Some x)
      then show ?thesis
        using fetch fetch_items [of topic "sys_t s" x t'] fetch_Some(2) [of topic "sys_t s" x t']
        by (intro frame) (simp_all add: items_in_update [OF keeps_lock] update_row_keeps [OF keeps_lock])
    qed
  next
    case (finish out i)
    note f = finish_items [OF assms(2) finish(2), where i = i]
    show ?thesis unfolding finish(1) by (intro frame) (use f in \<open>simp_all add: ac_simps\<close>)
  next
    case (refuse i)
    note a = accountedD [OF assms(3)]
    have "in_move (sys_refusals s + at_point i (Some Asked)) = in_move (sys_refusals s)"
      by (auto simp: in_move_def at_point_def)
    with a(1,2) show ?thesis unfolding refuse by (intro accountedI) (auto simp: at_point_def dest: a(3))
  next
    case (proceed i c c' s1)
    then show ?thesis using proceed_accounted [OF assms(3,2)] by simp
  next
    case (abandon i c)
    note a = accountedD [OF assms(3)]
    have "in_move (sys_refusals s - {#(i, c)#}) \<subseteq> in_move (sys_refusals s)" by (auto simp: in_move_def dest: in_diffD)
    then have "items_in (in_move (sys_refusals s - {#(i, c)#})) (sys_db s) \<subseteq># items_in (in_move (sys_refusals s)) (sys_db s)"
      by (rule items_in_mono)
    with a(1,2) show ?thesis unfolding abandon(1)
      by (intro accountedI) (auto dest: a(3) in_diffD intro: subset_mset.order_trans subset_mset.add_left_mono)
  next
    case (replay i r t')
    then obtain x where "sqlite_replay (\<lambda>x. dlq_id x = i) (sys_t s) = (x, t')"
      by (auto simp: sqlite_ReplayDLQMessage_def split: prod.splits sum.splits)
    from items_replay [OF this] replay_moves [OF assms(3) this] show ?thesis
      unfolding replay(1) by (intro frame) (simp_all add: ac_simps)
  next
    case (replay_all topic n t')
    then have "sqlite_replay (\<lambda>x. dlq_topic x = topic) (sys_t s) = (n, t')" by (simp add: sqlite_ReplayAllDLQ_def)
    from items_replay [OF this] replay_moves [OF assms(3) this] show ?thesis
      unfolding replay_all(1) by (intro frame) (simp_all add: ac_simps)
  next
    case (purge topic n t')
    then show ?thesis
      using items_delete_dead(1) [of "\<lambda>x. dlq_topic x = topic" "sys_db s"] items_delete_dead(2) [of "sys_db s" "\<lambda>x. dlq_topic x = topic"]
      by (intro frame) (auto simp: sqlite_PurgeDLQ_def ac_simps delete_dead_def items_in_def)
  next
    case close
    then show ?thesis by (intro frame) (simp_all add: sqlite_Close_def)
  qed
  with step_wf [OF assms(1,2)] show ?thesis by simp
qed

lemma sqlite_reach_sound: "sqlite_reach cfg now s \<Longrightarrow> wf_db (sys_db s) \<and> accounted s"
proof (induction rule: sqlite_reach.induct)
  case init
  then show ?case
    by (simp add: sqlite_init_def sqlite_New_def wf_empty_db accounted_def)
      (simp add: msg_items_def dead_items_def empty_db_def items_in_def)
next
  case (step s s')
  then show ?case using step_accounted by blast
qed

text \<open>
  C2. Nothing is lost. In every state that publishers, pollers, refusals under way, administrators and
  time can bring about, with the statements of the refusals interleaved in any way, message ids and uuids
  are unique and every payload published is, topic by topic and with multiplicity, waiting, in
  the dead letter queue, acknowledged or purged. What there is beyond that is exactly what refusals
  have copied to the dead letter queue and not removed from the table: the rows in the midst of a
  move, and the dead letters of rows that two refusals moved or that were acknowledged meanwhile.
\<close>

theorem sqlite_conserves_messages:
  assumes "sqlite_reach cfg now s"
  shows "wf_db (sys_db s)
    \<and> sys_published s \<subseteq># msg_items (sys_db s) + dead_items (sys_db s) + sys_acked s + sys_purged s
    \<and> msg_items (sys_db s) + dead_items (sys_db s) + sys_acked s + sys_purged s - sys_published s
        = sys_copied s - sys_removed s
    \<and> sys_removed s + items_in (in_move (sys_refusals s)) (sys_db s) \<subseteq># sys_copied s"
proof -
  define m where "m = msg_items (sys_db s) + dead_items (sys_db s) + sys_acked s + sys_purged s"
  from sqlite_reach_sound [OF assms] have w: "wf_db (sys_db s)" and a: "accounted s" by simp_all
  from accountedD(1) [OF a] have e: "sys_published s + sys_copied s = m + sys_removed s" by (simp only: m_def)
  have "sys_removed s \<subseteq># sys_copied s" using accountedD(2) [OF a] by (meson mset_subset_eq_add_left subset_mset.order_trans)
  then obtain x where x: "sys_copied s = sys_removed s + x" by (auto simp: subset_mset.le_iff_add)
  with e have "sys_published s + x + sys_removed s = m + sys_removed s" by (simp only: ac_simps)
  then have "m = sys_published s + x" by (metis add_right_cancel)
  with x w accountedD(2) [OF a] show ?thesis unfolding m_def [symmetric] by simp
qed

section \<open>Order of delivery\<close>

text \<open>
  When a tick takes a row while another is due, the other keeps its place and has one row less
  ahead of it.
\<close>

lemma sqlite_overtakes:
  assumes "sqlite_fetchAndLockMessage topic s = (Some r, s1)" "wf_db (sq_db s)"
    "x \<in> set (messages (sq_db s))" "fetchable topic (sq_now s) x" "MaxRetries (sq_config s) \<le> 9223372036"
    "sq_now s1 \<le> now" "out = Acked \<or> out = Nacked"
  defines "s' \<equiv> sqlite_handleMessageResult out (row_id r) (s1\<lparr>sq_now := now\<rparr>)"
  shows "r = x \<or> (wf_db (sq_db s') \<and> x \<in> set (messages (sq_db s')) \<and> fetchable topic (sq_now s') x
    \<and> MaxRetries (sq_config s') \<le> 9223372036 \<and> ahead topic x (sq_db s') < ahead topic x (sq_db s))"
proof -
  have n: "next_row topic (sq_now s) (sq_db s) = Some r"
    and s1: "s1 = s\<lparr>sq_db := update_row (row_id r) (\<lambda>x. x\<lparr>row_locked := Some (sq_now s + 30 * second)\<rparr>) (sq_db s)\<rparr>"
    using fetch_Some [OF assms(1)] by auto
  have r: "r \<in> set (messages (sq_db s))" using next_row_SomeD [OF n] by simp
  then have fr: "find_row (row_id r) (sq_db s1) = Some (r\<lparr>row_locked := Some (sq_now s + 30 * second)\<rparr>)"
    using find_row_unique [OF assms(2)] by (simp add: s1 find_update)
  have p: "0 \<le> row_retries r" using r assms(2) by (auto simp: wf_db_def list_all_iff)
  have "settled (sq_now s) (row_id r) (sq_db s1) (sq_db s')"
    using assms(7)
  proof
    assume "out = Acked"
    then show ?thesis by (simp add: s'_def sqlite_handleMessageResult_def sqlite_ackMessage_def settled.acked)
  next
    assume o: "out = Nacked"
    show ?thesis
    proof (cases "MaxRetries (sq_config s) \<le> row_retries r")
      case True
      then have "sq_db s' = delete_row (row_id r) (insert_dead (current_timestamp now) (row_id r) (sq_db s1))"
        using fr o by (simp add: s'_def sqlite_handleMessageResult_def sqlite_nackMessage_alone) (simp add: s1)
      then show ?thesis by (simp only: settled.dead)
    next
      case False
      let ?a = "now + (row_retries r + 1) * second"
      have "in_i64 ((row_retries r + 1) * second)" using p assms(5) False by (simp add: in_i64_def)
      then have "sq_db s' = update_row (row_id r)
          (\<lambda>y. y\<lparr>row_retries := row_retries y + 1, row_locked := None, row_available := ?a\<rparr>) (sq_db s1)"
        using fr o False by (simp add: s'_def sqlite_handleMessageResult_def sqlite_nackMessage_alone Let_def) (simp add: s1)
      moreover have "sq_now s < ?a" using p assms(6) s1 by simp
      ultimately show ?thesis by (simp only: settled.later)
    qed
  qed
  moreover have "fetchable topic (sq_now s') x \<and> MaxRetries (sq_config s') \<le> 9223372036"
    using assms(4-7) fr by (auto simp: s'_def s1 sqlite_handleMessageResult_def sqlite_ackMessage_def
        sqlite_nackMessage_alone Let_def intro: fetchable_later)
  ultimately show ?thesis
    using settled_overtakes [OF n assms(2-4)] by (auto simp: s1)
qed

section \<open>Progress\<close>

text \<open>
  C20. No due message starves. Whatever the consumer answers to the messages of the topic and however
  long it takes for each, a message that is due is handed over after at most as many ticks of
  the poller as the topic has rows due before it: a refused row goes behind it.
\<close>

theorem sqlite_due_message_delivered:
  assumes "wf_db (sq_db t)" "x \<in> set (messages (sq_db t))" "fetchable topic (sq_now t) x"
    "MaxRetries (sq_config t) \<le> 9223372036"
    "\<And>m s. \<exists>out now. consumer m s = (out, s\<lparr>sq_now := now\<rparr>) \<and> sq_now s \<le> now \<and> out \<in> {Acked, Nacked}"
  shows "\<exists>k \<le> ahead topic x (sq_db t).
    fst (sqlite_fetchAndLockMessage topic ((sqlite_processAvailableMessages topic consumer ^^ k) t)) = Some x"
proof -
  define inv where "inv s \<longleftrightarrow> wf_db (sq_db (s :: sqlite)) \<and> x \<in> set (messages (sq_db s)) \<and> fetchable topic (sq_now s) x
      \<and> MaxRetries (sq_config s) \<le> 9223372036" for s
  let ?tick = "sqlite_processAvailableMessages topic consumer"
  have "inv t" using assms by (simp add: inv_def)
  moreover have "fst (sqlite_fetchAndLockMessage topic s) = Some x
      \<or> (inv (?tick s) \<and> ahead topic x (sq_db (?tick s)) < ahead topic x (sq_db s))" if s: "inv s" for s
  proof (cases "sqlite_fetchAndLockMessage topic s")
    case (Pair ro s1)
    from s have "next_row topic (sq_now s) (sq_db s) \<noteq> None" by (auto simp: inv_def next_row_None)
    then obtain r where f: "sqlite_fetchAndLockMessage topic s = (Some r, s1)"
      using Pair by (cases "next_row topic (sq_now s) (sq_db s)") (auto simp: sqlite_fetchAndLockMessage_def)
    obtain out now where c: "consumer (sqlite_message r) s1 = (out, s1\<lparr>sq_now := now\<rparr>)" "sq_now s1 \<le> now"
      "out = Acked \<or> out = Nacked"
      using assms(5) [of "sqlite_message r" s1] by auto
    from f c(1) have "?tick s = sqlite_handleMessageResult out (row_id r) (s1\<lparr>sq_now := now\<rparr>)"
      by (simp add: sqlite_processAvailableMessages_def)
    with sqlite_overtakes [OF f _ _ _ _ c(2,3)] s f show ?thesis by (auto simp: inv_def)
  qed
  ultimately show ?thesis by (rule reached_by_measure)
qed

section \<open>Moving dead letters\<close>

lemma sqlite_replay_all_Inr:
  assumes "sqlite_ReplayAllDLQ q t = (Inr n, t')"
  obtains d where "insert_rows (current_timestamp (sq_now t))
      (map (sqlite_replay_row (sq_now t)) (filter (\<lambda>x. dlq_topic x = q) (dead (sq_db t)))) (sq_db t) = Some d"
    "t' = t\<lparr>sq_db := delete_dead (\<lambda>x. dlq_topic x = q) d\<rparr>"
    "n = dlq_count q (sq_db t)"
  using assms by (auto simp: sqlite_ReplayAllDLQ_def sqlite_replay_def Let_def dlq_count_def split: option.splits)

interpretation sqlite_dlq: dlq_manager sqlite_GetPendingCount sqlite_GetDLQCount sqlite_ReplayAllDLQ sqlite_PurgeDLQ
proof unfold_locales
  fix q s n s' p
  assume r: "sqlite_ReplayAllDLQ q s = (Inr n, s')"
  from sqlite_replay_all_Inr [OF r] obtain d where d: "insert_rows (current_timestamp (sq_now s))
      (map (sqlite_replay_row (sq_now s)) (filter (\<lambda>x. dlq_topic x = q) (dead (sq_db s)))) (sq_db s) = Some d"
    "s' = s\<lparr>sq_db := delete_dead (\<lambda>x. dlq_topic x = q) d\<rparr>" "n = dlq_count q (sq_db s)" .
  show "n = sqlite_GetDLQCount q s" using d(3) by (simp add: sqlite_GetDLQCount_def)
  have "dlq_count p d = dlq_count p (sq_db s)"
    using dead_insert_rows [OF d(1)] by (simp add: dlq_count_def)
  then show "sqlite_GetDLQCount p s' = (if p = q then 0 else sqlite_GetDLQCount p s)"
    by (simp add: sqlite_GetDLQCount_def d(2) dlq_count_delete)
  show "sqlite_GetPendingCount p s' = sqlite_GetPendingCount p s + (if p = q then n else 0)"
    using pending_insert_rows [OF d(1), of q p]
    by (simp add: sqlite_GetPendingCount_def d(2,3) dlq_count_def list_all_iff sqlite_replay_row_def)
qed (auto simp: sqlite_ReplayAllDLQ_def sqlite_replay_def Let_def sqlite_PurgeDLQ_def sqlite_GetDLQCount_def
    sqlite_GetPendingCount_def dlq_count_delete split: option.splits)

text \<open>
  \<open>ReplayAllDLQ\<close> either fails and changes nothing, or returns the number of dead letters of the
  topic, empties its dead letter queue and raises its waiting count by that number; waiting and
  dead together stay the same for every topic, and a second replay finds nothing.
\<close>

theorem sqlite_replay_all_moves:
  assumes "sqlite_ReplayAllDLQ q t = (r, t')"
  shows "(isl r \<longrightarrow> t' = t)
    \<and> (\<forall>n. r = Inr n \<longrightarrow> n = sqlite_GetDLQCount q t \<and> sqlite_GetDLQCount q t' = 0
          \<and> sqlite_GetPendingCount q t' = sqlite_GetPendingCount q t + n)
    \<and> sqlite_GetPendingCount p t' + sqlite_GetDLQCount p t' = sqlite_GetPendingCount p t + sqlite_GetDLQCount p t
    \<and> (\<forall>n k t''. r = Inr n \<longrightarrow> sqlite_ReplayAllDLQ q t' = (Inr k, t'') \<longrightarrow> k = 0)"
  using assms sqlite_dlq.replay_conserves [OF assms, of p] sqlite_dlq.replay_all_err
    sqlite_dlq.replay_all_ok sqlite_dlq.replay_twice
  by (cases r) (auto simp: isl_def)

text \<open>
  C18. A dead letter comes back. Moving a row to the dead letter queue and replaying it by its dead
  letter id puts a row with the same topic, payload and metadata back into the table, unlocked,
  with a fresh retry budget and due at once, under an id that extends the old one, and leaves
  the dead letter queue as it was before, provided no row has the extended id.
\<close>

theorem sqlite_dead_letter_roundtrip:
  assumes "wf_db (sq_db t)" "find_row i (sq_db t) = Some r" "MaxRetries (sq_config t) \<le> row_retries r"
    "row_uuid r @ ''-replay-'' @ dec_int (sq_now t) \<notin> set (uuids (sq_db t))"
  shows "\<exists>x. sqlite_ReplayDLQMessage (next_dlq (sq_db t)) (sqlite_nackMessage i t)
        = (None, t\<lparr>sq_db := (sq_db t)\<lparr>messages := messages (delete_row i (sq_db t)) @ [x],
             next_id := next_id (sq_db t) + 1, next_dlq := next_dlq (sq_db t) + 1\<rparr>\<rparr>)
      \<and> row_uuid x = row_uuid r @ ''-replay-'' @ dec_int (sq_now t) \<and> row_topic x = row_topic r
      \<and> row_payload x = row_payload r \<and> row_metadata x = row_metadata r \<and> row_locked x = None
      \<and> row_retries x = 0 \<and> row_available x \<le> sq_now t"
proof -
  let ?c = "current_timestamp (sq_now t)"
  let ?d = "delete_row i (insert_dead ?c i (sq_db t))"
  let ?x = "dead_row (next_dlq (sq_db t)) ?c r"
  let ?n = "sqlite_replay_row (sq_now t) ?x"
  have d: "messages ?d = messages (delete_row i (sq_db t))" "dead ?d = dead (sq_db t) @ [?x]"
    "next_id ?d = next_id (sq_db t)" "next_dlq ?d = next_dlq (sq_db t) + 1"
    using assms(2) by (simp_all add: delete_row_def insert_dead_def)
  have old: "dlq_id y \<noteq> next_dlq (sq_db t)" if "y \<in> set (dead (sq_db t))" for y
    using assms(1) that by (auto simp: wf_db_def list_all_iff)
  then have f: "filter (\<lambda>x. dlq_id x = next_dlq (sq_db t)) (dead ?d) = [?x]"
    "filter (\<lambda>x. dlq_id x \<noteq> next_dlq (sq_db t)) (dead ?d) = dead (sq_db t)"
    unfolding d by (auto simp: dead_row_def filter_empty_conv filter_id_conv)
  have "new_uuid ?n \<notin> set (uuids ?d)"
    using assms(4) d(1) by (auto simp: uuids_def delete_row_def sqlite_replay_row_def dead_row_def)
  then have i: "insert_row ?c ?n ?d = Some (?d\<lparr>messages := messages ?d @ [make_row (next_id ?d) ?c ?n], next_id := next_id ?d + 1\<rparr>)"
    by (simp add: insert_row_def)
  have n: "sqlite_nackMessage i t = t\<lparr>sq_db := ?d\<rparr>"
    using assms(2,3) by (simp add: sqlite_nackMessage_alone)
  let ?P = "\<lambda>x. dlq_id x = next_dlq (sq_db t)"
  let ?D = "?d\<lparr>messages := messages ?d @ [make_row (next_id ?d) ?c ?n], next_id := next_id ?d + 1\<rparr>"
  have "sqlite_replay ?P (t\<lparr>sq_db := ?d\<rparr>) = (Inr 1, t\<lparr>sq_db := delete_dead ?P ?D\<rparr>)"
    by (simp add: sqlite_replay_def f(1) i)
  moreover have "delete_dead ?P ?D = (sq_db t)\<lparr>messages := messages (delete_row i (sq_db t)) @ [make_row (next_id ?d) ?c ?n],
      next_id := next_id (sq_db t) + 1, next_dlq := next_dlq (sq_db t) + 1\<rparr>"
    by (rule db.equality) (use d f(2) in \<open>simp_all add: delete_dead_def\<close>)
  ultimately have "sqlite_ReplayDLQMessage (next_dlq (sq_db t)) (sqlite_nackMessage i t)
      = (None, t\<lparr>sq_db := (sq_db t)\<lparr>messages := messages (delete_row i (sq_db t)) @ [make_row (next_id ?d) ?c ?n],
             next_id := next_id (sq_db t) + 1, next_dlq := next_dlq (sq_db t) + 1\<rparr>\<rparr>)"
    unfolding n sqlite_ReplayDLQMessage_def by simp
  moreover have "?c \<le> sq_now t"
    by (simp add: current_timestamp_def)
  ultimately show ?thesis
    by (intro exI [of _ "make_row (next_id ?d) ?c ?n"]) (simp add: sqlite_replay_row_def dead_row_def)
qed

section \<open>A small queue\<close>

definition sample_config :: sqlite_config where
  "sample_config = \<lparr>FilePath = [], PollInterval = 0, MaxRetries = 2\<rparr>"

definition sample_queue :: sqlite where
  "sample_queue = snd (sqlite_Publish ''job'' [raw_message, raw_message\<lparr>UUID := ''u2''\<rparr>] (sqlite_New sample_config 5000000000))"

definition simple_route :: "(message \<Rightarrow> 'w \<Rightarrow> gerror option \<times> 'w) \<Rightarrow> message \<Rightarrow> 'w \<Rightarrow> outcome \<times> 'w" where
  "simple_route h msg w = (case h msg w of (None, w') \<Rightarrow> (Acked, w') | (Some _, w') \<Rightarrow> (Nacked, w'))"

definition sqlite_service :: "sqlite service" where
  "sqlite_service = \<lparr>svc_publisher = Some sqlite_publish, svc_system = ''sqlite'', svc_capabilities = (\<lambda>_. SQLiteCapabilities)\<rparr>"

definition fetched :: "sqlite \<Rightarrow> string msg_row" where
  "fetched t = the (fst (sqlite_fetchAndLockMessage ''job'' t))"

definition after_fetch :: "sqlite \<Rightarrow> sqlite" where
  "after_fetch t = snd (sqlite_fetchAndLockMessage ''job'' t)"

lemma fetch_fetched:
  "fst (sqlite_fetchAndLockMessage ''job'' t) \<noteq> None \<Longrightarrow>
     sqlite_fetchAndLockMessage ''job'' t = (Some (fetched t), after_fetch t)"
  by (cases "sqlite_fetchAndLockMessage ''job'' t") (auto simp: fetched_def after_fetch_def)

lemma sample_fetch: "sqlite_fetchAndLockMessage ''job'' sample_queue = (Some (fetched sample_queue), after_fetch sample_queue)"
  by (rule fetch_fetched) code_simp

lemma sqlite_fetch_exclusive_witness:
  "row_id (fetched ((after_fetch sample_queue)\<lparr>sq_now := 6000000000\<rparr>)) \<noteq> row_id (fetched sample_queue)"
proof -
  have "sqlite_fetchAndLockMessage ''job'' ((after_fetch sample_queue)\<lparr>sq_now := 6000000000\<rparr>)
      = (Some (fetched ((after_fetch sample_queue)\<lparr>sq_now := 6000000000\<rparr>)),
         after_fetch ((after_fetch sample_queue)\<lparr>sq_now := 6000000000\<rparr>))"
    by (rule fetch_fetched) code_simp
  moreover have "(6000000000 :: int) \<le> sq_now sample_queue + 30 * second" by code_simp
  ultimately show ?thesis using sqlite_fetch_exclusive [OF sample_fetch] by blast
qed

lemma sqlite_retry_budget_witness:
  "find_row 1 (sq_db (nack_at 1 30 (fold (nack_at 1) [10, 20] sample_queue))) = None"
proof -
  obtain r where r: "find_row 1 (sq_db sample_queue) = Some r" "row_retries r = 0"
  proof -
    have "map_option row_retries (find_row 1 (sq_db sample_queue)) = Some 0" by code_simp
    then show thesis using that by auto
  qed
  have m: "MaxRetries (sq_config sample_queue) = 2" by code_simp
  have "0 < (1 :: nat)" "int 1 \<le> MaxRetries (sq_config sample_queue)"
    "MaxRetries (sq_config sample_queue) \<le> 9223372036" "length [10 :: int] = 1"
    "length [10, 20 :: int] = nat (MaxRetries (sq_config sample_queue))"
    by (simp_all add: m)
  from sqlite_retry_budget [OF r this, of 30] show ?thesis by blast
qed

lemma sqlite_build_never_retries_witness:
  "\<exists>t r. find_row 1 (sq_db t) = Some r \<and> row_retries r = 0 \<and> find_row 1 (sq_db (sqlite_nackMessage 1 t)) = None"
proof -
  let ?t = "sample_queue\<lparr>sq_config := sq_config (sqlite_Build zero_config 0)\<rparr>"
  have "map_option row_retries (find_row 1 (sq_db ?t)) = Some 0" by code_simp
  then obtain r where r: "find_row 1 (sq_db ?t) = Some r" "row_retries r = 0" by auto
  have "sq_config ?t = sq_config (sqlite_Build zero_config 0)" by simp
  from sqlite_build_never_retries [OF this r(1)] r show ?thesis
    by (intro exI [of _ ?t] exI [of _ r]) simp
qed

lemma sqlite_dead_letter_lost_witness:
  "length (messages (sq_db (sqlite_processAvailableMessages ''job''
      (simple_route (wrapCloudEventsHandler sqlite_service ''job''
        (\<lambda>evt w. (Some (Sentinel ErrDeadLetter), evt, w)))) sample_queue))) = 1
   \<and> dead (sq_db (sqlite_processAvailableMessages ''job''
      (simple_route (wrapCloudEventsHandler sqlite_service ''job''
        (\<lambda>evt w. (Some (Sentinel ErrDeadLetter), evt, w)))) sample_queue)) = []"
proof -
  have p: "svc_publisher sqlite_service = Some sqlite_publish" by (simp add: sqlite_service_def)
  have a: "router_acks simple_route" by (simp add: router_acks_def simple_route_def)
  have i: "ID (delivered (sqlite_message (fetched sample_queue))) = row_uuid (fetched sample_queue)" by code_simp
  have c: "fst (ClassifyError (Some (Sentinel ErrDeadLetter))) = ResultDeadLetter"
    by (simp add: ClassifyError_def errors_as_retry_after.simps errors_is_requests requests_def nodes.simps)
  have l: "length (messages (delete_row (row_id (fetched sample_queue)) (sq_db sample_queue))) = 1"
    "dead (sq_db sample_queue) = []"
    by code_simp+
  show ?thesis
    using sqlite_dead_letter_lost [where h = "\<lambda>evt w. (Some (Sentinel ErrDeadLetter), evt, w)", OF sample_fetch p a i refl c] l
    by (simp add: delete_row_def)
qed

lemma sqlite_replay_all_moves_witness:
  "sqlite_GetPendingCount ''job'' (snd (sqlite_ReplayAllDLQ ''job'' (fold (nack_at 1) [10, 20, 30] sample_queue)))
   = sqlite_GetPendingCount ''job'' (fold (nack_at 1) [10, 20, 30] sample_queue) + 1"
proof -
  let ?t = "fold (nack_at 1) [10, 20, 30] sample_queue"
  have "fst (sqlite_ReplayAllDLQ ''job'' ?t) = Inr 1" by code_simp
  then have "sqlite_ReplayAllDLQ ''job'' ?t = (Inr 1, snd (sqlite_ReplayAllDLQ ''job'' ?t))"
    by (simp add: prod_eq_iff)
  from sqlite_replay_all_moves [OF this] show ?thesis by simp
qed

lemma sqlite_dead_letter_roundtrip_witness:
  "\<exists>x t. sqlite_ReplayDLQMessage 1 (sqlite_nackMessage 1 t) = (None, x)"
proof -
  let ?t = "fold (nack_at 1) [10, 20] sample_queue"
  have "map_option row_retries (find_row 1 (sq_db ?t)) = Some 2" by code_simp
  then obtain r where r: "find_row 1 (sq_db ?t) = Some r" "row_retries r = 2" by auto
  have m: "MaxRetries (sq_config ?t) \<le> row_retries r" unfolding r(2) by code_simp
  have w: "wf_db (sq_db ?t)" "next_dlq (sq_db ?t) = 1" by code_simp+
  have u: "row_uuid (the (find_row 1 (sq_db ?t))) @ ''-replay-'' @ dec_int (sq_now ?t) \<notin> set (uuids (sq_db ?t))"
    by code_simp
  note u = u [unfolded r(1) option.sel]
  from sqlite_dead_letter_roundtrip [OF w(1) r(1) m u] w(2) show ?thesis by auto
qed

text \<open>
  Two late refusals of a row that has no retries left, both past the query before either has deleted
  it: the row is in the dead letter queue twice, and has been published once.
\<close>

fun sys_proceed :: "int \<times> refusal \<Rightarrow> sqlite_sys \<Rightarrow> sqlite_sys" where
  "sys_proceed (i, c) s =
     (case sys_nack_part i c s of (c', s') \<Rightarrow> s'\<lparr>sys_refusals := sys_refusals s - {#(i, c)#} + at_point i c'\<rparr>)"

fun proceeds :: "(int \<times> refusal) list \<Rightarrow> sqlite_sys \<Rightarrow> bool" where
  "proceeds [] s \<longleftrightarrow> True"
| "proceeds (p # ps) s \<longleftrightarrow> p \<in># sys_refusals s \<and> proceeds ps (sys_proceed p s)"

lemma proceeds_reach:
  "proceeds ps s \<Longrightarrow> sqlite_reach cfg now s \<Longrightarrow> sqlite_reach cfg now (fold sys_proceed ps s)"
proof (induction ps arbitrary: s)
  case (Cons p ps)
  obtain i c where p: "p = (i, c)" by (cases p)
  obtain c' s' where n: "sys_nack_part i c s = (c', s')" by (cases "sys_nack_part i c s")
  have "sqlite_step s (sys_proceed p s)"
    using sqlite_step.proceed [of i c s, OF _ n] Cons.prems(1) by (simp add: p n)
  with Cons show ?case using sqlite_reach.step [of cfg now s] by simp
qed simp

definition no_retries :: sqlite_config where
  "no_retries = \<lparr>FilePath = ''f'', PollInterval = 0, MaxRetries = 0\<rparr>"

definition refused_twice :: sqlite_sys where
  "refused_twice =
     (let t = snd (sqlite_Publish ''q'' [raw_message] (sqlite_New no_retries 0))
      in (sqlite_init no_retries 0)\<lparr>sys_t := t, sys_published := {#(''q'', Payload raw_message)#},
           sys_refusals := {#(1, Asked), (1, Asked)#}\<rparr>)"

lemma refused_twice_reach: "sqlite_reach no_retries 0 refused_twice"
proof -
  let ?s0 = "sqlite_init no_retries 0"
  let ?s1 = "?s0\<lparr>sys_t := snd (sqlite_Publish ''q'' [raw_message] (sqlite_New no_retries 0)), sys_published := {#(''q'', Payload raw_message)#}\<rparr>"
  have "fst (sqlite_Publish ''q'' [raw_message] (sqlite_New no_retries 0)) = None" by code_simp
  then have p: "sqlite_Publish ''q'' [raw_message] (sys_t ?s0) = (None, snd (sqlite_Publish ''q'' [raw_message] (sqlite_New no_retries 0)))"
    by (simp add: prod_eq_iff sqlite_init_def)
  have "sqlite_reach no_retries 0 ?s1"
    using sqlite_reach.step [OF sqlite_reach.init sqlite_step.publish [OF p]] by (simp add: sqlite_init_def)
  from sqlite_reach.step [OF sqlite_reach.step [OF this sqlite_step.refuse [of _ 1]] sqlite_step.refuse [of _ 1]]
  show ?thesis by (simp add: refused_twice_def Let_def sqlite_init_def at_point_def)
qed

abbreviation both_refusals :: "(int \<times> refusal) list" where
  "both_refusals \<equiv> [(1, Asked), (1, Asked), (1, Limit), (1, Limit), (1, Copied), (1, Copied)]"

definition moved_twice :: sqlite_sys where
  "moved_twice = fold sys_proceed both_refusals refused_twice"

lemma sqlite_conserves_messages_witness:
  "sqlite_reach no_retries 0 moved_twice \<and> messages (sys_db moved_twice) = []
   \<and> dead_items (sys_db moved_twice) = {#(''q'', Payload raw_message), (''q'', Payload raw_message)#}
   \<and> sys_published moved_twice = {#(''q'', Payload raw_message)#}
   \<and> sys_copied moved_twice - sys_removed moved_twice = {#(''q'', Payload raw_message)#}"
proof -
  have "proceeds both_refusals refused_twice" by code_simp
  then have r: "sqlite_reach no_retries 0 moved_twice"
    unfolding moved_twice_def using refused_twice_reach by (rule proceeds_reach)
  have v: "messages (sys_db moved_twice) = []" "map (\<lambda>x. (dlq_topic x, dlq_payload x)) (dead (sys_db moved_twice))
      = [(''q'', Payload raw_message), (''q'', Payload raw_message)]"
    "sys_published moved_twice = {#(''q'', Payload raw_message)#}" "sys_acked moved_twice = {#}" "sys_purged moved_twice = {#}"
    by code_simp+
  have "dead_items (sys_db moved_twice) = mset (map (\<lambda>x. (dlq_topic x, dlq_payload x)) (dead (sys_db moved_twice)))"
    by (simp add: dead_items_def)
  then have d: "dead_items (sys_db moved_twice) = {#(''q'', Payload raw_message), (''q'', Payload raw_message)#}"
    by (simp only: v(2) mset.simps)
  from sqlite_conserves_messages [OF r]
  have "dead_items (sys_db moved_twice) - sys_published moved_twice = sys_copied moved_twice - sys_removed moved_twice"
    by (simp add: v(1,4,5) msg_items_def)
  with r v(1,3) d show ?thesis by simp
qed

lemma sqlite_due_message_delivered_witness:
  "\<exists>k. map_option row_uuid (fst (sqlite_fetchAndLockMessage ''job''
     ((sqlite_processAvailableMessages ''job'' (\<lambda>m s. (Nacked, s)) ^^ k) sample_queue))) = Some ''u2''"
proof -
  have "map_option row_uuid (find_row 2 (sq_db sample_queue)) = Some ''u2''" by code_simp
  then obtain x where x: "find_row 2 (sq_db sample_queue) = Some x" "row_uuid x = ''u2''" by auto
  have m: "x \<in> set (messages (sq_db sample_queue))" using find_row_SomeD(1) [OF x(1)] .
  have "list_all (fetchable ''job'' (sq_now sample_queue)) (messages (sq_db sample_queue))" by code_simp
  with m have f: "fetchable ''job'' (sq_now sample_queue) x" by (auto simp: list_all_iff)
  have w: "wf_db (sq_db sample_queue)" "MaxRetries (sq_config sample_queue) \<le> 9223372036" by code_simp+
  have "\<exists>out now. (Nacked, s) = (out, s\<lparr>sq_now := now\<rparr>) \<and> sq_now s \<le> now \<and> out \<in> {Acked, Nacked}" for s :: sqlite
    by (intro exI [of _ Nacked] exI [of _ "sq_now s"]) simp
  from sqlite_due_message_delivered [where consumer = "\<lambda>m s. (Nacked, s)", OF w(1) m f w(2) this] x(2)
  show ?thesis by auto
qed

end
