(* ===== verification/Postgres.thy ===== *)
theory Postgres
  imports Sql_Table
begin

text \<open>
  The Postgres transport (\<open>transport/postgres/postgres.go\<close>): publishing, the polling consumer with its
  configurable lock, acknowledgement, exponential backoff and dead-lettering, the management of
  the dead letter queue and the maintenance operations. The tables are those of \<open>Sql_Table\<close> with a
  JSON value as metadata (\<open>JSONB\<close>).

  The state has the clock that \<open>time.Now\<close> and \<open>NOW()\<close> read, and \<open>pg_ts\<close>, the server's rounding of an
  instant to the resolution of \<open>TIMESTAMPTZ\<close>; results that depend on it assume that it is
  monotone. The consuming operations run their statements under the context of the
  subscription: \<open>database/sql\<close> does not run a statement whose context is already done, so each of
  them takes a flag that says whether it is.
\<close>

section \<open>Configuration and state\<close>

record pg_config =
  ConnectionString :: string
  pg_PollInterval :: duration
  pg_MaxRetries :: int
  LockTimeout :: duration
  SchemaName :: string
  MaxOpenConns :: int
  MaxIdleConns :: int

definition pg_DefaultPollInterval :: duration where
  "pg_DefaultPollInterval = 100 * millisecond"

definition pg_DefaultMaxRetries :: int where
  "pg_DefaultMaxRetries = 3"

definition pg_DefaultLockTimeout :: duration where
  "pg_DefaultLockTimeout = 30 * second"

definition pg_withDefaults :: "pg_config \<Rightarrow> pg_config" where
  "pg_withDefaults c =
     (let c = (if pg_PollInterval c \<le> 0 then c\<lparr>pg_PollInterval := pg_DefaultPollInterval\<rparr> else c);
          c = (if pg_MaxRetries c \<le> 0 then c\<lparr>pg_MaxRetries := pg_DefaultMaxRetries\<rparr> else c);
          c = (if LockTimeout c \<le> 0 then c\<lparr>LockTimeout := pg_DefaultLockTimeout\<rparr> else c);
          c = (if SchemaName c = [] then c\<lparr>SchemaName := ''protoflow''\<rparr> else c);
          c = (if MaxOpenConns c \<le> 0 then c\<lparr>MaxOpenConns := 10\<rparr> else c)
      in if MaxIdleConns c \<le> 0 then c\<lparr>MaxIdleConns := 5\<rparr> else c)"

record postgres =
  pg_db :: "json db"
  pg_config :: pg_config
  pg_closed :: bool
  pg_now :: int
  pg_ts :: "int \<Rightarrow> int"

definition pg_New :: "pg_config \<Rightarrow> int \<Rightarrow> (int \<Rightarrow> int) \<Rightarrow> gerror + postgres" where
  "pg_New cfg now ts =
     (if ConnectionString cfg = [] then Inl (Plain ''PostgreSQL connection string is required'')
      else Inr \<lparr>pg_db = empty_db, pg_config = pg_withDefaults cfg, pg_closed = False, pg_now = now, pg_ts = ts\<rparr>)"

definition pg_Build :: "config \<Rightarrow> int \<Rightarrow> (int \<Rightarrow> int) \<Rightarrow> gerror + postgres" where
  "pg_Build cfg now ts =
     pg_New \<lparr>ConnectionString = PostgresURL cfg, pg_PollInterval = 0, pg_MaxRetries = 0, LockTimeout = 0,
             SchemaName = [], MaxOpenConns = 0, MaxIdleConns = 0\<rparr> now ts"

text \<open>\<open>NOW()\<close>\<close>

abbreviation db_now :: "postgres \<Rightarrow> int" where
  "db_now t \<equiv> pg_ts t (pg_now t)"

section \<open>Publishing\<close>

definition pg_row :: "postgres \<Rightarrow> string \<Rightarrow> message \<Rightarrow> json new_row" where
  "pg_row t topic msg =
     \<lparr>new_uuid = UUID msg, new_topic = topic, new_payload = Payload msg,
      new_metadata = metadata_json (Metadata msg), new_available = pg_ts t (available_at (pg_now t) msg)\<rparr>"

definition pg_unique_violation :: gerror where
  "pg_unique_violation = Plain ''pq: duplicate key value violates unique constraint''"

definition pg_Publish :: "string \<Rightarrow> message list \<Rightarrow> postgres \<Rightarrow> gerror option \<times> postgres" where
  "pg_Publish topic msgs t =
     (if pg_closed t then (Some (Plain ''transport is closed''), t)
      else case insert_rows (db_now t) (map (pg_row t topic) msgs) (pg_db t) of
             None \<Rightarrow> (Some (wrap_err ''failed to insert message'' pg_unique_violation), t)
           | Some d \<Rightarrow> (None, t\<lparr>pg_db := d\<rparr>))"

definition pg_publish :: "postgres publisher" where
  "pg_publish topic msg t = pg_Publish topic [msg] t"

section \<open>Consuming\<close>

text \<open>
  The fetch is one \<open>UPDATE ... WHERE id = (SELECT ... LIMIT 1) RETURNING\<close>, so the choice of the row and
  its lock are one step.
\<close>

definition pg_message :: "json msg_row \<Rightarrow> message" where
  "pg_message r =
     \<lparr>UUID = row_uuid r, Metadata = json_metadata (row_metadata r), Payload = row_payload r\<rparr>"

definition pg_fetchAndLockMessage :: "bool \<Rightarrow> string \<Rightarrow> postgres \<Rightarrow> (int \<times> message) option \<times> postgres" where
  "pg_fetchAndLockMessage ctx_done topic t =
     (let lockUntil = pg_ts t (pg_now t + LockTimeout (pg_config t))
      in if ctx_done then (None, t)
         else case next_row topic (db_now t) (pg_db t) of
                None \<Rightarrow> (None, t)
              | Some r \<Rightarrow>
                  (Some (row_id r, pg_message r),
                   t\<lparr>pg_db := update_row (row_id r) (\<lambda>x. x\<lparr>row_locked := Some lockUntil\<rparr>) (pg_db t)\<rparr>))"

definition pg_ackMessage :: "bool \<Rightarrow> int \<Rightarrow> postgres \<Rightarrow> postgres" where
  "pg_ackMessage ctx_done i t = (if ctx_done then t else t\<lparr>pg_db := delete_row i (pg_db t)\<rparr>)"

text \<open>
  \<open>1 << retryCount\<close> and the product with \<open>time.Second\<close> are 64-bit; the column \<open>retry_count\<close> is a 32-bit
  \<open>INTEGER\<close>, whose overflow is an error of the statement.
\<close>

definition pg_backoff :: "int \<Rightarrow> duration" where
  "pg_backoff retryCount = i64 (i64 (2 ^ nat retryCount) * second)"

text \<open>
  \<open>nackMessage\<close> is a query and then one statement, which moves the row or puts it off; others can come
  in between. \<open>pg_nackMessage\<close> is the call that nobody comes in between.
\<close>

definition pg_nack_part :: "bool \<Rightarrow> int \<Rightarrow> refusal \<Rightarrow> postgres \<Rightarrow> refusal option \<times> postgres" where
  "pg_nack_part ctx_done i c t =
     (case c of
        Asked \<Rightarrow>
          (if ctx_done then (None, t)
           else case find_row i (pg_db t) of
             None \<Rightarrow> (None, t)
           | Some r \<Rightarrow>
               (Some (if pg_MaxRetries (pg_config t) \<le> row_retries r then Limit else Below (row_retries r)), t))
      | Limit \<Rightarrow>
          (None, if ctx_done then t else t\<lparr>pg_db := delete_row i (insert_dead (db_now t) i (pg_db t))\<rparr>)
      | Copied \<Rightarrow> (None, t)
      | Below retryCount \<Rightarrow>
          (let availableAt = pg_now t + pg_backoff retryCount in (Some (Due availableAt), t))
      | Due availableAt \<Rightarrow>
          (None, if ctx_done \<or> pred_option (\<lambda>r. 2147483647 \<le> row_retries r) (find_row i (pg_db t)) then t
             else t\<lparr>pg_db := update_row i
               (\<lambda>x. x\<lparr>row_retries := row_retries x + 1, row_locked := None, row_available := pg_ts t availableAt\<rparr>)
               (pg_db t)\<rparr>))"

definition pg_nackMessage :: "bool \<Rightarrow> int \<Rightarrow> postgres \<Rightarrow> postgres" where
  "pg_nackMessage ctx_done i t = refuse_all 3 (pg_nack_part ctx_done i) Asked t"

lemma pg_nack_shrinks: "pg_nack_part ctx_done i c t = (Some c', t') \<Longrightarrow> parts_left c' < parts_left c"
  by (auto simp: pg_nack_part_def Let_def split: refusal.splits option.splits if_splits)

lemma pg_nackMessage_alone:
  "pg_nackMessage ctx_done i t =
     (if ctx_done then t
      else case find_row i (pg_db t) of
        None \<Rightarrow> t
      | Some r \<Rightarrow>
          if pg_MaxRetries (pg_config t) \<le> row_retries r
          then t\<lparr>pg_db := delete_row i (insert_dead (db_now t) i (pg_db t))\<rparr>
          else if 2147483647 \<le> row_retries r then t
          else t\<lparr>pg_db := update_row i
                 (\<lambda>x. x\<lparr>row_retries := row_retries x + 1, row_locked := None,
                        row_available := pg_ts t (pg_now t + pg_backoff (row_retries r))\<rparr>) (pg_db t)\<rparr>)"
  by (simp add: pg_nackMessage_def pg_nack_part_def numeral_3_eq_3 Let_def split: option.splits)

definition pg_unlockMessage :: "bool \<Rightarrow> int \<Rightarrow> postgres \<Rightarrow> postgres" where
  "pg_unlockMessage ctx_done i t =
     (if ctx_done then t else t\<lparr>pg_db := update_row i (\<lambda>x. x\<lparr>row_locked := None\<rparr>) (pg_db t)\<rparr>)"

text \<open>The outcome \<open>Cancelled\<close> is \<open>ctx.Done()\<close>: the context is done from then on.\<close>

definition pg_handleMessageResult :: "bool \<Rightarrow> outcome \<Rightarrow> int \<Rightarrow> postgres \<Rightarrow> postgres" where
  "pg_handleMessageResult ctx_done out i t =
     (case out of
        Acked \<Rightarrow> pg_ackMessage ctx_done i t
      | Nacked \<Rightarrow> pg_nackMessage ctx_done i t
      | Cancelled \<Rightarrow> pg_unlockMessage True i t
      | TransportClosed \<Rightarrow> pg_unlockMessage ctx_done i t)"

text \<open>
  One tick of the poller. \<open>consumer\<close> is what happens between the hand-over of the message and its
  outcome; it also says whether the context is done when the outcome is looked at.
\<close>

definition pg_processAvailableMessages ::
  "bool \<Rightarrow> string \<Rightarrow> (message \<Rightarrow> postgres \<Rightarrow> (outcome \<times> bool) \<times> postgres) \<Rightarrow> postgres \<Rightarrow> postgres" where
  "pg_processAvailableMessages ctx_done topic consumer t =
     (case pg_fetchAndLockMessage ctx_done topic t of
        (None, t') \<Rightarrow> t'
      | (Some (i, msg), t') \<Rightarrow>
          (case consumer msg t' of ((out, done), t'') \<Rightarrow> pg_handleMessageResult done out i t''))"

definition pg_Close :: "postgres \<Rightarrow> postgres" where
  "pg_Close t = t\<lparr>pg_closed := True\<rparr>"

section \<open>Dead letter queue\<close>

definition pg_GetPendingCount :: "string \<Rightarrow> postgres \<Rightarrow> int" where
  "pg_GetPendingCount topic t = pending_count topic (pg_db t)"

definition pg_GetDLQCount :: "string \<Rightarrow> postgres \<Rightarrow> int" where
  "pg_GetDLQCount topic t = dlq_count topic (pg_db t)"

text \<open>\<open>extract(epoch from now())::bigint\<close> rounds to the nearest second.\<close>

definition epoch_bigint :: "int \<Rightarrow> int" where
  "epoch_bigint now = (now + 500000000) div second"

definition pg_replay_row :: "int \<Rightarrow> string \<Rightarrow> json dlq_row \<Rightarrow> json new_row" where
  "pg_replay_row now suffix x =
     \<lparr>new_uuid = dlq_uuid x @ ''-replay-'' @ dec_int (epoch_bigint now) @ suffix, new_topic = dlq_topic x,
      new_payload = dlq_payload x, new_metadata = dlq_metadata x, new_available = now\<rparr>"

definition pg_ReplayDLQMessage :: "int \<Rightarrow> postgres \<Rightarrow> gerror option \<times> postgres" where
  "pg_ReplayDLQMessage i t =
     (let xs = filter (\<lambda>x. dlq_id x = i) (dead (pg_db t))
      in case insert_rows (db_now t) (map (pg_replay_row (db_now t) []) xs) (pg_db t) of
           None \<Rightarrow> (Some pg_unique_violation, t)
         | Some d \<Rightarrow>
             if xs = [] then (Some (Plain (''DLQ message with id '' @ dec_int i @ '' not found'')), t)
             else (None, t\<lparr>pg_db := delete_dead (\<lambda>x. dlq_id x = i) d\<rparr>))"

definition pg_replay_rows :: "int \<Rightarrow> json dlq_row list \<Rightarrow> json new_row list" where
  "pg_replay_rows now xs =
     map (\<lambda>(n, x). pg_replay_row now (CHR ''-'' # dec_int n) x) (zip [1..int (length xs)] xs)"

definition pg_ReplayAllDLQ :: "string \<Rightarrow> postgres \<Rightarrow> (gerror + int) \<times> postgres" where
  "pg_ReplayAllDLQ topic t =
     (let xs = filter (\<lambda>x. dlq_topic x = topic) (dead (pg_db t))
      in case insert_rows (db_now t) (pg_replay_rows (db_now t) xs) (pg_db t) of
           None \<Rightarrow> (Inl pg_unique_violation, t)
         | Some d \<Rightarrow> (Inr (int (length xs)), t\<lparr>pg_db := delete_dead (\<lambda>x. dlq_topic x = topic) d\<rparr>))"

definition pg_PurgeDLQ :: "string \<Rightarrow> postgres \<Rightarrow> int \<times> postgres" where
  "pg_PurgeDLQ topic t =
     (dlq_count topic (pg_db t), t\<lparr>pg_db := delete_dead (\<lambda>x. dlq_topic x = topic) (pg_db t)\<rparr>)"

definition pg_dlq_message :: "json dlq_row \<Rightarrow> DLQMessage" where
  "pg_dlq_message x =
     \<lparr>dm_ID = dlq_id x, dm_UUID = dlq_uuid x, dm_OriginalTopic = dlq_topic x, dm_Payload = dlq_payload x,
      dm_Metadata = json_metadata (dlq_metadata x), dm_ErrorMessage = dlq_error x,
      dm_FailedAt = dlq_failed x, dm_RetryCount = dlq_retries x\<rparr>"

text \<open>A negative \<open>LIMIT\<close> or \<open>OFFSET\<close> is an error in Postgres.\<close>

definition pg_ListDLQMessages :: "string \<Rightarrow> int \<Rightarrow> int \<Rightarrow> postgres \<Rightarrow> gerror + DLQMessage list" where
  "pg_ListDLQMessages topic limit off t =
     (if limit < 0 then Inl (Plain ''pq: LIMIT must not be negative'')
      else if off < 0 then Inl (Plain ''pq: OFFSET must not be negative'')
      else Inr (map pg_dlq_message
       (page limit off
         (sort_key (\<lambda>x. - dlq_failed x) (filter (\<lambda>x. dlq_topic x = topic) (dead (pg_db t)))))))"

section \<open>Maintenance\<close>

definition lock_expired :: "int \<Rightarrow> 'm msg_row \<Rightarrow> bool" where
  "lock_expired now r \<longleftrightarrow> (case row_locked r of None \<Rightarrow> False | Some l \<Rightarrow> l < now)"

definition pg_CleanupExpiredLocks :: "postgres \<Rightarrow> int \<times> postgres" where
  "pg_CleanupExpiredLocks t =
     (int (length (filter (lock_expired (db_now t)) (messages (pg_db t)))),
      t\<lparr>pg_db := (pg_db t)\<lparr>messages :=
          map (\<lambda>r. if lock_expired (db_now t) r then r\<lparr>row_locked := None\<rparr> else r) (messages (pg_db t))\<rparr>\<rparr>)"

text \<open>\<open>VACUUM\<close> reclaims space and leaves the contents of the tables as they are.\<close>

definition pg_VacuumTables :: "postgres \<Rightarrow> postgres" where
  "pg_VacuumTables t = t"

section \<open>Interfaces\<close>

definition pg_queued :: "postgres \<Rightarrow> (string \<times> message) list" where
  "pg_queued t = map (\<lambda>r. (row_topic r, pg_message r)) (messages (pg_db t))"

definition pg_holds :: "postgres \<Rightarrow> string set" where
  "pg_holds t = set (uuids (pg_db t))"

interpretation pg_sink: message_sink pg_publish pg_queued
proof unfold_locales
  fix t m w w'
  assume p: "pg_publish t m w = (None, w')" and wf: "wf_map (Metadata m)"
  from p obtain d where d: "insert_rows (db_now w) [pg_row w t m] (pg_db w) = Some d" "w' = w\<lparr>pg_db := d\<rparr>"
    by (auto simp: pg_publish_def pg_Publish_def split: if_splits option.splits)
  then have "messages d = messages (pg_db w) @ [make_row (next_id (pg_db w)) (db_now w) (pg_row w t m)]"
    by (auto simp: insert_row_def split: option.splits if_splits)
  with d(2) wf show "pg_queued w' = pg_queued w @ [(t, norm_message m)]"
    by (simp add: pg_queued_def pg_message_def pg_row_def norm_message_def json_metadata_inverse)
next
  fix t m w e w'
  assume "pg_publish t m w = (Some e, w')"
  then have "w' = w" by (auto simp: pg_publish_def pg_Publish_def split: if_splits option.splits)
  then show "pg_queued w' = pg_queued w" by simp
qed

interpretation pg_unique: unique_sink pg_publish pg_holds
  by unfold_locales (auto simp: pg_publish_def pg_Publish_def pg_holds_def pg_row_def insert_taken)

lemma pg_replay_all_Inr:
  assumes "pg_ReplayAllDLQ q t = (Inr n, t')"
  obtains d where "insert_rows (db_now t)
      (pg_replay_rows (db_now t) (filter (\<lambda>x. dlq_topic x = q) (dead (pg_db t)))) (pg_db t) = Some d"
    "t' = t\<lparr>pg_db := delete_dead (\<lambda>x. dlq_topic x = q) d\<rparr>" "n = dlq_count q (pg_db t)"
  using assms by (auto simp: pg_ReplayAllDLQ_def Let_def dlq_count_def split: option.splits)

lemma pg_replay_rows_topic:
  "list_all (\<lambda>n. new_topic n = q) (pg_replay_rows now (filter (\<lambda>x. dlq_topic x = q) xs))"
  by (auto simp: pg_replay_rows_def list_all_iff pg_replay_row_def dest: set_zip_rightD)

lemma length_pg_replay_rows [simp]: "length (pg_replay_rows now xs) = length xs"
  by (simp add: pg_replay_rows_def)

interpretation pg_dlq: dlq_manager pg_GetPendingCount pg_GetDLQCount pg_ReplayAllDLQ pg_PurgeDLQ
proof unfold_locales
  fix q s n s' p
  assume r: "pg_ReplayAllDLQ q s = (Inr n, s')"
  from pg_replay_all_Inr [OF r] obtain d where d: "insert_rows (db_now s)
      (pg_replay_rows (db_now s) (filter (\<lambda>x. dlq_topic x = q) (dead (pg_db s)))) (pg_db s) = Some d"
    "s' = s\<lparr>pg_db := delete_dead (\<lambda>x. dlq_topic x = q) d\<rparr>" "n = dlq_count q (pg_db s)" .
  show "n = pg_GetDLQCount q s" using d(3) by (simp add: pg_GetDLQCount_def)
  have "dlq_count p d = dlq_count p (pg_db s)"
    using dead_insert_rows [OF d(1)] by (simp add: dlq_count_def)
  then show "pg_GetDLQCount p s' = (if p = q then 0 else pg_GetDLQCount p s)"
    by (simp add: pg_GetDLQCount_def d(2) dlq_count_delete)
  show "pg_GetPendingCount p s' = pg_GetPendingCount p s + (if p = q then n else 0)"
    using pending_insert_rows [OF d(1) pg_replay_rows_topic, of p]
    by (simp add: pg_GetPendingCount_def d(2,3) dlq_count_def)
qed (auto simp: pg_ReplayAllDLQ_def Let_def pg_PurgeDLQ_def pg_GetDLQCount_def
    pg_GetPendingCount_def dlq_count_delete split: option.splits)

section \<open>Fetching and letting go\<close>

lemma pg_fetch_Some:
  assumes "pg_fetchAndLockMessage done topic t = (Some (i, msg), t')"
  obtains r where "next_row topic (db_now t) (pg_db t) = Some r" "i = row_id r" "msg = pg_message r" "\<not> done"
    "t' = t\<lparr>pg_db := update_row i (\<lambda>x. x\<lparr>row_locked := Some (pg_ts t (pg_now t + LockTimeout (pg_config t)))\<rparr>) (pg_db t)\<rparr>"
  using assms by (auto simp: pg_fetchAndLockMessage_def Let_def split: option.splits if_splits)

lemma pg_locked_not_fetched:
  assumes "pg_fetchAndLockMessage done topic t = (Some (i, msg), t')"
    "mono (pg_ts t)" "now \<le> pg_now t + LockTimeout (pg_config t)"
  shows "map_option fst (fst (pg_fetchAndLockMessage done' topic' (t'\<lparr>pg_now := now\<rparr>))) \<noteq> Some i"
proof
  let ?l = "pg_ts t (pg_now t + LockTimeout (pg_config t))"
  from assms(1) obtain r where t': "t' = t\<lparr>pg_db := update_row i (\<lambda>x. x\<lparr>row_locked := Some ?l\<rparr>) (pg_db t)\<rparr>"
    by (rule pg_fetch_Some)
  assume "map_option fst (fst (pg_fetchAndLockMessage done' topic' (t'\<lparr>pg_now := now\<rparr>))) = Some i"
  then obtain m t'' where "pg_fetchAndLockMessage done' topic' (t'\<lparr>pg_now := now\<rparr>) = (Some (i, m), t'')"
    by (cases "pg_fetchAndLockMessage done' topic' (t'\<lparr>pg_now := now\<rparr>)") auto
  then obtain x where "next_row topic' (db_now (t'\<lparr>pg_now := now\<rparr>)) (pg_db (t'\<lparr>pg_now := now\<rparr>)) = Some x" "i = row_id x"
    by (rule pg_fetch_Some)
  moreover have "db_now (t'\<lparr>pg_now := now\<rparr>) = pg_ts t now" by (simp add: t')
  ultimately have "next_row topic' (pg_ts t now) (pg_db t') = Some x" "i = row_id x" by simp_all
  then have x: "x \<in> set (messages (pg_db t'))" "fetchable topic' (pg_ts t now) x" "row_id x = i"
    using next_row_SomeD(1,2) by auto
  from x(1) obtain y where "y \<in> set (messages (pg_db t))"
    "x = (if row_id y = i then y\<lparr>row_locked := Some ?l\<rparr> else y)"
    unfolding t' by (auto simp: update_row_def)
  with x(3) have "row_locked x = Some ?l" by (simp split: if_splits)
  moreover have "pg_ts t now \<le> ?l" using assms(2,3) by (rule monoD)
  ultimately show False using x(2) by (simp add: fetchable_def)
qed

text \<open>
  C21. A cancelled subscription keeps its message. When the context of the subscription ends while a
  message is being handled, the statement that should release the row runs under that same
  context and is not executed: the row stays locked, and no poller on any topic is given it
  before the lock times out. Had the transport been closed instead, the row would be free, and
  due, at once.
\<close>

theorem pg_cancelled_message_stays_locked:
  assumes "pg_fetchAndLockMessage False topic t = (Some (i, msg), t1)"
    "mono (pg_ts t)" "now \<le> pg_now t + LockTimeout (pg_config t)"
    "consumer msg t1 = ((Cancelled, ctx_done), t1)" "closing msg t1 = ((TransportClosed, False), t1)" "wf_db (pg_db t)"
  shows "pg_processAvailableMessages False topic consumer t = t1
    \<and> map_option fst (fst (pg_fetchAndLockMessage done' topic'
          ((pg_processAvailableMessages False topic consumer t)\<lparr>pg_now := now\<rparr>))) \<noteq> Some i
    \<and> (\<exists>r. find_row i (pg_db (pg_processAvailableMessages False topic closing t)) = Some r \<and> fetchable topic (db_now t) r)"
proof -
  let ?lock = "\<lambda>x :: json msg_row. x\<lparr>row_locked := Some (pg_ts t (pg_now t + LockTimeout (pg_config t)))\<rparr>"
  have p: "pg_processAvailableMessages False topic consumer t = t1"
    using assms(1,4) by (simp add: pg_processAvailableMessages_def pg_handleMessageResult_def pg_unlockMessage_def)
  from assms(1) obtain r where r: "next_row topic (db_now t) (pg_db t) = Some r" "i = row_id r"
    and t1: "t1 = t\<lparr>pg_db := update_row i ?lock (pg_db t)\<rparr>"
    by (rule pg_fetch_Some)
  have m: "r \<in> set (messages (pg_db t))" "fetchable topic (db_now t) r" using next_row_SomeD [OF r(1)] by auto
  have "find_row i (pg_db t) = Some r" using find_row_unique [OF assms(6) m(1)] r(2) by simp
  then have "find_row i (pg_db (pg_processAvailableMessages False topic closing t)) = Some ((?lock r)\<lparr>row_locked := None\<rparr>)"
    using assms(1,5) t1
    by (simp add: pg_processAvailableMessages_def pg_handleMessageResult_def pg_unlockMessage_def find_update)
  moreover have "fetchable topic (db_now t) ((?lock r)\<lparr>row_locked := None\<rparr>)" using m(2) by (simp add: fetchable_def)
  ultimately show ?thesis
    using p pg_locked_not_fetched [OF assms(1-3)] by blast
qed

section \<open>Backoff\<close>

lemma pg_backoff_exact: "0 \<le> k \<Longrightarrow> k \<le> 33 \<Longrightarrow> pg_backoff k = 2 ^ nat k * second"
proof -
  assume "0 \<le> k" "k \<le> 33"
  then have le: "(2 :: int) ^ nat k \<le> 2 ^ 33" by (intro power_increasing) auto
  have pos: "(0 :: int) < 2 ^ nat k" by simp
  have "in_i64 p" "in_i64 (p * second)" if "p \<le> 2 ^ 33" "0 < p" for p
    using that by (simp_all add: in_i64_def)
  from this [OF le pos] show ?thesis by (simp add: pg_backoff_def)
qed

lemma i64_mod: "i64 (n + 18446744073709551616 * m) = i64 n"
proof -
  have "n + 18446744073709551616 * m + 9223372036854775808 = (n + 9223372036854775808) + 18446744073709551616 * m" by simp
  then show ?thesis unfolding i64_def by (simp only: mod_mult_self2)
qed

lemma i64_mult_i64: "i64 (i64 a * b) = i64 (a * b)"
proof -
  let ?M = "18446744073709551616 :: int"
  have "i64 a = a + ?M * (- ((a + 9223372036854775808) div ?M))"
    using minus_mult_div_eq_mod [of "a + 9223372036854775808" ?M] by (simp add: i64_def)
  then have "i64 a * b = a * b + ?M * (- ((a + 9223372036854775808) div ?M) * b)"
    by (simp only: distrib_right mult.assoc)
  then show ?thesis by (simp only: i64_mod)
qed

lemma pg_backoff_wraps: "(2 ^ 64 :: int) dvd pg_backoff n - 2 ^ nat n * second \<and> in_i64 (pg_backoff n)"
proof -
  let ?M = "18446744073709551616 :: int" and ?p = "2 ^ nat n * second"
  have b: "pg_backoff n = (?p + 9223372036854775808) mod ?M - 9223372036854775808"
    by (simp only: pg_backoff_def i64_mult_i64) (simp only: i64_def)
  have "pg_backoff n - ?p = ?M * (- ((?p + 9223372036854775808) div ?M))"
    using minus_mult_div_eq_mod [of "?p + 9223372036854775808" ?M] by (simp add: b)
  then have "?M dvd pg_backoff n - ?p" by (rule dvdI)
  moreover have "in_i64 (pg_backoff n)" by (simp add: pg_backoff_def)
  ultimately show ?thesis by simp
qed

lemma pg_backoff_gone:
  assumes "55 \<le> k"
  shows "pg_backoff k = 0"
proof -
  have "(2 :: int) ^ nat k = 2 ^ 55 * 2 ^ (nat k - 55)"
    using assms by (simp only: power_add [symmetric]) simp
  then have "2 ^ nat k * second = 0 + 18446744073709551616 * (1953125 * 2 ^ (nat k - 55))"
    by simp
  then have "i64 (2 ^ nat k * second) = i64 0" by (simp only: i64_mod)
  then show ?thesis by (simp add: pg_backoff_def i64_mult_i64 in_i64_def)
qed

text \<open>A refusal at a given time, under a living context.\<close>

definition pg_nack_at :: "int \<Rightarrow> int \<Rightarrow> postgres \<Rightarrow> postgres" where
  "pg_nack_at i now t = pg_nackMessage False i (t\<lparr>pg_now := now\<rparr>)"

lemma pg_nack_below:
  assumes "find_row i (pg_db t) = Some r" "row_retries r < pg_MaxRetries (pg_config t)" "row_retries r < 2147483647"
  shows "find_row i (pg_db (pg_nack_at i now t))
      = Some (r\<lparr>row_retries := row_retries r + 1, row_locked := None,
                row_available := pg_ts t (now + pg_backoff (row_retries r))\<rparr>)"
    "pg_config (pg_nack_at i now t) = pg_config t" "pg_ts (pg_nack_at i now t) = pg_ts t"
    "dead (pg_db (pg_nack_at i now t)) = dead (pg_db t)"
  using assms by (simp_all add: pg_nack_at_def pg_nackMessage_alone Let_def find_update) (simp add: update_row_def)

lemma pg_nack_limit:
  assumes "find_row i (pg_db t) = Some r" "pg_MaxRetries (pg_config t) \<le> row_retries r"
  shows "find_row i (pg_db (pg_nack_at i now t)) = None"
    "dead (pg_db (pg_nack_at i now t)) = dead (pg_db t) @ [dead_row (next_dlq (pg_db t)) (pg_ts t now) r]"
  using assms by (simp_all add: pg_nack_at_def pg_nackMessage_alone find_delete) (simp add: delete_row_def insert_dead_def)

lemma pg_nacks_below:
  assumes "find_row i (pg_db t) = Some r" "0 \<le> row_retries r"
    "row_retries r + int (length ts) \<le> pg_MaxRetries (pg_config t)" "ts \<noteq> []"
    "pg_MaxRetries (pg_config t) \<le> 34"
  shows "find_row i (pg_db (fold (pg_nack_at i) ts t))
      = Some (r\<lparr>row_retries := row_retries r + int (length ts), row_locked := None,
                row_available := pg_ts t (last ts + 2 ^ nat (row_retries r + int (length ts) - 1) * second)\<rparr>)
    \<and> pg_config (fold (pg_nack_at i) ts t) = pg_config t \<and> pg_ts (fold (pg_nack_at i) ts t) = pg_ts t
    \<and> dead (pg_db (fold (pg_nack_at i) ts t)) = dead (pg_db t)"
  using assms
proof (induction ts arbitrary: t r)
  case Nil
  then show ?case by simp
next
  case (Cons now ts)
  have l: "row_retries r < pg_MaxRetries (pg_config t)" "row_retries r < 2147483647" using Cons.prems by simp_all
  have b: "pg_backoff (row_retries r) = 2 ^ nat (row_retries r) * second"
    using Cons.prems by (intro pg_backoff_exact) simp_all
  note n = pg_nack_below [OF Cons.prems(1) l, of now, unfolded b]
  show ?case
  proof (cases "ts = []")
    case True
    with n show ?thesis by simp
  next
    case False
    from Cons.IH [OF n(1)] False n Cons.prems show ?thesis by (simp add: add.assoc)
  qed
qed

text \<open>
  C22. Exponential backoff. With at most 34 retries, the \<open>k\<close>-th refusal of a row makes it due
  \<open>2 ^ (k - 1)\<close> seconds later, and the refusal after the last retry moves it to the dead letter queue.
  With more retries the delay is the product modulo \<open>2 ^ 64\<close>, read as a signed number: that of the
  35th is negative, so that the row is due before it was refused, that of the 38th is more than
  263 years, and from the 56th on there is none.
\<close>

theorem pg_retry_backoff:
  assumes "find_row i (pg_db t) = Some r" "row_retries r = 0" "0 < k" "int k \<le> pg_MaxRetries (pg_config t)"
    "length ts = k" "length us = nat (pg_MaxRetries (pg_config t))"
  shows "(pg_MaxRetries (pg_config t) \<le> 34 \<longrightarrow>
      find_row i (pg_db (fold (pg_nack_at i) ts t))
        = Some (r\<lparr>row_retries := int k, row_locked := None, row_available := pg_ts t (last ts + 2 ^ (k - 1) * second)\<rparr>)
      \<and> find_row i (pg_db (pg_nack_at i now (fold (pg_nack_at i) us t))) = None
      \<and> dead (pg_db (pg_nack_at i now (fold (pg_nack_at i) us t)))
          = dead (pg_db t) @ [dead_row (next_dlq (pg_db (fold (pg_nack_at i) us t))) (pg_ts t now)
              (r\<lparr>row_retries := pg_MaxRetries (pg_config t), row_locked := None,
                 row_available := pg_ts t (last us + 2 ^ nat (pg_MaxRetries (pg_config t) - 1) * second)\<rparr>)])
    \<and> (\<forall>n. (2 ^ 64 :: int) dvd pg_backoff n - 2 ^ nat n * second \<and> in_i64 (pg_backoff n))
    \<and> pg_backoff 34 < 0 \<and> pg_backoff 37 = 8311744956033138688 \<and> (\<forall>n \<ge> 55. pg_backoff n = 0)"
proof -
  have e: "nat (int (length ts) - 1) = k - 1" using assms(5) by simp
  have "0 < length ts" "0 < length us" using assms(3-6) by linarith+
  then have ts: "ts \<noteq> []" and us: "us \<noteq> []" by auto
  have "pg_backoff 34 < 0" "pg_backoff 37 = 8311744956033138688" by code_simp+
  moreover have "\<forall>n. (2 ^ 64 :: int) dvd pg_backoff n - 2 ^ nat n * second \<and> in_i64 (pg_backoff n)"
    using pg_backoff_wraps by blast
  moreover have "\<forall>n \<ge> 55. pg_backoff n = 0" using pg_backoff_gone by blast
  moreover {
    assume m: "pg_MaxRetries (pg_config t) \<le> 34"
    have a: "find_row i (pg_db (fold (pg_nack_at i) ts t))
        = Some (r\<lparr>row_retries := int k, row_locked := None, row_available := pg_ts t (last ts + 2 ^ (k - 1) * second)\<rparr>)"
      using pg_nacks_below [OF assms(1) _ _ ts m] assms(2,4,5) e by simp
    let ?r = "r\<lparr>row_retries := pg_MaxRetries (pg_config t), row_locked := None,
                 row_available := pg_ts t (last us + 2 ^ nat (pg_MaxRetries (pg_config t) - 1) * second)\<rparr>"
    have f: "find_row i (pg_db (fold (pg_nack_at i) us t)) = Some ?r"
      "pg_config (fold (pg_nack_at i) us t) = pg_config t" "pg_ts (fold (pg_nack_at i) us t) = pg_ts t"
      "dead (pg_db (fold (pg_nack_at i) us t)) = dead (pg_db t)"
      using pg_nacks_below [OF assms(1) _ _ us m] assms(2-4,6) by simp_all
    from pg_nack_limit [OF f(1), of now] f(2-4) a
    have "find_row i (pg_db (fold (pg_nack_at i) ts t))
        = Some (r\<lparr>row_retries := int k, row_locked := None, row_available := pg_ts t (last ts + 2 ^ (k - 1) * second)\<rparr>)
      \<and> find_row i (pg_db (pg_nack_at i now (fold (pg_nack_at i) us t))) = None
      \<and> dead (pg_db (pg_nack_at i now (fold (pg_nack_at i) us t)))
          = dead (pg_db t) @ [dead_row (next_dlq (pg_db (fold (pg_nack_at i) us t))) (pg_ts t now) ?r]"
      by simp
  }
  ultimately show ?thesis by blast
qed

section \<open>Conservation\<close>

lemma pg_fetch_items:
  assumes "pg_fetchAndLockMessage done topic t = (r, t')"
  shows "(wf_db (pg_db t) \<longrightarrow> wf_db (pg_db t')) \<and> msg_items (pg_db t') = msg_items (pg_db t)
    \<and> dead_items (pg_db t') = dead_items (pg_db t)"
  using assms by (auto simp: pg_fetchAndLockMessage_def Let_def wf_update_row keeps_lock items_update_row [OF keeps_lock]
      split: if_splits option.splits)

definition pg_row_items :: "int \<Rightarrow> postgres \<Rightarrow> (string \<times> string) multiset" where
  "pg_row_items i t = (case find_row i (pg_db t) of None \<Rightarrow> {#} | Some r \<Rightarrow> {#(row_topic r, row_payload r)#})"

lemma move_items:
  assumes "wf_db d"
  shows "msg_items d + dead_items d = msg_items (delete_row i (insert_dead c i d)) + dead_items (delete_row i (insert_dead c i d))"
proof (cases "find_row i d")
  case None
  then have "insert_dead c i d = d" by (simp add: insert_dead_def)
  then show ?thesis using items_delete_row [OF assms, of i] None by simp
next
  case (Some r)
  then show ?thesis
    using items_delete_row(1) [OF wf_insert_dead [OF assms], of c i i] items_delete_row(2) [OF wf_insert_dead [OF assms], of i c i]
      items_insert_dead [of c i d] by simp
qed

lemma pg_part_items:
  assumes "wf_db (pg_db t)"
  shows "wf_db (pg_db (snd (pg_nack_part ended i c t)))"
    "msg_items (pg_db (snd (pg_nack_part ended i c t))) + dead_items (pg_db (snd (pg_nack_part ended i c t)))
      = msg_items (pg_db t) + dead_items (pg_db t)"
proof -
  show "wf_db (pg_db (snd (pg_nack_part ended i c t)))"
    using assms by (cases c) (auto simp: pg_nack_part_def wf_delete_row wf_insert_dead wf_update_row keeps_retry split: option.split)
  show "msg_items (pg_db (snd (pg_nack_part ended i c t))) + dead_items (pg_db (snd (pg_nack_part ended i c t)))
      = msg_items (pg_db t) + dead_items (pg_db t)"
  proof (cases c)
    case Limit
    then show ?thesis using move_items [OF assms, where c = "db_now t" and i = i] by (simp add: pg_nack_part_def)
  next
    case (Due a)
    then show ?thesis by (simp add: pg_nack_part_def items_update_row [OF keeps_retry])
  qed (simp_all add: pg_nack_part_def split: option.split)
qed

lemma pg_finish_items:
  assumes "wf_db (pg_db t)"
  shows "wf_db (pg_db (pg_handleMessageResult done out i t))"
    "msg_items (pg_db t) + dead_items (pg_db t)
      = msg_items (pg_db (pg_handleMessageResult done out i t)) + dead_items (pg_db (pg_handleMessageResult done out i t))
        + (if out = Acked \<and> \<not> done then pg_row_items i t else {#})"
proof -
  show "wf_db (pg_db (pg_handleMessageResult done out i t))"
    using assms by (cases out) (auto simp: pg_handleMessageResult_def pg_ackMessage_def pg_unlockMessage_def
      pg_nackMessage_alone Let_def wf_delete_row wf_insert_dead wf_update_row keeps_lock keeps_retry
      split: option.splits)
  show "msg_items (pg_db t) + dead_items (pg_db t)
      = msg_items (pg_db (pg_handleMessageResult done out i t)) + dead_items (pg_db (pg_handleMessageResult done out i t))
        + (if out = Acked \<and> \<not> done then pg_row_items i t else {#})"
  proof (cases out)
    case Acked
    then show ?thesis using items_delete_row [OF assms, of i]
      by (simp add: pg_handleMessageResult_def pg_ackMessage_def pg_row_items_def)
  next
    case Nacked
    then show ?thesis using move_items [OF assms, where c = "db_now t" and i = i]
      by (auto simp: pg_handleMessageResult_def pg_nackMessage_alone Let_def items_update_row [OF keeps_retry] split: option.splits)
  qed (simp_all add: pg_handleMessageResult_def pg_unlockMessage_def items_update_row [OF keeps_lock])
qed

lemma new_items_replay:
  "image_mset (\<lambda>n. (new_topic n, new_payload n)) (mset (pg_replay_rows now xs))
     = image_mset (\<lambda>x. (dlq_topic x, dlq_payload x)) (mset xs)"
proof -
  have "(\<lambda>n. (new_topic n, new_payload n)) \<circ> (\<lambda>(n, x). pg_replay_row now (CHR ''-'' # dec_int n) x)
      = (\<lambda>x. (dlq_topic x, dlq_payload x)) \<circ> snd"
    by (auto simp: fun_eq_iff pg_replay_row_def)
  then have "map (\<lambda>n. (new_topic n, new_payload n)) (pg_replay_rows now xs)
      = map (\<lambda>x. (dlq_topic x, dlq_payload x)) (map snd (zip [1..int (length xs)] xs))"
    by (simp only: pg_replay_rows_def map_map)
  also have "map snd (zip [1..int (length xs)] xs) = xs" by simp
  finally show ?thesis by (metis mset_map)
qed

lemma replayed_items:
  assumes "insert_rows c ns d = Some d'"
    "image_mset (\<lambda>n. (new_topic n, new_payload n)) (mset ns) = image_mset (\<lambda>x. (dlq_topic x, dlq_payload x)) (mset (filter P (dead d)))"
  shows "msg_items (delete_dead P d') + dead_items (delete_dead P d') = msg_items d + dead_items d"
  using items_insert_rows [OF assms(1)] dead_insert_rows [OF assms(1)] assms(2)
    items_delete_dead(1) [of P d'] items_delete_dead(2) [of d' P]
  by (simp add: ac_simps)

lemma pg_replay_one_items:
  "pg_ReplayDLQMessage i t = (r, t') \<Longrightarrow> wf_db (pg_db t) \<Longrightarrow>
     wf_db (pg_db t') \<and> msg_items (pg_db t') + dead_items (pg_db t') = msg_items (pg_db t) + dead_items (pg_db t)"
  by (auto simp: pg_ReplayDLQMessage_def Let_def wf_delete_dead pg_replay_row_def multiset.map_comp comp_def
      intro!: replayed_items dest: wf_insert_rows split: option.splits if_splits)

lemma pg_replay_all_items:
  "pg_ReplayAllDLQ q t = (r, t') \<Longrightarrow> wf_db (pg_db t) \<Longrightarrow>
     wf_db (pg_db t') \<and> msg_items (pg_db t') + dead_items (pg_db t') = msg_items (pg_db t) + dead_items (pg_db t)"
  by (auto simp: pg_ReplayAllDLQ_def Let_def wf_delete_dead new_items_replay
      intro!: replayed_items dest: wf_insert_rows split: option.splits)

text \<open>
  The operations as commands, and a journal of what they publish, acknowledge and purge. A refusal is
  also there part by part, in any order, which covers refusals that others come in between.
\<close>

datatype pg_command =
  DoPublish string "message list"
| DoTick int
| DoFetch bool string
| DoFinish bool outcome int
| DoRefuse bool int refusal
| DoReplay int
| DoReplayAll string
| DoPurge string
| DoCleanup
| DoVacuum
| DoClose

record journal =
  j_published :: "(string \<times> string) multiset"
  j_acked :: "(string \<times> string) multiset"
  j_purged :: "(string \<times> string) multiset"

fun pg_exec :: "pg_command \<Rightarrow> postgres \<times> journal \<Rightarrow> postgres \<times> journal" where
  "pg_exec (DoPublish topic msgs) (t, j) =
     (case pg_Publish topic msgs t of
        (None, t') \<Rightarrow> (t', j\<lparr>j_published := j_published j + mset (map (\<lambda>m. (topic, Payload m)) msgs)\<rparr>)
      | (Some _, t') \<Rightarrow> (t', j))"
| "pg_exec (DoTick now) (t, j) = (t\<lparr>pg_now := max now (pg_now t)\<rparr>, j)"
| "pg_exec (DoFetch done topic) (t, j) = (snd (pg_fetchAndLockMessage done topic t), j)"
| "pg_exec (DoFinish done out i) (t, j) =
     (pg_handleMessageResult done out i t,
      if out = Acked \<and> \<not> done then j\<lparr>j_acked := j_acked j + pg_row_items i t\<rparr> else j)"
| "pg_exec (DoRefuse done i c) (t, j) = (snd (pg_nack_part done i c t), j)"
| "pg_exec (DoReplay i) (t, j) = (snd (pg_ReplayDLQMessage i t), j)"
| "pg_exec (DoReplayAll topic) (t, j) = (snd (pg_ReplayAllDLQ topic t), j)"
| "pg_exec (DoPurge topic) (t, j) =
     (snd (pg_PurgeDLQ topic t),
      j\<lparr>j_purged := j_purged j
         + mset (map (\<lambda>x. (dlq_topic x, dlq_payload x)) (filter (\<lambda>x. dlq_topic x = topic) (dead (pg_db t))))\<rparr>)"
| "pg_exec DoCleanup (t, j) = (snd (pg_CleanupExpiredLocks t), j)"
| "pg_exec DoVacuum (t, j) = (pg_VacuumTables t, j)"
| "pg_exec DoClose (t, j) = (pg_Close t, j)"

definition pg_sound :: "postgres \<times> journal \<Rightarrow> bool" where
  "pg_sound = (\<lambda>(t, j). wf_db (pg_db t)
     \<and> j_published j = msg_items (pg_db t) + dead_items (pg_db t) + j_acked j + j_purged j)"

lemma cleanup_items:
  assumes "wf_db (pg_db t)"
  shows "wf_db (pg_db (snd (pg_CleanupExpiredLocks t)))"
    "msg_items (pg_db (snd (pg_CleanupExpiredLocks t))) = msg_items (pg_db t)"
    "dead_items (pg_db (snd (pg_CleanupExpiredLocks t))) = dead_items (pg_db t)"
proof -
  let ?f = "\<lambda>r. if lock_expired (db_now t) r then r\<lparr>row_locked := None\<rparr> else r"
  have f: "row_id (?f r) = row_id r" "row_uuid (?f r) = row_uuid r" "row_topic (?f r) = row_topic r"
    "row_payload (?f r) = row_payload r" "row_status (?f r) = row_status r" "row_retries (?f r) = row_retries r" for r :: "json msg_row"
    by simp_all
  show "wf_db (pg_db (snd (pg_CleanupExpiredLocks t)))"
    using assms unfolding wf_db_def pg_CleanupExpiredLocks_def uuids_def by (auto simp: comp_def f list_all_iff cong: if_cong)
  show "msg_items (pg_db (snd (pg_CleanupExpiredLocks t))) = msg_items (pg_db t)"
    unfolding msg_items_def pg_CleanupExpiredLocks_def by (simp add: multiset.map_comp comp_def f cong: if_cong)
  show "dead_items (pg_db (snd (pg_CleanupExpiredLocks t))) = dead_items (pg_db t)"
    unfolding dead_items_def pg_CleanupExpiredLocks_def by simp
qed

lemma pg_exec_sound:
  assumes "pg_sound (t, j)"
  shows "pg_sound (pg_exec c (t, j))"
proof (cases c)
  case (DoPublish topic msgs)
  note s = assms
  show ?thesis
  proof (cases "pg_Publish topic msgs t")
    case (Pair r t')
    show ?thesis
    proof (cases r)
      case None
      with Pair obtain d where d: "insert_rows (db_now t) (map (pg_row t topic) msgs) (pg_db t) = Some d" "t' = t\<lparr>pg_db := d\<rparr>"
        by (auto simp: pg_Publish_def split: if_splits option.splits)
      from items_insert_rows [OF d(1)] wf_insert_rows [OF _ d(1)] s show ?thesis
        by (simp add: DoPublish Pair None d(2) pg_sound_def ac_simps multiset.map_comp comp_def pg_row_def)
    next
      case (Some e)
      with Pair have "t' = t" by (auto simp: pg_Publish_def split: if_splits option.splits)
      with s show ?thesis by (simp add: DoPublish Pair Some)
    qed
  qed
next
  case (DoFetch ended topic)
  then show ?thesis
    using assms pg_fetch_items [of ended topic t] by (cases "pg_fetchAndLockMessage ended topic t") (simp add: pg_sound_def)
next
  case (DoFinish ended out i)
  then show ?thesis
    using assms pg_finish_items [of t ended out i] by (auto simp: pg_sound_def ac_simps)
next
  case (DoRefuse ended i c)
  then show ?thesis
    using assms pg_part_items [of t ended i c] by (simp add: pg_sound_def)
next
  case (DoReplay i)
  then show ?thesis
    using assms pg_replay_one_items [of i t] by (cases "pg_ReplayDLQMessage i t") (simp add: pg_sound_def)
next
  case (DoReplayAll topic)
  then show ?thesis
    using assms pg_replay_all_items [of topic t] by (cases "pg_ReplayAllDLQ topic t") (simp add: pg_sound_def)
next
  case (DoPurge topic)
  then show ?thesis
    using assms items_delete_dead(1) [of "\<lambda>x. dlq_topic x = topic" "pg_db t"] items_delete_dead(2) [of "pg_db t" "\<lambda>x. dlq_topic x = topic"]
    by (simp add: pg_sound_def pg_PurgeDLQ_def wf_delete_dead ac_simps)
next
  case DoCleanup
  then show ?thesis using assms cleanup_items [of t] by (simp add: pg_sound_def)
qed (use assms in \<open>simp_all add: pg_sound_def pg_VacuumTables_def pg_Close_def\<close>)

definition empty_journal :: journal where
  "empty_journal = \<lparr>j_published = {#}, j_acked = {#}, j_purged = {#}\<rparr>"

text \<open>
  C23. Conservation. After any sequence of publications, fetches, outcomes, replays, purges and
  maintenance calls on a new Postgres transport, with contexts ending at any point, ids are
  unique and the payloads published are exactly those waiting, dead, acknowledged and purged.
\<close>

theorem pg_conserves_messages:
  assumes "pg_New cfg now ts = Inr t0" "fold pg_exec cs (t0, empty_journal) = (t, j)"
  shows "wf_db (pg_db t) \<and> j_published j = msg_items (pg_db t) + dead_items (pg_db t) + j_acked j + j_purged j"
proof -
  have "pg_sound s \<Longrightarrow> pg_sound (fold pg_exec cs s)" for s
  proof (induction cs arbitrary: s)
    case (Cons c cs)
    then show ?case using pg_exec_sound [of "fst s" "snd s" c] by simp
  qed simp
  moreover have "pg_db t0 = empty_db" using assms(1) by (auto simp: pg_New_def split: if_splits)
  then have "pg_sound (t0, empty_journal)"
    by (simp add: pg_sound_def wf_empty_db) (simp add: empty_journal_def msg_items_def dead_items_def empty_db_def)
  ultimately have "pg_sound (t, j)" using assms(2) by metis
  then show ?thesis by (simp add: pg_sound_def)
qed

section \<open>Order of delivery\<close>

text \<open>The server tells instants a second apart from each other.\<close>

definition resolves_seconds :: "(int \<Rightarrow> int) \<Rightarrow> bool" where
  "resolves_seconds ts \<longleftrightarrow> mono ts \<and> (\<forall>a b. a + second \<le> b \<longrightarrow> ts a < ts b)"

lemma pg_overtakes:
  assumes "pg_fetchAndLockMessage False topic s = (Some (i, msg), s1)" "wf_db (pg_db s)" "resolves_seconds (pg_ts s)"
    "x \<in> set (messages (pg_db s))" "fetchable topic (db_now s) x" "pg_MaxRetries (pg_config s) \<le> 34" "i \<noteq> row_id x"
    "pg_now s1 \<le> now" "out = Acked \<or> out = Nacked"
  defines "s' \<equiv> pg_handleMessageResult False out i (s1\<lparr>pg_now := now\<rparr>)"
  shows "wf_db (pg_db s') \<and> x \<in> set (messages (pg_db s')) \<and> fetchable topic (db_now s') x
    \<and> pg_ts s' = pg_ts s \<and> pg_config s' = pg_config s \<and> ahead topic x (pg_db s') < ahead topic x (pg_db s)"
proof -
  from assms(1) obtain r where n: "next_row topic (db_now s) (pg_db s) = Some r" "i = row_id r"
    and s1: "s1 = s\<lparr>pg_db := update_row i (\<lambda>x. x\<lparr>row_locked := Some (pg_ts s (pg_now s + LockTimeout (pg_config s)))\<rparr>) (pg_db s)\<rparr>"
    by (rule pg_fetch_Some)
  have r: "r \<in> set (messages (pg_db s))" using next_row_SomeD [OF n(1)] by simp
  then have fr: "find_row i (pg_db s1) = Some (r\<lparr>row_locked := Some (pg_ts s (pg_now s + LockTimeout (pg_config s)))\<rparr>)"
    using find_row_unique [OF assms(2)] n(2) by (simp add: s1 find_update)
  have p: "0 \<le> row_retries r" using r assms(2) by (auto simp: wf_db_def list_all_iff)
  have "settled (db_now s) i (pg_db s1) (pg_db s')"
    using assms(9)
  proof
    assume "out = Acked"
    then show ?thesis by (simp add: s'_def pg_handleMessageResult_def pg_ackMessage_def settled.acked)
  next
    assume o: "out = Nacked"
    show ?thesis
    proof (cases "pg_MaxRetries (pg_config s) \<le> row_retries r")
      case True
      then have "pg_db s' = delete_row i (insert_dead (pg_ts s now) i (pg_db s1))"
        using fr o by (simp add: s'_def pg_handleMessageResult_def pg_nackMessage_alone) (simp add: s1)
      then show ?thesis by (simp only: settled.dead)
    next
      case False
      let ?a = "pg_ts s (now + 2 ^ nat (row_retries r) * second)"
      have b: "pg_backoff (row_retries r) = 2 ^ nat (row_retries r) * second"
        using p False assms(6) by (intro pg_backoff_exact) simp_all
      have d: "pg_db s' = update_row i
          (\<lambda>y. y\<lparr>row_retries := row_retries y + 1, row_locked := None, row_available := ?a\<rparr>) (pg_db s1)"
        using fr o False assms(6)
        by (simp add: s'_def pg_handleMessageResult_def pg_nackMessage_alone Let_def b) (simp add: s1)
      have "pg_now s \<le> now" using assms(8) s1 by simp
      moreover have "(1 :: int) \<le> 2 ^ nat (row_retries r)" by simp
      ultimately have "pg_now s + second \<le> now + 2 ^ nat (row_retries r) * second" by linarith
      then have "db_now s < ?a" using assms(3) by (simp add: resolves_seconds_def)
      then show ?thesis unfolding d by (rule settled.later)
    qed
  qed
  moreover have "db_now s \<le> pg_ts s now" using assms(3,8) s1 by (simp add: resolves_seconds_def monoD)
  then have "fetchable topic (db_now s') x \<and> pg_ts s' = pg_ts s \<and> pg_config s' = pg_config s"
    using assms(5,9) fetchable_later [OF assms(5), of "pg_ts s now"] fr
    by (auto simp: s'_def s1 pg_handleMessageResult_def pg_ackMessage_def pg_nackMessage_alone Let_def)
  ultimately show ?thesis
    using settled_overtakes [OF n(1) assms(2,4,5)] assms(7) by (auto simp: s1 n(2))
qed

text \<open>
  No due message starves on Postgres either: with at most 34 retries, whatever the consumer answers
  and however long it takes, a due message is handed over after at most as many ticks of the
  poller as its topic has rows due before it.
\<close>

theorem pg_due_message_delivered:
  assumes "wf_db (pg_db t)" "x \<in> set (messages (pg_db t))" "fetchable topic (db_now t) x"
    "pg_MaxRetries (pg_config t) \<le> 34" "resolves_seconds (pg_ts t)"
    "\<And>m s. \<exists>out now. consumer m s = ((out, False), s\<lparr>pg_now := now\<rparr>) \<and> pg_now s \<le> now \<and> out \<in> {Acked, Nacked}"
  shows "\<exists>k \<le> ahead topic x (pg_db t).
    fst (pg_fetchAndLockMessage False topic ((pg_processAvailableMessages False topic consumer ^^ k) t))
      = Some (row_id x, pg_message x)"
proof -
  define inv where "inv s \<longleftrightarrow> wf_db (pg_db (s :: postgres)) \<and> x \<in> set (messages (pg_db s)) \<and> fetchable topic (db_now s) x
      \<and> pg_MaxRetries (pg_config s) \<le> 34 \<and> resolves_seconds (pg_ts s)" for s
  let ?tick = "pg_processAvailableMessages False topic consumer"
  have "inv t" using assms by (simp add: inv_def)
  moreover have "fst (pg_fetchAndLockMessage False topic s) = Some (row_id x, pg_message x)
      \<or> (inv (?tick s) \<and> ahead topic x (pg_db (?tick s)) < ahead topic x (pg_db s))" if s: "inv s" for s
  proof -
    from s have "next_row topic (db_now s) (pg_db s) \<noteq> None" by (auto simp: inv_def next_row_None)
    then obtain r where n: "next_row topic (db_now s) (pg_db s) = Some r" by auto
    then obtain s1 where f: "pg_fetchAndLockMessage False topic s = (Some (row_id r, pg_message r), s1)"
      by (simp add: pg_fetchAndLockMessage_def)
    obtain out now where c: "consumer (pg_message r) s1 = ((out, False), s1\<lparr>pg_now := now\<rparr>)" "pg_now s1 \<le> now"
      "out = Acked \<or> out = Nacked"
      using assms(6) [of "pg_message r" s1] by auto
    have t: "?tick s = pg_handleMessageResult False out (row_id r) (s1\<lparr>pg_now := now\<rparr>)"
      using f c(1) by (simp add: pg_processAvailableMessages_def)
    show ?thesis
    proof (cases "row_id r = row_id x")
      case True
      have "find_row (row_id r) (pg_db s) = Some r" "find_row (row_id x) (pg_db s) = Some x"
        using s next_row_SomeD(1) [OF n] by (simp_all add: inv_def find_row_unique)
      then have "r = x" unfolding True by simp
      with f show ?thesis by simp
    next
      case False
      from s have "wf_db (pg_db s)" "resolves_seconds (pg_ts s)" "x \<in> set (messages (pg_db s))"
        "fetchable topic (db_now s) x" "pg_MaxRetries (pg_config s) \<le> 34"
        by (auto simp: inv_def)
      from pg_overtakes [OF f this False c(2,3)] s show ?thesis by (auto simp: t inv_def)
    qed
  qed
  ultimately show ?thesis by (rule reached_by_measure)
qed

section \<open>Republishing from a handler\<close>

text \<open>
  As on SQLite, an event whose handler asks for the dead letter queue is acknowledged and gone.
\<close>

lemma pg_dead_letter_lost:
  assumes "pg_fetchAndLockMessage False topic t = (Some (i, msg), t1)"
    "svc_publisher s = Some pg_publish" "ID (delivered msg) = UUID msg"
    "h (delivered msg) t1 = (Some err, left, t1)" "fst (ClassifyError (Some err)) = ResultDeadLetter"
  shows "wrapCloudEventsHandler s topic h msg t1 = (None, t1)"
    "pg_db (pg_handleMessageResult False Acked i t1) = delete_row i (pg_db t)"
proof -
  from assms(1) obtain r where r: "next_row topic (db_now t) (pg_db t) = Some r" "i = row_id r" "msg = pg_message r"
    and t1: "t1 = t\<lparr>pg_db := update_row i (\<lambda>x. x\<lparr>row_locked := Some (pg_ts t (pg_now t + LockTimeout (pg_config t)))\<rparr>) (pg_db t)\<rparr>"
    by (rule pg_fetch_Some)
  have "uuids (pg_db t1) = uuids (pg_db t)"
    using update_row_keeps(2) [OF keeps_lock] by (simp add: t1)
  then have "UUID msg \<in> pg_holds t1"
    using next_row_SomeD(1) [OF r(1)] by (simp add: pg_holds_def) (simp add: uuids_def r(3) pg_message_def)
  then have "ID (delivered msg) \<in> pg_holds t1" using assms(3) by simp
  from pg_unique.dead_letter_dropped [where h = h, OF assms(2) this assms(4,5)]
  show "wrapCloudEventsHandler s topic h msg t1 = (None, t1)" .
  show "pg_db (pg_handleMessageResult False Acked i t1) = delete_row i (pg_db t)"
    by (simp add: t1 pg_handleMessageResult_def pg_ackMessage_def delete_locked)
qed

section \<open>Replaying\<close>

lemma numbered_inj:
  assumes "a @ CHR ''-'' # dec_nat m = b @ CHR ''-'' # dec_nat n"
  shows "m = n"
proof -
  have t: "takeWhile is_digit (rev (a @ CHR ''-'' # dec_nat m)) = rev (dec_nat m)" for a m
    using dec_nat_digits [of m] by (simp add: takeWhile_append list_all_iff)
  have "rev (dec_nat m) = rev (dec_nat n)"
    using t [of a m] t [of b n] unfolding assms by simp
  then show ?thesis by simp
qed

lemma replay_ids_distinct: "distinct (map new_uuid (pg_replay_rows now xs))"
proof -
  have inj: "n = m"
    if "new_uuid (pg_replay_row now (CHR ''-'' # dec_int n) x) = new_uuid (pg_replay_row now (CHR ''-'' # dec_int m) y)"
      "0 < n" "0 < m" for n m x y
  proof -
    from that have "(dlq_uuid x @ ''-replay-'' @ dec_int (epoch_bigint now)) @ CHR ''-'' # dec_nat (nat n)
        = (dlq_uuid y @ ''-replay-'' @ dec_int (epoch_bigint now)) @ CHR ''-'' # dec_nat (nat m)"
      by (simp add: pg_replay_row_def dec_int_def)
    then have "nat n = nat m" by (rule numbered_inj)
    with that show ?thesis by simp
  qed
  have inj': "k = j"
    if "new_uuid (pg_replay_row now (CHR ''-'' # dec_int (int k + 1)) x) = new_uuid (pg_replay_row now (CHR ''-'' # dec_int (int j + 1)) y)"
    for k j :: nat and x y
    using inj [OF that] by simp
  have "distinct (map (\<lambda>(n, x). new_uuid (pg_replay_row now (CHR ''-'' # dec_int n) x)) (zip (map (\<lambda>k. int k + 1) ks) xs))"
    if "distinct ks" for ks
    using that
  proof (induction ks arbitrary: xs)
    case (Cons k ks)
    then show ?case by (cases xs) (auto dest!: set_zip_leftD dest: inj')
  qed simp
  moreover have "[1..int (length xs)] = map (\<lambda>k. int k + 1) [0..<length xs]"
    by (rule nth_equalityI) simp_all
  ultimately have "distinct (map (\<lambda>(n, x). new_uuid (pg_replay_row now (CHR ''-'' # dec_int n) x)) (zip [1..int (length xs)] xs))"
    by simp
  then show ?thesis by (simp add: pg_replay_rows_def comp_def case_prod_unfold)
qed

text \<open>
  The dead letters of a topic get numbered ids, so replaying them all fails only when such an id
  is already in the table, even if the same id died several times.
\<close>

lemma pg_replay_all_defined:
  "isl (fst (pg_ReplayAllDLQ q t)) \<longleftrightarrow>
     set (map new_uuid (pg_replay_rows (db_now t) (filter (\<lambda>x. dlq_topic x = q) (dead (pg_db t))))) \<inter> set (uuids (pg_db t)) \<noteq> {}"
  using insert_rows_defined [of "db_now t" "pg_replay_rows (db_now t) (filter (\<lambda>x. dlq_topic x = q) (dead (pg_db t)))" "pg_db t"]
  by (auto simp: pg_ReplayAllDLQ_def Let_def replay_ids_distinct split: option.splits)

text \<open>Replaying a dead letter that does not exist is an error without effect.\<close>

lemma pg_replay_missing:
  "\<forall>x \<in> set (dead (pg_db t)). dlq_id x \<noteq> i \<Longrightarrow>
     pg_ReplayDLQMessage i t = (Some (Plain (''DLQ message with id '' @ dec_int i @ '' not found'')), t)"
  by (simp add: pg_ReplayDLQMessage_def filter_empty_conv [THEN iffD2])

section \<open>A small queue\<close>

definition pg_sample_config :: pg_config where
  "pg_sample_config = \<lparr>ConnectionString = ''postgres:///q'', pg_PollInterval = 0, pg_MaxRetries = 2, LockTimeout = 0,
     SchemaName = [], MaxOpenConns = 0, MaxIdleConns = 0\<rparr>"

definition pg_sample :: postgres where
  "pg_sample = snd (pg_Publish ''job'' [raw_message, raw_message\<lparr>UUID := ''u2''\<rparr>]
     \<lparr>pg_db = empty_db, pg_config = pg_withDefaults pg_sample_config, pg_closed = False, pg_now = 5000000000, pg_ts = id\<rparr>)"

lemma pg_sample_facts:
  "pg_ts pg_sample = id" "pg_MaxRetries (pg_config pg_sample) = 2" "LockTimeout (pg_config pg_sample) = 30 * second"
  "pg_now pg_sample = 5000000000" "wf_db (pg_db pg_sample)"
  "list_all (fetchable ''job'' 5000000000) (messages (pg_db pg_sample))"
proof -
  show "pg_ts pg_sample = id"
    by (simp add: pg_sample_def pg_Publish_def split: option.splits)
qed code_simp+

lemma pg_cancelled_message_stays_locked_witness:
  "\<exists>i t1. pg_processAvailableMessages False ''job'' (\<lambda>m t. ((Cancelled, True), t)) pg_sample = t1
     \<and> map_option fst (fst (pg_fetchAndLockMessage False ''job'' (t1\<lparr>pg_now := 6000000000\<rparr>))) \<noteq> Some i"
proof -
  have "map_option fst (fst (pg_fetchAndLockMessage False ''job'' pg_sample)) = Some 1" by code_simp
  then obtain m t1 where f: "pg_fetchAndLockMessage False ''job'' pg_sample = (Some (1, m), t1)"
    by (cases "pg_fetchAndLockMessage False ''job'' pg_sample") auto
  have ts: "mono (pg_ts pg_sample)" by (simp add: pg_sample_facts mono_def)
  have now: "(6000000000 :: int) \<le> pg_now pg_sample + LockTimeout (pg_config pg_sample)" by (simp add: pg_sample_facts)
  from pg_cancelled_message_stays_locked [where consumer = "\<lambda>m t. ((Cancelled, True), t)"
      and closing = "\<lambda>m t. ((TransportClosed, False), t)" and done' = False and topic' = "''job''",
      OF f ts now refl refl pg_sample_facts(5)]
  show ?thesis by blast
qed

lemma pg_retry_backoff_witness:
  "find_row 1 (pg_db (pg_nack_at 1 30 (fold (pg_nack_at 1) [10, 20] pg_sample))) = None"
proof -
  have "map_option row_retries (find_row 1 (pg_db pg_sample)) = Some 0" by code_simp
  then obtain r where r: "find_row 1 (pg_db pg_sample) = Some r" "row_retries r = 0" by auto
  have "0 < (1 :: nat)" "int 1 \<le> pg_MaxRetries (pg_config pg_sample)" "length [10 :: int] = 1"
    "length [10, 20 :: int] = nat (pg_MaxRetries (pg_config pg_sample))"
    by (simp_all add: pg_sample_facts)
  from pg_retry_backoff [OF r this, of 30] show ?thesis by (simp add: pg_sample_facts)
qed

definition pg_sample_run :: "postgres \<times> journal" where
  "pg_sample_run = fold pg_exec [DoPublish ''job'' [raw_message], DoFetch False ''job'', DoFinish False Acked 1]
     (projr (pg_New pg_sample_config 0 id), empty_journal)"

lemma pg_conserves_messages_witness:
  "j_published (snd pg_sample_run) = msg_items (pg_db (fst pg_sample_run)) + dead_items (pg_db (fst pg_sample_run))
     + j_acked (snd pg_sample_run) + j_purged (snd pg_sample_run)"
proof -
  have "pg_New pg_sample_config 0 id = Inr (projr (pg_New pg_sample_config 0 id))"
    by (simp add: pg_New_def pg_sample_config_def)
  from pg_conserves_messages [OF this, of _ "fst pg_sample_run" "snd pg_sample_run"]
  show ?thesis by (simp only: pg_sample_run_def prod.collapse)
qed

lemma pg_due_message_delivered_witness:
  "\<exists>k x. row_uuid x = ''u2'' \<and> fst (pg_fetchAndLockMessage False ''job''
     ((pg_processAvailableMessages False ''job'' (\<lambda>m s. ((Nacked, False), s)) ^^ k) pg_sample)) = Some (row_id x, pg_message x)"
proof -
  have "map_option row_uuid (find_row 2 (pg_db pg_sample)) = Some ''u2''" by code_simp
  then obtain x where x: "find_row 2 (pg_db pg_sample) = Some x" "row_uuid x = ''u2''" by auto
  have m: "x \<in> set (messages (pg_db pg_sample))" using find_row_SomeD(1) [OF x(1)] .
  have f: "fetchable ''job'' (db_now pg_sample) x" using m pg_sample_facts by (simp add: list_all_iff)
  have r: "pg_MaxRetries (pg_config pg_sample) \<le> 34" "resolves_seconds (pg_ts pg_sample)"
    by (simp_all add: pg_sample_facts resolves_seconds_def mono_def)
  have "\<exists>out now. ((Nacked, False), s) = ((out, False), s\<lparr>pg_now := now\<rparr>) \<and> pg_now s \<le> now \<and> out \<in> {Acked, Nacked}" for s :: postgres
    by (intro exI [of _ Nacked] exI [of _ "pg_now s"]) simp
  from pg_due_message_delivered [where consumer = "\<lambda>m s. ((Nacked, False), s)", OF pg_sample_facts(5) m f r this] x(2)
  show ?thesis by blast
qed

end
