(* ===== verification/Rt_Windows.thy ===== *)
theory Rt_Windows
  imports Go_Time
begin

text \<open>
  The two windows of a handler's statistics (\<open>internal/runtime/models.go\<close>): the ring buffer of
  recent latencies with its percentiles, and the sliding window that yields the throughput.

  A \<open>float64\<close> is the rational it denotes and every operation on it is followed by \<open>rnd\<close>; sums of
  type \<open>int64\<close> wrap. Instants are nanoseconds on one clock.
\<close>

section \<open>Latency window\<close>

record latencyWindow =
  lw_samples :: "int list"
  lw_next :: nat
  lw_filled :: nat
  lw_last :: int

record LatencyMetrics =
  AverageNs :: int
  P50Ns :: int
  P95Ns :: int
  P99Ns :: int
  LastNs :: int
  SampleSize :: int

definition zero_latency :: LatencyMetrics where
  "zero_latency = \<lparr>AverageNs = 0, P50Ns = 0, P95Ns = 0, P99Ns = 0, LastNs = 0, SampleSize = 0\<rparr>"

definition latencySampleSize :: nat where
  "latencySampleSize = 256"

definition newLatencyWindow :: "int \<Rightarrow> latencyWindow" where
  "newLatencyWindow sz =
     (let sz = (if sz \<le> 0 then int latencySampleSize else sz)
      in \<lparr>lw_samples = replicate (nat sz) 0, lw_next = 0, lw_filled = 0, lw_last = 0\<rparr>)"

definition lw_Add :: "duration \<Rightarrow> latencyWindow \<Rightarrow> latencyWindow" where
  "lw_Add d lw =
     (if lw_samples lw = [] then lw
      else lw\<lparr>lw_samples := (lw_samples lw)[lw_next lw := d], lw_last := d,
              lw_next := (lw_next lw + 1) mod length (lw_samples lw),
              lw_filled := (if lw_filled lw < length (lw_samples lw) then lw_filled lw + 1 else lw_filled lw)\<rparr>)"

text \<open>The loop that copies the filled part of the ring, oldest sample first.\<close>

definition lw_index :: "latencyWindow \<Rightarrow> nat \<Rightarrow> nat" where
  "lw_index lw i =
     (let idx = int (lw_next lw) - int (lw_filled lw) + int i
      in nat (if idx < 0 then idx + int (length (lw_samples lw)) else idx))"

definition lw_ordered :: "latencyWindow \<Rightarrow> int list" where
  "lw_ordered lw = map (\<lambda>i. lw_samples lw ! lw_index lw i) [0..<lw_filled lw]"

definition percentile :: "int list \<Rightarrow> rat \<Rightarrow> int" where
  "percentile xs quantile =
     (if xs = [] then 0
      else if quantile \<le> 0 then xs ! 0
      else if 1 \<le> quantile then xs ! (length xs - 1)
      else
        (let pos = rnd (quantile * of_nat (length xs - 1));
             lower = nat \<lfloor>pos\<rfloor>;
             upper = nat \<lceil>pos\<rceil>
         in if lower = upper then xs ! lower
            else
              (let frac = rnd (pos - of_nat lower)
               in i64 (xs ! lower
                    + f64_int64 (round64 (rnd (of_int (i64 (xs ! upper - xs ! lower))) * frac))))))"

text \<open>The constants 0.50, 0.95 and 0.99 are the nearest floats.\<close>

definition lw_Snapshot :: "latencyWindow \<Rightarrow> LatencyMetrics" where
  "lw_Snapshot lw =
     (if lw_filled lw = 0 then zero_latency\<lparr>LastNs := lw_last lw\<rparr>
      else
        (let samples = sort (lw_ordered lw)
         in \<lparr>AverageNs = quot (fold (\<lambda>v s. i64 (s + v)) samples 0) (int (length samples)),
             P50Ns = percentile samples (rnd (50 / 100)),
             P95Ns = percentile samples (rnd (95 / 100)),
             P99Ns = percentile samples (rnd (99 / 100)),
             LastNs = lw_last lw,
             SampleSize = int (lw_filled lw)\<rparr>))"

section \<open>Throughput window\<close>

record throughputWindow =
  tw_horizon :: duration
  tw_samples :: "int list"

record throughputSnapshot =
  ts_Count :: int
  ts_WindowSeconds :: rat
  ts_CurrentRPS :: rat

definition throughputWindowSize :: duration where
  "throughputWindowSize = 60 * second"

definition newThroughputWindow :: "duration \<Rightarrow> throughputWindow" where
  "newThroughputWindow horizon = \<lparr>tw_horizon = horizon, tw_samples = []\<rparr>"

text \<open>The loop that looks for the first sample inside the horizon; \<open>None\<close> if it did not return.\<close>

definition tw_first_kept :: "int \<Rightarrow> int list \<Rightarrow> nat option" where
  "tw_first_kept cutoff samples =
     while_option (\<lambda>idx. idx < length samples \<and> samples ! idx < cutoff) Suc 0"

definition tw_cleanup :: "int \<Rightarrow> throughputWindow \<Rightarrow> throughputWindow option" where
  "tw_cleanup now tw =
     (if tw_samples tw = [] then Some tw
      else
        (case tw_first_kept (now - tw_horizon tw) (tw_samples tw) of
           None \<Rightarrow> None
         | Some idx \<Rightarrow> Some (if 0 < idx then tw\<lparr>tw_samples := drop idx (tw_samples tw)\<rparr> else tw)))"

text \<open>\<open>Duration.Seconds\<close>: whole seconds plus the fraction, each a \<open>float64\<close>.\<close>

definition dur_seconds :: "duration \<Rightarrow> rat" where
  "dur_seconds d =
     rnd (rnd (of_int (quot d second)) + rnd (rnd (of_int (d - quot d second * second)) / 10 ^ 9))"

definition sub_time :: "int \<Rightarrow> int \<Rightarrow> duration" where
  "sub_time a b = max min_int64 (min max_int64 (a - b))"

definition zero_throughput :: throughputSnapshot where
  "zero_throughput = \<lparr>ts_Count = 0, ts_WindowSeconds = 0, ts_CurrentRPS = 0\<rparr>"

definition tw_snapshot :: "int \<Rightarrow> throughputWindow \<Rightarrow> throughputSnapshot" where
  "tw_snapshot now tw =
     (if tw_samples tw = [] then zero_throughput
      else
        (let span = sub_time now (hd (tw_samples tw));
             span = (if span \<le> 0 then 1 else span);
             count = length (tw_samples tw)
         in \<lparr>ts_Count = int count, ts_WindowSeconds = dur_seconds span,
             ts_CurrentRPS = rnd (rnd (of_nat count) / dur_seconds span)\<rparr>))"

definition tw_AddAndSnapshot :: "int \<Rightarrow> throughputWindow \<Rightarrow> (throughputSnapshot \<times> throughputWindow) option" where
  "tw_AddAndSnapshot now tw =
     (case tw_cleanup now (tw\<lparr>tw_samples := tw_samples tw @ [now]\<rparr>) of
        None \<Rightarrow> None
      | Some tw' \<Rightarrow> Some (tw_snapshot now tw', tw'))"

section \<open>The ring buffer\<close>

definition wf_lw :: "latencyWindow \<Rightarrow> bool" where
  "wf_lw lw \<longleftrightarrow> lw_next lw < length (lw_samples lw) \<and> lw_filled lw \<le> length (lw_samples lw)"

lemma wf_new: "wf_lw (newLatencyWindow sz)"
  by (simp add: wf_lw_def newLatencyWindow_def latencySampleSize_def Let_def)

lemma wf_Add: "wf_lw lw \<Longrightarrow> wf_lw (lw_Add d lw)"
  by (auto simp: wf_lw_def lw_Add_def)

lemma length_Add [simp]: "length (lw_samples (lw_Add d lw)) = length (lw_samples lw)"
  by (simp add: lw_Add_def)

lemma ordered_rotate:
  assumes "wf_lw lw"
  shows "lw_ordered lw = drop (length (lw_samples lw) - lw_filled lw) (rotate (lw_next lw) (lw_samples lw))"
proof (rule nth_equalityI)
  let ?n = "length (lw_samples lw)" and ?k = "lw_next lw" and ?f = "lw_filled lw"
  have w: "?k < ?n" "?f \<le> ?n" using assms by (auto simp: wf_lw_def)
  show "length (lw_ordered lw) = length (drop (?n - ?f) (rotate ?k (lw_samples lw)))"
    using w by (simp add: lw_ordered_def)
  fix i
  assume "i < length (lw_ordered lw)"
  then have i: "i < ?f" by (simp add: lw_ordered_def)
  have "lw_index lw i = (?k + (?n - ?f + i)) mod ?n"
  proof (cases "?k + i < ?f")
    case True
    then have "lw_index lw i = ?k + (?n - ?f + i)" "?k + (?n - ?f + i) < ?n"
      using w i by (auto simp: lw_index_def Let_def nat_eq_iff)
    then show ?thesis by simp
  next
    case False
    then have "lw_index lw i = ?k + i - ?f" "?k + (?n - ?f + i) = ?n + (?k + i - ?f)" "?k + i - ?f < ?n"
      using w i by (auto simp: lw_index_def Let_def nat_eq_iff)
    then show ?thesis by simp
  qed
  then show "lw_ordered lw ! i = drop (?n - ?f) (rotate ?k (lw_samples lw)) ! i"
    using w i by (simp add: lw_ordered_def nth_rotate)
qed

lemma rotate_overwrite:
  assumes "k < length xs"
  shows "rotate (Suc k mod length xs) (xs[k := d]) = tl (rotate k xs) @ [d]"
proof -
  have "rotate k (xs[k := d]) = (rotate k xs)[0 := d]"
  proof (rule nth_equalityI)
    fix i
    assume "i < length (rotate k (xs[k := d]))"
    then have i: "i < length xs" by simp
    have "(k + i) mod length xs = k \<longleftrightarrow> i = 0"
      using i assms by (cases "k + i < length xs") (auto simp: mod_if)
    then show "rotate k (xs[k := d]) ! i = (rotate k xs)[0 := d] ! i"
      using i assms by (auto simp: nth_rotate nth_list_update)
  qed simp
  moreover have "rotate (Suc k mod length xs) (xs[k := d]) = rotate1 (rotate k (xs[k := d]))"
    using rotate_conv_mod [of "Suc k" "xs[k := d]"] by (simp add: rotate_Suc)
  moreover have "rotate k xs \<noteq> []" using assms by auto
  ultimately show ?thesis by (cases "rotate k xs") auto
qed

text \<open>Adding a sample appends it to the list the window stands for and keeps its last entries.\<close>

lemma ordered_Add:
  assumes "wf_lw lw"
  shows "lw_ordered (lw_Add d lw) = (let xs = lw_ordered lw @ [d] in drop (length xs - length (lw_samples lw)) xs)"
proof -
  let ?n = "length (lw_samples lw)" and ?k = "lw_next lw" and ?f = "lw_filled lw"
  let ?R = "rotate ?k (lw_samples lw)"
  have w: "?k < ?n" "?f \<le> ?n" using assms by (auto simp: wf_lw_def)
  have l: "length (lw_ordered lw) = ?f" by (simp add: lw_ordered_def)
  have "lw_ordered (lw_Add d lw) = drop (?n - (if ?f < ?n then ?f + 1 else ?f)) (tl ?R @ [d])"
    using ordered_rotate [OF wf_Add [OF assms], of d] w rotate_overwrite [OF w(1), of d]
    by (auto simp: lw_Add_def split: if_splits)
  also have "\<dots> = drop (?f + 1 - ?n) (drop (?n - ?f) ?R @ [d])"
  proof (cases "?f < ?n")
    case True
    then have "drop (?n - (?f + 1)) (tl ?R) = drop (?n - ?f) ?R"
      by (simp only: drop_Suc [symmetric]) (simp add: Suc_diff_Suc)
    with True show ?thesis by simp
  next
    case False
    with w have "?f = ?n" by simp
    with w show ?thesis by (cases ?R) (auto simp del: length_rotate dest: arg_cong [of _ _ length])
  qed
  finally show ?thesis using ordered_rotate [OF assms] l by (simp add: Let_def)
qed

lemma ordered_Adds:
  assumes "wf_lw lw" "length (lw_ordered lw) \<le> length (lw_samples lw)"
  shows "lw_ordered (fold lw_Add ds lw) = (let xs = lw_ordered lw @ ds in drop (length xs - length (lw_samples lw)) xs)"
  using assms
proof (induction ds arbitrary: lw)
  case Nil
  then show ?case by simp
next
  case (Cons d ds)
  let ?n = "length (lw_samples lw)"
  have a: "lw_ordered (lw_Add d lw) = drop (length (lw_ordered lw) + 1 - ?n) (lw_ordered lw @ [d])"
    using ordered_Add [OF Cons.prems(1), of d] by (simp add: Let_def)
  have "lw_ordered (fold lw_Add ds (lw_Add d lw)) = (let xs = lw_ordered (lw_Add d lw) @ ds in drop (length xs - ?n) xs)"
    using Cons.IH [OF wf_Add [OF Cons.prems(1)], of d] Cons.prems(2) a by simp
  also have "\<dots> = (let xs = lw_ordered lw @ d # ds in drop (length xs - ?n) xs)"
  proof (cases "length (lw_ordered lw) < ?n")
    case True
    then show ?thesis by (simp add: a)
  next
    case False
    with Cons.prems(2) have e: "length (lw_ordered lw) = ?n" by simp
    have "?n \<noteq> 0" using Cons.prems(1) by (auto simp: wf_lw_def)
    with e show ?thesis by (cases "lw_ordered lw") (simp_all add: a drop_Cons')
  qed
  finally show ?case by simp
qed

section \<open>Percentiles\<close>

text \<open>Samples that a \<open>float64\<close> represents exactly: at most \<open>2 ^ 53\<close> nanoseconds, 104 days.\<close>

definition exact_samples :: "int list \<Rightarrow> bool" where
  "exact_samples xs \<longleftrightarrow> list_all (\<lambda>x. 0 \<le> x \<and> x \<le> 2 ^ 53) xs \<and> length xs \<le> 2 ^ 53"

lemma exact_length: "exact_samples xs \<Longrightarrow> length xs - 1 \<le> 2 ^ 53"
  unfolding exact_samples_def by (blast intro: le_trans [OF diff_le_self])

text \<open>Where a percentile looks: a position between two neighbouring samples.\<close>

definition position :: "int list \<Rightarrow> rat \<Rightarrow> rat" where
  "position xs q = rnd (q * of_nat (length xs - 1))"

lemma position_bounds:
  assumes "exact_samples xs" "xs \<noteq> []" "0 \<le> q" "q < 1"
  shows "0 \<le> position xs q" "position xs q \<le> of_nat (length xs - 1)"
proof -
  let ?m = "length xs - 1"
  have m: "(of_nat ?m :: rat) \<le> 2 ^ 53" "int ?m \<le> 2 ^ 53"
  proof -
    have "?m \<le> 2 ^ 53" by (rule exact_length [OF assms(1)])
    then have "(of_nat ?m :: rat) \<le> of_nat (2 ^ 53)" "int ?m \<le> int (2 ^ 53)" by (simp_all only: of_nat_le_iff)
    then show "(of_nat ?m :: rat) \<le> 2 ^ 53" "int ?m \<le> 2 ^ 53" by simp_all
  qed
  have le: "q * of_nat ?m \<le> of_int (int ?m)" using assms(3,4) mult_right_mono [of q 1 "of_nat ?m"] by simp
  have ge: "0 \<le> q * of_nat ?m" using assms(3) by simp
  show "0 \<le> position xs q" unfolding position_def using ge le m(1) by (intro rnd_nonneg) simp_all
  show "position xs q \<le> of_nat ?m" unfolding position_def using rnd_le_int [OF ge le m(2)] by simp
qed

lemma position_mono:
  assumes "exact_samples xs" "xs \<noteq> []" "0 \<le> q" "q \<le> q'" "q' < 1"
  shows "position xs q \<le> position xs q'"
proof -
  let ?m = "length xs - 1"
  have "?m \<le> 2 ^ 53" by (rule exact_length [OF assms(1)])
  then have "(of_nat ?m :: rat) \<le> of_nat (2 ^ 53)" by (simp only: of_nat_le_iff)
  then have m: "(of_nat ?m :: rat) \<le> 2 ^ 53" by simp
  have "q' * of_nat ?m \<le> 1 * of_nat ?m" using assms(5) by (intro mult_right_mono) simp_all
  with m have "q' * of_nat ?m \<le> 2 ^ 53" by simp
  then show ?thesis unfolding position_def using assms(3,4) by (intro rnd_mono mult_right_mono) simp_all
qed

text \<open>The linear interpolation between two samples, as the code computes it.\<close>

definition between :: "int \<Rightarrow> int \<Rightarrow> rat \<Rightarrow> int" where
  "between a b w = i64 (a + f64_int64 (round64 (rnd (of_int (i64 (b - a))) * w)))"

lemma between_val:
  assumes "0 \<le> a" "a \<le> b" "b \<le> 2 ^ 53" "0 \<le> f" "f \<le> 1"
  shows "between a b f = a + \<lfloor>rnd (of_int (b - a) * f)\<rfloor>" "a \<le> between a b f" "between a b f \<le> b"
proof -
  let ?x = "of_int (b - a) * f :: rat"
  have d: "\<bar>b - a\<bar> \<le> 2 ^ 53" "b - a \<le> 2 ^ 53" "(0 :: rat) \<le> of_int (b - a)" using assms(1-3) by auto
  have i: "i64 (b - a) = b - a" using assms(1-3) by (intro i64_id) (simp add: in_i64_def)
  have x: "0 \<le> ?x" "?x \<le> of_int (b - a)" using d(3) assms(4,5) mult_left_mono [of f 1 "of_int (b - a)"] by simp_all
  have r: "0 \<le> rnd ?x" "rnd ?x \<le> of_int (b - a)"
  proof -
    have "(of_int (b - a) :: rat) \<le> of_int (2 ^ 53)" using d(2) by (simp only: of_int_le_iff)
    with x show "0 \<le> rnd ?x" by (intro rnd_nonneg) simp_all
    show "rnd ?x \<le> of_int (b - a)" by (rule rnd_le_int [OF x d(2)])
  qed
  have f: "0 \<le> \<lfloor>rnd ?x\<rfloor>" "\<lfloor>rnd ?x\<rfloor> \<le> b - a" using r floor_mono [of "rnd ?x" "of_int (b - a)"] by simp_all
  have "\<exists>y. round64 ?x = Fin y \<and> y = rnd ?x"
  proof (cases "?x = 0")
    case False
    with x(1) have p: "0 < ?x" by (metis order_le_less)
    have "(of_int (b - a) :: rat) \<le> of_int (2 ^ 53)" using d(2) by (simp only: of_int_le_iff)
    with x have "?x \<le> 2 ^ 53" by simp
    have "rounded ?x = rnd ?x" using rnd_rounded [OF p \<open>?x \<le> 2 ^ 53\<close>] by simp
    moreover have "rnd ?x < 2 ^ 1024"
    proof -
      have "rnd ?x \<le> of_int (2 ^ 53)" using r(2) \<open>(of_int (b - a) :: rat) \<le> of_int (2 ^ 53)\<close> by linarith
      then show ?thesis by (rule le_less_trans) simp
    qed
    ultimately show ?thesis using p r(1) by (simp add: round64_rounded)
  next
    case True
    show ?thesis unfolding True by (simp add: round64_def)
  qed
  moreover have small: "in_i64 k \<and> in_i64 (a + k)" if "0 \<le> k" "k \<le> b - a" for k
    using that assms(1-3) by (simp add: in_i64_def)
  moreover have "trunc (rnd ?x) = \<lfloor>rnd ?x\<rfloor>" using r(1) by (simp add: trunc_def)
  ultimately have "f64_int64 (round64 ?x) = \<lfloor>rnd ?x\<rfloor>" using small [OF f] by auto
  moreover have "in_i64 (a + \<lfloor>rnd ?x\<rfloor>)" using small [OF f] by simp
  ultimately show e: "between a b f = a + \<lfloor>rnd ?x\<rfloor>"
    by (simp only: between_def i rnd_int [OF d(1)] i64_id)
  show "a \<le> between a b f" "between a b f \<le> b" unfolding e using f by simp_all
qed

lemma between_mono:
  assumes "0 \<le> a" "a \<le> b" "b \<le> 2 ^ 53" "0 \<le> f" "f \<le> f'" "f' \<le> 1"
  shows "between a b f \<le> between a b f'"
proof -
  have d: "(0 :: rat) \<le> of_int (b - a)" "(of_int (b - a) :: rat) \<le> 2 ^ 53"
  proof -
    have "(of_int (b - a) :: rat) \<le> of_int (2 ^ 53)" using assms(1-3) by (simp only: of_int_le_iff)
    then show "(of_int (b - a) :: rat) \<le> 2 ^ 53" by simp
  qed (use assms in simp)
  have "of_int (b - a) * f' \<le> of_int (b - a) * 1" using d(1) assms(6) by (intro mult_left_mono) simp_all
  then have "rnd (of_int (b - a) * f) \<le> rnd (of_int (b - a) * f')"
    using d assms(4,5) by (intro rnd_mono mult_left_mono mult_nonneg_nonneg) simp_all
  then show ?thesis
    using between_val(1) [of a b f] between_val(1) [of a b f'] assms by (simp add: floor_mono)
qed

lemma percentile_between:
  assumes "exact_samples xs" "xs \<noteq> []" "0 < q" "q < 1"
  shows "percentile xs q =
    (let p = position xs q; l = nat \<lfloor>p\<rfloor> in
     if p = of_nat l then xs ! l else between (xs ! l) (xs ! (l + 1)) (rnd (p - of_nat l)))"
proof -
  define p where "p = position xs q"
  have pe: "rnd (q * of_nat (length xs - 1)) = p" by (simp add: p_def position_def)
  have p: "0 \<le> p" using position_bounds(1) [OF assms(1,2)] assms(3,4) by (simp add: p_def)
  define l where "l = nat \<lfloor>p\<rfloor>"
  have l: "\<lfloor>p\<rfloor> = int l" using p by (simp add: l_def)
  have lf: "nat \<lfloor>p\<rfloor> = l" by (simp add: l_def)
  have c: "nat \<lceil>p\<rceil> = (if p = of_nat l then l else l + 1)" using l by (simp add: ceiling_altdef nat_add_distrib)
  have n: "\<not> q \<le> 0" "\<not> 1 \<le> q" using assms(3,4) by simp_all
  have "percentile xs q = (if l = nat \<lceil>p\<rceil> then xs ! l else between (xs ! l) (xs ! nat \<lceil>p\<rceil>) (rnd (p - of_nat l)))"
    unfolding percentile_def Let_def between_def pe lf by (simp only: assms(2) n if_False)
  also have "\<dots> = (if p = of_nat l then xs ! l else between (xs ! l) (xs ! (l + 1)) (rnd (p - of_nat l)))"
    unfolding c by (cases "p = of_nat l") simp_all
  finally show ?thesis unfolding Let_def l_def p_def .
qed

text \<open>The weight of the upper neighbour is a weight.\<close>

lemma weight_bounds:
  assumes "0 \<le> p" "l = nat \<lfloor>p\<rfloor>"
  shows "0 \<le> rnd (p - of_nat l)" "rnd (p - of_nat l) \<le> 1"
proof -
  have "of_nat l = (of_int \<lfloor>p\<rfloor> :: rat)" using assms by simp
  then have w: "0 \<le> p - of_nat l" "p - of_nat l \<le> of_int 1" by linarith+
  show "0 \<le> rnd (p - of_nat l)" using w by (intro rnd_nonneg) simp_all
  show "rnd (p - of_nat l) \<le> 1" using rnd_le_int [OF w] by simp
qed

text \<open>What a position yields: the value lies between its neighbours, and grows with the position.\<close>

definition at_pos :: "int list \<Rightarrow> rat \<Rightarrow> int" where
  "at_pos xs p = (let l = nat \<lfloor>p\<rfloor> in
     if p = of_nat l then xs ! l else between (xs ! l) (xs ! (l + 1)) (rnd (p - of_nat l)))"

lemma at_pos_bounds:
  assumes "exact_samples xs" "sorted xs" "0 \<le> p" "p \<le> of_nat (length xs - 1)" "xs \<noteq> []" "l = nat \<lfloor>p\<rfloor>"
  shows "xs ! l \<le> at_pos xs p" "p \<noteq> of_nat l \<Longrightarrow> l + 1 < length xs \<and> at_pos xs p \<le> xs ! (l + 1)"
    "at_pos xs p \<le> xs ! (length xs - 1)" "l < length xs"
proof -
  have lp: "of_nat l = (of_int \<lfloor>p\<rfloor> :: rat)" using assms(3,6) by simp
  then have "(of_nat l :: rat) \<le> of_nat (length xs - 1)" using assms(4) by linarith
  then have l1: "l \<le> length xs - 1" by (simp only: of_nat_le_iff)
  then show l: "l < length xs" using assms(5) by (cases xs) auto
  have nx: "l + 1 < length xs" if "p \<noteq> of_nat l"
  proof -
    have "(of_nat l :: rat) < of_nat (length xs - 1)" using that lp assms(4) by linarith
    then have "l < length xs - 1" by (simp only: of_nat_less_iff)
    then show ?thesis by simp
  qed
  have e: "0 \<le> xs ! i" "xs ! i \<le> 2 ^ 53" if "i < length xs" for i
    using assms(1) that by (auto simp: exact_samples_def list_all_length)
  note w = weight_bounds [OF assms(3,6)]
  have b: "xs ! l \<le> at_pos xs p \<and> at_pos xs p \<le> xs ! (l + 1)" if "p \<noteq> of_nat l"
    using that nx [OF that] e l w assms(2,6)
      between_val(2,3) [of "xs ! l" "xs ! (l + 1)" "rnd (p - of_nat l)"]
    by (simp add: at_pos_def Let_def sorted_nth_mono)
  have s: "at_pos xs p = xs ! l" if "p = of_nat l" using that assms(6) by (simp add: at_pos_def)
  show "xs ! l \<le> at_pos xs p" using b s by (cases "p = of_nat l") auto
  show "l + 1 < length xs \<and> at_pos xs p \<le> xs ! (l + 1)" if "p \<noteq> of_nat l" using b that nx by auto
  show "at_pos xs p \<le> xs ! (length xs - 1)"
  proof (cases "p = of_nat l")
    case True
    then show ?thesis using s l assms(2) by (simp add: sorted_nth_mono)
  next
    case False
    have "xs ! (l + 1) \<le> xs ! (length xs - 1)" using nx [OF False] assms(2) by (simp add: sorted_nth_mono)
    with b False show ?thesis by fastforce
  qed
qed

lemma at_pos_mono:
  assumes "exact_samples xs" "sorted xs" "0 \<le> p" "p \<le> p'" "p' \<le> of_nat (length xs - 1)" "xs \<noteq> []"
  shows "at_pos xs p \<le> at_pos xs p'"
proof -
  define l l' where "l = nat \<lfloor>p\<rfloor>" and "l' = nat \<lfloor>p'\<rfloor>"
  have p': "0 \<le> p'" and p: "p \<le> of_nat (length xs - 1)" using assms by linarith+
  have ll: "l \<le> l'" unfolding l_def l'_def using floor_mono [OF assms(4)] by (rule nat_mono)
  note b = at_pos_bounds [OF assms(1,2,3) p assms(6) l_def]
  note b' = at_pos_bounds [OF assms(1,2) p' assms(5,6) l'_def]
  have lp: "of_nat l = (of_int \<lfloor>p\<rfloor> :: rat)" using assms(3) by (simp add: l_def)
  show ?thesis
  proof (cases "p = of_nat l")
    case True
    then have "at_pos xs p = xs ! l" by (simp add: at_pos_def l_def)
    also have "\<dots> \<le> xs ! l'" using ll b'(4) assms(2) by (simp add: sorted_nth_mono)
    finally show ?thesis using b'(1) by simp
  next
    case False
    note n = b(2) [OF False]
    show ?thesis
    proof (cases "l = l'")
      case True
      have ne: "p' \<noteq> of_nat l'" using False True lp assms(4) by (metis of_int_floor_le order_antisym)
      have e: "0 \<le> xs ! i" "xs ! i \<le> 2 ^ 53" if "i < length xs" for i
        using assms(1) that by (auto simp: exact_samples_def list_all_length)
      have w: "0 \<le> rnd (p - of_nat l)" "rnd (p' - of_nat l') \<le> 1"
        using weight_bounds [OF assms(3) l_def] weight_bounds [OF p' l'_def] by auto
      have "of_nat l' = (of_int \<lfloor>p'\<rfloor> :: rat)" using p' by (simp add: l'_def)
      then have "p' - of_nat l' \<le> 1" by linarith
      then have "p' - of_nat l' \<le> 2 ^ 53" by simp
      moreover have "0 \<le> p - of_nat l" using lp by linarith
      ultimately have m: "rnd (p - of_nat l) \<le> rnd (p' - of_nat l')" using True assms(4) by (intro rnd_mono) simp_all
      have "between (xs ! l) (xs ! (l + 1)) (rnd (p - of_nat l)) \<le> between (xs ! l) (xs ! (l + 1)) (rnd (p' - of_nat l'))"
        using e n b(4) w m assms(2) by (intro between_mono) (simp_all add: sorted_nth_mono)
      then show ?thesis using False ne True by (simp add: at_pos_def Let_def l_def l'_def)
    next
      case False
      with ll have "l + 1 \<le> l'" by simp
      then have "xs ! (l + 1) \<le> xs ! l'" using b'(4) assms(2) by (simp add: sorted_nth_mono)
      with n b'(1) show ?thesis by linarith
    qed
  qed
qed

lemma percentile_at_pos:
  "exact_samples xs \<Longrightarrow> xs \<noteq> [] \<Longrightarrow> 0 < q \<Longrightarrow> q < 1 \<Longrightarrow> percentile xs q = at_pos xs (position xs q)"
  by (subst percentile_between) (simp_all add: at_pos_def Let_def)

lemma percentile_bounds:
  assumes "exact_samples xs" "sorted xs" "xs \<noteq> []" "0 < q" "q < 1"
  shows "xs ! 0 \<le> percentile xs q" "percentile xs q \<le> xs ! (length xs - 1)"
proof -
  have q: "0 \<le> q" using assms(4) by simp
  note p = position_bounds [OF assms(1,3) q assms(5)]
  note b = at_pos_bounds [OF assms(1,2) p assms(3) refl]
  show "percentile xs q \<le> xs ! (length xs - 1)" using b(3) by (simp add: percentile_at_pos assms)
  have "xs ! 0 \<le> xs ! nat \<lfloor>position xs q\<rfloor>" using b(4) assms(2) by (simp add: sorted_nth_mono)
  with b(1) show "xs ! 0 \<le> percentile xs q" by (simp add: percentile_at_pos assms)
qed

lemma percentile_mono:
  assumes "exact_samples xs" "sorted xs" "xs \<noteq> []" "0 < q" "q \<le> q'" "q' < 1"
  shows "percentile xs q \<le> percentile xs q'"
proof -
  have q: "0 \<le> q" "0 \<le> q'" "q < 1" "0 < q'" using assms(4-6) by simp_all
  from position_mono [OF assms(1,3) q(1) assms(5,6)] position_bounds [OF assms(1,3) q(1,3)]
    position_bounds [OF assms(1,3) q(2) assms(6)] at_pos_mono [OF assms(1,2)] assms(3)
  show ?thesis by (simp add: percentile_at_pos assms q)
qed

text \<open>
  C24. The latency window is the list of the most recent durations. After any durations have been
  added to a new window, the samples it copies out, oldest first, are the last 256 of them (the
  last \<open>n\<close> for a window of size \<open>n\<close>), and the snapshot reports their number and the last one.
\<close>

theorem latency_window_keeps_recent:
  "lw_ordered (fold lw_Add ds (newLatencyWindow sz)) =
     drop (length ds - (if sz \<le> 0 then 256 else nat sz)) ds
   \<and> SampleSize (lw_Snapshot (fold lw_Add ds (newLatencyWindow sz)))
       = int (min (length ds) (if sz \<le> 0 then 256 else nat sz))
   \<and> LastNs (lw_Snapshot (fold lw_Add ds (newLatencyWindow sz))) = (if ds = [] then 0 else last ds)"
proof -
  let ?w = "newLatencyWindow sz" and ?n = "if sz \<le> 0 then 256 else nat sz"
  let ?lw = "fold lw_Add ds ?w"
  have w: "wf_lw ?w" "lw_ordered ?w = []" "length (lw_samples ?w) = ?n"
    by (rule wf_new) (simp_all add: lw_ordered_def newLatencyWindow_def latencySampleSize_def Let_def)
  have o: "lw_ordered ?lw = drop (length ds - ?n) ds"
    using ordered_Adds [OF w(1), of ds] unfolding w(2,3) by (simp add: Let_def)
  have "length (lw_ordered ?lw) = lw_filled ?lw" by (simp add: lw_ordered_def)
  then have f: "lw_filled ?lw = min (length ds) ?n" unfolding o by auto
  have ne: "lw_samples lw \<noteq> [] \<Longrightarrow> lw_last (fold lw_Add ds lw) = (if ds = [] then lw_last lw else last ds)" for lw
    by (induction ds arbitrary: lw) (auto simp: lw_Add_def)
  have "?n \<noteq> 0" by auto
  with w(3) have "lw_samples ?w \<noteq> []" by auto
  then have l: "lw_last ?lw = (if ds = [] then 0 else last ds)"
    by (subst ne) (simp_all add: newLatencyWindow_def Let_def)
  show ?thesis
  proof (cases "ds = []")
    case True
    then show ?thesis using o f l \<open>?n \<noteq> 0\<close> by (simp add: lw_Snapshot_def zero_latency_def)
  next
    case False
    then show ?thesis using o f l \<open>?n \<noteq> 0\<close> by (simp add: lw_Snapshot_def zero_latency_def Let_def)
  qed
qed

lemma ilog_unique:
  assumes "2 powi k \<le> x" "x < 2 powi (k + 1)"
  shows "ilog 2 x = k"
proof -
  have p: "0 < x" using assms(1) by (rule less_le_trans [rotated]) simp
  have "(2 :: rat) powi k < 2 powi (ilog 2 x + 1)" "(2 :: rat) powi (ilog 2 x) < 2 powi (k + 1)"
    using ilog_bounds [OF p] assms by linarith+
  then have "\<not> ilog 2 x + 1 \<le> k" "\<not> k + 1 \<le> ilog 2 x"
    using power_int_increasing [of "ilog 2 x + 1" k "2 :: rat"] power_int_increasing [of "k + 1" "ilog 2 x" "2 :: rat"]
    by (auto simp: not_le [symmetric])
  then show ?thesis by simp
qed

lemma round_half_even_numeral [simp]: "round_half_even (numeral k) = numeral k"
  using round_half_even_int [of "numeral k"] by simp

lemma quantiles: "0 < rnd (50 / 100)" "rnd (50 / 100) \<le> rnd (95 / 100)" "rnd (95 / 100) \<le> rnd (99 / 100)" "rnd (99 / 100) < 1"
proof -
  have i: "ilog 2 (1 / 2) = - 1" "ilog 2 (99 / 100) = - 1" by (rule ilog_unique; simp add: power_int_minus)+
  let ?u = "inverse (2 ^ 53) :: rat"
  have u: "(2 :: rat) powi (max (- 1) (- 1022) - 52) = ?u" by (simp add: power_int_minus)
  have "1 / 2 / ?u = of_int (2 ^ 52)" by simp
  then have "rounded (1 / 2) = of_int (2 ^ 52) * ?u"
    unfolding rounded_def Let_def using i u by (simp only: abs_of_pos) simp
  then show "0 < rnd (50 / 100)" by (simp add: rnd_rounded)
  have "99 / 100 / ?u \<le> of_int (2 ^ 53 - 1)" by simp
  then have r: "round_half_even (99 / 100 / ?u) \<le> 2 ^ 53 - 1" by (rule round_half_even_bounds(2))
  have "rounded (99 / 100) = of_int (round_half_even (99 / 100 / ?u)) * ?u"
    unfolding rounded_def Let_def using i u by simp
  also have "\<dots> \<le> of_int (2 ^ 53 - 1) * ?u" using r by (intro mult_right_mono) (simp_all only: of_int_le_iff, simp)
  also have "\<dots> < 1" by simp
  finally show "rnd (99 / 100) < 1" by (simp add: rnd_rounded)
qed (rule rnd_mono; simp)+

text \<open>
  C25. The reported percentiles are percentiles: computed in floating point with interpolation between
  neighbours, they are ordered and lie between the smallest and the largest sample, for every
  window whose durations are not negative and exactly representable (up to 104 days).
\<close>

theorem latency_percentiles_ordered:
  assumes "exact_samples (lw_ordered lw)" "0 < lw_filled lw"
  shows "Min (set (lw_ordered lw)) \<le> P50Ns (lw_Snapshot lw)
    \<and> P50Ns (lw_Snapshot lw) \<le> P95Ns (lw_Snapshot lw)
    \<and> P95Ns (lw_Snapshot lw) \<le> P99Ns (lw_Snapshot lw)
    \<and> P99Ns (lw_Snapshot lw) \<le> Max (set (lw_ordered lw))"
proof -
  let ?xs = "sort (lw_ordered lw)"
  have e: "exact_samples ?xs" using assms(1) by (simp add: exact_samples_def list_all_iff)
  have s: "sorted ?xs" by simp
  have "0 < length (lw_ordered lw)" using assms(2) by (simp add: lw_ordered_def)
  then have n: "?xs \<noteq> []" "lw_ordered lw \<noteq> []" by (auto simp flip: length_greater_0_conv)
  have "?xs ! 0 \<in> set (lw_ordered lw)" "?xs ! (length ?xs - 1) \<in> set (lw_ordered lw)"
    using n(2) nth_mem [of 0 ?xs] nth_mem [of "length ?xs - 1" ?xs] by auto
  then have m: "Min (set (lw_ordered lw)) \<le> ?xs ! 0" "?xs ! (length ?xs - 1) \<le> Max (set (lw_ordered lw))" by simp_all
  note q = quantiles
  have "0 < rnd (95 / 100)" "rnd (95 / 100) < 1" "rnd (50 / 100) < 1" "0 < rnd (99 / 100)" using q by linarith+
  then have "?xs ! 0 \<le> percentile ?xs (rnd (50 / 100))" "percentile ?xs (rnd (50 / 100)) \<le> percentile ?xs (rnd (95 / 100))"
    "percentile ?xs (rnd (95 / 100)) \<le> percentile ?xs (rnd (99 / 100))" "percentile ?xs (rnd (99 / 100)) \<le> ?xs ! (length ?xs - 1)"
    using percentile_bounds [OF e s n(1)] percentile_mono [OF e s n(1)] q by simp_all
  with m assms(2) show ?thesis by (simp add: lw_Snapshot_def Let_def)
qed

section \<open>The sliding window\<close>

lemma takeWhile_Suc:
  assumes "takeWhile P (take i xs) = take i xs" "i < length xs" "P (xs ! i)"
  shows "takeWhile P (take (Suc i) xs) = take (Suc i) xs"
proof -
  have "takeWhile P (take i xs @ [xs ! i]) = take i xs @ [xs ! i]"
    using assms(1,3) by (simp add: takeWhile_append takeWhile_eq_all_conv)
  then show ?thesis using assms(2) by (simp add: take_Suc_conv_app_nth)
qed

lemma takeWhile_stop:
  assumes "takeWhile P (take k xs) = take k xs" "k \<le> length xs" "k < length xs \<Longrightarrow> \<not> P (xs ! k)"
  shows "length (takeWhile P xs) = k"
proof -
  have "takeWhile P (drop k xs) = []"
    using assms(3) by (cases "k < length xs") (simp_all add: Cons_nth_drop_Suc [symmetric])
  moreover have "\<forall>x \<in> set (take k xs). P x" using assms(1) by (simp add: takeWhile_eq_all_conv)
  ultimately have "takeWhile P (take k xs @ drop k xs) = take k xs" by (simp only: takeWhile_append) simp
  then show ?thesis using assms(2) by simp
qed

lemma first_kept: "tw_first_kept c xs = Some (length (takeWhile (\<lambda>x. x < c) xs))"
proof -
  let ?b = "\<lambda>i. i < length xs \<and> xs ! i < c"
  let ?inv = "\<lambda>i. takeWhile (\<lambda>x. x < c) (take i xs) = take i xs \<and> i \<le> length xs"
  have "\<exists>k. while_option ?b Suc 0 = Some k"
    by (rule measure_while_option_Some [where P = "\<lambda>_. True" and f = "\<lambda>i. length xs - i"]) auto
  then obtain k where k: "while_option ?b Suc 0 = Some k" ..
  have "?inv k"
  proof (rule while_option_rule [where P = ?inv, OF _ k])
    fix i
    assume "?inv i" "?b i"
    then show "?inv (Suc i)" using takeWhile_Suc [of "\<lambda>x. x < c" i xs] by simp
  qed simp
  moreover have "\<not> ?b k" by (rule while_option_stop [OF k])
  ultimately have "length (takeWhile (\<lambda>x. x < c) xs) = k" by (intro takeWhile_stop) auto
  then show ?thesis using k by (simp add: tw_first_kept_def)
qed

lemma cleanup_drops: "tw_cleanup now tw = Some (tw\<lparr>tw_samples := dropWhile (\<lambda>x. x < now - tw_horizon tw) (tw_samples tw)\<rparr>)"
  by (simp add: tw_cleanup_def first_kept dropWhile_eq_drop)

lemma dropWhile_sorted: "sorted xs \<Longrightarrow> dropWhile (\<lambda>x. x < (c :: int)) xs = filter (\<lambda>x. c \<le> x) xs"
proof (induction xs)
  case (Cons x xs)
  have "filter (\<lambda>x. c \<le> x) (x # xs) = x # xs" if "c \<le> x"
    by (rule filter_True) (use that Cons.prems in auto)
  with Cons show ?case by auto
qed simp

fun tw_run :: "int list \<Rightarrow> throughputWindow \<Rightarrow> throughputWindow option" where
  "tw_run [] tw = Some tw"
| "tw_run (t # ts) tw = (case tw_AddAndSnapshot t tw of None \<Rightarrow> None | Some (_, tw') \<Rightarrow> tw_run ts tw')"

lemma run_keeps:
  assumes "sorted (xs @ ts)" "0 \<le> h" "ts \<noteq> []"
  shows "tw_run ts \<lparr>tw_horizon = h, tw_samples = xs\<rparr>
    = Some \<lparr>tw_horizon = h, tw_samples = filter (\<lambda>x. last ts - h \<le> x) (xs @ ts)\<rparr>"
  using assms
proof (induction ts arbitrary: xs)
  case Nil
  then show ?case by simp
next
  case (Cons t ts)
  let ?ys = "filter (\<lambda>x. t - h \<le> x) (xs @ [t])"
  have s: "sorted (xs @ [t])" using Cons.prems(1) by (simp add: sorted_append)
  have st: "tw_run (t # ts) \<lparr>tw_horizon = h, tw_samples = xs\<rparr> = tw_run ts \<lparr>tw_horizon = h, tw_samples = ?ys\<rparr>"
    using s by (simp add: tw_AddAndSnapshot_def cleanup_drops dropWhile_sorted)
  show ?case
  proof (cases "ts = []")
    case True
    then show ?thesis using st by simp
  next
    case False
    have "sorted (?ys @ ts)" using Cons.prems(1) by (auto simp: sorted_append sorted_wrt_filter)
    from Cons.IH [OF this Cons.prems(2) False] st
    have "tw_run (t # ts) \<lparr>tw_horizon = h, tw_samples = xs\<rparr>
        = Some \<lparr>tw_horizon = h, tw_samples = filter (\<lambda>x. last ts - h \<le> x) (?ys @ ts)\<rparr>" by simp
    moreover have "t \<le> last ts" using Cons.prems(1) False by (simp add: sorted_append)
    then have "filter (\<lambda>x. last ts - h \<le> x) (?ys @ ts) = filter (\<lambda>x. last ts - h \<le> x) (xs @ t # ts)"
      by (simp only: filter_append filter_filter filter.simps) (auto intro!: filter_cong)
    ultimately show ?thesis using False by (simp only: last.simps if_False)
  qed
qed

text \<open>
  C26. The throughput window always answers and counts exactly. The loop that drops old samples ends
  for every window and every clock, also when the clock goes back; and when it does not go back,
  after messages at the times \<open>ts\<close> the window holds exactly those of the last minute.
\<close>

theorem throughput_window_exact:
  "(\<exists>s tw'. tw_AddAndSnapshot now tw = Some (s, tw') \<and> ts_Count s \<le> int (length (tw_samples tw)) + 1)
   \<and> (sorted ts \<longrightarrow> ts \<noteq> [] \<longrightarrow>
      map_option tw_samples (tw_run ts (newThroughputWindow throughputWindowSize))
        = Some (filter (\<lambda>t. last ts - 60 * second \<le> t) ts))"
proof -
  let ?t = "tw\<lparr>tw_samples := dropWhile (\<lambda>x. x < now - tw_horizon tw) (tw_samples tw @ [now])\<rparr>"
  have "tw_AddAndSnapshot now tw = Some (tw_snapshot now ?t, ?t)"
    by (simp add: tw_AddAndSnapshot_def cleanup_drops)
  moreover have "ts_Count (tw_snapshot now ?t) \<le> int (length (tw_samples tw)) + 1"
    using length_dropWhile_le [of "\<lambda>x. x < now - tw_horizon tw" "tw_samples tw @ [now]"]
    by (simp add: tw_snapshot_def Let_def zero_throughput_def)
  moreover have "map_option tw_samples (tw_run ts (newThroughputWindow throughputWindowSize))
        = Some (filter (\<lambda>t. last ts - 60 * second \<le> t) ts)" if "sorted ts" "ts \<noteq> []"
    using run_keeps [of "[]" ts "60 * second"] that by (simp add: newThroughputWindow_def throughputWindowSize_def)
  ultimately show ?thesis by blast
qed

lemma rounded_by:
  assumes "2 powi k \<le> x" "x < 2 powi (k + 1)" "- 1022 \<le> k" "u = 2 powi (k - 52)" "round_half_even (x / u) = n"
  shows "rounded x = of_int n * u"
proof -
  have "0 < x" using assms(1) by (rule less_le_trans [rotated]) simp
  then show ?thesis using ilog_unique [OF assms(1,2)] assms(3-5) by (simp add: rounded_def)
qed

lemma round_half_even_near:
  assumes "of_int n - 1 / 2 < x" "x < of_int n + 1 / 2"
  shows "round_half_even x = n"
proof -
  have "\<lfloor>x\<rfloor> = n \<or> (\<lfloor>x\<rfloor> = n - 1 \<and> 1 / 2 < x - of_int \<lfloor>x\<rfloor>)"
  proof (cases "of_int n \<le> x")
    case True
    with assms(2) have "\<lfloor>x\<rfloor> = n" by (intro floor_unique) simp_all
    then show ?thesis ..
  next
    case False
    with assms(1) have "\<lfloor>x\<rfloor> = n - 1" by (intro floor_unique) simp_all
    with assms(1) show ?thesis by simp
  qed
  then show ?thesis using assms(2) by (auto simp: round_half_even_def Let_def)
qed

lemma nanosecond: "dur_seconds 1 = 4835703278458517 / 2 ^ 82"
proof -
  have "rounded (1 / 10 ^ 9) = of_int 4835703278458517 * inverse (2 ^ 82)"
    by (rule rounded_by [where k = "- 30"]) (simp_all add: power_int_minus round_half_even_near)
  then have a: "rnd (1 / 10 ^ 9) = 4835703278458517 / 2 ^ 82" by (simp add: rnd_rounded)
  have "rounded (4835703278458517 / 2 ^ 82) = of_int 4835703278458517 * inverse (2 ^ 82)"
    by (rule rounded_by [where k = "- 30"]) (simp_all add: power_int_minus)
  then have b: "rnd (4835703278458517 / 2 ^ 82) = 4835703278458517 / 2 ^ 82" by (simp add: rnd_rounded)
  have q: "quot 1 second = 0" by (simp add: quot_def)
  have "dur_seconds 1 = rnd (rnd (1 / 10 ^ 9))" using rnd_int [of 1] by (simp add: dur_seconds_def q)
  also have "\<dots> = 4835703278458517 / 2 ^ 82" by (simp only: a b)
  finally show ?thesis .
qed

text \<open>
  After a single message the reported rate is close to \<open>10 ^ 9\<close> messages per second, whatever the
  time: the window spans no time yet, and the code takes one nanosecond instead.
\<close>

theorem first_message_rate:
  assumes "0 \<le> h"
  shows "\<exists>s tw. tw_AddAndSnapshot now (newThroughputWindow h) = Some (s, tw) \<and> ts_Count s = 1
    \<and> 999999999 < ts_CurrentRPS s \<and> ts_CurrentRPS s < 1000000000"
proof -
  let ?x = "1 / (4835703278458517 / 2 ^ 82) :: rat"
  have "rounded ?x = of_int 8388607999999999 * inverse (2 ^ 23)"
    by (rule rounded_by [where k = 29]) (simp_all add: power_int_minus round_half_even_near)
  then have r: "rnd ?x = 8388607999999999 / 2 ^ 23" by (simp add: rnd_rounded)
  let ?tw = "\<lparr>tw_horizon = h, tw_samples = [now]\<rparr>"
  have "tw_AddAndSnapshot now (newThroughputWindow h) = Some (tw_snapshot now ?tw, ?tw)"
    using assms by (simp add: tw_AddAndSnapshot_def cleanup_drops newThroughputWindow_def)
  moreover have "tw_snapshot now ?tw = \<lparr>ts_Count = 1, ts_WindowSeconds = dur_seconds 1, ts_CurrentRPS = rnd ?x\<rparr>"
    using rnd_int [of 1] by (simp add: tw_snapshot_def sub_time_def nanosecond)
  ultimately show ?thesis unfolding r by simp
qed

section \<open>A sample window\<close>

lemma latency_percentiles_ordered_witness:
  "P50Ns (lw_Snapshot (fold lw_Add [30, 10, 20] (newLatencyWindow 2)))
     \<le> P99Ns (lw_Snapshot (fold lw_Add [30, 10, 20] (newLatencyWindow 2)))"
proof -
  have "lw_ordered (fold lw_Add [30, 10, 20] (newLatencyWindow 2)) = [10, 20]"
    "0 < lw_filled (fold lw_Add [30, 10, 20] (newLatencyWindow 2))"
    by code_simp+
  moreover from this have "exact_samples (lw_ordered (fold lw_Add [30, 10, 20] (newLatencyWindow 2)))"
    by (simp add: exact_samples_def)
  ultimately show ?thesis
    using latency_percentiles_ordered [of "fold lw_Add [30, 10, 20] (newLatencyWindow 2)"] by linarith
qed

lemma throughput_window_exact_witness:
  "map_option tw_samples (tw_run [0, 5, 70 * second] (newThroughputWindow throughputWindowSize)) = Some [70 * second]"
  using throughput_window_exact [of 0 "newThroughputWindow 0" "[0, 5, 70 * second]"] by simp

lemma first_message_rate_witness:
  "\<exists>s tw. tw_AddAndSnapshot 5 (newThroughputWindow throughputWindowSize) = Some (s, tw) \<and> 999999999 < ts_CurrentRPS s"
  using first_message_rate [of throughputWindowSize 5] by (auto simp: throughputWindowSize_def)

end
