(* ===== verification/Rt_Stats.thy ===== *)
theory Rt_Stats
  imports Ce_Api Rt_Windows
begin

text \<open>
  The statistics of a handler (\<open>internal/runtime/models.go\<close>): counters and their breakdown by error
  category, the backlog gauges, the list of dependencies, and the wrapper that feeds them
  (\<open>wrapHandlerWithStats\<close> in \<open>registration.go\<close>).

  Counters of type \<open>uint64\<close> are 64-bit words. The mutex makes each operation one step. Both windows
  exist from the start, so their nil checks are left out. The resource sampler is a parameter:
  what it samples when the handler finishes, if there is one. \<open>now\<close> is the clock in nanoseconds.
\<close>

section \<open>Data\<close>

record ThroughputMetrics =
  CurrentRPS :: rat
  WindowSeconds :: rat
  MessagesInWindow :: "64 word"
  TotalMessages :: "64 word"

record ErrorBreakdown =
  eb_Validation :: "64 word"
  eb_Transport :: "64 word"
  eb_Downstream :: "64 word"
  eb_Other :: "64 word"
  eb_LastError :: string

record ResourceUsage =
  CPUPercent :: rat
  MemoryBytes :: "64 word"
  Goroutines :: int

record BacklogMetrics =
  InFlight :: "64 word"
  MaxInFlight :: "64 word"
  LastQueueDepth :: int
  EstimatedLagMillis :: int

record DependencyHealth =
  dep_Name :: string
  dep_Status :: string
  dep_LastChecked :: gtime
  dep_Details :: string

definition DependencyStatusUnknown :: string where
  "DependencyStatusUnknown = ''unknown''"

definition DependencyStatusHealthy :: string where
  "DependencyStatusHealthy = ''healthy''"

definition DependencyStatusDegraded :: string where
  "DependencyStatusDegraded = ''degraded''"

definition ErrorCategoryNone :: string where
  "ErrorCategoryNone = ''none''"

definition ErrorCategoryValidation :: string where
  "ErrorCategoryValidation = ''validation''"

definition ErrorCategoryTransport :: string where
  "ErrorCategoryTransport = ''transport''"

definition ErrorCategoryDownstream :: string where
  "ErrorCategoryDownstream = ''downstream''"

definition ErrorCategoryOther :: string where
  "ErrorCategoryOther = ''other''"

type_synonym classifier = "gerror option \<Rightarrow> string"

record HandlerStats =
  hs_handlerName :: string
  hs_consumeQueue :: string
  hs_publishQueue :: string
  MessagesProcessed :: "64 word"
  MessagesFailed :: "64 word"
  TotalProcessingTime :: int
  LastProcessedAt :: gtime
  hs_Latency :: LatencyMetrics
  hs_Throughput :: ThroughputMetrics
  hs_Errors :: ErrorBreakdown
  hs_Resource :: ResourceUsage
  hs_Backlog :: BacklogMetrics
  hs_Dependencies :: "DependencyHealth list"
  hs_latencyWindow :: latencyWindow
  hs_throughputWindow :: throughputWindow
  hs_dependencyIndex :: "(string \<times> nat) list"

section \<open>Operations\<close>

definition addDependency :: "string \<Rightarrow> HandlerStats \<Rightarrow> HandlerStats" where
  "addDependency name h =
     (let deps = hs_Dependencies h @ [\<lparr>dep_Name = name, dep_Status = DependencyStatusUnknown,
                                       dep_LastChecked = zero_time, dep_Details = []\<rparr>]
      in h\<lparr>hs_Dependencies := deps, hs_dependencyIndex := mput name (length deps - 1) (hs_dependencyIndex h)\<rparr>)"

definition zero_stats :: "string \<Rightarrow> string \<Rightarrow> string \<Rightarrow> HandlerStats" where
  "zero_stats name consumeQueue publishQueue =
     \<lparr>hs_handlerName = name, hs_consumeQueue = consumeQueue, hs_publishQueue = publishQueue,
      MessagesProcessed = 0, MessagesFailed = 0, TotalProcessingTime = 0, LastProcessedAt = zero_time,
      hs_Latency = zero_latency,
      hs_Throughput = \<lparr>CurrentRPS = 0, WindowSeconds = 0, MessagesInWindow = 0, TotalMessages = 0\<rparr>,
      hs_Errors = \<lparr>eb_Validation = 0, eb_Transport = 0, eb_Downstream = 0, eb_Other = 0, eb_LastError = []\<rparr>,
      hs_Resource = \<lparr>CPUPercent = 0, MemoryBytes = 0, Goroutines = 0\<rparr>,
      hs_Backlog = \<lparr>InFlight = 0, MaxInFlight = 0, LastQueueDepth = - 1, EstimatedLagMillis = - 1\<rparr>,
      hs_Dependencies = [],
      hs_latencyWindow = newLatencyWindow (int latencySampleSize),
      hs_throughputWindow = newThroughputWindow throughputWindowSize,
      hs_dependencyIndex = []\<rparr>"

definition subscriber_name :: "string \<Rightarrow> string" where
  "subscriber_name q = ''subscriber:'' @ q"

definition publisher_name :: "string \<Rightarrow> string" where
  "publisher_name q = ''publisher:'' @ q"

definition newHandlerStats :: "string \<Rightarrow> string \<Rightarrow> string \<Rightarrow> HandlerStats" where
  "newHandlerStats name consumeQueue publishQueue =
     (let h = zero_stats name consumeQueue publishQueue;
          h = (if consumeQueue \<noteq> [] then addDependency (subscriber_name consumeQueue) h else h)
      in if publishQueue \<noteq> [] then addDependency (publisher_name publishQueue) h else h)"

subsection \<open>Backlog hints\<close>

definition parseInt64Metadata :: "(string \<times> string) list \<Rightarrow> string \<Rightarrow> int" where
  "parseInt64Metadata meta key =
     (let val = mget meta key
      in if val = [] then - 1
         else case parse_int val of (parsed, ok) \<Rightarrow> if ok then parsed else - 1)"

definition instant :: "gtime \<Rightarrow> int" where
  "instant t = unix t * nanos + nsec t"

definition parseLagMetadata :: "int \<Rightarrow> (string \<times> string) list \<Rightarrow> string \<Rightarrow> int" where
  "parseLagMetadata now meta key =
     (let raw = mget meta key
      in if raw = [] then - 1
         else case parse_rfc3339 raw of
                None \<Rightarrow> - 1
              | Some ts \<Rightarrow> (let lag = dur_millis (sub_time now (instant ts)) in if lag < 0 then 0 else lag))"

definition extractBacklogHints :: "int \<Rightarrow> message option \<Rightarrow> int \<times> int" where
  "extractBacklogHints now msg =
     (case msg of
        None \<Rightarrow> (- 1, - 1)
      | Some msg \<Rightarrow> (parseInt64Metadata (Metadata msg) ''protoflow_queue_depth'',
                   parseLagMetadata now (Metadata msg) ''protoflow_enqueued_at''))"

subsection \<open>Start and finish\<close>

record handlerInvocationContext =
  queueDepth :: int
  queueLagMillis :: int

definition onMessageStart :: "int \<Rightarrow> message option \<Rightarrow> HandlerStats \<Rightarrow> handlerInvocationContext \<times> HandlerStats" where
  "onMessageStart now msg h =
     (case extractBacklogHints now msg of
        (depth, lag) \<Rightarrow>
          (let b = (hs_Backlog h)\<lparr>InFlight := InFlight (hs_Backlog h) + 1\<rparr>;
               b = (if MaxInFlight b < InFlight b then b\<lparr>MaxInFlight := InFlight b\<rparr> else b)
           in (\<lparr>queueDepth = depth, queueLagMillis = lag\<rparr>, h\<lparr>hs_Backlog := b\<rparr>)))"

definition Record :: "string \<Rightarrow> gerror option \<Rightarrow> ErrorBreakdown \<Rightarrow> ErrorBreakdown" where
  "Record category err e =
     (if category = ErrorCategoryNone \<and> err = None then e
      else
        (let e = (if category = ErrorCategoryNone then e\<lparr>eb_Other := eb_Other e + 1\<rparr>
                  else if category = ErrorCategoryValidation then e\<lparr>eb_Validation := eb_Validation e + 1\<rparr>
                  else if category = ErrorCategoryTransport then e\<lparr>eb_Transport := eb_Transport e + 1\<rparr>
                  else if category = ErrorCategoryDownstream then e\<lparr>eb_Downstream := eb_Downstream e + 1\<rparr>
                  else e\<lparr>eb_Other := eb_Other e + 1\<rparr>)
         in case err of None \<Rightarrow> e | Some x \<Rightarrow> e\<lparr>eb_LastError := err_text x\<rparr>))"

text \<open>\<open>errors.As\<close> with a \<open>*UnprocessableEventError\<close> target: some error of the tree is one.\<close>

definition errors_as_unprocessable :: "gerror \<Rightarrow> bool" where
  "errors_as_unprocessable e = list_ex (\<lambda>n. case n of UnprocessableEventError _ _ \<Rightarrow> True | _ \<Rightarrow> False) (nodes e)"

definition defaultErrorClassifier :: classifier where
  "defaultErrorClassifier err =
     (case err of
        None \<Rightarrow> ErrorCategoryNone
      | Some e \<Rightarrow>
          if errors_as_unprocessable e then ErrorCategoryValidation
          else if errors_is e (TSentinel CtxDeadlineExceeded) \<or> errors_is e (TSentinel CtxCanceled)
          then ErrorCategoryDownstream
          else ErrorCategoryOther)"

definition setDependencyStatusLocked :: "int \<Rightarrow> string \<Rightarrow> string \<Rightarrow> string \<Rightarrow> HandlerStats \<Rightarrow> HandlerStats" where
  "setDependencyStatusLocked now name status details h =
     (if name = [] then h
      else
        (let (idx, h) =
           (case map_of (hs_dependencyIndex h) name of
              Some idx \<Rightarrow> (idx, h)
            | None \<Rightarrow>
                (let deps = hs_Dependencies h @ [\<lparr>dep_Name = name, dep_Status = [], dep_LastChecked = zero_time, dep_Details = []\<rparr>]
                 in (length deps - 1,
                     h\<lparr>hs_Dependencies := deps, hs_dependencyIndex := mput name (length deps - 1) (hs_dependencyIndex h)\<rparr>)));
           dep = (hs_Dependencies h ! idx)\<lparr>dep_Status := status, dep_Details := details,
                   dep_LastChecked := utc_time (now div nanos) (now mod nanos)\<rparr>
         in h\<lparr>hs_Dependencies := (hs_Dependencies h)[idx := dep]\<rparr>))"

definition finish_backlog :: "handlerInvocationContext \<Rightarrow> BacklogMetrics \<Rightarrow> BacklogMetrics" where
  "finish_backlog ctx b =
     (let b = (if 0 < InFlight b then b\<lparr>InFlight := InFlight b - 1\<rparr> else b);
          b = (if 0 \<le> queueDepth ctx then b\<lparr>LastQueueDepth := queueDepth ctx\<rparr> else b)
      in if 0 \<le> queueLagMillis ctx then b\<lparr>EstimatedLagMillis := queueLagMillis ctx\<rparr> else b)"

definition finish_counts :: "int \<Rightarrow> duration \<Rightarrow> gerror option \<Rightarrow> HandlerStats \<Rightarrow> HandlerStats" where
  "finish_counts now dur err h =
     h\<lparr>MessagesProcessed := MessagesProcessed h + 1,
       MessagesFailed := (if err \<noteq> None then MessagesFailed h + 1 else MessagesFailed h),
       TotalProcessingTime := i64 (TotalProcessingTime h + dur),
       LastProcessedAt := utc_time (now div nanos) (now mod nanos)\<rparr>"

definition finish_latency :: "duration \<Rightarrow> HandlerStats \<Rightarrow> HandlerStats" where
  "finish_latency dur h =
     (let lw = lw_Add dur (hs_latencyWindow h);
          snapshot = (lw_Snapshot lw)\<lparr>LastNs := dur\<rparr>;
          snapshot = (if 0 < MessagesProcessed h
                      then snapshot\<lparr>AverageNs := quot (TotalProcessingTime h) (sint (MessagesProcessed h))\<rparr>
                      else snapshot)
      in h\<lparr>hs_latencyWindow := lw, hs_Latency := snapshot\<rparr>)"

text \<open>The window's loop always returns, so the first case does not occur.\<close>

definition finish_throughput :: "int \<Rightarrow> HandlerStats \<Rightarrow> HandlerStats" where
  "finish_throughput now h =
     (case tw_AddAndSnapshot now (hs_throughputWindow h) of
        None \<Rightarrow> h
      | Some (s, tw) \<Rightarrow>
          h\<lparr>hs_throughputWindow := tw,
            hs_Throughput := \<lparr>CurrentRPS = ts_CurrentRPS s, WindowSeconds = ts_WindowSeconds s,
              MessagesInWindow = of_int (ts_Count s), TotalMessages = MessagesProcessed h\<rparr>\<rparr>)"

definition finish_dependencies :: "int \<Rightarrow> gerror option \<Rightarrow> HandlerStats \<Rightarrow> HandlerStats" where
  "finish_dependencies now err h =
     (let h = setDependencyStatusLocked now (subscriber_name (hs_consumeQueue h)) DependencyStatusHealthy [] h
      in if hs_publishQueue h = [] then h
         else
           (case err of
              None \<Rightarrow> setDependencyStatusLocked now (publisher_name (hs_publishQueue h)) DependencyStatusHealthy [] h
            | Some e \<Rightarrow>
                setDependencyStatusLocked now (publisher_name (hs_publishQueue h)) DependencyStatusDegraded (err_text e) h))"

definition onMessageFinish ::
  "int \<Rightarrow> ResourceUsage option \<Rightarrow> classifier option \<Rightarrow> handlerInvocationContext \<Rightarrow> duration \<Rightarrow> gerror option
    \<Rightarrow> HandlerStats \<Rightarrow> HandlerStats" where
  "onMessageFinish now sampled classifier ctx dur err h =
     (let h = h\<lparr>hs_Backlog := finish_backlog ctx (hs_Backlog h)\<rparr>;
          h = finish_counts now dur err h;
          h = finish_latency dur h;
          h = finish_throughput now h;
          classify = (case classifier of None \<Rightarrow> defaultErrorClassifier | Some c \<Rightarrow> c);
          h = h\<lparr>hs_Errors := Record (classify err) err (hs_Errors h)\<rparr>;
          h = (case sampled of None \<Rightarrow> h | Some r \<Rightarrow> h\<lparr>hs_Resource := r\<rparr>)
      in finish_dependencies now err h)"

text \<open>
  The wrapper around a raw handler. A handler returns its messages and error, or panics (\<open>Inl\<close>); the
  panic passes through the wrapper. \<open>clock\<close> and \<open>sample\<close> read the world.
\<close>

type_synonym 'w raw_handler = "message \<Rightarrow> 'w \<Rightarrow> (string + (message list \<times> gerror option)) \<times> 'w"

definition wrapHandlerWithStats ::
  "('w \<Rightarrow> int) \<Rightarrow> ('w \<Rightarrow> ResourceUsage option) \<Rightarrow> 'w raw_handler \<Rightarrow> classifier option
    \<Rightarrow> message \<Rightarrow> HandlerStats \<times> 'w \<Rightarrow> (string + (message list \<times> gerror option)) \<times> HandlerStats \<times> 'w" where
  "wrapHandlerWithStats clock sample handler classifier msg =
     (\<lambda>(h, w).
        (case onMessageStart (clock w) (Some msg) h of
           (invocation, h1) \<Rightarrow>
             (let start = clock w
              in case handler msg w of
                   (Inl panic, w') \<Rightarrow> (Inl panic, h1, w')
                 | (Inr (msgs, err), w') \<Rightarrow>
                     (let dur = sub_time (clock w') start
                      in (Inr (msgs, err), onMessageFinish (clock w') (sample w') classifier invocation dur err h1, w')))))"

section \<open>What finishing changes\<close>

lemma setDependency_fields [simp]:
  "MessagesProcessed (setDependencyStatusLocked now n s d h) = MessagesProcessed h"
  "MessagesFailed (setDependencyStatusLocked now n s d h) = MessagesFailed h"
  "TotalProcessingTime (setDependencyStatusLocked now n s d h) = TotalProcessingTime h"
  "hs_Errors (setDependencyStatusLocked now n s d h) = hs_Errors h"
  "hs_Backlog (setDependencyStatusLocked now n s d h) = hs_Backlog h"
  "hs_Throughput (setDependencyStatusLocked now n s d h) = hs_Throughput h"
  "hs_Latency (setDependencyStatusLocked now n s d h) = hs_Latency h"
  "hs_consumeQueue (setDependencyStatusLocked now n s d h) = hs_consumeQueue h"
  "hs_publishQueue (setDependencyStatusLocked now n s d h) = hs_publishQueue h"
  by (simp_all add: setDependencyStatusLocked_def Let_def split: option.splits)

lemma finish_dependencies_fields [simp]:
  "MessagesProcessed (finish_dependencies now err h) = MessagesProcessed h"
  "MessagesFailed (finish_dependencies now err h) = MessagesFailed h"
  "TotalProcessingTime (finish_dependencies now err h) = TotalProcessingTime h"
  "hs_Errors (finish_dependencies now err h) = hs_Errors h"
  "hs_Backlog (finish_dependencies now err h) = hs_Backlog h"
  "hs_Throughput (finish_dependencies now err h) = hs_Throughput h"
  "hs_consumeQueue (finish_dependencies now err h) = hs_consumeQueue h"
  "hs_publishQueue (finish_dependencies now err h) = hs_publishQueue h"
  by (simp_all add: finish_dependencies_def Let_def split: option.splits)

lemma throughput_returns: "\<exists>s tw. tw_AddAndSnapshot now w = Some (s, tw)"
  by (simp add: tw_AddAndSnapshot_def cleanup_drops)

lemma finish_throughput_fields [simp]:
  "MessagesProcessed (finish_throughput now h) = MessagesProcessed h"
  "MessagesFailed (finish_throughput now h) = MessagesFailed h"
  "TotalProcessingTime (finish_throughput now h) = TotalProcessingTime h"
  "hs_Errors (finish_throughput now h) = hs_Errors h"
  "hs_Backlog (finish_throughput now h) = hs_Backlog h"
  "TotalMessages (hs_Throughput (finish_throughput now h)) = MessagesProcessed h"
  "hs_consumeQueue (finish_throughput now h) = hs_consumeQueue h"
  "hs_publishQueue (finish_throughput now h) = hs_publishQueue h"
  "hs_Dependencies (finish_throughput now h) = hs_Dependencies h"
  "hs_dependencyIndex (finish_throughput now h) = hs_dependencyIndex h"
  using throughput_returns [of now "hs_throughputWindow h"] by (auto simp: finish_throughput_def)

lemma finish_latency_fields [simp]:
  "MessagesProcessed (finish_latency d h) = MessagesProcessed h"
  "MessagesFailed (finish_latency d h) = MessagesFailed h"
  "TotalProcessingTime (finish_latency d h) = TotalProcessingTime h"
  "hs_Errors (finish_latency d h) = hs_Errors h"
  "hs_Backlog (finish_latency d h) = hs_Backlog h"
  "hs_consumeQueue (finish_latency d h) = hs_consumeQueue h"
  "hs_publishQueue (finish_latency d h) = hs_publishQueue h"
  "hs_Dependencies (finish_latency d h) = hs_Dependencies h"
  "hs_dependencyIndex (finish_latency d h) = hs_dependencyIndex h"
  by (simp_all add: finish_latency_def Let_def)

lemma finish_counts_fields [simp]:
  "MessagesProcessed (finish_counts now d err h) = MessagesProcessed h + 1"
  "MessagesFailed (finish_counts now d err h) = MessagesFailed h + (if err = None then 0 else 1)"
  "TotalProcessingTime (finish_counts now d err h) = i64 (TotalProcessingTime h + d)"
  "hs_Errors (finish_counts now d err h) = hs_Errors h"
  "hs_Backlog (finish_counts now d err h) = hs_Backlog h"
  "hs_consumeQueue (finish_counts now d err h) = hs_consumeQueue h"
  "hs_publishQueue (finish_counts now d err h) = hs_publishQueue h"
  "hs_Dependencies (finish_counts now d err h) = hs_Dependencies h"
  "hs_dependencyIndex (finish_counts now d err h) = hs_dependencyIndex h"
  by (simp_all add: finish_counts_def)

lemma finish_fields:
  "MessagesProcessed (onMessageFinish now r cl ctx d err h) = MessagesProcessed h + 1"
  "MessagesFailed (onMessageFinish now r cl ctx d err h) = MessagesFailed h + (if err = None then 0 else 1)"
  "TotalProcessingTime (onMessageFinish now r cl ctx d err h) = i64 (TotalProcessingTime h + d)"
  "hs_Errors (onMessageFinish now r cl ctx d err h)
     = Record ((case cl of None \<Rightarrow> defaultErrorClassifier | Some c \<Rightarrow> c) err) err (hs_Errors h)"
  "hs_Backlog (onMessageFinish now r cl ctx d err h) = finish_backlog ctx (hs_Backlog h)"
  "TotalMessages (hs_Throughput (onMessageFinish now r cl ctx d err h)) = MessagesProcessed h + 1"
  by (simp_all add: onMessageFinish_def Let_def split: option.splits)

definition breakdown_total :: "ErrorBreakdown \<Rightarrow> 64 word" where
  "breakdown_total e = eb_Validation e + eb_Transport e + eb_Downstream e + eb_Other e"

lemma breakdown_Record:
  "breakdown_total (Record c err e) = breakdown_total e + (if c = ErrorCategoryNone \<and> err = None then 0 else 1)"
  by (simp add: Record_def breakdown_total_def Let_def split: option.splits)

section \<open>Runs\<close>

text \<open>The starts and finishes of the messages of a handler, in the order the mutex gives them.\<close>

datatype stats_event =
  Started int "message option"
| Finished int "ResourceUsage option" handlerInvocationContext duration "gerror option"

fun stats_step :: "classifier option \<Rightarrow> stats_event \<Rightarrow> HandlerStats \<Rightarrow> HandlerStats" where
  "stats_step cl (Started now msg) h = snd (onMessageStart now msg h)"
| "stats_step cl (Finished now r ctx d err) h = onMessageFinish now r cl ctx d err h"

definition durations :: "stats_event list \<Rightarrow> int list" where
  "durations es = concat (map (\<lambda>ev. case ev of Finished _ _ _ d _ \<Rightarrow> [d] | _ \<Rightarrow> []) es)"

definition failures :: "stats_event list \<Rightarrow> gerror list" where
  "failures es = concat (map (\<lambda>ev. case ev of Finished _ _ _ _ (Some e) \<Rightarrow> [e] | _ \<Rightarrow> []) es)"

text \<open>\<open>n\<close> messages are running at first; none finishes that did not start.\<close>

fun balanced :: "nat \<Rightarrow> stats_event list \<Rightarrow> bool" where
  "balanced n [] = True"
| "balanced n (Started _ _ # es) = balanced (n + 1) es"
| "balanced n (Finished _ _ _ _ _ # es) = (0 < n \<and> balanced (n - 1) es)"

fun running :: "nat \<Rightarrow> stats_event list \<Rightarrow> nat" where
  "running n [] = n"
| "running n (Started _ _ # es) = running (n + 1) es"
| "running n (Finished _ _ _ _ _ # es) = running (n - 1) es"

text \<open>A classifier that calls a success no error; the default one does.\<close>

definition sane_classifier :: "classifier option \<Rightarrow> bool" where
  "sane_classifier cl \<longleftrightarrow> (case cl of None \<Rightarrow> True | Some c \<Rightarrow> c None = ErrorCategoryNone)"

lemma run_counts:
  assumes "sane_classifier cl"
  shows "MessagesProcessed (fold (stats_step cl) es h) = MessagesProcessed h + of_nat (length (durations es))
    \<and> MessagesFailed (fold (stats_step cl) es h) = MessagesFailed h + of_nat (length (failures es))
    \<and> breakdown_total (hs_Errors (fold (stats_step cl) es h)) = breakdown_total (hs_Errors h) + of_nat (length (failures es))
    \<and> i64 (TotalProcessingTime (fold (stats_step cl) es h)) = i64 (TotalProcessingTime h + sum_list (durations es))"
proof (induction es arbitrary: h)
  case Nil
  then show ?case by (simp add: durations_def failures_def)
next
  case (Cons ev es)
  show ?case
  proof (cases ev)
    case (Started now msg)
    then show ?thesis using Cons by (simp add: durations_def failures_def onMessageStart_def Let_def case_prod_unfold)
  next
    case (Finished now r ctx d err)
    have c: "(case cl of None \<Rightarrow> defaultErrorClassifier | Some c \<Rightarrow> c) None = ErrorCategoryNone"
      using assms by (simp add: sane_classifier_def defaultErrorClassifier_def split: option.splits)
    have i: "i64 (i64 a + b) = i64 (a + b)" for a b by (simp add: i64_def mod_diff_left_eq mod_add_left_eq algebra_simps mod_simps)
    show ?thesis using Cons [of "onMessageFinish now r cl ctx d err h"] c i
      by (cases err) (simp_all add: Finished durations_def failures_def finish_fields breakdown_Record add.assoc)
  qed
qed

fun peak :: "nat \<Rightarrow> nat \<Rightarrow> stats_event list \<Rightarrow> nat" where
  "peak m n [] = m"
| "peak m n (Started _ _ # es) = peak (max m (n + 1)) (n + 1) es"
| "peak m n (Finished _ _ _ _ _ # es) = peak m (n - 1) es"

lemma unat_succ: "unat (x :: 64 word) + 1 < 2 ^ 64 \<Longrightarrow> unat (x + 1) = unat x + 1"
  by (simp add: unat_word_ariths)

lemma unat_pred: "0 < unat (x :: 64 word) \<Longrightarrow> unat (x - 1) = unat x - 1"
  by (metis unat_gt_0 unat_minus_one)

lemma start_backlog:
  fixes now :: int and msg :: "message option"
  assumes "unat (InFlight (hs_Backlog h)) + 1 < 2 ^ 64"
  defines "b \<equiv> hs_Backlog (snd (onMessageStart now msg h))"
  shows "unat (InFlight b) = unat (InFlight (hs_Backlog h)) + 1"
    "unat (MaxInFlight b) = max (unat (MaxInFlight (hs_Backlog h))) (unat (InFlight (hs_Backlog h)) + 1)"
  using unat_succ [OF assms(1)]
  by (auto simp: b_def onMessageStart_def Let_def case_prod_unfold word_less_nat_alt)

lemma finish_backlog_counts:
  "unat (InFlight (finish_backlog ctx b)) = unat (InFlight b) - 1"
  "MaxInFlight (finish_backlog ctx b) = MaxInFlight b"
proof -
  have "unat (InFlight b - 1) = unat (InFlight b) - 1" if "0 < InFlight b"
    using that by (intro unat_pred) (simp add: unat_gt_0 word_gt_0)
  moreover have "InFlight b = 0" if "\<not> 0 < InFlight b" using that by (simp add: word_gt_0)
  ultimately show "unat (InFlight (finish_backlog ctx b)) = unat (InFlight b) - 1"
    by (auto simp: finish_backlog_def Let_def)
qed (simp add: finish_backlog_def Let_def)

lemma run_backlog:
  assumes "unat (InFlight (hs_Backlog h)) = n" "unat (MaxInFlight (hs_Backlog h)) = m" "n + length es < 2 ^ 64"
  shows "unat (InFlight (hs_Backlog (fold (stats_step cl) es h))) = running n es
    \<and> unat (MaxInFlight (hs_Backlog (fold (stats_step cl) es h))) = peak m n es"
  using assms
proof (induction es arbitrary: n m h)
  case Nil
  then show ?case by simp
next
  case (Cons ev es)
  show ?case
  proof (cases ev)
    case (Started now msg)
    have "unat (InFlight (hs_Backlog h)) + 1 < 2 ^ 64" using Cons.prems by simp
    note s = start_backlog [OF this, of now msg]
    from Cons.IH [of "snd (onMessageStart now msg h)", OF s] Cons.prems show ?thesis by (simp add: Started)
  next
    case (Finished now r ctx d err)
    then show ?thesis
      using Cons.IH [of "onMessageFinish now r cl ctx d err h" "n - 1" m] Cons.prems
      by (simp add: finish_fields finish_backlog_counts)
  qed
qed

lemma running_peak: "n \<le> m \<Longrightarrow> running n es \<le> peak m n es \<and> m \<le> peak m n es"
  by (induction m n es rule: peak.induct) auto

lemma new_stats_fields:
  "MessagesProcessed (newHandlerStats n c p) = 0" "MessagesFailed (newHandlerStats n c p) = 0"
  "TotalProcessingTime (newHandlerStats n c p) = 0" "breakdown_total (hs_Errors (newHandlerStats n c p)) = 0"
  "InFlight (hs_Backlog (newHandlerStats n c p)) = 0" "MaxInFlight (hs_Backlog (newHandlerStats n c p)) = 0"
  by (simp_all add: newHandlerStats_def zero_stats_def addDependency_def breakdown_total_def Let_def)

text \<open>
  C27. The statistics of a handler account for its messages. After any interleaving of starts and
  finishes, the processed and failed counters are the numbers of finishes and of finishes with an
  error, the error categories add up to the failures, the processing times are summed (all modulo
  \<open>2 ^ 64\<close>), the in-flight gauge is the number of messages running and the maximum gauge its
  highest value, for every classifier that calls a success no error.
\<close>

theorem stats_account:
  fixes name cq pq :: string
  assumes "sane_classifier cl" "length es < 2 ^ 64"
  defines "s \<equiv> fold (stats_step cl) es (newHandlerStats name cq pq)"
  shows "MessagesProcessed s = of_nat (length (durations es)) \<and> MessagesFailed s = of_nat (length (failures es))
    \<and> breakdown_total (hs_Errors s) = MessagesFailed s
    \<and> i64 (TotalProcessingTime s) = i64 (sum_list (durations es))
    \<and> unat (InFlight (hs_Backlog s)) = running 0 es \<and> unat (MaxInFlight (hs_Backlog s)) = peak 0 0 es
    \<and> InFlight (hs_Backlog s) \<le> MaxInFlight (hs_Backlog s)"
proof -
  have "running 0 es \<le> peak 0 0 es" using running_peak [of 0 0 es] by simp
  moreover note run_counts [where cl = cl and es = es and h = "newHandlerStats name cq pq", OF assms(1)]
    run_backlog [of "newHandlerStats name cq pq" 0 0 es cl]
  ultimately show ?thesis
    using assms(2) by (simp add: s_def new_stats_fields word_le_nat_alt)
qed

section \<open>Panics\<close>

text \<open>Messages handled one after the other.\<close>

fun process_all ::
  "(message \<Rightarrow> HandlerStats \<times> 'w \<Rightarrow> 'r \<times> HandlerStats \<times> 'w) \<Rightarrow> message list \<Rightarrow> HandlerStats \<times> 'w
    \<Rightarrow> 'r list \<times> HandlerStats \<times> 'w" where
  "process_all f [] s = ([], s)"
| "process_all f (m # ms) s = (case f m s of (r, s') \<Rightarrow> (case process_all f ms s' of (rs, s'') \<Rightarrow> (r # rs, s'')))"

text \<open>
  C28. A panic is never finished. When a handler's messages are handled one after the other, so that
  none is running any more at the end, the in-flight gauge has grown by the number of panics and
  only the invocations that returned are counted as processed.
\<close>

theorem panics_leak_in_flight:
  assumes "process_all (wrapHandlerWithStats clock sample handler cl) msgs (h, w) = (rs, h', w')"
    "unat (InFlight (hs_Backlog h)) + length msgs < 2 ^ 64"
  shows "unat (InFlight (hs_Backlog h')) = unat (InFlight (hs_Backlog h)) + length (filter isl rs)
    \<and> MessagesProcessed h' = MessagesProcessed h + of_nat (length (filter (\<lambda>r. \<not> isl r) rs))"
  using assms
proof (induction msgs arbitrary: h w rs)
  case Nil
  then show ?case by simp
next
  case (Cons m msgs)
  let ?f = "wrapHandlerWithStats clock sample handler cl"
  obtain r h1 w1 where f: "?f m (h, w) = (r, h1, w1)" by (metis prod_cases3)
  obtain rs1 where p: "process_all ?f msgs (h1, w1) = (rs1, h', w')" "rs = r # rs1"
    using Cons.prems(1) f by (auto split: prod.splits)
  have "unat (InFlight (hs_Backlog h)) + 1 < 2 ^ 64" using Cons.prems(2) by simp
  note s = start_backlog(1) [OF this, of "clock w" "Some m"]
  have mp: "MessagesProcessed (snd (onMessageStart (clock w) (Some m) h)) = MessagesProcessed h"
    by (simp add: onMessageStart_def Let_def case_prod_unfold)
  have "unat (InFlight (hs_Backlog h1)) = unat (InFlight (hs_Backlog h)) + (if isl r then 1 else 0)
      \<and> MessagesProcessed h1 = MessagesProcessed h + (if isl r then 0 else 1)"
    using f s mp by (auto simp: wrapHandlerWithStats_def Let_def finish_fields finish_backlog_counts
        split: prod.splits sum.splits)
  with Cons.IH [OF p(1)] Cons.prems(2) show ?case by (auto simp: p(2) split: if_splits)
qed

section \<open>Dependencies\<close>

text \<open>The index points to each dependency by its name.\<close>

definition wf_deps :: "string \<Rightarrow> string \<Rightarrow> HandlerStats \<Rightarrow> bool" where
  "wf_deps cq pq h \<longleftrightarrow>
     hs_consumeQueue h = cq \<and> hs_publishQueue h = pq
     \<and> map dep_Name (hs_Dependencies h) = subscriber_name cq # (if pq = [] then [] else [publisher_name pq])
     \<and> map_of (hs_dependencyIndex h) (subscriber_name cq) = Some 0
     \<and> (pq \<noteq> [] \<longrightarrow> map_of (hs_dependencyIndex h) (publisher_name pq) = Some 1)
     \<and> list_all (\<lambda>d. dep_Status d \<in> {DependencyStatusUnknown, DependencyStatusHealthy, DependencyStatusDegraded})
         (hs_Dependencies h)"

lemma names_differ [simp]: "subscriber_name c \<noteq> publisher_name p" "publisher_name p \<noteq> subscriber_name c"
  "subscriber_name c \<noteq> []" "publisher_name p \<noteq> []"
  by (simp_all add: subscriber_name_def publisher_name_def)

lemma wf_deps_new: "cq \<noteq> [] \<Longrightarrow> wf_deps cq pq (newHandlerStats name cq pq)"
  by (simp add: wf_deps_def newHandlerStats_def addDependency_def zero_stats_def Let_def)

lemma wf_deps_start: "wf_deps cq pq (snd (onMessageStart now msg h)) = wf_deps cq pq h"
  by (simp add: wf_deps_def onMessageStart_def Let_def case_prod_unfold)

lemma length_two: "map f xs = [a, b] \<Longrightarrow> \<exists>x y. xs = [x, y] \<and> f x = a \<and> f y = b"
  by auto

definition checked :: "int \<Rightarrow> string \<Rightarrow> string \<Rightarrow> string \<Rightarrow> DependencyHealth" where
  "checked now name status details =
     \<lparr>dep_Name = name, dep_Status = status, dep_LastChecked = utc_time (now div nanos) (now mod nanos), dep_Details = details\<rparr>"

lemma finish_dependencies_exact:
  assumes "wf_deps cq pq h"
  shows "hs_Dependencies (finish_dependencies now err h) = checked now (subscriber_name cq) DependencyStatusHealthy []
      # (if pq = [] then []
         else [case err of None \<Rightarrow> checked now (publisher_name pq) DependencyStatusHealthy []
                | Some e \<Rightarrow> checked now (publisher_name pq) DependencyStatusDegraded (err_text e)])
    \<and> hs_dependencyIndex (finish_dependencies now err h) = hs_dependencyIndex h"
proof (cases "pq = []")
  case True
  with assms obtain s where "hs_Dependencies h = [s]" "dep_Name s = subscriber_name cq"
    by (auto simp: wf_deps_def)
  with True assms show ?thesis
    by (simp add: wf_deps_def finish_dependencies_def setDependencyStatusLocked_def Let_def checked_def)
next
  case False
  with assms have "map dep_Name (hs_Dependencies h) = [subscriber_name cq, publisher_name pq]" by (simp add: wf_deps_def)
  then obtain s p where "hs_Dependencies h = [s, p]" "dep_Name s = subscriber_name cq" "dep_Name p = publisher_name pq"
    using length_two by blast
  with False assms show ?thesis
    by (cases err) (simp_all add: wf_deps_def finish_dependencies_def setDependencyStatusLocked_def Let_def checked_def)
qed

lemma finish_split:
  "\<exists>h1. onMessageFinish now r cl ctx d err h = finish_dependencies now err h1
     \<and> hs_consumeQueue h1 = hs_consumeQueue h \<and> hs_publishQueue h1 = hs_publishQueue h
     \<and> hs_Dependencies h1 = hs_Dependencies h \<and> hs_dependencyIndex h1 = hs_dependencyIndex h"
  unfolding onMessageFinish_def Let_def by (rule exI, rule conjI, rule refl) (simp split: option.splits)

lemma wf_deps_finish:
  assumes "wf_deps cq pq h"
  shows "wf_deps cq pq (onMessageFinish now r cl ctx d err h)"
    "hs_Dependencies (onMessageFinish now r cl ctx d err h)
       = checked now (subscriber_name cq) DependencyStatusHealthy []
      # (if pq = [] then []
         else [case err of None \<Rightarrow> checked now (publisher_name pq) DependencyStatusHealthy []
                | Some e \<Rightarrow> checked now (publisher_name pq) DependencyStatusDegraded (err_text e)])"
proof -
  obtain h1 where h1: "onMessageFinish now r cl ctx d err h = finish_dependencies now err h1"
    "hs_consumeQueue h1 = hs_consumeQueue h" "hs_publishQueue h1 = hs_publishQueue h"
    "hs_Dependencies h1 = hs_Dependencies h" "hs_dependencyIndex h1 = hs_dependencyIndex h"
    using finish_split by blast
  then have w: "wf_deps cq pq h1" using assms by (simp add: wf_deps_def)
  from finish_dependencies_exact [OF w] w
  show "wf_deps cq pq (onMessageFinish now r cl ctx d err h)"
    unfolding h1(1) by (cases err) (simp_all add: wf_deps_def checked_def)
  from finish_dependencies_exact [OF w]
  show "hs_Dependencies (onMessageFinish now r cl ctx d err h)
       = checked now (subscriber_name cq) DependencyStatusHealthy []
      # (if pq = [] then []
         else [case err of None \<Rightarrow> checked now (publisher_name pq) DependencyStatusHealthy []
                | Some e \<Rightarrow> checked now (publisher_name pq) DependencyStatusDegraded (err_text e)])"
    by (simp add: h1(1))
qed

text \<open>
  The dependency list keeps its shape. For a handler with a consume queue, after any starts and
  finishes the list has the subscriber and, with a publish queue, the publisher, each with one of
  the three statuses and found by the index; a finish marks the subscriber healthy in every case,
  and the publisher degraded with the error's text exactly when the handler failed.
\<close>

theorem dependencies_well_formed:
  assumes "cq \<noteq> []"
  shows "wf_deps cq pq (fold (stats_step cl) es (newHandlerStats name cq pq))
    \<and> hs_Dependencies (fold (stats_step cl) (es @ [Finished now r ctx d err]) (newHandlerStats name cq pq))
      = checked now (subscriber_name cq) DependencyStatusHealthy []
      # (if pq = [] then []
         else [case err of None \<Rightarrow> checked now (publisher_name pq) DependencyStatusHealthy []
                | Some e \<Rightarrow> checked now (publisher_name pq) DependencyStatusDegraded (err_text e)])"
proof -
  have "wf_deps cq pq h \<Longrightarrow> wf_deps cq pq (fold (stats_step cl) es h)" for h
  proof (induction es arbitrary: h)
    case (Cons ev es)
    then show ?case by (cases ev) (simp_all add: wf_deps_start wf_deps_finish(1))
  qed simp
  then have w: "wf_deps cq pq (fold (stats_step cl) es (newHandlerStats name cq pq))"
    using wf_deps_new [OF assms] by blast
  with wf_deps_finish(2) [OF w] show ?thesis by simp
qed

section \<open>Classification of errors for the statistics\<close>

text \<open>The default classifier looks through wrappers, and sees a validation error before a context error.\<close>

lemma default_classifier_wrapped: "defaultErrorClassifier (Some (Wrapped t e)) = defaultErrorClassifier (Some e)"
proof -
  have "nodes (Wrapped t e) = Wrapped t e # nodes e" by (subst nodes.simps) simp
  then show ?thesis by (simp add: defaultErrorClassifier_def errors_as_unprocessable_def errors_is_Wrapped)
qed

section \<open>A sample run\<close>

definition sample_events :: "stats_event list" where
  "sample_events =
     [Started 0 (Some raw_message), Started 5 None,
      Finished 10 None \<lparr>queueDepth = - 1, queueLagMillis = - 1\<rparr> 7 (Some (Plain ''boom''))]"

lemma stats_account_witness:
  "MessagesFailed (fold (stats_step None) sample_events (newHandlerStats ''h'' ''in'' ''out'')) = 1
   \<and> unat (InFlight (hs_Backlog (fold (stats_step None) sample_events (newHandlerStats ''h'' ''in'' ''out'')))) = 1"
proof -
  have "sane_classifier None" "length sample_events < 2 ^ 64" by (simp_all add: sane_classifier_def sample_events_def)
  from stats_account [OF this, of "''h''" "''in''" "''out''"] show ?thesis
    by (simp add: sample_events_def failures_def)
qed

lemma panics_leak_in_flight_witness:
  "unat (InFlight (hs_Backlog (fst (snd (process_all
     (wrapHandlerWithStats (\<lambda>_. 0) (\<lambda>_. None) (\<lambda>m w. (Inl ''nil map'', w)) None) [raw_message, raw_message]
     (newHandlerStats ''h'' ''in'' '''', ())))))) = 2"
proof -
  let ?f = "wrapHandlerWithStats (\<lambda>_. 0) (\<lambda>_. None) (\<lambda>m w. (Inl ''nil map'', w)) None"
  obtain rs h' w' where p: "process_all ?f [raw_message, raw_message] (newHandlerStats ''h'' ''in'' '''', ()) = (rs, h', w')"
    by (metis prod_cases3)
  then have "length (filter isl rs) = 2"
    by (auto simp: wrapHandlerWithStats_def case_prod_unfold Let_def split: prod.splits)
  with panics_leak_in_flight [OF p] p show ?thesis by (simp add: new_stats_fields)
qed

lemma dependencies_well_formed_witness:
  "hs_Dependencies (fold (stats_step None) sample_events (newHandlerStats ''h'' ''in'' ''out''))
    = [checked 10 ''subscriber:in'' ''healthy'' [], checked 10 ''publisher:out'' ''degraded'' ''boom'']"
  using dependencies_well_formed [of "''in''" "''out''" None "[Started 0 (Some raw_message), Started 5 None]" "''h''"
      10 None "\<lparr>queueDepth = - 1, queueLagMillis = - 1\<rparr>" 7 "Some (Plain ''boom'')"]
  by (simp add: sample_events_def subscriber_name_def publisher_name_def DependencyStatusHealthy_def DependencyStatusDegraded_def)

end
