(* ===== verification/Rt_Hooks.thy ===== *)
theory Rt_Hooks
  imports Rt_Stats
begin

text \<open>
  Job hooks (\<open>internal/runtime/hooks.go\<close>): callbacks around a handler, how two sets of them are
  merged, the middleware that calls them and the three ready-made sets.

  A hook changes the world \<open>'w\<close> and may panic, with the panic's text; a missing hook is \<open>None\<close>. The
  context of a message is not part of the model, so \<open>JobContext\<close> has no \<open>Context\<close> field. \<open>clock\<close>
  reads the time of the world in nanoseconds.

  A message is a value here. In the code the \<open>Metadata\<close> of the \<open>JobContext\<close> is the map of the message
  itself: what a hook or the handler writes to it, the completion hooks see. The model is that of
  hooks and handlers that do not write to the metadata of the message they are given.
\<close>

section \<open>Data\<close>

record JobContext =
  jc_HandlerName :: string
  jc_Topic :: string
  jc_MessageUUID :: string
  jc_Metadata :: "(string \<times> string) list"
  jc_StartedAt :: gtime
  jc_Duration :: duration
  jc_RetryCount :: int

type_synonym 'w effect = "'w \<Rightarrow> string option \<times> 'w"

record 'w JobHooks =
  OnJobStart :: "(JobContext \<Rightarrow> 'w effect) option"
  OnJobDone :: "(JobContext \<Rightarrow> 'w effect) option"
  OnJobError :: "(JobContext \<Rightarrow> gerror \<Rightarrow> 'w effect) option"

definition no_hooks :: "'w JobHooks" where
  "no_hooks = \<lparr>OnJobStart = None, OnJobDone = None, OnJobError = None\<rparr>"

section \<open>Merging\<close>

text \<open>Two calls in order; a panic of the first keeps the second from being made.\<close>

definition then_do :: "'w effect \<Rightarrow> 'w effect \<Rightarrow> 'w effect" where
  "then_do f g w = (case f w of (Some panic, w') \<Rightarrow> (Some panic, w') | (None, w') \<Rightarrow> g w')"

definition chainStartHooks ::
  "(JobContext \<Rightarrow> 'w effect) option \<Rightarrow> (JobContext \<Rightarrow> 'w effect) option \<Rightarrow> (JobContext \<Rightarrow> 'w effect) option" where
  "chainStartHooks a b =
     (case a of None \<Rightarrow> b
      | Some f \<Rightarrow> (case b of None \<Rightarrow> a | Some g \<Rightarrow> Some (\<lambda>ctx. then_do (f ctx) (g ctx))))"

definition chainDoneHooks ::
  "(JobContext \<Rightarrow> 'w effect) option \<Rightarrow> (JobContext \<Rightarrow> 'w effect) option \<Rightarrow> (JobContext \<Rightarrow> 'w effect) option" where
  "chainDoneHooks a b =
     (case a of None \<Rightarrow> b
      | Some f \<Rightarrow> (case b of None \<Rightarrow> a | Some g \<Rightarrow> Some (\<lambda>ctx. then_do (f ctx) (g ctx))))"

definition chainErrorHooks ::
  "(JobContext \<Rightarrow> gerror \<Rightarrow> 'w effect) option \<Rightarrow> (JobContext \<Rightarrow> gerror \<Rightarrow> 'w effect) option
    \<Rightarrow> (JobContext \<Rightarrow> gerror \<Rightarrow> 'w effect) option" where
  "chainErrorHooks a b =
     (case a of None \<Rightarrow> b
      | Some f \<Rightarrow> (case b of None \<Rightarrow> a | Some g \<Rightarrow> Some (\<lambda>ctx err. then_do (f ctx err) (g ctx err))))"

definition Merge :: "'w JobHooks \<Rightarrow> 'w JobHooks \<Rightarrow> 'w JobHooks" where
  "Merge h other =
     \<lparr>OnJobStart = chainStartHooks (OnJobStart h) (OnJobStart other),
      OnJobDone = chainDoneHooks (OnJobDone h) (OnJobDone other),
      OnJobError = chainErrorHooks (OnJobError h) (OnJobError other)\<rparr>"

section \<open>The middleware\<close>

definition hook_retryCount :: "string \<Rightarrow> int" where
  "hook_retryCount retryStr =
     fold (\<lambda>c retryCount. if is_digit c then i64 (retryCount * 10 + int (dval c)) else retryCount) retryStr 0"

definition jobCtx :: "int \<Rightarrow> message \<Rightarrow> JobContext" where
  "jobCtx startTime msg =
     \<lparr>jc_HandlerName = mget (Metadata msg) ''protoflow_handler'',
      jc_Topic = mget (Metadata msg) ''protoflow_topic'',
      jc_MessageUUID = UUID msg,
      jc_Metadata = Metadata msg,
      jc_StartedAt = utc_time (startTime div nanos) (startTime mod nanos),
      jc_Duration = 0,
      jc_RetryCount = (let retryStr = mget (Metadata msg) ''protoflow_retry_count''
                       in if retryStr \<noteq> [] then hook_retryCount retryStr else 0)\<rparr>"

definition if_set :: "('a \<Rightarrow> 'w effect) option \<Rightarrow> 'a \<Rightarrow> 'w effect" where
  "if_set h x w = (case h of None \<Rightarrow> (None, w) | Some f \<Rightarrow> f x w)"

text \<open>After a completion hook the handler's result is returned, unless the hook panicked.\<close>

definition returning :: "'r \<Rightarrow> string option \<times> 'w \<Rightarrow> (string + 'r) \<times> 'w" where
  "returning r = (\<lambda>(p, w). (case p of Some panic \<Rightarrow> Inl panic | None \<Rightarrow> Inr r, w))"

definition jobHooksMiddleware :: "('w \<Rightarrow> int) \<Rightarrow> 'w JobHooks \<Rightarrow> 'w raw_handler \<Rightarrow> 'w raw_handler" where
  "jobHooksMiddleware clock hooks h msg w =
     (let startTime = clock w;
          ctx = jobCtx startTime msg
      in case if_set (OnJobStart hooks) ctx w of
           (Some panic, w1) \<Rightarrow> (Inl panic, w1)
         | (None, w1) \<Rightarrow>
             (case h msg w1 of
                (Inl panic, w2) \<Rightarrow> (Inl panic, w2)
              | (Inr (msgs, err), w2) \<Rightarrow>
                  (let ctx = ctx\<lparr>jc_Duration := sub_time (clock w2) startTime\<rparr>
                   in case err of
                        Some e \<Rightarrow> returning (msgs, err) (if_set (map_option (\<lambda>f. \<lambda>(c, e). f c e) (OnJobError hooks)) (ctx, e) w2)
                      | None \<Rightarrow> returning (msgs, err) (if_set (OnJobDone hooks) ctx w2))))"

section \<open>Ready-made hooks\<close>

text \<open>The logger's two methods and the user's callbacks are parameters.\<close>

definition LoggingHooks ::
  "(string \<Rightarrow> (string \<times> any) list \<Rightarrow> 'w effect) \<Rightarrow> (string \<Rightarrow> gerror \<Rightarrow> (string \<times> any) list \<Rightarrow> 'w effect) \<Rightarrow> 'w JobHooks" where
  "LoggingHooks info error =
     \<lparr>OnJobStart = Some (\<lambda>ctx. info ''Job started''
        [(''handler'', AStr (jc_HandlerName ctx)), (''topic'', AStr (jc_Topic ctx)),
         (''message_uuid'', AStr (jc_MessageUUID ctx)), (''retry_count'', AInt (jc_RetryCount ctx))]),
      OnJobDone = Some (\<lambda>ctx. info ''Job completed''
        [(''handler'', AStr (jc_HandlerName ctx)), (''topic'', AStr (jc_Topic ctx)),
         (''message_uuid'', AStr (jc_MessageUUID ctx)), (''duration_ms'', AInt64 (dur_millis (jc_Duration ctx)))]),
      OnJobError = Some (\<lambda>ctx err. error ''Job failed'' err
        [(''handler'', AStr (jc_HandlerName ctx)), (''topic'', AStr (jc_Topic ctx)),
         (''message_uuid'', AStr (jc_MessageUUID ctx)), (''duration_ms'', AInt64 (dur_millis (jc_Duration ctx))),
         (''retry_count'', AInt (jc_RetryCount ctx))])\<rparr>"

definition MetricsHooks ::
  "(string \<times> string \<Rightarrow> 'w effect) option \<Rightarrow> (string \<times> string \<Rightarrow> 'w effect) option
    \<Rightarrow> (string \<times> string \<Rightarrow> 'w effect) option \<Rightarrow> 'w JobHooks" where
  "MetricsHooks onStart onDone onError =
     \<lparr>OnJobStart = Some (\<lambda>ctx. if_set onStart (jc_HandlerName ctx, jc_Topic ctx)),
      OnJobDone = Some (\<lambda>ctx. if_set onDone (jc_HandlerName ctx, jc_Topic ctx)),
      OnJobError = Some (\<lambda>ctx err. if_set onError (jc_HandlerName ctx, jc_Topic ctx))\<rparr>"

definition AlertingHooks :: "(JobContext \<Rightarrow> gerror \<Rightarrow> 'w effect) option \<Rightarrow> 'w JobHooks" where
  "AlertingHooks alertFunc = no_hooks\<lparr>OnJobError := alertFunc\<rparr>"

section \<open>Merged hooks\<close>

text \<open>Calls that do nothing and calls in order form a monoid, and so do hooks under \<open>Merge\<close>.\<close>

definition idle :: "'w effect" where
  "idle w = (None, w)"

lemma then_do_assoc: "then_do (then_do f g) h = then_do f (then_do g h)"
  by (simp add: fun_eq_iff then_do_def split: prod.splits option.splits)

lemma then_do_idle [simp]: "then_do idle f = f" "then_do f idle = f"
  by (auto simp: fun_eq_iff then_do_def idle_def split: prod.splits option.splits)

lemma chain_assoc:
  "chainStartHooks (chainStartHooks a b) c = chainStartHooks a (chainStartHooks b c)"
  "chainDoneHooks (chainDoneHooks a b) c = chainDoneHooks a (chainDoneHooks b c)"
  "chainErrorHooks (chainErrorHooks d e) f = chainErrorHooks d (chainErrorHooks e f)"
  by (simp_all add: chainStartHooks_def chainDoneHooks_def chainErrorHooks_def then_do_assoc split: option.splits)

lemma Merge_assoc: "Merge (Merge a b) c = Merge a (Merge b c)"
  by (simp add: Merge_def chain_assoc)

lemma Merge_none: "Merge no_hooks h = h" "Merge h no_hooks = h"
  by (simp_all add: Merge_def no_hooks_def chainStartHooks_def chainDoneHooks_def chainErrorHooks_def split: option.splits)

definition call_start :: "'w JobHooks \<Rightarrow> JobContext \<Rightarrow> 'w effect" where
  "call_start h ctx = (case OnJobStart h of None \<Rightarrow> idle | Some f \<Rightarrow> f ctx)"

definition call_done :: "'w JobHooks \<Rightarrow> JobContext \<Rightarrow> 'w effect" where
  "call_done h ctx = (case OnJobDone h of None \<Rightarrow> idle | Some f \<Rightarrow> f ctx)"

definition call_error :: "'w JobHooks \<Rightarrow> JobContext \<Rightarrow> gerror \<Rightarrow> 'w effect" where
  "call_error h ctx err = (case OnJobError h of None \<Rightarrow> idle | Some f \<Rightarrow> f ctx err)"

lemmas call_defs = call_start_def call_done_def call_error_def

lemma call_Merge:
  "call_start (Merge a b) ctx = then_do (call_start a ctx) (call_start b ctx)"
  "call_done (Merge a b) ctx = then_do (call_done a ctx) (call_done b ctx)"
  "call_error (Merge a b) ctx err = then_do (call_error a ctx err) (call_error b ctx err)"
  by (simp_all add: call_defs Merge_def chainStartHooks_def chainDoneHooks_def chainErrorHooks_def split: option.splits)

lemma call_none: "call_start no_hooks ctx = idle" "call_done no_hooks ctx = idle" "call_error no_hooks ctx err = idle"
  by (simp_all add: call_defs no_hooks_def)

text \<open>The middleware through the three calls.\<close>

lemma jobHooks_calls:
  "jobHooksMiddleware clock hooks h msg w =
     (case call_start hooks (jobCtx (clock w) msg) w of
        (Some panic, w1) \<Rightarrow> (Inl panic, w1)
      | (None, w1) \<Rightarrow>
          (case h msg w1 of
             (Inl panic, w2) \<Rightarrow> (Inl panic, w2)
           | (Inr (msgs, err), w2) \<Rightarrow>
               (let ctx = (jobCtx (clock w) msg)\<lparr>jc_Duration := sub_time (clock w2) (clock w)\<rparr>
                in returning (msgs, err) (case err of Some e \<Rightarrow> call_error hooks ctx e w2 | None \<Rightarrow> call_done hooks ctx w2))))"
  by (simp add: jobHooksMiddleware_def call_defs if_set_def idle_def Let_def split: prod.splits option.splits sum.splits)

lemma jobHooks_cong:
  "call_start a = call_start b \<Longrightarrow> call_done a = call_done b \<Longrightarrow> call_error a = call_error b
    \<Longrightarrow> jobHooksMiddleware clock a h msg w = jobHooksMiddleware clock b h msg w"
  by (simp only: jobHooks_calls)

text \<open>
  C29. Merged hooks are all called, in order, at every point. The middleware with any list of hook
  sets merged from left to right behaves as one whose start, done and error callbacks call those of
  every set in the order of the list, up to the first that panics; how the merges are bracketed and
  sets without hooks make no difference.
\<close>

theorem merged_hooks_run_in_order:
  fixes hs :: "'w JobHooks list"
  defines "inorder \<equiv> (\<lambda>fs :: 'w effect list. foldr then_do fs idle)"
  shows "jobHooksMiddleware clock (foldl Merge no_hooks hs) h msg w
    = jobHooksMiddleware clock
        \<lparr>OnJobStart = Some (\<lambda>ctx. inorder (map (\<lambda>x. call_start x ctx) hs)),
         OnJobDone = Some (\<lambda>ctx. inorder (map (\<lambda>x. call_done x ctx) hs)),
         OnJobError = Some (\<lambda>ctx err. inorder (map (\<lambda>x. call_error x ctx err) hs))\<rparr> h msg w
    \<and> Merge (Merge a b) c = Merge a (Merge b c) \<and> Merge no_hooks a = a \<and> Merge a no_hooks = a"
proof -
  have l: "foldl Merge x hs = Merge x (foldr Merge hs no_hooks)" for x :: "'w JobHooks"
    by (induction hs arbitrary: x) (simp_all add: Merge_none Merge_assoc)
  have r: "call_start (foldr Merge hs no_hooks) ctx = inorder (map (\<lambda>x. call_start x ctx) hs)"
    "call_done (foldr Merge hs no_hooks) ctx = inorder (map (\<lambda>x. call_done x ctx) hs)"
    "call_error (foldr Merge hs no_hooks) ctx err = inorder (map (\<lambda>x. call_error x ctx err) hs)" for ctx err
    by (induction hs) (simp_all add: call_none call_Merge inorder_def)
  have "jobHooksMiddleware clock (foldl Merge no_hooks hs) h msg w
    = jobHooksMiddleware clock
        \<lparr>OnJobStart = Some (\<lambda>ctx. inorder (map (\<lambda>x. call_start x ctx) hs)),
         OnJobDone = Some (\<lambda>ctx. inorder (map (\<lambda>x. call_done x ctx) hs)),
         OnJobError = Some (\<lambda>ctx err. inorder (map (\<lambda>x. call_error x ctx err) hs))\<rparr> h msg w"
    by (rule jobHooks_cong) (simp_all add: fun_eq_iff l Merge_none r, simp_all add: call_defs)
  then show ?thesis by (simp add: Merge_none Merge_assoc)
qed

section \<open>What the hooks see of a run\<close>

datatype hook_event =
  SawStart JobContext
| SawDone JobContext
| SawError JobContext gerror

text \<open>Hooks that write down what they see, in a world that is a log next to the rest.\<close>

definition recording :: "(hook_event list \<times> 'v) JobHooks" where
  "recording =
     \<lparr>OnJobStart = Some (\<lambda>ctx (es, v). (None, es @ [SawStart ctx], v)),
      OnJobDone = Some (\<lambda>ctx (es, v). (None, es @ [SawDone ctx], v)),
      OnJobError = Some (\<lambda>ctx err (es, v). (None, es @ [SawError ctx err], v))\<rparr>"

definition beside_log :: "'v raw_handler \<Rightarrow> (hook_event list \<times> 'v) raw_handler" where
  "beside_log h msg = (\<lambda>(es, v). (case h msg v of (r, v') \<Rightarrow> (r, es, v')))"

text \<open>What a handler's outcome shows to the hooks.\<close>

definition seen :: "('v \<Rightarrow> int) \<Rightarrow> 'v raw_handler \<Rightarrow> message \<Rightarrow> 'v \<Rightarrow> hook_event list" where
  "seen clock h msg v =
     (let ctx = jobCtx (clock v) msg;
          ctx' = ctx\<lparr>jc_Duration := sub_time (clock (snd (h msg v))) (clock v)\<rparr>
      in SawStart ctx #
         (case fst (h msg v) of
            Inl panic \<Rightarrow> []
          | Inr (msgs, None) \<Rightarrow> [SawDone ctx']
          | Inr (msgs, Some err) \<Rightarrow> [SawError ctx' err]))"

fun run_handler :: "'v raw_handler \<Rightarrow> message list \<Rightarrow> 'v \<Rightarrow> (string + (message list \<times> gerror option)) list \<times> 'v" where
  "run_handler h [] v = ([], v)"
| "run_handler h (m # ms) v = (case h m v of (r, v') \<Rightarrow> (case run_handler h ms v' of (rs, v'') \<Rightarrow> (r # rs, v'')))"

fun all_seen :: "('v \<Rightarrow> int) \<Rightarrow> 'v raw_handler \<Rightarrow> message list \<Rightarrow> 'v \<Rightarrow> hook_event list" where
  "all_seen clock h [] v = []"
| "all_seen clock h (m # ms) v = seen clock h m v @ all_seen clock h ms (snd (h m v))"

lemma recorded_call:
  "jobHooksMiddleware (clock \<circ> snd) recording (beside_log h) msg (es, v)
     = (fst (h msg v), es @ seen clock h msg v, snd (h msg v))"
  by (simp add: jobHooks_calls call_defs recording_def beside_log_def seen_def returning_def Let_def
      split: prod.splits sum.splits option.splits)

text \<open>
  Hooks watch a handler without changing it. Over any sequence of messages the results and the
  rest of the world are those of the handler alone, and the hooks see for every message one start,
  followed by one completion with the same job data and the time taken: \<open>OnJobDone\<close> when the
  handler returned no error, \<open>OnJobError\<close> with its error otherwise, and neither when it panicked.
\<close>

theorem hooks_observe_only:
  "run_handler (jobHooksMiddleware (clock \<circ> snd) recording (beside_log h)) msgs (es, v)
     = (fst (run_handler h msgs v), es @ all_seen clock h msgs v, snd (run_handler h msgs v))"
  by (induction msgs arbitrary: es v) (simp_all add: recorded_call case_prod_unfold)

section \<open>The retry count\<close>

lemma i64_step: "i64 (i64 a * 10 + b) = i64 (a * 10 + b)"
proof -
  have "(i64 a * 10 + b + 9223372036854775808) mod 18446744073709551616
      = (a * 10 + b + 9223372036854775808) mod 18446744073709551616"
    unfolding i64_def by (rule mod_add_cong [OF mod_add_cong [OF mod_mult_cong refl] refl]) (simp_all add: mod_diff_left_eq)
  then show ?thesis by (simp add: i64_def)
qed

lemma retryCount_digits: "hook_retryCount s = i64 (int (undec (filter is_digit s)))"
proof -
  have "fold (\<lambda>c n. if is_digit c then i64 (n * 10 + int (dval c)) else n) s (i64 (int n))
      = i64 (int (foldl (\<lambda>a c. a * 10 + dval c) n (filter is_digit s)))" for n
  proof (induction s arbitrary: n)
    case Nil
    then show ?case by simp
  next
    case (Cons c s)
    show ?case
    proof (cases "is_digit c")
      case True
      have "i64 (i64 (int n) * 10 + int (dval c)) = i64 (int (n * 10 + dval c))" by (simp add: i64_step)
      then show ?thesis using True Cons [of "n * 10 + dval c"] by simp
    next
      case False
      then show ?thesis using Cons by simp
    qed
  qed
  from this [of 0] show ?thesis by (simp add: hook_retryCount_def undec_def i64_def)
qed

text \<open>
  The retry count of a job is the number its digits spell: a count written in decimal is read
  back whole, every other character is skipped (so \<open>-3\<close> is read as 3), and a text without digits
  or too large a number is no error but 0 or the number modulo \<open>2 ^ 64\<close>.
\<close>

theorem retry_count_read:
  assumes "mget (Metadata msg) ''protoflow_retry_count'' = s"
  shows "jc_RetryCount (jobCtx t msg) = i64 (int (undec (filter is_digit s)))
    \<and> (in_i64 n \<and> s = dec_int n \<longrightarrow> jc_RetryCount (jobCtx t msg) = (if n = min_int64 then n else \<bar>n\<bar>))"
proof -
  have c: "jc_RetryCount (jobCtx t msg) = i64 (int (undec (filter is_digit s)))"
    using assms by (simp add: jobCtx_def Let_def retryCount_digits undec_def i64_def)
  have d: "filter is_digit (dec_nat k) = dec_nat k" for k
    using dec_nat_digits [of k] by (simp add: filter_id_conv list_all_iff)
  have "i64 (int (undec (filter is_digit (dec_int n)))) = (if n = min_int64 then n else \<bar>n\<bar>)" if "in_i64 n"
    using that by (auto simp: dec_int_def d in_i64_def i64_def)
  with c show ?thesis by auto
qed

lemma retry_count_read_witness:
  "jc_RetryCount (jobCtx 0 \<lparr>UUID = ''u'', Metadata = [(''protoflow_retry_count'', ''-3'')], Payload = []\<rparr>) = 3"
proof -
  have "mget (Metadata \<lparr>UUID = ''u'', Metadata = [(''protoflow_retry_count'', ''-3'')], Payload = []\<rparr>)
      ''protoflow_retry_count'' = ''-3''"
    by (simp add: mget_def)
  moreover have "dec_int (- 3) = ''-3''" by code_simp
  ultimately show ?thesis
    using conjunct2 [OF retry_count_read [where n = "- 3" and s = "''-3''" and t = 0]] by (simp add: in_i64_def)
qed

end
