(* ===== verification/Rt_DlqMetrics.thy ===== *)
theory Rt_DlqMetrics
  imports Go_Time
begin

text \<open>
  The dead letter queue metrics (\<open>internal/runtime/dlq_metrics.go\<close>): counters per topic, the
  snapshot, and the calls made to Prometheus.

  Prometheus is not part of the repository: the calls the code makes to its collectors are recorded
  in their order, and whether a collector can be registered is a parameter. \<open>float64\<close> arithmetic
  rounds after every operation (no fused multiply-add). The counters are 64-bit words; once
  \<open>MessagesReceived\<close> has wrapped to 0, after \<open>2 ^ 64\<close> records, Go would divide by zero, and the
  average is then 0 here. The mutex makes each operation one step. \<open>now\<close> is the clock.
\<close>

section \<open>Data\<close>

record DLQTopicMetrics =
  MessagesReceived :: "64 word"
  MessagesCurrent :: "64 word"
  MessagesReplayed :: "64 word"
  MessagesPurged :: "64 word"
  OldestMessageAt :: gtime
  NewestMessageAt :: gtime
  AvgRetryCount :: rat
  LastUpdatedAt :: gtime

datatype collector =
  messages_total
| messages_current
| replayed_total
| purged_total
| message_age_seconds
| retry_count_hist

datatype prom_call =
  Inc collector "string list"
| Add collector "string list" rat
| SetTo collector "string list" rat
| Observe collector "string list" rat
| ResetVec collector

record DLQMetrics =
  topicCounts :: "(string \<times> DLQTopicMetrics) list"
  prom :: "prom_call list"
  registered :: bool

record DLQMetricsSnapshot =
  snap_TotalMessages :: "64 word"
  snap_TotalReplayed :: "64 word"
  snap_TotalPurged :: "64 word"
  snap_TopicMetrics :: "(string \<times> DLQTopicMetrics) list"
  snap_CollectedAt :: gtime

section \<open>Operations\<close>

definition zero_metrics :: DLQTopicMetrics where
  "zero_metrics =
     \<lparr>MessagesReceived = 0, MessagesCurrent = 0, MessagesReplayed = 0, MessagesPurged = 0,
      OldestMessageAt = zero_time, NewestMessageAt = zero_time, AvgRetryCount = 0, LastUpdatedAt = zero_time\<rparr>"

definition NewDLQMetrics :: DLQMetrics where
  "NewDLQMetrics = \<lparr>topicCounts = [], prom = [], registered = False\<rparr>"

definition dlq_collectors :: "collector list" where
  "dlq_collectors = [messages_total, messages_current, replayed_total, purged_total, message_age_seconds, retry_count_hist]"

text \<open>
  The registry's answer to one registration: accepted, refused because the collector is already
  there, or refused for another reason.
\<close>

datatype 'e reg_answer = Accepted | AlreadyRegistered | Refused 'e

fun register_collectors :: "('s \<Rightarrow> collector \<Rightarrow> 'e reg_answer \<times> 's) \<Rightarrow> collector list \<Rightarrow> 's \<Rightarrow> 'e option \<times> 's" where
  "register_collectors reg [] s = (None, s)"
| "register_collectors reg (c # cs) s =
     (case reg s c of
        (Refused err, s') \<Rightarrow> (Some err, s')
      | (_, s') \<Rightarrow> register_collectors reg cs s')"

definition DLQ_Register ::
  "('s \<Rightarrow> collector \<Rightarrow> 'e reg_answer \<times> 's) \<Rightarrow> DLQMetrics \<times> 's \<Rightarrow> 'e option \<times> DLQMetrics \<times> 's" where
  "DLQ_Register reg = (\<lambda>(m, s).
     (if registered m then (None, m, s)
      else (case register_collectors reg dlq_collectors s of
              (Some err, s') \<Rightarrow> (Some err, m, s')
            | (None, s') \<Rightarrow> (None, m\<lparr>registered := True\<rparr>, s'))))"

definition getOrCreateTopicMetrics :: "string \<Rightarrow> DLQMetrics \<Rightarrow> DLQTopicMetrics" where
  "getOrCreateTopicMetrics topic m = (case map_of (topicCounts m) topic of None \<Rightarrow> zero_metrics | Some t \<Rightarrow> t)"

text \<open>The update of the topic's metrics in place, followed by the calls to Prometheus.\<close>

definition put_topic :: "string \<Rightarrow> DLQTopicMetrics \<Rightarrow> prom_call list \<Rightarrow> DLQMetrics \<Rightarrow> DLQMetrics" where
  "put_topic topic t calls m = m\<lparr>topicCounts := mput topic t (topicCounts m), prom := prom m @ calls\<rparr>"

definition float64_of_word :: "64 word \<Rightarrow> rat" where
  "float64_of_word w = rnd (of_int (uint w))"

definition rolling_average :: "rat \<Rightarrow> 64 word \<Rightarrow> int \<Rightarrow> rat" where
  "rolling_average avg received retryCount =
     rnd (rnd (rnd (avg * float64_of_word (received - 1)) + rnd (of_int retryCount)) / float64_of_word received)"

definition RecordMessageToDLQ :: "gtime \<Rightarrow> rat \<Rightarrow> string \<Rightarrow> string \<Rightarrow> int \<Rightarrow> DLQMetrics \<Rightarrow> DLQMetrics" where
  "RecordMessageToDLQ now ageSeconds topic handler retryCount m =
     (let t = getOrCreateTopicMetrics topic m;
          t = t\<lparr>MessagesReceived := MessagesReceived t + 1, MessagesCurrent := MessagesCurrent t + 1, LastUpdatedAt := now\<rparr>;
          t = (if is_zero_time (OldestMessageAt t) then t\<lparr>OldestMessageAt := now\<rparr> else t);
          t = t\<lparr>NewestMessageAt := now\<rparr>;
          t = t\<lparr>AvgRetryCount := rolling_average (AvgRetryCount t) (MessagesReceived t) retryCount\<rparr>
      in put_topic topic t
           [Inc messages_total [topic, handler],
            SetTo messages_current [topic] (float64_of_word (MessagesCurrent t)),
            Observe message_age_seconds [topic] ageSeconds,
            Observe retry_count_hist [topic] (rnd (of_int retryCount))] m)"

definition RecordMessageReplayed :: "gtime \<Rightarrow> string \<Rightarrow> DLQMetrics \<Rightarrow> DLQMetrics" where
  "RecordMessageReplayed now topic m =
     (let t = getOrCreateTopicMetrics topic m;
          t = t\<lparr>MessagesReplayed := MessagesReplayed t + 1\<rparr>;
          t = (if 0 < MessagesCurrent t then t\<lparr>MessagesCurrent := MessagesCurrent t - 1\<rparr> else t);
          t = t\<lparr>LastUpdatedAt := now\<rparr>
      in put_topic topic t
           [Inc replayed_total [topic], SetTo messages_current [topic] (float64_of_word (MessagesCurrent t))] m)"

definition RecordMessagesPurged :: "gtime \<Rightarrow> string \<Rightarrow> int \<Rightarrow> DLQMetrics \<Rightarrow> DLQMetrics" where
  "RecordMessagesPurged now topic n m =
     (let t = getOrCreateTopicMetrics topic m;
          t = t\<lparr>MessagesPurged := MessagesPurged t + of_int n\<rparr>;
          t = (if of_int n \<le> MessagesCurrent t then t\<lparr>MessagesCurrent := MessagesCurrent t - of_int n\<rparr>
               else t\<lparr>MessagesCurrent := 0\<rparr>);
          t = t\<lparr>LastUpdatedAt := now\<rparr>
      in put_topic topic t
           [Add purged_total [topic] (rnd (of_int n)), SetTo messages_current [topic] (float64_of_word (MessagesCurrent t))] m)"

definition SetCurrentCount :: "gtime \<Rightarrow> string \<Rightarrow> 64 word \<Rightarrow> DLQMetrics \<Rightarrow> DLQMetrics" where
  "SetCurrentCount now topic n m =
     (let t = getOrCreateTopicMetrics topic m;
          t = t\<lparr>MessagesCurrent := n, LastUpdatedAt := now\<rparr>
      in put_topic topic t [SetTo messages_current [topic] (float64_of_word n)] m)"

definition snap_add :: "string \<times> DLQTopicMetrics \<Rightarrow> DLQMetricsSnapshot \<Rightarrow> DLQMetricsSnapshot" where
  "snap_add = (\<lambda>(topic, t) s.
     s\<lparr>snap_TopicMetrics := mput topic t (snap_TopicMetrics s),
       snap_TotalMessages := snap_TotalMessages s + MessagesCurrent t,
       snap_TotalReplayed := snap_TotalReplayed s + MessagesReplayed t,
       snap_TotalPurged := snap_TotalPurged s + MessagesPurged t\<rparr>)"

definition GetSnapshot :: "gtime \<Rightarrow> DLQMetrics \<Rightarrow> DLQMetricsSnapshot" where
  "GetSnapshot now m =
     fold snap_add (topicCounts m)
       \<lparr>snap_TotalMessages = 0, snap_TotalReplayed = 0, snap_TotalPurged = 0, snap_TopicMetrics = [], snap_CollectedAt = now\<rparr>"

definition GetTopicMetrics :: "string \<Rightarrow> DLQMetrics \<Rightarrow> DLQTopicMetrics option" where
  "GetTopicMetrics topic m = map_of (topicCounts m) topic"

definition DLQ_Reset :: "DLQMetrics \<Rightarrow> DLQMetrics" where
  "DLQ_Reset m =
     m\<lparr>topicCounts := [],
       prom := prom m @ [ResetVec messages_total, ResetVec messages_current, ResetVec replayed_total,
                         ResetVec purged_total, ResetVec message_age_seconds, ResetVec retry_count_hist]\<rparr>"

section \<open>Runs\<close>

datatype dlq_op =
  Recorded gtime rat string string int
| Replayed gtime string
| Purged gtime string int
| Counted gtime string "64 word"

fun dlq_step :: "dlq_op \<Rightarrow> DLQMetrics \<Rightarrow> DLQMetrics" where
  "dlq_step (Recorded now age topic handler n) m = RecordMessageToDLQ now age topic handler n m"
| "dlq_step (Replayed now topic) m = RecordMessageReplayed now topic m"
| "dlq_step (Purged now topic n) m = RecordMessagesPurged now topic n m"
| "dlq_step (Counted now topic n) m = SetCurrentCount now topic n m"

fun op_topic :: "dlq_op \<Rightarrow> string" where
  "op_topic (Recorded _ _ topic _ _) = topic"
| "op_topic (Replayed _ topic) = topic"
| "op_topic (Purged _ topic _) = topic"
| "op_topic (Counted _ topic _) = topic"

text \<open>What the operations of one topic amount to, over natural numbers.\<close>

record tally =
  t_received :: nat
  t_current :: nat
  t_replayed :: nat
  t_purged :: nat

fun tally_step :: "dlq_op \<Rightarrow> tally \<Rightarrow> tally" where
  "tally_step (Recorded _ _ _ _ _) t = t\<lparr>t_received := t_received t + 1, t_current := t_current t + 1\<rparr>"
| "tally_step (Replayed _ _) t = t\<lparr>t_replayed := t_replayed t + 1, t_current := t_current t - 1\<rparr>"
| "tally_step (Purged _ _ n) t = t\<lparr>t_purged := t_purged t + nat n, t_current := t_current t - nat n\<rparr>"
| "tally_step (Counted _ _ n) t = t\<lparr>t_current := unat n\<rparr>"

definition tally_of :: "string \<Rightarrow> dlq_op list \<Rightarrow> tally" where
  "tally_of topic ops =
     fold tally_step (filter (\<lambda>op. op_topic op = topic) ops)
       \<lparr>t_received = 0, t_current = 0, t_replayed = 0, t_purged = 0\<rparr>"

fun small_op :: "dlq_op \<Rightarrow> bool" where
  "small_op (Purged _ _ n) = (0 \<le> n \<and> n < 2 ^ 63)"
| "small_op _ = True"

lemma topic_put_topic [simp]:
  "getOrCreateTopicMetrics topic' (put_topic topic t calls m) = (if topic' = topic then t else getOrCreateTopicMetrics topic' m)"
  by (simp add: getOrCreateTopicMetrics_def put_topic_def)

definition agrees :: "DLQTopicMetrics \<Rightarrow> tally \<Rightarrow> bool" where
  "agrees t a \<longleftrightarrow> MessagesReceived t = of_nat (t_received a) \<and> unat (MessagesCurrent t) = t_current a
     \<and> MessagesReplayed t = of_nat (t_replayed a) \<and> MessagesPurged t = of_nat (t_purged a)"

lemma word_less_pred: "0 < (w :: 64 word) \<Longrightarrow> unat (w - 1) = unat w - 1"
  by (metis unat_minus_one word_gt_0)

lemma step_agrees:
  assumes "agrees (getOrCreateTopicMetrics topic m) a" "small_op op" "t_current a + 1 < 2 ^ 64"
  shows "agrees (getOrCreateTopicMetrics topic (dlq_step op m)) (if op_topic op = topic then tally_step op a else a)"
proof (cases op)
  case (Recorded now age topic' handler n)
  have "unat (MessagesCurrent (getOrCreateTopicMetrics topic m) + 1) = t_current a + 1"
    using assms by (simp add: agrees_def unat_word_ariths)
  with assms show ?thesis
    by (auto simp: Recorded RecordMessageToDLQ_def Let_def agrees_def)
next
  case (Replayed now topic')
  with assms show ?thesis
    by (auto simp: RecordMessageReplayed_def Let_def agrees_def word_less_pred word_gt_0)
next
  case (Purged now topic' n)
  let ?c = "MessagesCurrent (getOrCreateTopicMetrics topic m)"
  have n: "(of_int n :: 64 word) = of_nat (nat n)" using assms(2) by (simp add: Purged of_nat_nat)
  have u: "unat (of_nat (nat n) :: 64 word) = nat n"
    using assms(2) by (simp add: Purged unsigned_of_nat take_bit_nat_eq_self nat_less_iff del: of_nat_nat)
  have le: "of_nat (nat n) \<le> ?c \<longleftrightarrow> nat n \<le> unat ?c" by (simp only: word_le_nat_alt u)
  have f: "MessagesCurrent (getOrCreateTopicMetrics topic (RecordMessagesPurged now topic n m))
      = (if nat n \<le> unat ?c then ?c - of_nat (nat n) else 0)"
    "MessagesPurged (getOrCreateTopicMetrics topic (RecordMessagesPurged now topic n m))
      = MessagesPurged (getOrCreateTopicMetrics topic m) + of_nat (nat n)"
    "MessagesReceived (getOrCreateTopicMetrics topic (RecordMessagesPurged now topic n m))
      = MessagesReceived (getOrCreateTopicMetrics topic m)"
    "MessagesReplayed (getOrCreateTopicMetrics topic (RecordMessagesPurged now topic n m))
      = MessagesReplayed (getOrCreateTopicMetrics topic m)"
    by (simp_all add: RecordMessagesPurged_def Let_def n le del: of_nat_nat)
  have "unat (?c - of_nat (nat n)) = unat ?c - nat n" if "nat n \<le> unat ?c"
    using that u le unat_sub [of "of_nat (nat n)" ?c] by simp
  with f have "agrees (getOrCreateTopicMetrics topic (RecordMessagesPurged now topic n m)) (tally_step op a)"
    using assms(1) by (simp add: agrees_def Purged del: of_nat_nat)
  moreover have "topic' \<noteq> topic \<Longrightarrow> getOrCreateTopicMetrics topic (RecordMessagesPurged now topic' n m) = getOrCreateTopicMetrics topic m"
    by (simp add: RecordMessagesPurged_def Let_def)
  ultimately show ?thesis using assms(1) by (simp add: Purged)
next
  case (Counted now topic' n)
  with assms(1) show ?thesis by (auto simp: SetCurrentCount_def Let_def agrees_def)
qed

fun op_received :: "dlq_op \<Rightarrow> nat" where
  "op_received (Counted _ _ n) = unat n"
| "op_received _ = 0"

lemma tally_current_bound:
  "t_current (if b then tally_step op a else a) \<le> max (t_current a + 1) (op_received op)"
  by (cases op) auto

lemma run_agrees:
  assumes "agrees (getOrCreateTopicMetrics topic m) a" "list_all small_op ops"
    "max (t_current a) k + length ops < 2 ^ 64" "list_all (\<lambda>op. op_received op \<le> k) ops"
  shows "agrees (getOrCreateTopicMetrics topic (fold dlq_step ops m))
    (fold tally_step (filter (\<lambda>op. op_topic op = topic) ops) a)"
  using assms
proof (induction ops arbitrary: m a)
  case Nil
  then show ?case by simp
next
  case (Cons op ops)
  let ?a = "if op_topic op = topic then tally_step op a else a"
  have "agrees (getOrCreateTopicMetrics topic (dlq_step op m)) ?a"
    using Cons.prems by (intro step_agrees) auto
  moreover have "max (t_current ?a) k + length ops < 2 ^ 64"
    using Cons.prems(3,4) tally_current_bound [of "op_topic op = topic" op a] by auto
  ultimately have "agrees (getOrCreateTopicMetrics topic (fold dlq_step ops (dlq_step op m)))
      (fold tally_step (filter (\<lambda>op. op_topic op = topic) ops) ?a)"
    using Cons.prems by (intro Cons.IH) auto
  then show ?case by (cases "op_topic op = topic") auto
qed

text \<open>
  C30. The metrics of a topic count the operations on that topic and no other. After any operations
  on any topics (purges of a non-negative count, gauges set below \<open>2 ^ 63\<close>, fewer than \<open>2 ^ 63\<close>
  operations), the received, replayed and purged counters are the totals of the topic's operations
  modulo \<open>2 ^ 64\<close>, and the current count is raised and lowered by them, stopping at zero instead of
  wrapping around.
\<close>

theorem dlq_metrics_tally:
  assumes "list_all small_op ops" "length ops < 2 ^ 63" "list_all (\<lambda>op. op_received op < 2 ^ 63) ops"
  shows "agrees (getOrCreateTopicMetrics topic (fold dlq_step ops NewDLQMetrics)) (tally_of topic ops)"
proof -
  have "list_all (\<lambda>op. op_received op \<le> 2 ^ 63 - 1) ops" using assms(3) by (simp add: list_all_iff) fastforce
  then show ?thesis
    unfolding tally_of_def using assms(1,2)
    by (intro run_agrees [where k = "2 ^ 63 - 1"])
      (simp_all add: agrees_def getOrCreateTopicMetrics_def NewDLQMetrics_def zero_metrics_def)
qed

text \<open>Without direct settings and with every replay and purge covered, nothing is lost: a conservation law.\<close>

fun covered :: "nat \<Rightarrow> dlq_op list \<Rightarrow> bool" where
  "covered c [] = True"
| "covered c (Recorded _ _ _ _ _ # ops) = covered (c + 1) ops"
| "covered c (Replayed _ _ # ops) = (0 < c \<and> covered (c - 1) ops)"
| "covered c (Purged _ _ n # ops) = (nat n \<le> c \<and> covered (c - nat n) ops)"
| "covered c (Counted _ _ _ # ops) = False"

lemma covered_conserves:
  "covered (t_current a) ops \<Longrightarrow> t_received a = t_current a + t_replayed a + t_purged a
    \<Longrightarrow> t_received (fold tally_step ops a)
      = t_current (fold tally_step ops a) + t_replayed (fold tally_step ops a) + t_purged (fold tally_step ops a)"
proof (induction ops arbitrary: a)
  case (Cons op ops)
  then show ?case by (cases op) auto
qed simp

section \<open>The average of the retry counts\<close>

lemma rnd_ge_int: "0 \<le> n \<Longrightarrow> of_int n \<le> x \<Longrightarrow> x \<le> 2 ^ 53 \<Longrightarrow> of_int n \<le> rnd x"
proof -
  assume a: "0 \<le> n" "of_int n \<le> x" "x \<le> 2 ^ 53"
  then have "(of_int n :: rat) \<le> of_int (2 ^ 53)" by simp
  then have "\<bar>n\<bar> \<le> 2 ^ 53" using a(1) by (simp only: of_int_le_iff)
  with rnd_mono [of "of_int n" x] rnd_int [of n] a show ?thesis by simp
qed

lemma rnd_between:
  "0 \<le> lo \<Longrightarrow> hi \<le> 2 ^ 53 \<Longrightarrow> of_int lo \<le> x \<Longrightarrow> x \<le> of_int hi \<Longrightarrow> of_int lo \<le> rnd x \<and> rnd x \<le> of_int hi"
proof -
  assume a: "0 \<le> lo" "hi \<le> 2 ^ 53" "of_int lo \<le> x" "x \<le> of_int hi"
  then have "(of_int hi :: rat) \<le> of_int (2 ^ 53)" by (simp only: of_int_le_iff)
  with a have "x \<le> 2 ^ 53" by simp
  moreover have "0 \<le> x" using a(1,3) by (meson of_int_0_le_iff order_trans)
  ultimately show ?thesis using a rnd_ge_int [of lo x] rnd_le_int [of x hi] by blast
qed

lemma average_step:
  assumes "0 \<le> lo" "lo \<le> n" "n \<le> hi" "hi * (int k + 1) \<le> 2 ^ 53" "int k + 1 \<le> 2 ^ 53"
    "of_int lo * of_nat k \<le> avg * of_nat k" "avg * of_nat k \<le> of_int hi * of_nat k"
  shows "of_int lo \<le> rolling_average avg (of_nat (k + 1)) n \<and> rolling_average avg (of_nat (k + 1)) n \<le> of_int hi"
proof -
  have "uint (of_nat j :: 64 word) = int j" if "int j \<le> 2 ^ 53" for j
    using that by (simp add: unsigned_of_nat take_bit_nat_eq_self)
  then have f: "float64_of_word (of_nat j) = of_nat j" if "int j \<le> 2 ^ 53" for j
    using that rnd_int [of "int j"] by (simp add: float64_of_word_def)
  have h: "0 \<le> hi" "0 \<le> n" using assms by auto
  have hk: "hi * int k \<le> 2 ^ 53" "hi \<le> 2 ^ 53"
  proof -
    have "hi * int k \<le> hi * (int k + 1)" "hi * 1 \<le> hi * (int k + 1)" using h by (intro mult_left_mono; simp)+
    with assms(4) show "hi * int k \<le> 2 ^ 53" "hi \<le> 2 ^ 53" by linarith+
  qed
  define p where "p = rnd (avg * of_nat k)"
  define q where "q = rnd (p + of_int n)"
  have p: "of_int (lo * int k) \<le> p" "p \<le> of_int (hi * int k)"
    using rnd_between [of "lo * int k" "hi * int k" "avg * of_nat k"] assms hk(1) by (simp_all add: p_def)
  have "of_int (lo * int k) + of_int lo \<le> p + of_int n" "p + of_int n \<le> of_int (hi * int k) + of_int hi"
    using p assms(2,3) by (simp_all add: add_mono del: of_int_mult)
  then have q: "of_int (lo * (int k + 1)) \<le> q" "q \<le> of_int (hi * (int k + 1))"
    using rnd_between [of "lo * (int k + 1)" "hi * (int k + 1)" "p + of_int n"] assms(1,4)
    by (simp_all add: q_def algebra_simps)
  have "of_int lo \<le> q / of_nat (k + 1)" "q / of_nat (k + 1) \<le> of_int hi"
    using q by (simp_all add: pos_le_divide_eq pos_divide_le_eq add.commute)
  then have "of_int lo \<le> rnd (q / of_nat (k + 1)) \<and> rnd (q / of_nat (k + 1)) \<le> of_int hi"
    using assms(1) hk(2) by (intro rnd_between) auto
  moreover have "rolling_average avg (of_nat (k + 1)) n = rnd (q / of_nat (k + 1))"
  proof -
    have "rnd (of_int n) = of_int n" using h hk assms(3) by (intro rnd_int) auto
    moreover have "float64_of_word (of_nat (k + 1)) = of_nat (k + 1)" using assms(5) by (intro f) simp
    moreover have "float64_of_word (of_nat k) = of_nat k" using assms(5) by (intro f) simp
    moreover have "of_nat (k + 1) - 1 = (of_nat k :: 64 word)" by simp
    ultimately show ?thesis by (simp only: rolling_average_def p_def q_def)
  qed
  ultimately show ?thesis by simp
qed

definition records_of :: "string \<Rightarrow> dlq_op list \<Rightarrow> int list" where
  "records_of topic ops =
     concat (map (\<lambda>op. case op of Recorded _ _ topic' _ n \<Rightarrow> if topic' = topic then [n] else [] | _ \<Rightarrow> []) ops)"

lemma run_average:
  assumes "MessagesReceived t0 = of_nat k" "of_int lo * of_nat k \<le> AvgRetryCount t0 * of_nat k"
    "AvgRetryCount t0 * of_nat k \<le> of_int hi * of_nat k"
    "t0 = getOrCreateTopicMetrics topic m" "list_all (\<lambda>n. lo \<le> n \<and> n \<le> hi) (records_of topic ops)" "0 \<le> lo"
    "max 1 hi * int (k + length (records_of topic ops)) \<le> 2 ^ 53"
  shows "let t = getOrCreateTopicMetrics topic (fold dlq_step ops m); j = k + length (records_of topic ops)
    in of_int lo * of_nat j \<le> AvgRetryCount t * of_nat j \<and> AvgRetryCount t * of_nat j \<le> of_int hi * of_nat j"
  using assms
proof (induction ops arbitrary: m k t0)
  case Nil
  then show ?case by (simp add: records_of_def)
next
  case (Cons op ops)
  let ?t1 = "getOrCreateTopicMetrics topic (dlq_step op m)"
  show ?case
  proof (cases "\<exists>now age handler n. op = Recorded now age topic handler n")
    case True
    then obtain now age handler n where op: "op = Recorded now age topic handler n" by blast
    have r: "records_of topic (op # ops) = n # records_of topic ops" by (simp add: op records_of_def)
    have n: "lo \<le> n" "n \<le> hi" using Cons.prems(5) by (simp_all add: r)
    have "max 1 hi * (int k + 1) \<le> max 1 hi * int (k + length (records_of topic (op # ops)))"
      by (intro mult_left_mono) (simp_all add: r)
    then have b: "max 1 hi * (int k + 1) \<le> 2 ^ 53" using Cons.prems(7) by linarith
    have "hi * (int k + 1) \<le> max 1 hi * (int k + 1)" by (intro mult_right_mono) simp_all
    then have b2: "hi * (int k + 1) \<le> 2 ^ 53" using b by (rule order_trans)
    have "1 * (int k + 1) \<le> max 1 hi * (int k + 1)" by (intro mult_right_mono) simp_all
    then have b3: "int k + 1 \<le> 2 ^ 53" using b by (simp only: mult_1) 
    have t1: "MessagesReceived ?t1 = of_nat (k + 1)"
      "AvgRetryCount ?t1 = rolling_average (AvgRetryCount t0) (of_nat (k + 1)) n"
      using Cons.prems(1,4) by (simp_all add: op RecordMessageToDLQ_def Let_def add.commute)
    note a = average_step [OF Cons.prems(6) n b2 b3 Cons.prems(2,3), folded t1(2)]
    show ?thesis
      using Cons.IH [OF t1(1) _ _ refl, of ] a Cons.prems(5,6,7)
      by (simp add: r mult_right_mono Let_def)
  next
    case False
    then have r: "records_of topic (op # ops) = records_of topic ops"
      by (cases op) (auto simp: records_of_def)
    have t1: "MessagesReceived ?t1 = MessagesReceived t0" "AvgRetryCount ?t1 = AvgRetryCount t0"
      using False Cons.prems(4)
      by (cases op; auto simp: RecordMessageToDLQ_def RecordMessageReplayed_def RecordMessagesPurged_def SetCurrentCount_def Let_def)+
    show ?thesis
      using Cons.IH [of ?t1 k, OF _ _ _ refl] Cons.prems by (simp add: r t1 Let_def)
  qed
qed

text \<open>
  The rolling average stays between the smallest and the largest retry count recorded, in spite
  of three roundings per step: if all retry counts of a topic are between \<open>lo\<close> and \<open>hi\<close>, so is its
  average after any operations with at least one record, as long as \<open>hi\<close> times the number of records
  is at most \<open>2 ^ 53\<close>.
\<close>

theorem dlq_average_bounded:
  assumes "list_all (\<lambda>n. lo \<le> n \<and> n \<le> hi) (records_of topic ops)" "records_of topic ops \<noteq> []" "0 \<le> lo"
    "max 1 hi * int (length (records_of topic ops)) \<le> 2 ^ 53"
  shows "of_int lo \<le> AvgRetryCount (getOrCreateTopicMetrics topic (fold dlq_step ops NewDLQMetrics))
    \<and> AvgRetryCount (getOrCreateTopicMetrics topic (fold dlq_step ops NewDLQMetrics)) \<le> of_int hi"
proof -
  have "MessagesReceived (getOrCreateTopicMetrics topic NewDLQMetrics) = of_nat 0"
    by (simp add: getOrCreateTopicMetrics_def NewDLQMetrics_def zero_metrics_def)
  from run_average [OF this _ _ refl assms(1,3)] assms(2,4) show ?thesis
    by (simp add: Let_def mult_le_cancel_right)
qed

section \<open>The snapshot\<close>

lemma snapshot_fold:
  "wf_map ts \<Longrightarrow> snap_TotalMessages (fold snap_add ts s) = snap_TotalMessages s + sum_list (map (MessagesCurrent \<circ> snd) ts)
    \<and> snap_TotalReplayed (fold snap_add ts s) = snap_TotalReplayed s + sum_list (map (MessagesReplayed \<circ> snd) ts)
    \<and> snap_TotalPurged (fold snap_add ts s) = snap_TotalPurged s + sum_list (map (MessagesPurged \<circ> snd) ts)
    \<and> map_of (snap_TopicMetrics (fold snap_add ts s)) x
        = (case map_of ts x of Some t \<Rightarrow> Some t | None \<Rightarrow> map_of (snap_TopicMetrics s) x)"
proof (induction ts arbitrary: s)
  case Nil
  then show ?case by simp
next
  case (Cons kt ts)
  obtain k t where kt: "kt = (k, t)" by (cases kt)
  have "map_of ts k = None" using Cons.prems kt by (simp add: map_of_eq_None_iff)
  with Cons show ?case by (simp add: kt snap_add_def add.assoc split: option.splits)
qed

lemma dlq_step_puts: "\<exists>t calls. dlq_step op m = put_topic (op_topic op) t calls m"
  by (cases op)
    (simp_all only: dlq_step.simps op_topic.simps RecordMessageToDLQ_def RecordMessageReplayed_def
      RecordMessagesPurged_def SetCurrentCount_def Let_def, blast+)

lemma topics_step:
  "set (map fst (topicCounts (dlq_step op m))) = insert (op_topic op) (set (map fst (topicCounts m)))"
  "wf_map (topicCounts m) \<Longrightarrow> wf_map (topicCounts (dlq_step op m))"
proof -
  obtain t calls where "dlq_step op m = put_topic (op_topic op) t calls m" using dlq_step_puts by blast
  then have "topicCounts (dlq_step op m) = mput (op_topic op) t (topicCounts m)" by (simp add: put_topic_def)
  then show "set (map fst (topicCounts (dlq_step op m))) = insert (op_topic op) (set (map fst (topicCounts m)))"
    "wf_map (topicCounts m) \<Longrightarrow> wf_map (topicCounts (dlq_step op m))"
    by (simp_all only: keys_mput wf_map_mput)
qed

text \<open>
  A snapshot agrees with the metrics it was taken of: it has the metrics of exactly the topics
  known, each as \<open>GetTopicMetrics\<close> gives them, its totals are the sums over the topics, and taking it
  changes nothing; every topic operated on is known.
\<close>

theorem dlq_snapshot_exact:
  fixes ops now
  defines "m \<equiv> fold dlq_step ops NewDLQMetrics"
  defines "s \<equiv> GetSnapshot now m"
  shows "map_of (snap_TopicMetrics s) = (\<lambda>topic. GetTopicMetrics topic m)
    \<and> snap_TotalMessages s = sum_list (map (MessagesCurrent \<circ> snd) (topicCounts m))
    \<and> snap_TotalReplayed s = sum_list (map (MessagesReplayed \<circ> snd) (topicCounts m))
    \<and> snap_TotalPurged s = sum_list (map (MessagesPurged \<circ> snd) (topicCounts m))
    \<and> set (map fst (topicCounts m)) = op_topic ` set ops \<and> wf_map (topicCounts m)"
proof -
  have "wf_map (topicCounts x) \<Longrightarrow> wf_map (topicCounts (fold dlq_step ops x))
      \<and> set (map fst (topicCounts (fold dlq_step ops x))) = op_topic ` set ops \<union> set (map fst (topicCounts x))" for x
    by (induction ops arbitrary: x) (simp_all add: topics_step del: set_map)
  from this [of NewDLQMetrics] have w: "wf_map (topicCounts m)" "set (map fst (topicCounts m)) = op_topic ` set ops"
    by (simp_all add: m_def NewDLQMetrics_def)
  with snapshot_fold [OF w(1)] show ?thesis
    by (simp add: s_def GetSnapshot_def GetTopicMetrics_def fun_eq_iff split: option.splits)
qed

section \<open>Registration with Prometheus\<close>

text \<open>
  Registering is safe to repeat: with a registry that refuses nothing but what it already has, the
  first call registers the six collectors and every later call does nothing.
\<close>

lemma DLQ_Register_twice:
  assumes "DLQ_Register reg (m, s) = (None, m', s')"
  shows "registered m' \<and> DLQ_Register reg (m', s') = (None, m', s')"
  using assms by (auto simp: DLQ_Register_def split: if_splits prod.splits option.splits)

lemma DLQ_Register_stops_at_error:
  assumes "\<not> registered m" "DLQ_Register reg (m, s) = (Some err, m', s')"
  shows "m' = m"
  using assms by (auto simp: DLQ_Register_def split: if_splits prod.splits option.splits)

section \<open>A sample run\<close>

definition sample_ops :: "dlq_op list" where
  "sample_ops =
     [Recorded (utc_time 100 0) 5 ''orders'' ''h'' 2, Recorded (utc_time 101 0) 6 ''users'' ''h'' 9,
      Recorded (utc_time 102 0) 7 ''orders'' ''h'' 4, Replayed (utc_time 103 0) ''orders'', Purged (utc_time 104 0) ''orders'' 5]"

lemma dlq_metrics_tally_witness:
  "unat (MessagesCurrent (getOrCreateTopicMetrics ''orders'' (fold dlq_step sample_ops NewDLQMetrics))) = 0
   \<and> MessagesReceived (getOrCreateTopicMetrics ''orders'' (fold dlq_step sample_ops NewDLQMetrics)) = 2"
proof -
  have "list_all small_op sample_ops" "length sample_ops < 2 ^ 63" "list_all (\<lambda>op. op_received op < 2 ^ 63) sample_ops"
    by (simp_all add: sample_ops_def)
  from dlq_metrics_tally [OF this, of "''orders''"] show ?thesis
    by (simp add: agrees_def tally_of_def sample_ops_def)
qed

lemma dlq_average_bounded_witness:
  "2 \<le> AvgRetryCount (getOrCreateTopicMetrics ''orders'' (fold dlq_step sample_ops NewDLQMetrics))
   \<and> AvgRetryCount (getOrCreateTopicMetrics ''orders'' (fold dlq_step sample_ops NewDLQMetrics)) \<le> 4"
  using dlq_average_bounded [of 2 4 "''orders''" sample_ops] by (simp add: sample_ops_def records_of_def)

end
