(* ===== verification/Rt_Handlers.thy ===== *)
theory Rt_Handlers
  imports Rt_Stats
begin

text \<open>
  Metadata and typed handlers (\<open>internal/runtime/metadata\<close>, \<open>internal/runtime/handlers\<close>,
  \<open>internal/runtime/publisher.go\<close>, \<open>prototypes.go\<close>): how a JSON or protobuf handler becomes a raw one, and how a
  protobuf message becomes a Watermill message and is published.

  The codecs are third-party libraries (\<open>sonic\<close>, \<open>protojson\<close>, \<open>proto\<close>, \<open>ulid\<close>) and parameters, collected
  in two records. A nil metadata map is \<open>None\<close> where the code tells it from an empty one. A handler
  gets its metadata map by reference: it returns the map as it left it. A handler may panic (\<open>Inl\<close>).
  The logger handed to handlers and the context of messages are left out.
\<close>

section \<open>Metadata\<close>

type_synonym metadata = "(string \<times> string) list"

definition cloneWithExtra :: "nat \<Rightarrow> metadata \<Rightarrow> metadata" where
  "cloneWithExtra extra m = (if length m + extra = 0 then [] else mputs m [])"

definition meta_Clone :: "metadata \<Rightarrow> metadata" where
  "meta_Clone m = cloneWithExtra 0 m"

definition meta_With :: "metadata \<Rightarrow> string \<Rightarrow> string \<Rightarrow> metadata" where
  "meta_With m key value = mput key value (cloneWithExtra 1 m)"

definition meta_WithAll :: "metadata \<Rightarrow> metadata \<Rightarrow> metadata" where
  "meta_WithAll m entries = mputs entries (cloneWithExtra (length entries) m)"

fun meta_pairs :: "string list \<Rightarrow> metadata \<Rightarrow> metadata" where
  "meta_pairs (k # v # pairs) md = meta_pairs pairs (mput k v md)"
| "meta_pairs _ md = md"

definition meta_New :: "string list \<Rightarrow> metadata" where
  "meta_New pairs = meta_pairs pairs []"

definition FromWatermill :: "metadata \<Rightarrow> metadata" where
  "FromWatermill md = (if md = [] then [] else mputs md [])"

definition ToWatermill :: "metadata \<Rightarrow> metadata" where
  "ToWatermill md = (if md = [] then [] else mputs md [])"

definition MetadataKeyCorrelationID :: string where
  "MetadataKeyCorrelationID = ''correlation_id''"

definition MetadataKeyEventSchema :: string where
  "MetadataKeyEventSchema = ''event_message_schema''"

definition CloneMetadata :: "metadata \<Rightarrow> metadata" where
  "CloneMetadata m = meta_Clone m"

definition ctx_Get :: "metadata \<Rightarrow> string \<Rightarrow> string" where
  "ctx_Get m key = mget m key"

definition ctx_CorrelationID :: "metadata \<Rightarrow> string" where
  "ctx_CorrelationID m = mget m MetadataKeyCorrelationID"

lemma keys_differ [simp]: "MetadataKeyCorrelationID \<noteq> MetadataKeyEventSchema" "MetadataKeyEventSchema \<noteq> MetadataKeyCorrelationID"
  by (simp_all add: MetadataKeyCorrelationID_def MetadataKeyEventSchema_def)

lemma meta_copies [simp]:
  "wf_map m \<Longrightarrow> cloneWithExtra n m = m" "wf_map m \<Longrightarrow> meta_Clone m = m"
  "wf_map m \<Longrightarrow> FromWatermill m = m" "wf_map m \<Longrightarrow> ToWatermill m = m"
  by (auto simp: cloneWithExtra_def meta_Clone_def FromWatermill_def ToWatermill_def mputs_copy)

lemma wf_meta [simp]: "wf_map (FromWatermill m)" "wf_map (ToWatermill m)" "wf_map (meta_Clone m)"
  by (simp_all add: cloneWithExtra_def meta_Clone_def FromWatermill_def ToWatermill_def)

lemma wf_meta_pairs [simp]: "wf_map md \<Longrightarrow> wf_map (meta_pairs pairs md)"
  by (induction pairs md rule: meta_pairs.induct) auto

text \<open>Metadata is a store by key, so \<open>With\<close> obeys the laws of the registries and extensions.\<close>

interpretation metadata_store: keyed_store "\<lambda>m k v. meta_With (mputs m []) k v" "\<lambda>m k. map_of (mputs m []) k" "[]"
  by unfold_locales (simp_all add: meta_With_def mputs_copy)

section \<open>JSON handlers\<close>

text \<open>
  What \<open>reflect\<close> says of a type parameter: an interface, a pointer to a type, or another kind. An
  output type that is an interface is left out, where \<open>reflect\<close> panics on a nil message.
\<close>

datatype go_type = NoType | PtrTo string | OtherKind string

record ('t, 'o) json_lib =
  jl_type :: go_type
  jl_new :: 't
  jl_unmarshal :: "string \<Rightarrow> 't \<Rightarrow> gerror + 't"
  jl_marshal :: "'o \<Rightarrow> gerror + string"
  jl_is_zero :: "'o \<Rightarrow> bool"
  jl_type_name :: "'o \<Rightarrow> string"

record 't JSONMessageContext =
  jm_Metadata :: metadata
  jm_Payload :: 't

record 'o JSONMessageOutput =
  jo_Message :: 'o
  jo_Metadata :: "metadata option"

text \<open>A typed handler: how it ended, its metadata map as it left it, and the world.\<close>

type_synonym ('c, 'o, 'w) typed_handler = "'c \<Rightarrow> 'w \<Rightarrow> (string + ('o list \<times> gerror option)) \<times> metadata \<times> 'w"

type_synonym 'w new_id = "'w \<Rightarrow> string \<times> 'w"

definition jsonPrototypeFactory :: "('t, 'o) json_lib \<Rightarrow> gerror + 't" where
  "jsonPrototypeFactory lib =
     (case jl_type lib of
        NoType \<Rightarrow> Inl (Sentinel ErrConsumeMessageTypeRequired)
      | OtherKind _ \<Rightarrow> Inl (Sentinel ErrConsumeMessagePointerNeeded)
      | PtrTo _ \<Rightarrow> Inr (jl_new lib))"

definition json_message :: "('t, 'o) json_lib \<Rightarrow> metadata option \<Rightarrow> 'o JSONMessageOutput \<Rightarrow> string \<Rightarrow> string \<Rightarrow> message" where
  "json_message lib fallback out uuid payload =
     (let metadata = jo_Metadata out;
          metadata = (if metadata = None then fallback else metadata);
          metadata = meta_Clone (case metadata of None \<Rightarrow> [] | Some m \<Rightarrow> m);
          metadata = mput MetadataKeyEventSchema (jl_type_name lib (jo_Message out)) metadata
      in (NewMessage uuid payload)\<lparr>Metadata := ToWatermill metadata\<rparr>)"

fun convertJSONOutputs ::
  "('t, 'o) json_lib \<Rightarrow> 'w new_id \<Rightarrow> metadata option \<Rightarrow> 'o JSONMessageOutput list \<Rightarrow> 'w
    \<Rightarrow> (gerror + message list) \<times> 'w" where
  "convertJSONOutputs lib new_id fallback [] w = (Inr [], w)"
| "convertJSONOutputs lib new_id fallback (out # outs) w =
     (if jl_is_zero lib (jo_Message out) then (Inl (Plain ''json handler emitted zero-value message''), w)
      else (case jl_marshal lib (jo_Message out) of
              Inl err \<Rightarrow> (Inl err, w)
            | Inr payload \<Rightarrow>
                (case new_id w of
                   (uuid, w1) \<Rightarrow>
                     (case convertJSONOutputs lib new_id fallback outs w1 of
                        (Inl err, w2) \<Rightarrow> (Inl err, w2)
                      | (Inr msgs, w2) \<Rightarrow> (Inr (json_message lib fallback out uuid payload # msgs), w2)))))"

text \<open>A result of a raw handler: no messages with an error, or the messages.\<close>

definition raw_result :: "gerror + message list \<Rightarrow> string + (message list \<times> gerror option)" where
  "raw_result r = Inr (case r of Inl err \<Rightarrow> ([], Some err) | Inr msgs \<Rightarrow> (msgs, None))"

definition json_handle ::
  "('t, 'o) json_lib \<Rightarrow> 'w new_id \<Rightarrow> 't \<Rightarrow> ('t JSONMessageContext, 'o JSONMessageOutput, 'w) typed_handler \<Rightarrow> 'w raw_handler" where
  "json_handle lib new_id fresh handler msg w =
     (case jl_unmarshal lib (Payload msg) fresh of
        Inl err \<Rightarrow> (Inr ([], Some (Wrapped (''failed to unmarshal JSON payload: '' @ err_text err) err)), w)
      | Inr typed \<Rightarrow>
          (case handler \<lparr>jm_Metadata = FromWatermill (Metadata msg), jm_Payload = typed\<rparr> w of
             (Inl panic, left, w1) \<Rightarrow> (Inl panic, w1)
           | (Inr (outgoing, Some err), left, w1) \<Rightarrow> (Inr ([], Some err), w1)
           | (Inr (outgoing, None), left, w1) \<Rightarrow>
               (case convertJSONOutputs lib new_id (Some left) outgoing w1 of (r, w2) \<Rightarrow> (raw_result r, w2))))"

definition BuildJSONHandler ::
  "('t, 'o) json_lib \<Rightarrow> 'w new_id \<Rightarrow> ('t JSONMessageContext, 'o JSONMessageOutput, 'w) typed_handler option
    \<Rightarrow> gerror + 'w raw_handler" where
  "BuildJSONHandler lib new_id handler =
     (case handler of
        None \<Rightarrow> Inl (Sentinel ErrHandlerRequired)
      | Some handler \<Rightarrow> sbind (jsonPrototypeFactory lib) (\<lambda>fresh. Inr (json_handle lib new_id fresh handler)))"

section \<open>Protobuf messages\<close>

text \<open>
  The protobuf libraries over messages \<open>'p\<close>; an interface value that is nil is \<open>None\<close>, a typed nil
  pointer a value of which \<open>pl_is_nil\<close> holds. \<open>pl_fresh\<close> is an empty message of the same type
  (\<open>proto.Clone\<close> and \<open>proto.Reset\<close>), \<open>pl_type\<close> the text of \<open>%T\<close>, \<open>pl_new\<close> a new message of the type named.
\<close>

record 'p proto_lib =
  pl_unmarshal :: "string \<Rightarrow> 'p \<Rightarrow> gerror + 'p"
  pl_marshal :: "'p \<Rightarrow> gerror + string"
  pl_fresh :: "'p \<Rightarrow> 'p"
  pl_type :: "'p \<Rightarrow> string"
  pl_is_nil :: "'p \<Rightarrow> bool"
  pl_new :: "string \<Rightarrow> 'p"

definition isNilProto :: "'p proto_lib \<Rightarrow> 'p option \<Rightarrow> bool" where
  "isNilProto lib prototype = (case prototype of None \<Rightarrow> True | Some p \<Rightarrow> pl_is_nil lib p)"

text \<open>\<open>is_T\<close> stands for the assertion to the type parameter.\<close>

definition clonePrototype :: "'p proto_lib \<Rightarrow> ('p \<Rightarrow> bool) \<Rightarrow> 'p option \<Rightarrow> gerror + 'p" where
  "clonePrototype lib is_T prototype =
     (case prototype of
        None \<Rightarrow> Inl (Sentinel ErrConsumeMessageTypeRequired)
      | Some p \<Rightarrow>
          if pl_is_nil lib p then Inl (Sentinel ErrConsumeMessageTypeRequired)
          else (let cloned = pl_fresh lib p
                in if is_T cloned then Inr cloned else Inl (Plain (''unexpected prototype type '' @ pl_type lib cloned))))"

definition EnsureProtoPrototype :: "'p proto_lib \<Rightarrow> ('p \<Rightarrow> bool) \<Rightarrow> go_type \<Rightarrow> 'p option \<Rightarrow> gerror + 'p" where
  "EnsureProtoPrototype lib is_T typ candidate =
     (if \<not> isNilProto lib candidate then Inr (the candidate)
      else (case typ of
              NoType \<Rightarrow> Inl (Sentinel ErrConsumeMessageTypeRequired)
            | OtherKind _ \<Rightarrow> Inl (Sentinel ErrConsumeMessagePointerNeeded)
            | PtrTo t \<Rightarrow>
                if is_T (pl_new lib t) then Inr (pl_new lib t)
                else Inl (Plain (''unexpected prototype type *'' @ t))))"

definition NewProtoMessage :: "'p proto_lib \<Rightarrow> ('p \<Rightarrow> bool) \<Rightarrow> go_type \<Rightarrow> 'p option \<Rightarrow> gerror + 'p" where
  "NewProtoMessage lib is_T typ zero = EnsureProtoPrototype lib is_T typ zero"

definition NewMessageFromProto ::
  "'p proto_lib \<Rightarrow> 'w new_id \<Rightarrow> 'p option \<Rightarrow> metadata \<Rightarrow> 'w \<Rightarrow> (gerror + message) \<times> 'w" where
  "NewMessageFromProto lib new_id event metadata w =
     (case event of
        None \<Rightarrow> (Inl (Sentinel ErrEventPayloadRequired), w)
      | Some e \<Rightarrow>
          (case pl_marshal lib e of
             Inl err \<Rightarrow> (Inl (Wrapped (''failed to marshal event payload: '' @ err_text err) err), w)
           | Inr payload \<Rightarrow>
               (case new_id w of
                  (uuid, w') \<Rightarrow>
                    (Inr ((NewMessage uuid payload)\<lparr>Metadata :=
                            mput MetadataKeyEventSchema (pl_type lib e) (ToWatermill metadata)\<rparr>), w'))))"

definition PublishProto ::
  "'p proto_lib \<Rightarrow> 'w new_id \<Rightarrow> 'w publisher option \<Rightarrow> string \<Rightarrow> 'p option \<Rightarrow> metadata \<Rightarrow> 'w
    \<Rightarrow> gerror option \<times> 'w" where
  "PublishProto lib new_id pub topic event metadata w =
     (case pub of
        None \<Rightarrow> (Some (Sentinel ErrPublisherRequired), w)
      | Some publish \<Rightarrow>
          if topic = [] then (Some (Sentinel ErrTopicRequired), w)
          else (case NewMessageFromProto lib new_id event metadata w of
                  (Inl err, w') \<Rightarrow> (Some err, w')
                | (Inr msg, w') \<Rightarrow> publish topic msg w'))"

section \<open>Protobuf handlers\<close>

record 'p ProtoMessageContext =
  pc_Metadata :: metadata
  pc_Payload :: 'p

record 'p ProtoMessageOutput =
  po_Message :: "'p option"
  po_Metadata :: "metadata option"

type_synonym ('p, 'w) factory = "'p option \<Rightarrow> metadata \<Rightarrow> 'w \<Rightarrow> (gerror + message) \<times> 'w"

text \<open>The options of a registration append message types; a nil option is skipped.\<close>

type_synonym 'p handler_option = "'p option list \<Rightarrow> 'p option list"

definition WithPublishMessageTypes :: "'p option list \<Rightarrow> 'p handler_option" where
  "WithPublishMessageTypes msgs cfg = cfg @ msgs"

definition ApplyProtoHandlerOptions :: "'p handler_option option list \<Rightarrow> 'p option list" where
  "ApplyProtoHandlerOptions opts = fold (\<lambda>opt cfg. case opt of None \<Rightarrow> cfg | Some f \<Rightarrow> f cfg) opts []"

fun validate_outputs :: "('p \<Rightarrow> gerror option) \<Rightarrow> 'p ProtoMessageOutput list \<Rightarrow> gerror option" where
  "validate_outputs validate [] = None"
| "validate_outputs validate (out # outs) =
     (case po_Message out of
        None \<Rightarrow> Some (Plain ''proto handler emitted nil message'')
      | Some p \<Rightarrow> (case validate p of Some err \<Rightarrow> Some err | None \<Rightarrow> validate_outputs validate outs))"

fun convertProtoOutputs ::
  "('p, 'w) factory \<Rightarrow> metadata \<Rightarrow> 'p ProtoMessageOutput list \<Rightarrow> 'w \<Rightarrow> (gerror + message list) \<times> 'w" where
  "convertProtoOutputs factory fallback [] w = (Inr [], w)"
| "convertProtoOutputs factory fallback (out # outs) w =
     (case factory (po_Message out) (case po_Metadata out of None \<Rightarrow> fallback | Some m \<Rightarrow> m) w of
        (Inl err, w1) \<Rightarrow> (Inl err, w1)
      | (Inr msg, w1) \<Rightarrow>
          (case convertProtoOutputs factory fallback outs w1 of
             (Inl err, w2) \<Rightarrow> (Inl err, w2)
           | (Inr msgs, w2) \<Rightarrow> (Inr (msg # msgs), w2)))"

definition proto_handle ::
  "'p proto_lib \<Rightarrow> ('p \<Rightarrow> bool) \<Rightarrow> 'p \<Rightarrow> ('p ProtoMessageContext, 'p ProtoMessageOutput, 'w) typed_handler
    \<Rightarrow> ('p \<Rightarrow> gerror option) option \<Rightarrow> ('p, 'w) factory \<Rightarrow> 'w raw_handler" where
  "proto_handle lib is_T prototype handler validate factory msg w =
     (case clonePrototype lib is_T (Some prototype) of
        Inl err \<Rightarrow> (Inr ([], Some err), w)
      | Inr typed \<Rightarrow>
          (case pl_unmarshal lib (Payload msg) typed of
             Inl err \<Rightarrow>
               (Inr ([], Some (Wrapped (''failed to unmarshal '' @ pl_type lib prototype @ '' payload: '' @ err_text err) err)), w)
           | Inr typed \<Rightarrow>
               (case handler \<lparr>pc_Metadata = FromWatermill (Metadata msg), pc_Payload = typed\<rparr> w of
                  (Inl panic, left, w1) \<Rightarrow> (Inl panic, w1)
                | (Inr (outgoing, Some err), left, w1) \<Rightarrow> (Inr ([], Some err), w1)
                | (Inr (outgoing, None), left, w1) \<Rightarrow>
                    (case (case validate of None \<Rightarrow> None | Some v \<Rightarrow> validate_outputs v outgoing) of
                       Some err \<Rightarrow> (Inr ([], Some err), w1)
                     | None \<Rightarrow> (case convertProtoOutputs factory left outgoing w1 of (r, w2) \<Rightarrow> (raw_result r, w2))))))"

definition BuildProtoHandler ::
  "'p proto_lib \<Rightarrow> ('p \<Rightarrow> bool) \<Rightarrow> 'p option \<Rightarrow> ('p ProtoMessageContext, 'p ProtoMessageOutput, 'w) typed_handler option
    \<Rightarrow> ('p \<Rightarrow> gerror option) option \<Rightarrow> ('p, 'w) factory option \<Rightarrow> gerror + 'w raw_handler" where
  "BuildProtoHandler lib is_T prototype handler validate factory =
     (case handler of
        None \<Rightarrow> Inl (Sentinel ErrHandlerRequired)
      | Some handler \<Rightarrow>
          if isNilProto lib prototype then Inl (Sentinel ErrConsumeMessageTypeRequired)
          else (case factory of
                  None \<Rightarrow> Inl (Plain ''proto message factory is required'')
                | Some factory \<Rightarrow> Inr (proto_handle lib is_T (the prototype) handler validate factory)))"

section \<open>What handlers emit\<close>

lemma raw_result_simps [simp]: "raw_result (Inl err) = Inr ([], Some err)" "raw_result (Inr msgs) = Inr (msgs, None)"
  by (simp_all add: raw_result_def)

text \<open>The message of an output: its payload, and its own or the incoming metadata with the schema of its type.\<close>

definition emits_json :: "('t, 'o) json_lib \<Rightarrow> metadata \<Rightarrow> 'o JSONMessageOutput \<Rightarrow> message \<Rightarrow> bool" where
  "emits_json lib incoming out msg \<longleftrightarrow>
     \<not> jl_is_zero lib (jo_Message out) \<and> jl_marshal lib (jo_Message out) = Inr (Payload msg) \<and> wf_map (Metadata msg)
     \<and> map_of (Metadata msg) = (map_of (mputs (case jo_Metadata out of None \<Rightarrow> incoming | Some m \<Rightarrow> m) []))
          (MetadataKeyEventSchema \<mapsto> jl_type_name lib (jo_Message out))"

definition emits_proto :: "'p proto_lib \<Rightarrow> metadata \<Rightarrow> 'p ProtoMessageOutput \<Rightarrow> message \<Rightarrow> bool" where
  "emits_proto lib incoming out msg \<longleftrightarrow>
     (\<exists>e. po_Message out = Some e \<and> pl_marshal lib e = Inr (Payload msg) \<and> wf_map (Metadata msg)
       \<and> map_of (Metadata msg) = (map_of (mputs (case po_Metadata out of None \<Rightarrow> incoming | Some m \<Rightarrow> m) []))
          (MetadataKeyEventSchema \<mapsto> pl_type lib e))"

lemma copies_mputs: "meta_Clone m = mputs m []" "ToWatermill m = mputs m []" "FromWatermill m = mputs m []"
  by (auto simp: meta_Clone_def cloneWithExtra_def ToWatermill_def FromWatermill_def)

lemma emits_json_message:
  assumes "\<not> jl_is_zero lib (jo_Message out)" "jl_marshal lib (jo_Message out) = Inr payload"
  shows "emits_json lib left out (json_message lib (Some left) out uuid payload)"
  using assms by (auto simp: emits_json_def json_message_def Let_def NewMessage_def copies_mputs mputs_copy split: option.splits)

lemma convert_json_emits:
  "convertJSONOutputs lib new_id (Some left) outs w = (Inr msgs, w') \<Longrightarrow> list_all2 (emits_json lib left) outs msgs"
proof (induction outs arbitrary: msgs w)
  case (Cons out outs)
  from Cons.prems obtain payload uuid w1 msgs1 where p: "\<not> jl_is_zero lib (jo_Message out)"
    "jl_marshal lib (jo_Message out) = Inr payload" "convertJSONOutputs lib new_id (Some left) outs w1 = (Inr msgs1, w')"
    "msgs = json_message lib (Some left) out uuid payload # msgs1"
    by (auto split: if_splits sum.splits prod.splits)
  with Cons.IH [OF p(3)] emits_json_message [OF p(1,2)] show ?case by simp
qed simp

lemma convert_proto_emits:
  "convertProtoOutputs (NewMessageFromProto lib new_id) left outs w = (Inr msgs, w')
    \<Longrightarrow> list_all2 (emits_proto lib left) outs msgs"
proof (induction outs arbitrary: msgs w)
  case (Cons out outs)
  from Cons.prems obtain msg w1 msgs1 where p:
    "NewMessageFromProto lib new_id (po_Message out) (case po_Metadata out of None \<Rightarrow> left | Some m \<Rightarrow> m) w = (Inr msg, w1)"
    "convertProtoOutputs (NewMessageFromProto lib new_id) left outs w1 = (Inr msgs1, w')" "msgs = msg # msgs1"
    by (auto split: sum.splits prod.splits)
  from p(1) have "emits_proto lib left out msg"
    by (auto simp: emits_proto_def NewMessageFromProto_def NewMessage_def copies_mputs split: option.splits sum.splits prod.splits)
  with Cons.IH [OF p(2)] p(3) show ?case by simp
qed simp

text \<open>How an invocation of a typed handler ends: nothing is emitted, or an output list is converted.\<close>

lemma json_handle_cases:
  assumes "json_handle lib new_id fresh handler msg w = (r, w')"
  obtains panic where "r = Inl panic"
  | err where "r = Inr ([], Some err)"
  | typed outgoing left w1 msgs where "jl_unmarshal lib (Payload msg) fresh = Inr typed"
    "handler \<lparr>jm_Metadata = FromWatermill (Metadata msg), jm_Payload = typed\<rparr> w = (Inr (outgoing, None), left, w1)"
    "convertJSONOutputs lib new_id (Some left) outgoing w1 = (Inr msgs, w')" "r = Inr (msgs, None)"
  using assms by (auto simp: json_handle_def raw_result_def split: sum.splits prod.splits option.splits)

lemma proto_handle_cases:
  assumes "proto_handle lib is_T prototype handler validate factory msg w = (r, w')"
  obtains panic where "r = Inl panic"
  | err where "r = Inr ([], Some err)"
  | typed outgoing left w1 msgs where "pl_unmarshal lib (Payload msg) (pl_fresh lib prototype) = Inr typed"
    "handler \<lparr>pc_Metadata = FromWatermill (Metadata msg), pc_Payload = typed\<rparr> w = (Inr (outgoing, None), left, w1)"
    "\<forall>v. validate = Some v \<longrightarrow> validate_outputs v outgoing = None"
    "convertProtoOutputs factory left outgoing w1 = (Inr msgs, w')" "r = Inr (msgs, None)"
proof -
  from assms consider "\<exists>panic. r = Inl panic" | "\<exists>err. r = Inr ([], Some err)"
    | "\<exists>typed outgoing left w1 msgs. pl_unmarshal lib (Payload msg) (pl_fresh lib prototype) = Inr typed
      \<and> handler \<lparr>pc_Metadata = FromWatermill (Metadata msg), pc_Payload = typed\<rparr> w = (Inr (outgoing, None), left, w1)
      \<and> (case validate of None \<Rightarrow> None | Some v \<Rightarrow> validate_outputs v outgoing) = None
      \<and> convertProtoOutputs factory left outgoing w1 = (Inr msgs, w') \<and> r = Inr (msgs, None)"
    by (auto simp: proto_handle_def clonePrototype_def Let_def raw_result_def split: sum.splits prod.splits option.splits if_splits)
  then show thesis by cases (use that in \<open>auto split: option.splits\<close>)
qed

lemma validated:
  "validate_outputs v outs = None \<Longrightarrow> list_all (\<lambda>out. \<exists>e. po_Message out = Some e \<and> v e = None) outs"
  by (induction outs) (auto split: option.splits)

text \<open>
  C31. A JSON handler's messages are its outputs, all or none. A raw invocation either fails or panics
  without messages, or the typed handler got the decoded payload with a copy of the metadata,
  returned without error, and there is one message for each of its outputs, in order, with the
  encoded output, the metadata of the output (of the incoming message when it has none, as the
  handler left it) and the schema set to the output's type.
\<close>

theorem json_handler_emits:
  assumes "BuildJSONHandler lib new_id (Some handler) = Inr h" "h msg w = (r, w')"
  shows "(\<exists>panic. r = Inl panic) \<or> (\<exists>err. r = Inr ([], Some err))
    \<or> (\<exists>msgs typed outgoing left w1. r = Inr (msgs, None)
        \<and> jl_unmarshal lib (Payload msg) (jl_new lib) = Inr typed
        \<and> handler \<lparr>jm_Metadata = FromWatermill (Metadata msg), jm_Payload = typed\<rparr> w = (Inr (outgoing, None), left, w1)
        \<and> list_all2 (emits_json lib left) outgoing msgs)"
proof -
  from assms have "json_handle lib new_id (jl_new lib) handler msg w = (r, w')"
    by (auto simp: BuildJSONHandler_def jsonPrototypeFactory_def split: go_type.splits)
  then show ?thesis by (cases rule: json_handle_cases) (auto dest: convert_json_emits)
qed

text \<open>
  A protobuf handler's messages are its outputs, all or none, and all valid when outgoing
  messages are to be validated: either nothing is emitted, or the typed handler got the decoded
  payload and a copy of the metadata and there is one message per output, in order, with the
  encoded output, its own or the incoming metadata and the schema of its type.
\<close>

theorem proto_handler_emits:
  assumes "BuildProtoHandler lib is_T (Some p) (Some handler) validate (Some (NewMessageFromProto lib new_id)) = Inr h"
    "h msg w = (r, w')"
  shows "(\<exists>panic. r = Inl panic) \<or> (\<exists>err. r = Inr ([], Some err))
    \<or> (\<exists>msgs typed outgoing left w1. r = Inr (msgs, None)
        \<and> pl_unmarshal lib (Payload msg) (pl_fresh lib p) = Inr typed
        \<and> handler \<lparr>pc_Metadata = FromWatermill (Metadata msg), pc_Payload = typed\<rparr> w = (Inr (outgoing, None), left, w1)
        \<and> list_all2 (emits_proto lib left) outgoing msgs
        \<and> (\<forall>v. validate = Some v \<longrightarrow> list_all (\<lambda>out. \<exists>e. po_Message out = Some e \<and> v e = None) outgoing))"
proof -
  from assms have "proto_handle lib is_T p handler validate (NewMessageFromProto lib new_id) msg w = (r, w')"
    by (auto simp: BuildProtoHandler_def split: if_splits)
  then show ?thesis by (cases rule: proto_handle_cases) (auto dest: convert_proto_emits validated)
qed

section \<open>From publisher to handler\<close>

text \<open>
  C32. What \<open>PublishProto\<close> publishes, a handler of that type receives. For a codec that reads back
  the event into an empty message of the prototype's type, publishing the event makes one publisher
  call, and a protobuf handler fed its message is given the event and the metadata passed to the
  publisher with the schema set to the event's type; what the typed handler returns without outputs
  is what the raw handler returns.
\<close>

theorem published_proto_is_handled:
  assumes "pl_marshal lib e = Inr payload" "pl_unmarshal lib payload (pl_fresh lib p) = Inr e"
    "\<not> pl_is_nil lib p" "is_T (pl_fresh lib p)" "wf_map md" "topic \<noteq> []" "new_id w = (uuid, w1)"
  defines "md' \<equiv> mput MetadataKeyEventSchema (pl_type lib e) md"
  shows "\<exists>msg. PublishProto lib new_id (Some publish) topic (Some e) md w = publish topic msg w1
    \<and> UUID msg = uuid \<and> Payload msg = payload \<and> Metadata msg = md'
    \<and> (\<forall>handler w2 err left w3 validate factory. handler \<lparr>pc_Metadata = md', pc_Payload = e\<rparr> w2 = (Inr ([], err), left, w3)
        \<longrightarrow> proto_handle lib is_T p handler validate factory msg w2 = (Inr ([], err), w3))"
proof -
  define msg where "msg = (NewMessage uuid payload)\<lparr>Metadata := md'\<rparr>"
  have "PublishProto lib new_id (Some publish) topic (Some e) md w = publish topic msg w1"
    using assms by (simp add: PublishProto_def NewMessageFromProto_def msg_def)
  moreover have "FromWatermill md' = md'" using assms(5) by (simp add: md'_def)
  moreover have "handler \<lparr>pc_Metadata = md', pc_Payload = e\<rparr> w2 = (Inr ([], err), left, w3)
      \<Longrightarrow> proto_handle lib is_T p handler validate factory msg w2 = (Inr ([], err), w3)" for handler w2 err left w3 validate factory
    using assms(1-4) \<open>FromWatermill md' = md'\<close>
    by (cases err; cases validate) (simp_all add: proto_handle_def clonePrototype_def msg_def NewMessage_def)
  moreover have "UUID msg = uuid \<and> Payload msg = payload \<and> Metadata msg = md'" by (simp add: msg_def NewMessage_def)
  ultimately show ?thesis by blast
qed

section \<open>Sample codecs\<close>

text \<open>Messages that are their own encoding, and identifiers counted up.\<close>

definition text_lib :: "string proto_lib" where
  "text_lib =
     \<lparr>pl_unmarshal = (\<lambda>s _. Inr s), pl_marshal = Inr, pl_fresh = (\<lambda>_. []), pl_type = (\<lambda>_. ''*pb.Text''),
      pl_is_nil = (\<lambda>_. False), pl_new = (\<lambda>_. [])\<rparr>"

definition text_json :: "(string, string) json_lib" where
  "text_json =
     \<lparr>jl_type = PtrTo ''Text'', jl_new = [], jl_unmarshal = (\<lambda>s _. Inr s), jl_marshal = Inr,
      jl_is_zero = (\<lambda>s. s = []), jl_type_name = (\<lambda>_. ''*main.Text'')\<rparr>"

definition count_id :: "nat new_id" where
  "count_id n = (dec_nat n, n + 1)"

definition echo_json :: "(string JSONMessageContext, string JSONMessageOutput, nat) typed_handler" where
  "echo_json ctx n = (Inr ([\<lparr>jo_Message = jm_Payload ctx, jo_Metadata = None\<rparr>], None), jm_Metadata ctx, n)"

definition echo_proto :: "(string ProtoMessageContext, string ProtoMessageOutput, nat) typed_handler" where
  "echo_proto ctx n = (Inr ([\<lparr>po_Message = Some (pc_Payload ctx), po_Metadata = None\<rparr>], None), pc_Metadata ctx, n)"

definition text_message :: message where
  "text_message = \<lparr>UUID = ''u'', Metadata = [(''correlation_id'', ''c1'')], Payload = ''hi''\<rparr>"

text \<open>A JSON handler's output without metadata of its own keeps the correlation id of its cause.\<close>

lemma json_handler_emits_witness:
  "\<exists>out. json_handle text_json count_id [] echo_json text_message 7 = (Inr ([out], None), 8)
     \<and> mget (Metadata out) MetadataKeyCorrelationID = ''c1'' \<and> mget (Metadata out) MetadataKeyEventSchema = ''*main.Text''"
proof -
  have b: "BuildJSONHandler text_json count_id (Some echo_json) = Inr (json_handle text_json count_id [] echo_json)"
    by (simp add: BuildJSONHandler_def jsonPrototypeFactory_def text_json_def)
  have e: "json_handle text_json count_id [] echo_json text_message 7 =
      (Inr ([json_message text_json (Some [(''correlation_id'', ''c1'')])
          \<lparr>jo_Message = ''hi'', jo_Metadata = None\<rparr> (dec_nat 7) ''hi''], None), 8)"
    by (simp add: json_handle_def text_json_def echo_json_def text_message_def count_id_def FromWatermill_def raw_result_def)
  from json_handler_emits [OF b e] show ?thesis
    unfolding e by (auto simp: emits_json_def echo_json_def text_json_def text_message_def FromWatermill_def
      mget_def MetadataKeyCorrelationID_def MetadataKeyEventSchema_def)
qed

lemma proto_handler_emits_witness:
  "\<exists>out. proto_handle text_lib (\<lambda>_. True) [] echo_proto (Some (\<lambda>_. None)) (NewMessageFromProto text_lib count_id) text_message 7
       = (Inr ([out], None), 8) \<and> Payload out = ''hi''"
proof -
  let ?h = "proto_handle text_lib (\<lambda>_. True) [] echo_proto (Some (\<lambda>_. None)) (NewMessageFromProto text_lib count_id)"
  have b: "BuildProtoHandler text_lib (\<lambda>_. True) (Some []) (Some echo_proto) (Some (\<lambda>_. None))
      (Some (NewMessageFromProto text_lib count_id)) = Inr ?h"
    by (simp add: BuildProtoHandler_def isNilProto_def text_lib_def)
  obtain m where e: "?h text_message 7 = (Inr ([m], None), 8)"
    by (simp add: proto_handle_def clonePrototype_def text_lib_def echo_proto_def NewMessageFromProto_def count_id_def raw_result_def)
  from proto_handler_emits [OF b e] show ?thesis
    unfolding e by (auto simp: emits_proto_def echo_proto_def text_lib_def text_message_def)
qed

lemma published_proto_is_handled_witness:
  "\<exists>msg :: message. PublishProto text_lib count_id (Some (\<lambda>topic msg n. (None, n + length (Payload msg)))) ''t'' (Some ''hi'') [] 7 = (None, 10)
     \<and> Payload msg = ''hi''"
proof -
  let ?publish = "\<lambda>topic :: string. \<lambda>(msg :: message) n :: nat. (None :: gerror option, n + length (Payload msg))"
  have lib: "pl_marshal text_lib ''hi'' = Inr ''hi''" "pl_unmarshal text_lib ''hi'' (pl_fresh text_lib []) = Inr ''hi''"
    "\<not> pl_is_nil text_lib []" "count_id 7 = (dec_nat 7, 8)"
    by (simp_all add: text_lib_def count_id_def)
  obtain msg where "PublishProto text_lib count_id (Some ?publish) ''t'' (Some ''hi'') [] 7 = ?publish ''t'' msg 8"
    "Payload msg = ''hi''"
    using published_proto_is_handled [where is_T = "\<lambda>_. True" and publish = ?publish and new_id = count_id and md = "[]"
        and topic = "''t''", OF lib(1-3) TrueI _ _ lib(4)]
    by auto
  then show ?thesis by (intro exI [of _ msg]) simp
qed

end
