(* ===== verification/Rt_Middleware.thy ===== *)
theory Rt_Middleware
  imports Rt_Handlers
begin

text \<open>
  The service and its middleware chain (\<open>internal/runtime/middleware.go\<close>, the record of
  \<open>service.go\<close>): the registrations, the middlewares written in the repository, and how
  \<open>RegisterMiddleware\<close> adds them to the router.

  Watermill, Prometheus, OpenTelemetry and the protobuf libraries are parameters, collected in \<open>env\<close>.
  The router is the list of the middlewares and handlers added to it, in order; running it is
  Watermill's. A builder or a registration returns, fails with an error, or panics. Loggers do not
  panic. The registry of message types is read while messages are handled, so its state then is a
  parameter of the validating middleware.
\<close>

section \<open>Data\<close>

type_synonym 'w middleware = "'w raw_handler \<Rightarrow> 'w raw_handler"

datatype 'a build = Returns 'a | Fails gerror | Panics string

type_synonym log_fields = "(string \<times> any) list"

record 'w logger =
  lg_Debug :: "string \<Rightarrow> log_fields \<Rightarrow> 'w \<Rightarrow> 'w"
  lg_Info :: "string \<Rightarrow> log_fields \<Rightarrow> 'w \<Rightarrow> 'w"
  lg_Error :: "string \<Rightarrow> gerror \<Rightarrow> log_fields \<Rightarrow> 'w \<Rightarrow> 'w"

text \<open>A Watermill publisher takes several messages at once.\<close>

type_synonym 'w publish_all = "string \<Rightarrow> message list \<Rightarrow> 'w \<Rightarrow> gerror option \<times> 'w"

record RetryMiddlewareConfig =
  MaxRetries :: int
  InitialInterval :: duration
  MaxInterval :: duration
  RetryIf :: "(gerror \<Rightarrow> bool) option"

record ('w, 'p, 'span) env =
  env_new_id :: "'w new_id"
  env_proto :: "'p proto_lib"
  env_Recoverer :: "'w middleware"
  env_PoisonQueueWithFilter :: "'w publish_all \<Rightarrow> string \<Rightarrow> (gerror \<Rightarrow> bool) \<Rightarrow> gerror + 'w middleware"
  env_Retry :: "int \<Rightarrow> duration \<Rightarrow> duration \<Rightarrow> (gerror \<Rightarrow> bool) \<Rightarrow> 'w middleware"
  env_PrometheusMiddleware :: "string \<Rightarrow> 'w middleware"
  env_PrometheusRouter :: "string \<Rightarrow> 'w middleware list"
  env_span_start :: "string \<Rightarrow> string \<Rightarrow> 'w \<Rightarrow> 'span \<times> 'w"
  env_span_set :: "'span \<Rightarrow> (string \<times> string) list \<Rightarrow> 'w \<Rightarrow> 'w"
  env_span_end :: "'span \<Rightarrow> 'w \<Rightarrow> 'w"

record ('w, 's) router_handler =
  rh_name :: string
  rh_consume :: string
  rh_subscriber :: "'s option"
  rh_publish :: string
  rh_publisher :: "'w publish_all option"
  rh_handler :: "'w raw_handler"

record ('w, 's) router =
  rt_middlewares :: "'w middleware list"
  rt_handlers :: "('w, 's) router_handler list"

record HandlerInfo =
  hi_Name :: string
  hi_ConsumeQueue :: string
  hi_PublishQueue :: string

record ('w, 'p, 's) Service =
  sv_Conf :: "config option"
  sv_Logger :: "'w logger option"
  sv_publisher :: "'w publish_all option"
  sv_subscriber :: "'s option"
  sv_router :: "('w, 's) router option"
  sv_validator :: "('p \<Rightarrow> gerror option) option"
  sv_outbox :: "(string \<Rightarrow> string \<Rightarrow> string \<Rightarrow> 'w \<Rightarrow> gerror option \<times> 'w) option"
  sv_protoRegistry :: "(string \<times> 'p) list"
  sv_handlers :: "HandlerInfo list"
  sv_httpServers :: "(int \<times> string list) list"
  sv_errorClassifier :: "classifier option"

record ('w, 'p, 's) MiddlewareRegistration =
  mr_Name :: string
  mr_Middleware :: "'w middleware option"
  mr_Builder :: "(('w, 'p, 's) Service \<Rightarrow> 'w middleware option build \<times> ('w, 'p, 's) Service) option"

section \<open>The middlewares\<close>

definition withDefaults_retry :: "RetryMiddlewareConfig \<Rightarrow> RetryMiddlewareConfig" where
  "withDefaults_retry cfg =
     (let cfg = (if MaxRetries cfg \<le> 0 then cfg\<lparr>MaxRetries := 5\<rparr> else cfg);
          cfg = (if InitialInterval cfg \<le> 0 then cfg\<lparr>InitialInterval := second\<rparr> else cfg)
      in if MaxInterval cfg \<le> 0 then cfg\<lparr>MaxInterval := 16 * second\<rparr> else cfg)"

definition zero_retry :: RetryMiddlewareConfig where
  "zero_retry = \<lparr>MaxRetries = 0, InitialInterval = 0, MaxInterval = 0, RetryIf = None\<rparr>"

definition ensure_correlation :: "'w new_id \<Rightarrow> message \<Rightarrow> 'w \<Rightarrow> message \<times> 'w" where
  "ensure_correlation new_id msg w =
     (case map_of (Metadata msg) MetadataKeyCorrelationID of
        Some _ \<Rightarrow> (msg, w)
      | None \<Rightarrow> (case new_id w of (i, w') \<Rightarrow> (msg\<lparr>Metadata := mput MetadataKeyCorrelationID i (Metadata msg)\<rparr>, w')))"

definition correlationIDMiddleware :: "('w, 'p, 'span) env \<Rightarrow> 'w middleware" where
  "correlationIDMiddleware env h msg w = (case ensure_correlation (env_new_id env) msg w of (msg', w') \<Rightarrow> h msg' w')"

text \<open>A map of strings logs like the map of those values.\<close>

definition metadata_any :: "metadata \<Rightarrow> any" where
  "metadata_any md = AMap (map (\<lambda>(k, v). (k, AStr v)) md)"

definition logMessagesMiddleware :: "'w logger \<Rightarrow> 'w middleware" where
  "logMessagesMiddleware logger h msg w =
     h msg (lg_Debug logger ''Processing message''
              [(''message_uuid'', AStr (UUID msg)), (''payload'', AStr (Payload msg)), (''metadata'', metadata_any (Metadata msg))] w)"

definition log_debug :: "'w logger option \<Rightarrow> string \<Rightarrow> log_fields \<Rightarrow> 'w \<Rightarrow> 'w" where
  "log_debug logger msg fs w = (case logger of None \<Rightarrow> w | Some l \<Rightarrow> lg_Debug l msg fs w)"

definition log_error :: "'w logger option \<Rightarrow> string \<Rightarrow> gerror \<Rightarrow> log_fields \<Rightarrow> 'w \<Rightarrow> 'w" where
  "log_error logger msg err fs w = (case logger of None \<Rightarrow> w | Some l \<Rightarrow> lg_Error l msg err fs w)"

definition reject_unprocessable :: "'w logger option \<Rightarrow> string \<Rightarrow> string \<Rightarrow> gerror \<Rightarrow> message \<Rightarrow> 'w
    \<Rightarrow> (string + (message list \<times> gerror option)) \<times> 'w" where
  "reject_unprocessable logger text eventType err msg w =
     (Inr ([], Some (UnprocessableEventError (Payload msg) err)),
      log_error logger text err [(''event_message_schema'', AStr eventType)] w)"

definition protoValidateMiddleware ::
  "('w, 'p, 'span) env \<Rightarrow> ('w \<Rightarrow> (string \<times> 'p) list) \<Rightarrow> ('w, 'p, 's) Service \<Rightarrow> 'w middleware" where
  "protoValidateMiddleware env registry s =
     (case sv_validator s of
        None \<Rightarrow> (\<lambda>h. h)
      | Some validate \<Rightarrow> (\<lambda>h msg w.
          (case map_of (Metadata msg) MetadataKeyEventSchema of
             None \<Rightarrow> h msg (log_debug (sv_Logger s) ''missing event_message_schema in metadata'' [] w)
           | Some eventType \<Rightarrow>
               (case map_of (registry w) eventType of
                  None \<Rightarrow>
                    reject_unprocessable (sv_Logger s) ''unknown event type'' eventType (Plain (''unknown event type: '' @ eventType)) msg w
                | Some prototype \<Rightarrow>
                    (case pl_unmarshal (env_proto env) (Payload msg) (pl_fresh (env_proto env) prototype) of
                       Inl err \<Rightarrow> reject_unprocessable (sv_Logger s) ''failed to unmarshal protobuf message'' eventType err msg w
                     | Inr protoMsg \<Rightarrow>
                         (case validate protoMsg of
                            Some err \<Rightarrow> reject_unprocessable (sv_Logger s) ''failed to validate protobuf message'' eventType err msg w
                          | None \<Rightarrow> h msg w))))))"

text \<open>The filter used when a poison queue is registered without one: a type assertion on the error itself.\<close>

definition default_poison_filter :: "gerror \<Rightarrow> bool" where
  "default_poison_filter err = (case err of UnprocessableEventError _ _ \<Rightarrow> True | _ \<Rightarrow> False)"

definition poisonMiddlewareWithFilter ::
  "('w, 'p, 'span) env \<Rightarrow> ('w, 'p, 's) Service \<Rightarrow> (gerror \<Rightarrow> bool) \<Rightarrow> gerror + 'w middleware" where
  "poisonMiddlewareWithFilter env s accept =
     (case sv_Conf s of
        None \<Rightarrow> Inl (Plain ''service config is required for poison queue middleware'')
      | Some conf \<Rightarrow>
          (case sv_publisher s of
             None \<Rightarrow> Inl (Plain ''publisher is required for poison queue middleware'')
           | Some publisher \<Rightarrow> env_PoisonQueueWithFilter env publisher (PoisonQueue conf) accept))"

fun store_outgoing ::
  "(string \<Rightarrow> string \<Rightarrow> string \<Rightarrow> 'w \<Rightarrow> gerror option \<times> 'w) \<Rightarrow> message list \<Rightarrow> 'w \<Rightarrow> gerror option \<times> 'w" where
  "store_outgoing store [] w = (None, w)"
| "store_outgoing store (out # outs) w =
     (let eventType = mget (Metadata out) ''event_message_schema'';
          eventType = (if eventType = [] then ''unknown_event'' else eventType)
      in case store eventType (UUID out) (Payload out) w of
           (Some err, w') \<Rightarrow> (Some err, w')
         | (None, w') \<Rightarrow> store_outgoing store outs w')"

definition outboxMiddleware :: "('w, 'p, 's) Service \<Rightarrow> 'w middleware" where
  "outboxMiddleware s h msg w =
     (case sv_outbox s of
        None \<Rightarrow> h msg w
      | Some store \<Rightarrow>
          (case h msg w of
             (Inl panic, w1) \<Rightarrow> (Inl panic, w1)
           | (Inr (outgoing, Some err), w1) \<Rightarrow> (Inr ([], Some err), w1)
           | (Inr (outgoing, None), w1) \<Rightarrow>
               if outgoing = [] then (Inr (outgoing, None), w1)
               else (case store_outgoing store outgoing w1 of
                       (Some err, w2) \<Rightarrow> (Inr ([], Some err), w2)
                     | (None, w2) \<Rightarrow> (Inr (outgoing, None), w2))))"

definition retryMiddlewareWithConfig :: "('w, 'p, 'span) env \<Rightarrow> RetryMiddlewareConfig \<Rightarrow> 'w middleware" where
  "retryMiddlewareWithConfig env cfg =
     (let normalized = withDefaults_retry cfg
      in env_Retry env (MaxRetries normalized) (InitialInterval normalized) (MaxInterval normalized)
           (\<lambda>err. case RetryIf normalized of Some retryIf \<Rightarrow> retryIf err | None \<Rightarrow> True))"

definition retryMiddleware :: "('w, 'p, 'span) env \<Rightarrow> 'w middleware" where
  "retryMiddleware env = retryMiddlewareWithConfig env zero_retry"

text \<open>The span is ended when the handler returns and when it panics.\<close>

definition tracerMiddleware :: "('w, 'p, 'span) env \<Rightarrow> 'w middleware" where
  "tracerMiddleware env h msg w =
     (case env_span_start env ''events-service-tracer'' ''ProcessMessage'' w of
        (sp, w1) \<Rightarrow>
          (let w2 = env_span_set env sp
                      [(''message.uuid'', UUID msg), (''message.metadata'', fmt_v (metadata_any (Metadata msg)))] w1
           in case h msg w2 of (r, w3) \<Rightarrow> (r, env_span_end env sp w3)))"

section \<open>HTTP handlers\<close>

text \<open>\<open>http.ServeMux.Handle\<close> panics on an empty pattern and on one that is registered; patterns are plain paths.\<close>

definition RegisterHTTPHandler :: "int \<Rightarrow> string \<Rightarrow> ('w, 'p, 's) Service \<Rightarrow> unit build \<times> ('w, 'p, 's) Service" where
  "RegisterHTTPHandler port pattern s =
     (let mux = (case map_of (sv_httpServers s) port of None \<Rightarrow> [] | Some mux \<Rightarrow> mux);
          s1 = s\<lparr>sv_httpServers := mput port mux (sv_httpServers s)\<rparr>
      in if pattern = [] then (Panics ''http: invalid pattern'', s1)
         else if pattern \<in> set mux then (Panics ''http: pattern conflicts with a registered one'', s1)
         else (Returns (), s1\<lparr>sv_httpServers := mput port (mux @ [pattern]) (sv_httpServers s1)\<rparr>))"

section \<open>Registrations\<close>

definition registration :: "string \<Rightarrow> (('w, 'p, 's) Service \<Rightarrow> 'w middleware option build \<times> ('w, 'p, 's) Service)
    \<Rightarrow> ('w, 'p, 's) MiddlewareRegistration" where
  "registration name builder = \<lparr>mr_Name = name, mr_Middleware = None, mr_Builder = Some builder\<rparr>"

definition CorrelationIDMiddleware :: "('w, 'p, 'span) env \<Rightarrow> ('w, 'p, 's) MiddlewareRegistration" where
  "CorrelationIDMiddleware env = registration ''correlation_id'' (\<lambda>s. (Returns (Some (correlationIDMiddleware env)), s))"

definition LogMessagesMiddleware :: "'w logger option \<Rightarrow> ('w, 'p, 's) MiddlewareRegistration" where
  "LogMessagesMiddleware logger =
     registration ''log_messages'' (\<lambda>s.
       (let l = (if logger = None then sv_Logger s else logger)
        in (case l of
              None \<Rightarrow> Fails (Plain ''log messages middleware requires a logger'')
            | Some l \<Rightarrow> Returns (Some (logMessagesMiddleware l)), s)))"

definition ProtoValidateMiddleware ::
  "('w, 'p, 'span) env \<Rightarrow> ('w \<Rightarrow> (string \<times> 'p) list) \<Rightarrow> ('w, 'p, 's) MiddlewareRegistration" where
  "ProtoValidateMiddleware env registry =
     registration ''proto_validate'' (\<lambda>s. (Returns (Some (protoValidateMiddleware env registry s)), s))"

definition OutboxMiddleware :: "('w, 'p, 's) MiddlewareRegistration" where
  "OutboxMiddleware = registration ''outbox'' (\<lambda>s. (Returns (Some (outboxMiddleware s)), s))"

definition TracerMiddleware :: "('w, 'p, 'span) env \<Rightarrow> ('w, 'p, 's) MiddlewareRegistration" where
  "TracerMiddleware env = registration ''tracer'' (\<lambda>s. (Returns (Some (tracerMiddleware env)), s))"

text \<open>
  \<open>env_PrometheusRouter\<close> is what \<open>AddPrometheusRouterMetrics\<close> adds to the router's middlewares.
  The metrics builder reads the configuration, which is nil only for a service made by hand: the
  field access panics then.
\<close>

definition metrics_builder ::
  "('w, 'p, 'span) env \<Rightarrow> config \<Rightarrow> ('w, 'p, 's) Service \<Rightarrow> 'w middleware option build \<times> ('w, 'p, 's) Service" where
  "metrics_builder env conf s =
     (let s1 = s\<lparr>sv_router := map_option (\<lambda>r. r\<lparr>rt_middlewares :=
                  rt_middlewares r @ env_PrometheusRouter env (PubSubSystem conf)\<rparr>) (sv_router s)\<rparr>;
          mw = Some (env_PrometheusMiddleware env (PubSubSystem conf))
      in if 0 < MetricsPort conf
         then (case RegisterHTTPHandler (MetricsPort conf) ''/metrics'' s1 of
                 (Panics p, s2) \<Rightarrow> (Panics p, s2)
               | (Fails e, s2) \<Rightarrow> (Fails e, s2)
               | (Returns _, s2) \<Rightarrow> (Returns mw, s2))
         else (Returns mw, s1))"

definition MetricsMiddleware :: "('w, 'p, 'span) env \<Rightarrow> ('w, 'p, 's) MiddlewareRegistration" where
  "MetricsMiddleware env =
     registration ''metrics'' (\<lambda>s.
       (case sv_Conf s of
          None \<Rightarrow> (Panics ''nil pointer dereference'', s)
        | Some conf \<Rightarrow> if \<not> MetricsEnabled conf then (Returns None, s) else metrics_builder env conf s))"

definition RetryMiddleware :: "('w, 'p, 'span) env \<Rightarrow> RetryMiddlewareConfig \<Rightarrow> ('w, 'p, 's) MiddlewareRegistration" where
  "RetryMiddleware env cfg =
     (let normalized = withDefaults_retry cfg
      in registration ''retry'' (\<lambda>s. (Returns (Some (retryMiddlewareWithConfig env normalized)), s)))"

definition PoisonQueueMiddleware :: "('w, 'p, 'span) env \<Rightarrow> (gerror \<Rightarrow> bool) option \<Rightarrow> ('w, 'p, 's) MiddlewareRegistration" where
  "PoisonQueueMiddleware env accept =
     registration ''poison_queue'' (\<lambda>s.
       (let f = (case accept of None \<Rightarrow> default_poison_filter | Some f \<Rightarrow> f)
        in (case poisonMiddlewareWithFilter env s f of Inl err \<Rightarrow> Fails err | Inr mw \<Rightarrow> Returns (Some mw), s)))"

definition RecovererMiddleware :: "('w, 'p, 'span) env \<Rightarrow> ('w, 'p, 's) MiddlewareRegistration" where
  "RecovererMiddleware env = \<lparr>mr_Name = ''recoverer'', mr_Middleware = Some (env_Recoverer env), mr_Builder = None\<rparr>"

definition DefaultMiddlewares ::
  "('w, 'p, 'span) env \<Rightarrow> ('w \<Rightarrow> (string \<times> 'p) list) \<Rightarrow> ('w, 'p, 's) MiddlewareRegistration list" where
  "DefaultMiddlewares env registry =
     [CorrelationIDMiddleware env, LogMessagesMiddleware None, ProtoValidateMiddleware env registry, OutboxMiddleware,
      TracerMiddleware env, MetricsMiddleware env, RetryMiddleware env zero_retry, PoisonQueueMiddleware env None,
      RecovererMiddleware env]"

definition add_middleware :: "'w middleware option \<Rightarrow> ('w, 'p, 's) Service \<Rightarrow> ('w, 'p, 's) Service" where
  "add_middleware mw s =
     (case mw of
        None \<Rightarrow> s
      | Some m \<Rightarrow> s\<lparr>sv_router := map_option (\<lambda>r. r\<lparr>rt_middlewares := rt_middlewares r @ [m]\<rparr>) (sv_router s)\<rparr>)"

definition RegisterMiddleware ::
  "('w, 'p, 's) MiddlewareRegistration \<Rightarrow> ('w, 'p, 's) Service \<Rightarrow> unit build \<times> ('w, 'p, 's) Service" where
  "RegisterMiddleware cfg s =
     (if sv_router s = None then (Fails (Plain ''router is not initialised''), s)
      else (case mr_Middleware cfg of
              Some mw \<Rightarrow> (Returns (), add_middleware (Some mw) s)
            | None \<Rightarrow>
                (case mr_Builder cfg of
                   None \<Rightarrow> (Fails (Plain ''middleware registration requires Middleware or Builder''), s)
                 | Some builder \<Rightarrow>
                     (case builder s of
                        (Panics p, s1) \<Rightarrow> (Panics p, s1)
                      | (Fails err, s1) \<Rightarrow> (Fails err, s1)
                      | (Returns mw, s1) \<Rightarrow> (Returns (), add_middleware mw s1)))))"

fun register_all ::
  "('w, 'p, 's) MiddlewareRegistration list \<Rightarrow> ('w, 'p, 's) Service \<Rightarrow> unit build \<times> ('w, 'p, 's) Service" where
  "register_all [] s = (Returns (), s)"
| "register_all (reg # regs) s =
     (case RegisterMiddleware reg s of
        (Panics p, s1) \<Rightarrow> (Panics p, s1)
      | (Fails err, s1) \<Rightarrow>
          (let name = (if mr_Name reg = [] then ''anonymous_middleware'' else mr_Name reg)
           in (Panics (''failed to register middleware '' @ name @ '': '' @ err_text err), s1))
      | (Returns _, s1) \<Rightarrow> register_all regs s1)"

section \<open>The order of the chain\<close>

definition chain_of :: "('w, 'p, 's) Service \<Rightarrow> 'w middleware list" where
  "chain_of s = (case sv_router s of None \<Rightarrow> [] | Some r \<Rightarrow> rt_middlewares r)"

text \<open>Watermill runs the middlewares of a router so that the one added first is the outermost.\<close>

definition outermost_first :: "('w middleware list \<Rightarrow> 'w middleware) \<Rightarrow> bool" where
  "outermost_first run \<longleftrightarrow> (\<forall>mws h. run mws h = foldr (\<lambda>m h. m h) mws h)"

definition same_setup :: "('w, 'p, 's) Service \<Rightarrow> ('w, 'p, 's) Service \<Rightarrow> bool" where
  "same_setup s s' \<longleftrightarrow> sv_Conf s' = sv_Conf s \<and> sv_Logger s' = sv_Logger s \<and> sv_publisher s' = sv_publisher s
     \<and> sv_validator s' = sv_validator s \<and> sv_outbox s' = sv_outbox s \<and> map_option rt_handlers (sv_router s') = map_option rt_handlers (sv_router s)
     \<and> sv_handlers s' = sv_handlers s \<and> sv_protoRegistry s' = sv_protoRegistry s
     \<and> (\<exists>mws. chain_of s' = chain_of s @ mws)"

lemma same_setup_refl [simp]: "same_setup s s"
  by (simp add: same_setup_def)

lemma same_setup_trans [trans]: "same_setup a b \<Longrightarrow> same_setup b c \<Longrightarrow> same_setup a c"
  by (auto simp: same_setup_def)

lemma same_setup_add: "same_setup s (add_middleware mw s)"
  by (cases "sv_router s") (auto simp: same_setup_def add_middleware_def chain_of_def split: option.splits)

lemma same_setup_http: "same_setup s (snd (RegisterHTTPHandler port pattern s))"
  by (simp add: RegisterHTTPHandler_def same_setup_def chain_of_def Let_def)

lemma add_chain: "sv_router s \<noteq> None \<Longrightarrow> chain_of (add_middleware (Some m) s) = chain_of s @ [m]"
  by (auto simp: add_middleware_def chain_of_def)

text \<open>A registration whose builder keeps the setup, as all of the library's do.\<close>

definition setup_kept :: "('w, 'p, 's) MiddlewareRegistration \<Rightarrow> bool" where
  "setup_kept reg \<longleftrightarrow> (\<forall>builder s. mr_Builder reg = Some builder \<longrightarrow> same_setup s (snd (builder s)))"

lemma register_setup:
  assumes "setup_kept reg"
  shows "same_setup s (snd (RegisterMiddleware reg s))"
proof -
  have b: "same_setup s s1" if "mr_Builder reg = Some builder" "builder s = (r, s1)" for builder r s1
    using assms that unfolding setup_kept_def by (metis snd_conv)
  then have "same_setup s (add_middleware mw s1)" if "mr_Builder reg = Some builder" "builder s = (r, s1)" for builder r s1 mw
    using that same_setup_trans same_setup_add by blast
  with b show ?thesis
    by (auto simp: RegisterMiddleware_def same_setup_add split: option.splits prod.splits build.splits)
qed

lemma register_all_setup: "list_all setup_kept regs \<Longrightarrow> same_setup s (snd (register_all regs s))"
proof (induction regs arbitrary: s)
  case (Cons reg regs)
  then have k: "setup_kept reg" "\<And>s. same_setup s (snd (register_all regs s))" by auto
  have r: "same_setup s (snd (RegisterMiddleware reg s))" using k(1) by (rule register_setup)
  show ?case
  proof (cases "RegisterMiddleware reg s")
    case (Pair b s1)
    with r have "same_setup s s1" by simp
    with k(2) [of s1] show ?thesis using same_setup_trans by (auto simp: Pair Let_def split: build.splits)
  qed
qed simp

lemma metrics_setup: "same_setup s (snd (metrics_builder env conf s))"
proof -
  define s1 where "s1 = s\<lparr>sv_router := map_option (\<lambda>r. r\<lparr>rt_middlewares :=
                  rt_middlewares r @ env_PrometheusRouter env (PubSubSystem conf)\<rparr>) (sv_router s)\<rparr>"
  have s1: "same_setup s s1" by (cases "sv_router s") (auto simp: same_setup_def chain_of_def s1_def)
  then have "same_setup s (snd (RegisterHTTPHandler (MetricsPort conf) ''/metrics'' s1))"
    using same_setup_http same_setup_trans by blast
  with s1 show ?thesis
    by (auto simp: metrics_builder_def Let_def s1_def [symmetric] split: prod.splits build.splits)
qed

lemma defaults_keep_setup:
  "list_all setup_kept [OutboxMiddleware, TracerMiddleware env, MetricsMiddleware env, RetryMiddleware env zero_retry,
      PoisonQueueMiddleware env None, RecovererMiddleware env]"
  by (simp add: setup_kept_def registration_def OutboxMiddleware_def TracerMiddleware_def MetricsMiddleware_def
      RetryMiddleware_def PoisonQueueMiddleware_def RecovererMiddleware_def Let_def metrics_setup split: option.splits)

text \<open>A registration whose builder returns a middleware and leaves the service alone.\<close>

lemma register_simple:
  assumes "sv_router s \<noteq> None" "mr_Middleware reg = None" "mr_Builder reg = Some builder" "builder s = (Returns (Some m), s)"
  shows "register_all (reg # regs) s = register_all regs (add_middleware (Some m) s)"
  using assms by (cases "sv_router s") (simp_all add: RegisterMiddleware_def)

lemma protoValidate_cong:
  assumes "sv_validator a = sv_validator b" "sv_Logger a = sv_Logger b"
  shows "protoValidateMiddleware env registry a = protoValidateMiddleware env registry b"
  unfolding protoValidateMiddleware_def assms ..

lemma chain_head:
  assumes "register_all (CorrelationIDMiddleware env # LogMessagesMiddleware None # ProtoValidateMiddleware env registry # rest) s
      = (Returns (), s')" "list_all setup_kept rest" "sv_router s = Some r"
  shows "\<exists>l mws. sv_Logger s = Some l \<and> chain_of s'
    = chain_of s @ correlationIDMiddleware env # logMessagesMiddleware l # protoValidateMiddleware env registry s # mws"
proof -
  let ?s1 = "add_middleware (Some (correlationIDMiddleware env)) s"
  have n: "sv_router ?s1 \<noteq> None" "sv_Logger ?s1 = sv_Logger s" "chain_of ?s1 = chain_of s @ [correlationIDMiddleware env]"
    using assms(3) add_chain [of s] by (auto simp: add_middleware_def)
  have c: "register_all (CorrelationIDMiddleware env # X) s = register_all X ?s1" for X
    by (rule register_simple [where builder = "\<lambda>s. (Returns (Some (correlationIDMiddleware env)), s)"])
      (use assms(3) in \<open>simp_all add: CorrelationIDMiddleware_def registration_def\<close>)
  have e: "register_all (LogMessagesMiddleware None # ProtoValidateMiddleware env registry # rest) ?s1 = (Returns (), s')"
    using assms(1) by (simp only: c)
  obtain l where l: "sv_Logger s = Some l"
    using e n by (cases "sv_Logger s")
      (auto simp: LogMessagesMiddleware_def registration_def RegisterMiddleware_def Let_def split: if_splits)
  let ?s2 = "add_middleware (Some (logMessagesMiddleware l)) ?s1"
  have n2: "sv_router ?s2 \<noteq> None" "chain_of ?s2 = chain_of s @ [correlationIDMiddleware env, logMessagesMiddleware l]"
    "sv_validator ?s2 = sv_validator s" "sv_Logger ?s2 = sv_Logger s"
    using n add_chain [of ?s1] by (auto simp: add_middleware_def)
  let ?s3 = "add_middleware (Some (protoValidateMiddleware env registry ?s2)) ?s2"
  have g: "mr_Builder (LogMessagesMiddleware None) = Some (\<lambda>s. (case sv_Logger s of
      None \<Rightarrow> Fails (Plain ''log messages middleware requires a logger'') | Some l \<Rightarrow> Returns (Some (logMessagesMiddleware l)), s))"
    "mr_Middleware (LogMessagesMiddleware None) = None"
    by (simp_all add: LogMessagesMiddleware_def registration_def fun_eq_iff)
  have "register_all (LogMessagesMiddleware None # X) ?s1 = register_all X ?s2" for X
    by (rule register_simple [OF n(1) g(2) g(1)]) (simp add: n(2) l)
  moreover have "register_all (ProtoValidateMiddleware env registry # X) ?s2 = register_all X ?s3" for X
    by (rule register_simple [OF n2(1), where builder = "\<lambda>s. (Returns (Some (protoValidateMiddleware env registry s)), s)"])
      (simp_all add: ProtoValidateMiddleware_def registration_def)
  ultimately have "register_all rest ?s3 = (Returns (), s')" using e by simp
  with register_all_setup [OF assms(2), of ?s3] obtain mws where "chain_of s' = chain_of ?s3 @ mws" by (auto simp: same_setup_def)
  moreover have "chain_of ?s3 = chain_of ?s2 @ [protoValidateMiddleware env registry ?s2]" using n2(1) by (rule add_chain)
  moreover have "protoValidateMiddleware env registry ?s2 = protoValidateMiddleware env registry s"
    by (rule protoValidate_cong) (rule n2(3,4))+
  ultimately show ?thesis using l n2(2) by auto
qed

lemma default_chain_head:
  assumes "register_all (DefaultMiddlewares env registry) s = (Returns (), s')" "sv_router s = Some r"
  shows "\<exists>l mws. sv_Logger s = Some l \<and> chain_of s'
    = chain_of s @ correlationIDMiddleware env # logMessagesMiddleware l # protoValidateMiddleware env registry s # mws"
  by (rule chain_head [OF _ defaults_keep_setup assms(2)]) (use assms(1) in \<open>simp only: DefaultMiddlewares_def\<close>)

section \<open>Messages that are not valid\<close>

text \<open>What the validating middleware refuses a message for, if it does: the log text, the type and the error.\<close>

definition refusal ::
  "'p proto_lib \<Rightarrow> (string \<times> 'p) list \<Rightarrow> ('p \<Rightarrow> gerror option) \<Rightarrow> message \<Rightarrow> (string \<times> string \<times> gerror) option" where
  "refusal lib registry validate msg =
     (case map_of (Metadata msg) MetadataKeyEventSchema of
        None \<Rightarrow> None
      | Some t \<Rightarrow>
          (case map_of registry t of
             None \<Rightarrow> Some (''unknown event type'', t, Plain (''unknown event type: '' @ t))
           | Some prototype \<Rightarrow>
               (case pl_unmarshal lib (Payload msg) (pl_fresh lib prototype) of
                  Inl err \<Rightarrow> Some (''failed to unmarshal protobuf message'', t, err)
                | Inr p \<Rightarrow> map_option (\<lambda>err. (''failed to validate protobuf message'', t, err)) (validate p))))"

lemma protoValidate_refusal:
  assumes "sv_validator s = Some v" "refusal (env_proto env) (registry w) v msg = Some (text, t, err)"
  shows "protoValidateMiddleware env registry s h msg w = reject_unprocessable (sv_Logger s) text t err msg w"
  using assms by (auto simp: protoValidateMiddleware_def refusal_def split: option.splits sum.splits)

lemma protoValidate_passes:
  assumes "sv_validator s = Some v" "refusal (env_proto env) (registry w) v msg = None"
    "map_of (Metadata msg) MetadataKeyEventSchema = Some t"
  shows "protoValidateMiddleware env registry s h msg w = h msg w"
  using assms by (auto simp: protoValidateMiddleware_def refusal_def split: option.splits sum.splits)

lemma ensure_correlation_keeps:
  "refusal lib reg v (fst (ensure_correlation new_id msg w)) = refusal lib reg v msg"
  "Payload (fst (ensure_correlation new_id msg w)) = Payload msg"
  "UUID (fst (ensure_correlation new_id msg w)) = UUID msg"
proof -
  have m: "map_of (Metadata (fst (ensure_correlation new_id msg w))) MetadataKeyEventSchema = map_of (Metadata msg) MetadataKeyEventSchema"
    "Payload (fst (ensure_correlation new_id msg w)) = Payload msg" "UUID (fst (ensure_correlation new_id msg w)) = UUID msg"
    by (simp_all add: ensure_correlation_def split: option.splits prod.splits)
  then show "refusal lib reg v (fst (ensure_correlation new_id msg w)) = refusal lib reg v msg"
    "Payload (fst (ensure_correlation new_id msg w)) = Payload msg"
    "UUID (fst (ensure_correlation new_id msg w)) = UUID msg"
    by (simp_all only: refusal_def)
qed

text \<open>
  C33. Invalid messages never reach the poison queue. On a router that runs the default chain
  outermost first, a message that validation refuses (unknown type, payload that cannot be decoded, or
  value that is not valid) is answered with the \<open>UnprocessableEventError\<close> the poison queue's default
  filter waits for, but nothing happens besides a correlation id, one debug and one error log line:
  whatever the handler, the retry policy and the poison queue are, they are not called, since
  validation runs outside them, and the message goes back to the broker.
\<close>

theorem validation_bypasses_poison:
  assumes "register_all (DefaultMiddlewares env registry) s = (Returns (), s')" "sv_router s = Some r" "rt_middlewares r = []"
    "outermost_first run" "sv_validator s = Some v"
    "\<forall>w. refusal (env_proto env) (registry w) v msg = Some (text, t, err)"
  shows "\<exists>l. sv_Logger s = Some l \<and> (\<forall>h w. run (chain_of s') h msg w =
    (case ensure_correlation (env_new_id env) msg w of (msg1, w1) \<Rightarrow>
       (Inr ([], Some (UnprocessableEventError (Payload msg) err)),
        lg_Error l text err [(''event_message_schema'', AStr t)]
          (lg_Debug l ''Processing message''
             [(''message_uuid'', AStr (UUID msg)), (''payload'', AStr (Payload msg)), (''metadata'', metadata_any (Metadata msg1))] w1))))
    \<and> default_poison_filter (UnprocessableEventError (Payload msg) err)"
proof -
  obtain l mws where c: "sv_Logger s = Some l"
    "chain_of s' = correlationIDMiddleware env # logMessagesMiddleware l # protoValidateMiddleware env registry s # mws"
    using default_chain_head [OF assms(1,2)] assms(2,3) by (auto simp: chain_of_def)
  have "run (chain_of s') h msg w =
    (case ensure_correlation (env_new_id env) msg w of (msg1, w1) \<Rightarrow>
       (Inr ([], Some (UnprocessableEventError (Payload msg) err)),
        lg_Error l text err [(''event_message_schema'', AStr t)]
          (lg_Debug l ''Processing message''
             [(''message_uuid'', AStr (UUID msg)), (''payload'', AStr (Payload msg)), (''metadata'', metadata_any (Metadata msg1))] w1)))"
    for h w
  proof -
    obtain msg1 w1 where e: "ensure_correlation (env_new_id env) msg w = (msg1, w1)" by (cases "ensure_correlation (env_new_id env) msg w")
    then have k: "refusal (env_proto env) (registry w') v msg1 = Some (text, t, err)" "Payload msg1 = Payload msg" "UUID msg1 = UUID msg" for w'
      using assms(6) ensure_correlation_keeps(1) [of "env_proto env" "registry w'" v "env_new_id env" msg w]
        ensure_correlation_keeps(2,3) [of "env_new_id env" msg w] by auto
    from protoValidate_refusal [OF assms(5) k(1)] show ?thesis
      using assms(4) by (simp add: outermost_first_def c correlationIDMiddleware_def logMessagesMiddleware_def e k(2,3)
          reject_unprocessable_def log_error_def)
  qed
  with c(1) show ?thesis by (auto simp: default_poison_filter_def)
qed

text \<open>The default filter looks at the error itself, the classifier of the statistics into it.\<close>

lemma default_filter_misses_wrapped:
  "\<not> default_poison_filter (Wrapped text (UnprocessableEventError m e))
   \<and> defaultErrorClassifier (Some (Wrapped text (UnprocessableEventError m e))) = ErrorCategoryValidation"
proof -
  have "errors_as_unprocessable (UnprocessableEventError m e)"
    by (simp add: errors_as_unprocessable_def) (subst nodes.simps, simp)
  then have "defaultErrorClassifier (Some (UnprocessableEventError m e)) = ErrorCategoryValidation"
    by (simp add: defaultErrorClassifier_def)
  then show ?thesis by (simp add: default_poison_filter_def default_classifier_wrapped)
qed

text \<open>
  C34. With a validator the default chain refuses what JSON handlers emit. Every message a JSON handler
  emits names its Go type as schema, and unless a protobuf type is registered under that name, the
  default chain of the service that consumes it answers it with \<open>unknown event type\<close> and never calls
  a handler.
\<close>

theorem json_output_refused:
  assumes "BuildJSONHandler lib new_id (Some handler) = Inr producer" "producer m0 w0 = (Inr (msgs, None), w0')" "msg \<in> set msgs"
    "register_all (DefaultMiddlewares env registry) s = (Returns (), s')" "sv_router s = Some r" "rt_middlewares r = []"
    "outermost_first run" "sv_validator s = Some v" "\<forall>w out. map_of (registry w) (jl_type_name lib out) = None"
  shows "\<exists>out. fst (run (chain_of s') h msg w) = Inr ([], Some (UnprocessableEventError (Payload msg)
    (Plain (''unknown event type: '' @ jl_type_name lib out))))"
proof -
  from assms(1,2) have "json_handle lib new_id (jl_new lib) handler m0 w0 = (Inr (msgs, None), w0')"
    by (auto simp: BuildJSONHandler_def jsonPrototypeFactory_def split: go_type.splits)
  then obtain outgoing left where o: "list_all2 (emits_json lib left) outgoing msgs"
    by (cases rule: json_handle_cases) (auto dest: convert_json_emits)
  then obtain out where e: "emits_json lib left out msg" using assms(3) by (auto simp: list_all2_conv_all_nth in_set_conv_nth)
  let ?t = "jl_type_name lib (jo_Message out)"
  from e have "map_of (Metadata msg) MetadataKeyEventSchema = Some ?t" by (simp add: emits_json_def)
  with assms(9) have f: "refusal (env_proto env) (registry w) v msg = Some (''unknown event type'', ?t, Plain (''unknown event type: '' @ ?t))" for w
    by (simp add: refusal_def)
  obtain l mws where c: "chain_of s' = correlationIDMiddleware env # logMessagesMiddleware l # protoValidateMiddleware env registry s # mws"
    using default_chain_head [OF assms(4,5)] assms(5,6) by (auto simp: chain_of_def)
  obtain msg1 w1 where g: "ensure_correlation (env_new_id env) msg w = (msg1, w1)" by (cases "ensure_correlation (env_new_id env) msg w")
  then have k: "refusal (env_proto env) (registry w') v msg1 = Some (''unknown event type'', ?t, Plain (''unknown event type: '' @ ?t))"
    "Payload msg1 = Payload msg" for w'
    using f ensure_correlation_keeps(1) [of "env_proto env" "registry w'" v "env_new_id env" msg w]
        ensure_correlation_keeps(2,3) [of "env_new_id env" msg w] by auto
  have "fst (run (chain_of s') h msg w) = Inr ([], Some (UnprocessableEventError (Payload msg) (Plain (''unknown event type: '' @ ?t))))"
    using assms(7) protoValidate_refusal [OF assms(8) k(1)]
    by (simp add: outermost_first_def c correlationIDMiddleware_def logMessagesMiddleware_def g reject_unprocessable_def k(2))
  then show ?thesis by blast
qed

section \<open>The outbox\<close>

definition outbox_entry :: "message \<Rightarrow> string \<times> string \<times> string" where
  "outbox_entry out =
     (let t = mget (Metadata out) ''event_message_schema'' in (if t = [] then ''unknown_event'' else t, UUID out, Payload out))"

text \<open>A store that keeps its entries in the world and refuses the identifiers that \<open>full\<close> gives an error for.\<close>

definition keeping_store ::
  "(string \<Rightarrow> gerror option) \<Rightarrow> string \<Rightarrow> string \<Rightarrow> string \<Rightarrow> (string \<times> string \<times> string) list \<times> 'v
    \<Rightarrow> gerror option \<times> (string \<times> string \<times> string) list \<times> 'v" where
  "keeping_store full t uuid payload = (\<lambda>(es, v).
     (case full uuid of Some err \<Rightarrow> (Some err, es, v) | None \<Rightarrow> (None, es @ [(t, uuid, payload)], v)))"

lemma store_outgoing_keeps:
  "store_outgoing (keeping_store full) outs (es, v) =
     (let stored = takeWhile (\<lambda>out. full (UUID out) = None) outs
      in (if stored = outs then None else full (UUID (outs ! length stored)), es @ map outbox_entry stored, v))"
proof (induction outs arbitrary: es)
  case Nil
  then show ?case by simp
next
  case (Cons out outs)
  then show ?case
    by (cases "full (UUID out)") (simp_all add: keeping_store_def outbox_entry_def Let_def)
qed

text \<open>
  C35. The outbox records before it releases. With an outbox, a handler's messages are handed on only
  after every one of them is stored, in order, with its schema (\<open>unknown_event\<close> when it has none),
  identifier and payload; when the store refuses one, no message is handed on and the error is
  returned, but the entries of the messages before it stay; an error or a panic of the handler
  stores nothing.
\<close>

theorem outbox_stores_before_release:
  fixes h :: "((string \<times> string \<times> string) list \<times> 'v) raw_handler"
  assumes "sv_outbox s = Some (keeping_store full)" "h msg w = (r, es, v)"
  shows "outboxMiddleware s h msg w =
    (case r of
       Inl panic \<Rightarrow> (Inl panic, es, v)
     | Inr (outs, Some err) \<Rightarrow> (Inr ([], Some err), es, v)
     | Inr (outs, None) \<Rightarrow>
         (let stored = takeWhile (\<lambda>out. full (UUID out) = None) outs
          in (if stored = outs then Inr (outs, None) else Inr ([], full (UUID (outs ! length stored))),
              es @ map outbox_entry stored, v)))"
proof -
  consider panic where "r = Inl panic" | outs err where "r = Inr (outs, Some err)" | outs where "r = Inr (outs, None)"
    by (metis not_None_eq surj_pair sum.exhaust)
  then show ?thesis
  proof cases
    case 3
    let ?stored = "takeWhile (\<lambda>out. full (UUID out) = None) outs"
    show ?thesis
    proof (cases "?stored = outs")
      case True
      then show ?thesis using assms 3 by (simp add: outboxMiddleware_def store_outgoing_keeps Let_def)
    next
      case False
      then have "length ?stored < length outs"
        by (metis length_takeWhile_le le_neq_implies_less takeWhile_eq_take take_all_iff order_refl)
      from nth_length_takeWhile [OF this] obtain err where e: "full (UUID (outs ! length ?stored)) = Some err" by auto
      have "outs \<noteq> []" using False by auto
      with False e show ?thesis using assms 3
        by (simp add: outboxMiddleware_def store_outgoing_keeps Let_def del: takeWhile_eq_all_conv)
    qed
  qed (use assms in \<open>simp_all add: outboxMiddleware_def\<close>)
qed

section \<open>Retrying\<close>

text \<open>
  The retry settings are completed, and the default chain ignores the configured ones. Completing
  them keeps every positive setting, makes the others 5 retries, one second and sixteen seconds, and
  is idempotent; the middleware built for any service and configuration from the registration of the
  default chain retries 5 times between 1 and 16 seconds on every error.
\<close>

theorem retry_settings:
  "let d = withDefaults_retry cfg
   in MaxRetries d = (if 0 < MaxRetries cfg then MaxRetries cfg else 5)
    \<and> InitialInterval d = (if 0 < InitialInterval cfg then InitialInterval cfg else second)
    \<and> MaxInterval d = (if 0 < MaxInterval cfg then MaxInterval cfg else 16 * second)
    \<and> RetryIf d = RetryIf cfg \<and> withDefaults_retry d = d
    \<and> DefaultMiddlewares env registry ! 6
      = registration ''retry'' (\<lambda>s. (Returns (Some (env_Retry env 5 second (16 * second) (\<lambda>_. True))), s))"
  by (simp add: withDefaults_retry_def Let_def DefaultMiddlewares_def RetryMiddleware_def retryMiddlewareWithConfig_def zero_retry_def)

section \<open>A sample service\<close>

text \<open>The world is the list of what was logged, published or handled.\<close>

definition list_logger :: "string list logger" where
  "list_logger =
     \<lparr>lg_Debug = (\<lambda>t _ w. w @ [t]), lg_Info = (\<lambda>t _ w. w @ [t]), lg_Error = (\<lambda>t _ _ w. w @ [t])\<rparr>"

definition list_publisher :: "string list publish_all" where
  "list_publisher topic msgs w = (None, w @ [''published to '' @ topic])"

definition sample_env :: "(string list, string, nat) env" where
  "sample_env =
     \<lparr>env_new_id = (\<lambda>w. (''id'', w)), env_proto = text_lib, env_Recoverer = (\<lambda>h. h),
      env_PoisonQueueWithFilter = (\<lambda>publish topic accept.
        if topic = [] then Inl (Plain ''poison queue topic is empty'')
        else Inr (\<lambda>h msg w. case h msg w of
          (Inr (outs, Some e), w') \<Rightarrow>
            if accept e then (Inr ([], None), snd (publish topic [msg] w')) else (Inr (outs, Some e), w')
        | other \<Rightarrow> other)),
      env_Retry = (\<lambda>n i m f h. h), env_PrometheusMiddleware = (\<lambda>_ h. h), env_PrometheusRouter = (\<lambda>_. []),
      env_span_start = (\<lambda>_ _ w. (0, w)), env_span_set = (\<lambda>_ _ w. w), env_span_end = (\<lambda>_ w. w)\<rparr>"

definition sample_service :: "(string list, string, nat) Service" where
  "sample_service =
     \<lparr>sv_Conf = Some (zero_config\<lparr>PoisonQueue := ''poison''\<rparr>), sv_Logger = Some list_logger,
      sv_publisher = Some list_publisher, sv_subscriber = None, sv_router = Some \<lparr>rt_middlewares = [], rt_handlers = []\<rparr>,
      sv_validator = Some (\<lambda>_. None), sv_outbox = None, sv_protoRegistry = [], sv_handlers = [], sv_httpServers = [],
      sv_errorClassifier = None\<rparr>"

definition typed_message :: message where
  "typed_message = \<lparr>UUID = ''u'', Metadata = [(''event_message_schema'', ''*main.Text'')], Payload = ''hi''\<rparr>"

definition right_fold :: "'w middleware list \<Rightarrow> 'w middleware" where
  "right_fold mws h = foldr (\<lambda>m h. m h) mws h"

lemma outermost_right_fold: "outermost_first right_fold"
  by (simp add: outermost_first_def right_fold_def)

lemma sample_registers: "\<exists>s'. register_all (DefaultMiddlewares sample_env (\<lambda>_. [])) sample_service = (Returns (), s')"
  by (simp add: DefaultMiddlewares_def CorrelationIDMiddleware_def LogMessagesMiddleware_def ProtoValidateMiddleware_def
      OutboxMiddleware_def TracerMiddleware_def MetricsMiddleware_def RetryMiddleware_def PoisonQueueMiddleware_def
      RecovererMiddleware_def registration_def RegisterMiddleware_def sample_service_def add_middleware_def Let_def
      poisonMiddlewareWithFilter_def sample_env_def zero_config_def)

lemma validation_bypasses_poison_witness:
  "\<exists>s'. register_all (DefaultMiddlewares sample_env (\<lambda>_. [])) sample_service = (Returns (), s')
     \<and> right_fold (chain_of s') (\<lambda>msg w. (Inr ([], None), w @ [''handled''])) typed_message []
       = (Inr ([], Some (UnprocessableEventError ''hi'' (Plain ''unknown event type: *main.Text''))),
          [''Processing message'', ''unknown event type''])"
proof -
  obtain s' where s': "register_all (DefaultMiddlewares sample_env (\<lambda>_. [])) sample_service = (Returns (), s')"
    using sample_registers by blast
  have r: "sv_router sample_service = Some \<lparr>rt_middlewares = [], rt_handlers = []\<rparr>"
    "sv_validator sample_service = Some (\<lambda>_. None)"
    by (simp_all add: sample_service_def)
  have f: "\<forall>w. refusal (env_proto sample_env) ((\<lambda>_. []) (w :: string list)) (\<lambda>_. None) typed_message
      = Some (''unknown event type'', ''*main.Text'', Plain ''unknown event type: *main.Text'')"
    by (simp add: refusal_def typed_message_def MetadataKeyEventSchema_def)
  from validation_bypasses_poison [OF s' r(1) _ outermost_right_fold r(2) f]
  have "right_fold (chain_of s') (\<lambda>msg w. (Inr ([], None), w @ [''handled''])) typed_message []
       = (Inr ([], Some (UnprocessableEventError ''hi'' (Plain ''unknown event type: *main.Text''))),
          [''Processing message'', ''unknown event type''])"
    by (auto simp: sample_service_def list_logger_def sample_env_def ensure_correlation_def typed_message_def
        MetadataKeyCorrelationID_def)
  with s' show ?thesis by blast
qed

lemma json_output_refused_witness:
  "\<exists>s' out. register_all (DefaultMiddlewares sample_env (\<lambda>_. [])) sample_service = (Returns (), s')
     \<and> fst (json_handle text_json count_id [] echo_json text_message 7) = Inr ([out], None)
     \<and> fst (right_fold (chain_of s') (\<lambda>msg w. (Inr ([], None), w)) out [])
       = Inr ([], Some (UnprocessableEventError (Payload out) (Plain ''unknown event type: *main.Text'')))"
proof -
  obtain s' where s': "register_all (DefaultMiddlewares sample_env (\<lambda>_. [])) sample_service = (Returns (), s')"
    using sample_registers by blast
  have r: "sv_router sample_service = Some \<lparr>rt_middlewares = [], rt_handlers = []\<rparr>"
    "sv_validator sample_service = Some (\<lambda>_. None)"
    by (simp_all add: sample_service_def)
  have b: "BuildJSONHandler text_json count_id (Some echo_json) = Inr (json_handle text_json count_id [] echo_json)"
    by (simp add: BuildJSONHandler_def jsonPrototypeFactory_def text_json_def)
  obtain out where e: "json_handle text_json count_id [] echo_json text_message 7 = (Inr ([out], None), 8)"
    by (simp add: json_handle_def text_json_def echo_json_def text_message_def count_id_def raw_result_def)
  from json_output_refused [OF b e _ s' r(1) _ outermost_right_fold r(2), of out "\<lambda>msg w. (Inr ([], None), w)" "[]"] s' e
  show ?thesis by (auto simp: text_json_def)
qed

definition outbox_service :: "((string \<times> string \<times> string) list \<times> nat, string, nat) Service" where
  "outbox_service =
     \<lparr>sv_Conf = None, sv_Logger = None, sv_publisher = None, sv_subscriber = None, sv_router = None, sv_validator = None,
      sv_outbox = Some (keeping_store (\<lambda>u. if u = ''u2'' then Some (Plain ''full'') else None)),
      sv_protoRegistry = [], sv_handlers = [], sv_httpServers = [], sv_errorClassifier = None\<rparr>"

lemma outbox_stores_before_release_witness:
  "outboxMiddleware outbox_service
     (\<lambda>msg w. (Inr ([NewMessage ''u1'' ''a'', NewMessage ''u2'' ''b''], None), w)) typed_message ([], 0)
   = (Inr ([], Some (Plain ''full'')), [(''unknown_event'', ''u1'', ''a'')], 0)"
proof -
  have s: "sv_outbox outbox_service = Some (keeping_store (\<lambda>u. if u = ''u2'' then Some (Plain ''full'') else None))"
    by (simp add: outbox_service_def)
  show ?thesis
    using outbox_stores_before_release [OF s, of "\<lambda>msg w. (Inr ([NewMessage ''u1'' ''a'', NewMessage ''u2'' ''b''], None), w)"
        typed_message "([], 0)" "Inr ([NewMessage ''u1'' ''a'', NewMessage ''u2'' ''b''], None)" "[]" 0]
    by (simp add: NewMessage_def outbox_entry_def)
qed

end
