(* ===== verification/Rt_Service.thy ===== *)
theory Rt_Service
  imports Rt_Middleware
begin

text \<open>
  Building a service and registering handlers with it (\<open>internal/runtime/service.go\<close>,
  \<open>registration.go\<close>, \<open>registration_json.go\<close>, \<open>registration_proto.go\<close>, \<open>webui.go\<close>).

  Parameters: the transport factory, whether Watermill's router can be made and whether it takes a
  handler under a name, the text of a configuration, and where the world keeps the statistics of the
  handlers. A handler's statistics are read and written around each of its invocations, one at a
  time. Goroutines, the context and the HTTP servers themselves are left out: running and stopping
  a service keeps only the list of servers.
\<close>

section \<open>Making a service\<close>

type_synonym ('w, 's) transport = "'w publish_all option \<times> 's option"

record ('w, 'p, 's) ServiceDependencies =
  dp_Outbox :: "(string \<Rightarrow> string \<Rightarrow> string \<Rightarrow> 'w \<Rightarrow> gerror option \<times> 'w) option"
  dp_Validator :: "('p \<Rightarrow> gerror option) option"
  dp_Middlewares :: "('w, 'p, 's) MiddlewareRegistration list"
  dp_DisableDefaultMiddlewares :: bool
  dp_TransportFactory :: "(config \<Rightarrow> gerror + ('w, 's) transport) option"
  dp_ErrorClassifier :: "classifier option"

definition registerConfiguredMiddlewares ::
  "('w, 'p, 'span) env \<Rightarrow> ('w \<Rightarrow> (string \<times> 'p) list) \<Rightarrow> ('w, 'p, 's) ServiceDependencies \<Rightarrow> ('w, 'p, 's) Service
    \<Rightarrow> unit build \<times> ('w, 'p, 's) Service" where
  "registerConfiguredMiddlewares env registry deps s =
     (let defaults = (if dp_DisableDefaultMiddlewares deps then [] else DefaultMiddlewares env registry)
      in register_all (defaults @ dp_Middlewares deps) s)"

text \<open>The service before its transport is built.\<close>

definition bare_service :: "config \<Rightarrow> 'w logger \<Rightarrow> ('w, 'p, 's) ServiceDependencies \<Rightarrow> ('w, 'p, 's) Service" where
  "bare_service conf logger deps =
     \<lparr>sv_Conf = Some conf, sv_Logger = Some logger, sv_publisher = None, sv_subscriber = None, sv_router = None,
      sv_validator = dp_Validator deps, sv_outbox = dp_Outbox deps, sv_protoRegistry = [], sv_handlers = [],
      sv_httpServers = [],
      sv_errorClassifier = (case dp_ErrorClassifier deps of Some c \<Rightarrow> Some c | None \<Rightarrow> Some defaultErrorClassifier)\<rparr>"

text \<open>
  \<open>default_registry\<close> is the registry of the transports the program has registered; \<open>router_error\<close>
  the error Watermill returns instead of a router, if it does.
\<close>

definition TryNewService ::
  "('w, 'p, 'span) env \<Rightarrow> ('w \<Rightarrow> (string \<times> 'p) list) \<Rightarrow> ('w, 's) transport registry \<Rightarrow> gerror option \<Rightarrow> (config \<Rightarrow> string)
    \<Rightarrow> config option \<Rightarrow> 'w logger option \<Rightarrow> ('w, 'p, 's) ServiceDependencies \<Rightarrow> 'w
    \<Rightarrow> ('w, 'p, 's) Service build \<times> 'w" where
  "TryNewService env registry default_registry router_error conf_text conf logger deps w =
     (case conf of
        None \<Rightarrow> (Fails (Sentinel ErrConfigRequired), w)
      | Some conf \<Rightarrow>
          (case logger of
             None \<Rightarrow> (Fails (Sentinel ErrLoggerRequired), w)
           | Some l \<Rightarrow>
               (case NewConfigValidationError (Config_Validate conf) of
                  Some err \<Rightarrow> (Fails err, w)
                | None \<Rightarrow>
                    (let w1 = lg_Info l ''Creating event service''
                                [(''pubsub_system'', AStr (PubSubSystem conf)), (''config'', AOther None (conf_text conf))] w;
                         s = bare_service conf l deps;
                         build = (case dp_TransportFactory deps of
                                    None \<Rightarrow> defaultFactory_Build default_registry (Some conf)
                                  | Some factory \<Rightarrow> factory conf)
                     in case build of
                          Inl err \<Rightarrow> (Fails (Wrapped (''failed to build transport: '' @ err_text err) err), w1)
                        | Inr (publisher, subscriber) \<Rightarrow>
                            (case router_error of
                               Some err \<Rightarrow> (Fails (Wrapped (''failed to create router: '' @ err_text err) err), w1)
                             | None \<Rightarrow>
                                 (case registerConfiguredMiddlewares env registry deps
                                         (s\<lparr>sv_publisher := publisher, sv_subscriber := subscriber,
                                            sv_router := Some \<lparr>rt_middlewares = [], rt_handlers = []\<rparr>\<rparr>) of
                                    (Returns _, s') \<Rightarrow> (Returns s', w1)
                                  | (Fails err, s') \<Rightarrow> (Fails err, w1)
                                  | (Panics p, s') \<Rightarrow> (Panics p, w1)))))))"

definition NewService ::
  "('w, 'p, 'span) env \<Rightarrow> ('w \<Rightarrow> (string \<times> 'p) list) \<Rightarrow> ('w, 's) transport registry \<Rightarrow> gerror option \<Rightarrow> (config \<Rightarrow> string)
    \<Rightarrow> config option \<Rightarrow> 'w logger option \<Rightarrow> ('w, 'p, 's) ServiceDependencies \<Rightarrow> 'w
    \<Rightarrow> ('w, 'p, 's) Service build \<times> 'w" where
  "NewService env registry default_registry router_error conf_text conf logger deps w =
     (case TryNewService env registry default_registry router_error conf_text conf logger deps w of
        (Fails err, w') \<Rightarrow> (Panics (err_text err), w')
      | other \<Rightarrow> other)"

section \<open>Registering handlers\<close>

record ('w, 'p, 's) handlerRegistration =
  hr_Name :: string
  hr_ConsumeQueue :: string
  hr_Subscriber :: "'s option"
  hr_PublishQueue :: string
  hr_Publisher :: "'w publish_all option"
  hr_Handler :: "'w raw_handler option"
  hr_consumeMessageType :: "'p option"

definition registerProtoType :: "'p proto_lib \<Rightarrow> 'p option \<Rightarrow> ('w, 'p, 's) Service \<Rightarrow> ('w, 'p, 's) Service" where
  "registerProtoType lib msg s =
     (case msg of None \<Rightarrow> s | Some p \<Rightarrow> s\<lparr>sv_protoRegistry := mput (pl_type lib p) p (sv_protoRegistry s)\<rparr>)"

definition RegisterProtoMessage :: "'p proto_lib \<Rightarrow> 'p option \<Rightarrow> ('w, 'p, 's) Service \<Rightarrow> ('w, 'p, 's) Service" where
  "RegisterProtoMessage lib msg s = registerProtoType lib msg s"

definition getErrorClassifier :: "('w, 'p, 's) Service \<Rightarrow> classifier" where
  "getErrorClassifier s = (case sv_errorClassifier s of None \<Rightarrow> defaultErrorClassifier | Some c \<Rightarrow> c)"

text \<open>Where the statistics of the handlers are, by number of the handler, and what is read from the world.\<close>

record 'w stats_store =
  st_get :: "nat \<Rightarrow> 'w \<Rightarrow> HandlerStats"
  st_put :: "nat \<Rightarrow> HandlerStats \<Rightarrow> 'w \<Rightarrow> 'w"
  st_clock :: "'w \<Rightarrow> int"
  st_sample :: "'w \<Rightarrow> ResourceUsage option"

definition counted :: "'w stats_store \<Rightarrow> classifier \<Rightarrow> nat \<Rightarrow> 'w raw_handler \<Rightarrow> 'w raw_handler" where
  "counted st cl i handler msg w =
     (case wrapHandlerWithStats (st_clock st) (st_sample st) handler (Some cl) msg (st_get st i w, w) of
        (r, h, w') \<Rightarrow> (r, st_put st i h w'))"

definition handler_name :: "'p proto_lib \<Rightarrow> ('w, 'p, 's) handlerRegistration \<Rightarrow> string" where
  "handler_name lib cfg =
     (case hr_consumeMessageType cfg of
        None \<Rightarrow> hr_Name cfg
      | Some p \<Rightarrow> if hr_Name cfg = [] then pl_type lib p @ ''-Handler'' else hr_Name cfg)"

text \<open>\<open>refuses\<close> is the panic of Watermill's \<open>AddHandler\<close> for a new name among those taken, if there is one.\<close>

definition registerHandler ::
  "'p proto_lib \<Rightarrow> 'w stats_store \<Rightarrow> (string list \<Rightarrow> string \<Rightarrow> string option) \<Rightarrow> ('w, 'p, 's) handlerRegistration
    \<Rightarrow> ('w, 'p, 's) Service \<times> 'w \<Rightarrow> unit build \<times> ('w, 'p, 's) Service \<times> 'w" where
  "registerHandler lib st refuses cfg = (\<lambda>(s, w).
     (case hr_Handler cfg of
        None \<Rightarrow> (Fails (Sentinel ErrHandlerRequired), s, w)
      | Some handler \<Rightarrow>
          if hr_ConsumeQueue cfg = [] then (Fails (Sentinel ErrConsumeQueueRequired), s, w)
          else
            (let subscriber = (if hr_Subscriber cfg = None then sv_subscriber s else hr_Subscriber cfg);
                 publisher = (case hr_Publisher cfg of None \<Rightarrow> sv_publisher s | Some p \<Rightarrow> Some p);
                 s = registerProtoType lib (hr_consumeMessageType cfg) s;
                 name = handler_name lib cfg
             in if name = [] then (Fails (Sentinel ErrHandlerNameRequired), s, w)
                else
                  (let i = length (sv_handlers s);
                       w = st_put st i (newHandlerStats name (hr_ConsumeQueue cfg) (hr_PublishQueue cfg)) w;
                       s = s\<lparr>sv_handlers := sv_handlers s @
                             [\<lparr>hi_Name = name, hi_ConsumeQueue = hr_ConsumeQueue cfg, hi_PublishQueue = hr_PublishQueue cfg\<rparr>]\<rparr>;
                       wrapped = counted st (getErrorClassifier s) i handler
                   in case sv_router s of
                        None \<Rightarrow> (Panics ''nil pointer dereference'', s, w)
                      | Some r \<Rightarrow>
                          (case refuses (map rh_name (rt_handlers r)) name of
                             Some panic \<Rightarrow> (Panics panic, s, w)
                           | None \<Rightarrow>
                               (Returns (),
                                s\<lparr>sv_router := Some (r\<lparr>rt_handlers := rt_handlers r @
                                    [\<lparr>rh_name = name, rh_consume = hr_ConsumeQueue cfg, rh_subscriber = subscriber,
                                      rh_publish = hr_PublishQueue cfg, rh_publisher = publisher, rh_handler = wrapped\<rparr>]\<rparr>)\<rparr>,
                                w))))))"

record ('w, 's) MessageHandlerRegistration =
  mh_Name :: string
  mh_ConsumeQueue :: string
  mh_PublishQueue :: string
  mh_Handler :: "'w raw_handler option"
  mh_Subscriber :: "'s option"
  mh_Publisher :: "'w publish_all option"

text \<open>The calls that take a service that may be nil change the service they are given.\<close>

definition with_service ::
  "(('w, 'p, 's) Service \<times> 'w \<Rightarrow> unit build \<times> ('w, 'p, 's) Service \<times> 'w) \<Rightarrow> ('w, 'p, 's) Service option \<times> 'w
    \<Rightarrow> unit build \<times> ('w, 'p, 's) Service option \<times> 'w" where
  "with_service f = (\<lambda>(svc, w).
     (case svc of
        None \<Rightarrow> (Fails (Sentinel ErrServiceRequired), None, w)
      | Some s \<Rightarrow> (case f (s, w) of (r, s', w') \<Rightarrow> (r, Some s', w'))))"

definition RegisterMessageHandler ::
  "'p proto_lib \<Rightarrow> 'w stats_store \<Rightarrow> (string list \<Rightarrow> string \<Rightarrow> string option) \<Rightarrow> ('w, 's) MessageHandlerRegistration
    \<Rightarrow> ('w, 'p, 's) Service option \<times> 'w \<Rightarrow> unit build \<times> ('w, 'p, 's) Service option \<times> 'w" where
  "RegisterMessageHandler lib st refuses cfg =
     with_service (registerHandler lib st refuses
       \<lparr>hr_Name = mh_Name cfg, hr_ConsumeQueue = mh_ConsumeQueue cfg, hr_Subscriber = mh_Subscriber cfg,
        hr_PublishQueue = mh_PublishQueue cfg, hr_Publisher = mh_Publisher cfg, hr_Handler = mh_Handler cfg,
        hr_consumeMessageType = None\<rparr>)"

record ('t, 'o, 'w) JSONHandlerRegistration =
  jr_Name :: string
  jr_ConsumeQueue :: string
  jr_PublishQueue :: string
  jr_Handler :: "('t JSONMessageContext, 'o JSONMessageOutput, 'w) typed_handler option"

definition typed_registration ::
  "string \<Rightarrow> string \<Rightarrow> string \<Rightarrow> 'w raw_handler \<Rightarrow> 'p option \<Rightarrow> ('w, 'p, 's) handlerRegistration" where
  "typed_registration name consume publish wrapped typ =
     \<lparr>hr_Name = name, hr_ConsumeQueue = consume, hr_Subscriber = None, hr_PublishQueue = publish, hr_Publisher = None,
      hr_Handler = Some wrapped, hr_consumeMessageType = typ\<rparr>"

definition RegisterJSONHandler ::
  "('t, 'o) json_lib \<Rightarrow> 'w new_id \<Rightarrow> 'p proto_lib \<Rightarrow> 'w stats_store \<Rightarrow> (string list \<Rightarrow> string \<Rightarrow> string option)
    \<Rightarrow> ('t, 'o, 'w) JSONHandlerRegistration
    \<Rightarrow> ('w, 'p, 's) Service option \<times> 'w \<Rightarrow> unit build \<times> ('w, 'p, 's) Service option \<times> 'w" where
  "RegisterJSONHandler jlib new_id lib st refuses cfg =
     with_service (\<lambda>(s, w).
       (case BuildJSONHandler jlib new_id (jr_Handler cfg) of
          Inl err \<Rightarrow> (Fails err, s, w)
        | Inr wrapped \<Rightarrow>
            registerHandler lib st refuses
              (typed_registration (jr_Name cfg) (jr_ConsumeQueue cfg) (jr_PublishQueue cfg) wrapped None) (s, w)))"

record ('p, 'w) ProtoHandlerRegistration =
  pr_Name :: string
  pr_ConsumeQueue :: string
  pr_PublishQueue :: string
  pr_Handler :: "('p ProtoMessageContext, 'p ProtoMessageOutput, 'w) typed_handler option"
  pr_Options :: "'p handler_option option list"
  pr_ValidateOutgoing :: bool

text \<open>\<open>typ\<close> and \<open>is_T\<close> describe the type parameter, \<open>zero\<close> its zero value.\<close>

definition RegisterProtoHandler ::
  "go_type \<Rightarrow> ('p \<Rightarrow> bool) \<Rightarrow> 'p option \<Rightarrow> 'w new_id \<Rightarrow> 'p proto_lib \<Rightarrow> 'w stats_store
    \<Rightarrow> (string list \<Rightarrow> string \<Rightarrow> string option) \<Rightarrow> ('p, 'w) ProtoHandlerRegistration
    \<Rightarrow> ('w, 'p, 's) Service option \<times> 'w \<Rightarrow> unit build \<times> ('w, 'p, 's) Service option \<times> 'w" where
  "RegisterProtoHandler typ is_T zero new_id lib st refuses cfg =
     with_service (\<lambda>(s, w).
       (case EnsureProtoPrototype lib is_T typ zero of
          Inl err \<Rightarrow> (Fails err, s, w)
        | Inr prototype \<Rightarrow>
            (let additional = ApplyProtoHandlerOptions (pr_Options cfg);
                 validate = (if pr_ValidateOutgoing cfg then sv_validator s else None)
             in case BuildProtoHandler lib is_T (Some prototype) (pr_Handler cfg) validate (Some (NewMessageFromProto lib new_id)) of
                  Inl err \<Rightarrow> (Fails err, s, w)
                | Inr wrapped \<Rightarrow>
                    (case registerHandler lib st refuses
                            (typed_registration (pr_Name cfg) (pr_ConsumeQueue cfg) (pr_PublishQueue cfg) wrapped (Some prototype)) (s, w) of
                       (Returns _, s1, w1) \<Rightarrow> (Returns (), fold (registerProtoType lib) additional s1, w1)
                     | other \<Rightarrow> other))))"

text \<open>
  \<open>ConsumeEvents\<close> and \<open>RegisterCloudEventsHandler\<close> (\<open>cloudevents_api.go\<close>) on the whole service. \<open>caps\<close> is the
  lookup of capabilities. The handler publishes nothing through the router: \<open>AddConsumerHandler\<close> takes no
  publish topic. It is given to the router before it is listed.
\<close>

definition event_service :: "(string \<Rightarrow> capabilities) \<Rightarrow> ('w, 'p, 's) Service \<Rightarrow> 'w service" where
  "event_service caps s =
     \<lparr>svc_publisher = map_option (\<lambda>publish topic msg. publish topic [msg]) (sv_publisher s),
      svc_system = (case sv_Conf s of None \<Rightarrow> [] | Some conf \<Rightarrow> PubSubSystem conf), svc_capabilities = caps\<rparr>"

definition Service_ConsumeEvents ::
  "(string \<Rightarrow> capabilities) \<Rightarrow> (string list \<Rightarrow> string \<Rightarrow> string option) \<Rightarrow> string \<Rightarrow> 'w handler option
    \<Rightarrow> ('w, 'p, 's) Service option \<times> 'w \<Rightarrow> unit build \<times> ('w, 'p, 's) Service option \<times> 'w" where
  "Service_ConsumeEvents caps refuses eventType handler =
     with_service (\<lambda>(s, w).
       (case handler of
          None \<Rightarrow> (Fails (Sentinel ErrHandlerRequired), s, w)
        | Some h \<Rightarrow>
            if eventType = [] then (Fails (Sentinel ErrConsumeMessageTypeRequired), s, w)
            else
              (let handlerName = ''cloudevents-'' @ eventType;
                   wmHandler = (\<lambda>msg w. case wrapCloudEventsHandler (event_service caps s) eventType h msg w of
                                          (err, w') \<Rightarrow> (Inr ([], err), w'))
               in case sv_router s of
                    None \<Rightarrow> (Panics ''nil pointer dereference'', s, w)
                  | Some r \<Rightarrow>
                      (case refuses (map rh_name (rt_handlers r)) handlerName of
                         Some panic \<Rightarrow> (Panics panic, s, w)
                       | None \<Rightarrow>
                           (Returns (),
                            s\<lparr>sv_router := Some (r\<lparr>rt_handlers := rt_handlers r @
                                [\<lparr>rh_name = handlerName, rh_consume = eventType, rh_subscriber = sv_subscriber s,
                                  rh_publish = [], rh_publisher = None, rh_handler = wmHandler\<rparr>]\<rparr>),
                              sv_handlers := sv_handlers s @
                                [\<lparr>hi_Name = handlerName, hi_ConsumeQueue = eventType, hi_PublishQueue = []\<rparr>]\<rparr>,
                            w)))))"

definition Service_RegisterCloudEventsHandler ::
  "(string \<Rightarrow> capabilities) \<Rightarrow> (string list \<Rightarrow> string \<Rightarrow> string option) \<Rightarrow> 'w CloudEventsHandlerRegistration
    \<Rightarrow> ('w, 'p, 's) Service option \<times> 'w \<Rightarrow> unit build \<times> ('w, 'p, 's) Service option \<times> 'w" where
  "Service_RegisterCloudEventsHandler caps refuses reg = (\<lambda>(svc, w).
     (if svc = None then (Fails (Sentinel ErrServiceRequired), svc, w)
      else case reg_Handler reg of
        None \<Rightarrow> (Fails (Sentinel ErrHandlerRequired), svc, w)
      | Some h \<Rightarrow>
          if reg_EventType reg = [] then (Fails (Sentinel ErrConsumeMessageTypeRequired), svc, w)
          else
            (let maxAttempts = (if reg_MaxAttempts reg \<le> 0 then DefaultMaxAttempts else reg_MaxAttempts reg)
             in Service_ConsumeEvents caps refuses (reg_EventType reg) (Some (\<lambda>evt. h (SetMaxAttempts evt maxAttempts))) (svc, w))))"

section \<open>Publishing\<close>

definition Service_Publish :: "('w, 'p, 's) Service option \<Rightarrow> string \<Rightarrow> message list \<Rightarrow> 'w \<Rightarrow> gerror option \<times> 'w" where
  "Service_Publish svc topic msgs w =
     (case svc of
        None \<Rightarrow> (Some (Sentinel ErrServiceRequired), w)
      | Some s \<Rightarrow>
          (case sv_publisher s of
             None \<Rightarrow> (Some (Sentinel ErrPublisherRequired), w)
           | Some publish \<Rightarrow> if topic = [] then (Some (Sentinel ErrTopicRequired), w) else publish topic msgs w))"

definition Service_PublishProto ::
  "'p proto_lib \<Rightarrow> 'w new_id \<Rightarrow> ('w, 'p, 's) Service option \<Rightarrow> string \<Rightarrow> 'p option \<Rightarrow> metadata \<Rightarrow> 'w \<Rightarrow> gerror option \<times> 'w" where
  "Service_PublishProto lib new_id svc topic event metadata w =
     (case svc of
        None \<Rightarrow> (Some (Plain ''event service is nil''), w)
      | Some s \<Rightarrow>
          PublishProto lib new_id (map_option (\<lambda>publish topic msg. publish topic [msg]) (sv_publisher s)) topic event metadata w)"

section \<open>The web interface\<close>

definition StartWebUIServer :: "('w, 'p, 's) Service \<Rightarrow> unit build \<times> ('w, 'p, 's) Service" where
  "StartWebUIServer s =
     (case sv_Conf s of
        None \<Rightarrow> (Panics ''nil pointer dereference'', s)
      | Some conf \<Rightarrow>
          if \<not> WebUIEnabled conf then (Returns (), s)
          else RegisterHTTPHandler (if WebUIPort conf = 0 then 8081 else WebUIPort conf) ''/api/handlers'' s)"

text \<open>\<open>strings.EqualFold\<close> on ASCII.\<close>

definition equal_fold :: "string \<Rightarrow> string \<Rightarrow> bool" where
  "equal_fold a b \<longleftrightarrow> to_lower a = to_lower b"

fun first_allowed :: "string list \<Rightarrow> string \<Rightarrow> string" where
  "first_allowed [] origin = []"
| "first_allowed (allowed # rest) origin =
     (if allowed = ''*'' then ''*'' else if equal_fold allowed origin then origin else first_allowed rest origin)"

definition getAllowedCORSOrigin :: "('w, 'p, 's) Service \<Rightarrow> string \<Rightarrow> string" where
  "getAllowedCORSOrigin s requestOrigin =
     (case sv_Conf s of None \<Rightarrow> [] | Some conf \<Rightarrow> first_allowed (WebUICORSAllowedOrigins conf) requestOrigin)"

text \<open>A response: its status, its headers and its body. \<open>encoded\<close> is the encoding of the handlers, or an error.\<close>

record http_response =
  hp_Status :: nat
  hp_Header :: "(string \<times> string) list"
  hp_Body :: string

definition handleGetHandlers :: "('w, 'p, 's) Service \<Rightarrow> gerror + string \<Rightarrow> string \<Rightarrow> string \<Rightarrow> 'w \<Rightarrow> http_response \<times> 'w" where
  "handleGetHandlers s encoded httpMethod origin w =
     (let header = [(''Content-Type'', ''application/json'')];
          allowed = (case sv_Conf s of
                       None \<Rightarrow> []
                     | Some conf \<Rightarrow> if WebUICORSAllowedOrigins conf = [] then [] else getAllowedCORSOrigin s origin);
          header = (if allowed = [] then header
                    else mput ''Access-Control-Allow-Headers'' ''Content-Type''
                           (mput ''Access-Control-Allow-Methods'' ''GET, OPTIONS''
                             (mput ''Access-Control-Allow-Origin'' allowed header)))
      in if httpMethod = ''OPTIONS'' then (\<lparr>hp_Status = 204, hp_Header = header, hp_Body = []\<rparr>, w)
         else (case encoded of
                 Inr body \<Rightarrow> (\<lparr>hp_Status = 200, hp_Header = header, hp_Body = body\<rparr>, w)
               | Inl err \<Rightarrow>
                   (\<lparr>hp_Status = 500,
                     hp_Header = mput ''X-Content-Type-Options'' ''nosniff'' (mput ''Content-Type'' ''text/plain; charset=utf-8'' header),
                     hp_Body = ''Internal Server Error'' @ [CHR 0x0A]\<rparr>,
                    log_error (sv_Logger s) ''Failed to encode handlers'' err [] w)))"

section \<open>HTTP servers\<close>

record http_server =
  hs_Addr :: string
  hs_Patterns :: "string list"
  hs_ReadTimeout :: duration
  hs_WriteTimeout :: duration
  hs_IdleTimeout :: duration

definition http_server_of :: "int \<times> string list \<Rightarrow> http_server" where
  "http_server_of = (\<lambda>(port, mux).
     \<lparr>hs_Addr = CHR '':'' # dec_int port, hs_Patterns = mux, hs_ReadTimeout = 15 * second, hs_WriteTimeout = 15 * second,
      hs_IdleTimeout = 60 * second\<rparr>)"

definition startHTTPServers :: "('w, 'p, 's) Service \<Rightarrow> http_server list \<Rightarrow> http_server list" where
  "startHTTPServers s servers = servers @ map http_server_of (sv_httpServers s)"

definition stopHTTPServers :: "http_server list \<Rightarrow> http_server list" where
  "stopHTTPServers servers = []"

text \<open>What \<open>Start\<close> does before it runs the router, and \<open>Stop\<close>.\<close>

definition Service_Start :: "('w, 'p, 's) Service \<times> http_server list \<Rightarrow> unit build \<times> ('w, 'p, 's) Service \<times> http_server list" where
  "Service_Start = (\<lambda>(s, servers).
     (case StartWebUIServer s of
        (Returns _, s') \<Rightarrow> (Returns (), s', startHTTPServers s' servers)
      | (r, s') \<Rightarrow> (r, s', servers)))"

definition Service_Stop :: "http_server list \<Rightarrow> http_server list" where
  "Service_Stop servers = stopHTTPServers servers"

section \<open>A service without a poison queue\<close>

text \<open>
  \<open>TryNewService\<close> panics without a poison queue. For every valid configuration that names no
  poison queue, with the default middlewares and a publisher, and a Watermill that refuses a poison
  queue without topic, the constructor that is to return its errors panics after it has built the
  transport; validation of the configuration does not notice.
\<close>

theorem try_new_service_panics:
  assumes "ValidateConfig (Some c) = None" "PoisonQueue c = []" "\<not> MetricsEnabled c"
    "dp_TransportFactory deps = Some factory" "factory c = Inr (Some publish, sub)" "\<not> dp_DisableDefaultMiddlewares deps"
    "\<forall>f. env_PoisonQueueWithFilter env publish [] f = Inl err"
  shows "fst (TryNewService env registry default_registry None conf_text (Some c) (Some logger) deps w)
    = Panics (''failed to register middleware poison_queue: '' @ err_text err)"
  using assms
  by (simp add: TryNewService_def ValidateConfig_def NewConfigValidationError_def bare_service_def registerConfiguredMiddlewares_def
      DefaultMiddlewares_def CorrelationIDMiddleware_def LogMessagesMiddleware_def ProtoValidateMiddleware_def
      OutboxMiddleware_def TracerMiddleware_def MetricsMiddleware_def RetryMiddleware_def PoisonQueueMiddleware_def
      RecovererMiddleware_def registration_def RegisterMiddleware_def add_middleware_def Let_def poisonMiddlewareWithFilter_def)

section \<open>Registered handlers\<close>

text \<open>
  The services a program can get to: made, then given handlers and types. The flag is whether no
  registration has panicked so far. The middlewares the program brings leave the handlers and
  the message types alone (\<open>setup_kept\<close>), as those of the library do.
\<close>

fun panicked :: "'a build \<Rightarrow> bool" where
  "panicked (Panics _) = True"
| "panicked _ = False"

inductive set_up ::
  "('w, 'p, 'span) env \<Rightarrow> 'w stats_store \<Rightarrow> (string list \<Rightarrow> string \<Rightarrow> string option) \<Rightarrow> ('t, 'o) json_lib
    \<Rightarrow> (string \<Rightarrow> capabilities) \<Rightarrow> bool \<Rightarrow> ('w, 'p, 's) Service \<Rightarrow> 'w \<Rightarrow> bool"
  for env st refuses jlib caps where
  made: "TryNewService env registry default_registry router_error conf_text conf logger deps w = (Returns s, w')
    \<Longrightarrow> list_all setup_kept (dp_Middlewares deps) \<Longrightarrow> set_up env st refuses jlib caps True s w'"
| message_handler: "set_up env st refuses jlib caps ok s w
    \<Longrightarrow> RegisterMessageHandler (env_proto env) st refuses mcfg (Some s, w) = (r, Some s', w')
    \<Longrightarrow> set_up env st refuses jlib caps (ok \<and> \<not> panicked r) s' w'"
| json_handler: "set_up env st refuses jlib caps ok s w
    \<Longrightarrow> RegisterJSONHandler jlib (env_new_id env) (env_proto env) st refuses jcfg (Some s, w) = (r, Some s', w')
    \<Longrightarrow> set_up env st refuses jlib caps (ok \<and> \<not> panicked r) s' w'"
| proto_handler: "set_up env st refuses jlib caps ok s w
    \<Longrightarrow> RegisterProtoHandler gt is_T zero (env_new_id env) (env_proto env) st refuses pcfg (Some s, w) = (r, Some s', w')
    \<Longrightarrow> set_up env st refuses jlib caps (ok \<and> \<not> panicked r) s' w'"
| event_consumer: "set_up env st refuses jlib caps ok s w
    \<Longrightarrow> Service_ConsumeEvents caps refuses eventType h (Some s, w) = (r, Some s', w')
    \<Longrightarrow> set_up env st refuses jlib caps (ok \<and> \<not> panicked r) s' w'"
| event_handler: "set_up env st refuses jlib caps ok s w
    \<Longrightarrow> Service_RegisterCloudEventsHandler caps refuses ecfg (Some s, w) = (r, Some s', w')
    \<Longrightarrow> set_up env st refuses jlib caps (ok \<and> \<not> panicked r) s' w'"
| message_type: "set_up env st refuses jlib caps ok s w
    \<Longrightarrow> set_up env st refuses jlib caps ok (RegisterProtoMessage (env_proto env) p s) w"
| world_moves: "set_up env st refuses jlib caps ok s w \<Longrightarrow> set_up env st refuses jlib caps ok s w'"

definition router_entry :: "('w, 's) router_handler \<Rightarrow> string \<times> string \<times> string" where
  "router_entry h = (rh_name h, rh_consume h, rh_publish h)"

definition info_entry :: "HandlerInfo \<Rightarrow> string \<times> string \<times> string" where
  "info_entry i = (hi_Name i, hi_ConsumeQueue i, hi_PublishQueue i)"

definition wf_service :: "'p proto_lib \<Rightarrow> ('w, 'p, 's) Service \<Rightarrow> bool" where
  "wf_service lib s \<longleftrightarrow>
     (\<exists>r. sv_router s = Some r \<and> map router_entry (rt_handlers r) = map info_entry (sv_handlers s)
       \<and> distinct (map rh_name (rt_handlers r)) \<and> list_all (\<lambda>h. rh_name h \<noteq> [] \<and> rh_consume h \<noteq> []) (rt_handlers r))
     \<and> (\<forall>t p. map_of (sv_protoRegistry s) t = Some p \<longrightarrow> pl_type lib p = t)"

text \<open>What holds after panics too: a handler that runs is listed, in the same order.\<close>

definition listed_service :: "'p proto_lib \<Rightarrow> ('w, 'p, 's) Service \<Rightarrow> bool" where
  "listed_service lib s \<longleftrightarrow>
     (\<exists>r. sv_router s = Some r \<and> map router_entry (rt_handlers r) \<in> set (subseqs (map info_entry (sv_handlers s)))
       \<and> distinct (map rh_name (rt_handlers r)) \<and> list_all (\<lambda>h. rh_name h \<noteq> [] \<and> rh_consume h \<noteq> []) (rt_handlers r))
     \<and> (\<forall>t p. map_of (sv_protoRegistry s) t = Some p \<longrightarrow> pl_type lib p = t)"

lemma subseqs_Cons: "xs \<in> set (subseqs (y # ys)) \<longleftrightarrow> (\<exists>zs. xs = y # zs \<and> zs \<in> set (subseqs ys)) \<or> xs \<in> set (subseqs ys)"
  unfolding subseqs.simps Let_def set_append set_map by blast

lemma subseqs_refl: "ys \<in> set (subseqs ys)"
  by (induction ys) (simp_all add: subseqs_Cons del: subseqs.simps(2))

lemma subseqs_keep: "xs \<in> set (subseqs ys) \<Longrightarrow> xs \<in> set (subseqs (ys @ [y]))"
proof (induction ys arbitrary: xs)
  case (Cons a ys)
  then show ?case unfolding append_Cons subseqs_Cons by blast
qed simp

lemma subseqs_grow: "xs \<in> set (subseqs ys) \<Longrightarrow> xs @ [y] \<in> set (subseqs (ys @ [y]))"
proof (induction ys arbitrary: xs)
  case (Cons a ys)
  from Cons.prems consider zs where "xs = a # zs" "zs \<in> set (subseqs ys)" | "xs \<in> set (subseqs ys)"
    unfolding subseqs_Cons by blast
  then show ?case
  proof cases
    case 1
    from Cons.IH [OF this(2)] show ?thesis unfolding 1(1) append_Cons subseqs_Cons by blast
  next
    case 2
    from Cons.IH [OF this] show ?thesis unfolding append_Cons subseqs_Cons by blast
  qed
qed simp

lemma wf_listed: "wf_service lib s \<Longrightarrow> listed_service lib s"
  using subseqs_refl [of "map info_entry (sv_handlers s)"] by (auto simp: wf_service_def listed_service_def simp del: subseqs.simps)

lemma listed_registerProtoType: "listed_service lib s \<Longrightarrow> listed_service lib (registerProtoType lib p s)"
  by (cases p) (auto simp: listed_service_def registerProtoType_def)

lemma wf_registerProtoType: "wf_service lib s \<Longrightarrow> wf_service lib (registerProtoType lib p s)"
  by (cases p) (auto simp: wf_service_def registerProtoType_def)

text \<open>A handler that the router takes, and one that is listed and not taken.\<close>

lemma service_grows:
  fixes r0 :: "('w, 's) router" and h :: "('w, 's) router_handler"
  assumes "sv_router s = Some r0" "rh_name h \<notin> set (map rh_name (rt_handlers r0))" "rh_name h \<noteq> []" "rh_consume h \<noteq> []"
    "router_entry h = info_entry i" "sv_router s' = Some (r0\<lparr>rt_handlers := rt_handlers r0 @ [h]\<rparr>)"
    "sv_handlers s' = sv_handlers s @ [i]" "sv_protoRegistry s' = sv_protoRegistry s"
  shows "wf_service lib s \<Longrightarrow> wf_service lib s'" "listed_service lib s \<Longrightarrow> listed_service lib s'"
  using assms subseqs_grow by (auto simp: wf_service_def listed_service_def)

lemma service_lists:
  assumes "sv_router s' = sv_router s" "sv_handlers s' = sv_handlers s @ [i]" "sv_protoRegistry s' = sv_protoRegistry s"
    "listed_service lib s"
  shows "listed_service lib s'"
  using assms subseqs_keep by (auto simp: listed_service_def)

lemma registerHandler_adds:
  assumes "registerHandler lib st refuses cfg (s, w) = (r, s', w')" "hr_Handler cfg \<noteq> None" "hr_ConsumeQueue cfg \<noteq> []"
    "handler_name lib cfg \<noteq> []" "sv_router s = Some r0" "refuses (map rh_name (rt_handlers r0)) (handler_name lib cfg) = None"
  shows "\<exists>h i. sv_router s' = Some (r0\<lparr>rt_handlers := rt_handlers r0 @ [h]\<rparr>)
    \<and> sv_handlers s' = sv_handlers (registerProtoType lib (hr_consumeMessageType cfg) s) @ [i]
    \<and> sv_protoRegistry s' = sv_protoRegistry (registerProtoType lib (hr_consumeMessageType cfg) s)
    \<and> rh_name h = handler_name lib cfg \<and> rh_consume h \<noteq> [] \<and> router_entry h = info_entry i"
proof -
  have l: "sv_handlers (registerProtoType lib p s) = sv_handlers s" "sv_router (registerProtoType lib p s) = sv_router s" for p
    by (simp_all add: registerProtoType_def split: option.splits)
  from assms(2) obtain f where "hr_Handler cfg = Some f" by auto
  with assms(1,3-6) l have
    "sv_router s' = Some (r0\<lparr>rt_handlers := rt_handlers r0 @
        [\<lparr>rh_name = handler_name lib cfg, rh_consume = hr_ConsumeQueue cfg,
          rh_subscriber = if hr_Subscriber cfg = None then sv_subscriber s else hr_Subscriber cfg, rh_publish = hr_PublishQueue cfg,
          rh_publisher = case hr_Publisher cfg of None \<Rightarrow> sv_publisher s | Some p \<Rightarrow> Some p,
          rh_handler = counted st (getErrorClassifier s) (length (sv_handlers s)) f\<rparr>]\<rparr>)"
    "sv_handlers s' = sv_handlers s @
        [\<lparr>hi_Name = handler_name lib cfg, hi_ConsumeQueue = hr_ConsumeQueue cfg, hi_PublishQueue = hr_PublishQueue cfg\<rparr>]"
    "sv_protoRegistry s' = sv_protoRegistry (registerProtoType lib (hr_consumeMessageType cfg) s)"
    by (auto simp: registerHandler_def Let_def getErrorClassifier_def registerProtoType_def split: option.splits)
  with assms(3) l show ?thesis by (intro exI conjI) (assumption | simp add: router_entry_def info_entry_def)+
qed

lemma registerHandler_keeps:
  assumes "registerHandler lib st refuses cfg (s, w) = (r, s', w')"
    "\<forall>taken name. refuses taken name = None \<longrightarrow> name \<notin> set taken" "listed_service lib s"
  shows "listed_service lib s'" "wf_service lib s \<Longrightarrow> \<not> panicked r \<Longrightarrow> wf_service lib s'"
proof -
  let ?s1 = "registerProtoType lib (hr_consumeMessageType cfg) s" and ?n = "handler_name lib cfg"
  have l: "sv_handlers ?s1 = sv_handlers s" "sv_router ?s1 = sv_router s" by (simp_all add: registerProtoType_def split: option.splits)
  have w1: "listed_service lib ?s1" "wf_service lib s \<Longrightarrow> wf_service lib ?s1"
    using assms(3) by (simp_all add: listed_registerProtoType wf_registerProtoType)
  obtain r0 where r0: "sv_router s = Some r0" using assms(3) by (auto simp: listed_service_def)
  consider (none) "hr_Handler cfg = None \<or> hr_ConsumeQueue cfg = []"
    | (noname) "hr_Handler cfg \<noteq> None" "hr_ConsumeQueue cfg \<noteq> []" "?n = []"
    | (taken) p where "hr_Handler cfg \<noteq> None" "hr_ConsumeQueue cfg \<noteq> []" "?n \<noteq> []" "refuses (map rh_name (rt_handlers r0)) ?n = Some p"
    | (added) "hr_Handler cfg \<noteq> None" "hr_ConsumeQueue cfg \<noteq> []" "?n \<noteq> []" "refuses (map rh_name (rt_handlers r0)) ?n = None"
    by (cases "hr_Handler cfg = None \<or> hr_ConsumeQueue cfg = []"; cases "?n = []"; cases "refuses (map rh_name (rt_handlers r0)) ?n")
      simp_all
  then have "listed_service lib s' \<and> (wf_service lib s \<and> \<not> panicked r \<longrightarrow> wf_service lib s')"
  proof cases
    case none
    with assms(1,3) show ?thesis by (auto simp: registerHandler_def split: option.splits)
  next
    case noname
    with assms(1) w1 show ?thesis by (auto simp: registerHandler_def Let_def)
  next
    case taken
    with assms(1) r0 l have "panicked r" "sv_router s' = sv_router ?s1" "sv_protoRegistry s' = sv_protoRegistry ?s1"
      "\<exists>i. sv_handlers s' = sv_handlers ?s1 @ [i]"
      by (auto simp: registerHandler_def Let_def)
    with service_lists w1(1) show ?thesis by blast
  next
    case added
    then have f: "?n \<notin> set (map rh_name (rt_handlers r0))" using assms(2) by blast
    have "\<exists>h i. sv_router s' = Some (r0\<lparr>rt_handlers := rt_handlers r0 @ [h]\<rparr>) \<and> sv_handlers s' = sv_handlers ?s1 @ [i]
      \<and> sv_protoRegistry s' = sv_protoRegistry ?s1 \<and> rh_name h = ?n \<and> rh_consume h \<noteq> [] \<and> router_entry h = info_entry i"
      by (rule registerHandler_adds [OF assms(1) added(1-3) r0 added(4)])
    then obtain h i where "sv_router s' = Some (r0\<lparr>rt_handlers := rt_handlers r0 @ [h]\<rparr>)" "sv_handlers s' = sv_handlers ?s1 @ [i]"
      "sv_protoRegistry s' = sv_protoRegistry ?s1" "rh_name h = ?n" "rh_consume h \<noteq> []" "router_entry h = info_entry i" by blast
    with service_grows [of ?s1 r0 h i s' lib] r0 l f added(3) w1 show ?thesis by simp
  qed
  then show "listed_service lib s'" "wf_service lib s \<Longrightarrow> \<not> panicked r \<Longrightarrow> wf_service lib s'" by blast+
qed

lemma ConsumeEvents_keeps:
  assumes "Service_ConsumeEvents caps refuses eventType handler (Some s, w) = (r, Some s', w')"
    "\<forall>taken name. refuses taken name = None \<longrightarrow> name \<notin> set taken" "listed_service lib s"
  shows "listed_service lib s'" "wf_service lib s \<Longrightarrow> wf_service lib s'"
proof -
  let ?n = "''cloudevents-'' @ eventType"
  obtain r0 where r0: "sv_router s = Some r0" using assms(3) by (auto simp: listed_service_def)
  consider "s' = s" | h where "handler = Some h" "eventType \<noteq> []" "refuses (map rh_name (rt_handlers r0)) ?n = None"
    using assms(1) r0 by (auto simp: Service_ConsumeEvents_def with_service_def Let_def split: option.splits if_splits)
  then have "listed_service lib s' \<and> (wf_service lib s \<longrightarrow> wf_service lib s')"
  proof cases
    case 1
    with assms(3) show ?thesis by simp
  next
    case 2
    then have f: "?n \<notin> set (map rh_name (rt_handlers r0))" using assms(2) by blast
    have "\<exists>g i. sv_router s' = Some (r0\<lparr>rt_handlers := rt_handlers r0 @ [g]\<rparr>) \<and> sv_handlers s' = sv_handlers s @ [i]
      \<and> sv_protoRegistry s' = sv_protoRegistry s \<and> rh_name g = ?n \<and> rh_consume g = eventType \<and> router_entry g = info_entry i"
      using assms(1) 2 r0 by (auto simp: Service_ConsumeEvents_def with_service_def Let_def router_entry_def info_entry_def
        intro!: exI [of _ "\<lparr>hi_Name = ?n, hi_ConsumeQueue = eventType, hi_PublishQueue = []\<rparr>"])
    then obtain g i where "sv_router s' = Some (r0\<lparr>rt_handlers := rt_handlers r0 @ [g]\<rparr>)" "sv_handlers s' = sv_handlers s @ [i]"
      "sv_protoRegistry s' = sv_protoRegistry s" "rh_name g = ?n" "rh_consume g = eventType" "router_entry g = info_entry i" by blast
    with service_grows [of s r0 g i s' lib] r0 f 2(2) assms(3) show ?thesis by simp
  qed
  then show "listed_service lib s'" "wf_service lib s \<Longrightarrow> wf_service lib s'" by blast+
qed

lemma defaults_kept: "list_all setup_kept (DefaultMiddlewares env registry)"
  using defaults_keep_setup
  by (simp add: DefaultMiddlewares_def) (simp add: setup_kept_def registration_def CorrelationIDMiddleware_def
      LogMessagesMiddleware_def ProtoValidateMiddleware_def Let_def split: option.splits)

lemma wf_made:
  assumes "TryNewService env registry default_registry router_error conf_text conf logger deps w = (Returns s, w')"
    "list_all setup_kept (dp_Middlewares deps)"
  shows "wf_service (env_proto env) s"
proof -
  from assms(1) obtain c l publish sub where
    r: "registerConfiguredMiddlewares env registry deps ((bare_service c l deps)\<lparr>sv_publisher := publish, sv_subscriber := sub,
        sv_router := Some \<lparr>rt_middlewares = [], rt_handlers = []\<rparr>\<rparr>) = (Returns (), s)"
    by (auto simp: TryNewService_def Let_def split: option.splits sum.splits prod.splits build.splits)
  define s0 where "s0 = (bare_service c l deps)\<lparr>sv_publisher := publish, sv_subscriber := sub,
        sv_router := Some \<lparr>rt_middlewares = [], rt_handlers = []\<rparr>\<rparr>"
  have "list_all setup_kept ((if dp_DisableDefaultMiddlewares deps then [] else DefaultMiddlewares env registry) @ dp_Middlewares deps)"
    using assms(2) by (simp add: defaults_kept)
  from register_all_setup [OF this, of s0] r have "same_setup s0 s"
    by (simp add: registerConfiguredMiddlewares_def s0_def)
  then have "map_option rt_handlers (sv_router s) = Some []" "sv_handlers s = []" "sv_protoRegistry s = []"
    by (simp_all add: same_setup_def s0_def bare_service_def)
  then show ?thesis by (auto simp: wf_service_def)
qed

lemma with_service_Some: "with_service f (Some s, w) = (r, Some s', w') \<longleftrightarrow> f (s, w) = (r, s', w')"
  by (simp add: with_service_def split: prod.splits)

lemma proto_registration:
  assumes "RegisterProtoHandler gt is_T zero new_id lib st refuses cfg (Some s, w) = (r, Some s', w')"
  obtains "s' = s"
  | hcfg r1 s1 w1 ps where "registerHandler lib st refuses hcfg (s, w) = (r1, s1, w1)" "panicked r1 \<Longrightarrow> panicked r"
    "s' = fold (registerProtoType lib) ps s1"
proof (cases "EnsureProtoPrototype lib is_T gt zero")
  case (Inl err)
  with assms that(1) show ?thesis by (simp add: RegisterProtoHandler_def with_service_Some)
next
  case p: (Inr prototype)
  let ?b = "BuildProtoHandler lib is_T (Some prototype) (pr_Handler cfg)
      (if pr_ValidateOutgoing cfg then sv_validator s else None) (Some (NewMessageFromProto lib new_id))"
  show ?thesis
  proof (cases ?b)
    case (Inl err)
    with assms p that(1) show ?thesis by (simp add: RegisterProtoHandler_def with_service_Some Let_def)
  next
    case b: (Inr wrapped)
    let ?c = "typed_registration (pr_Name cfg) (pr_ConsumeQueue cfg) (pr_PublishQueue cfg) wrapped (Some prototype)"
    obtain r1 s1 w1 where h: "registerHandler lib st refuses ?c (s, w) = (r1, s1, w1)" by (metis prod_cases3)
    show ?thesis
    proof (cases r1)
      case (Returns u)
      with assms p b h have "s' = fold (registerProtoType lib) (ApplyProtoHandlerOptions (pr_Options cfg)) s1"
        by (simp add: RegisterProtoHandler_def with_service_Some Let_def)
      with Returns show ?thesis by (intro that(2) [OF h]) simp_all
    next
      case (Fails e)
      with assms p b h have "s' = fold (registerProtoType lib) [] s1"
        by (simp add: RegisterProtoHandler_def with_service_Some Let_def)
      with Fails show ?thesis by (intro that(2) [OF h, where ps = "[]"]) simp_all
    next
      case (Panics q)
      with assms p b h have "s' = fold (registerProtoType lib) [] s1" "r = Panics q"
        by (simp_all add: RegisterProtoHandler_def with_service_Some Let_def)
      then show ?thesis by (intro that(2) [OF h, where ps = "[]"]) simp_all
    qed
  qed
qed

lemma wf_registerProtoTypes: "wf_service lib s \<Longrightarrow> wf_service lib (fold (registerProtoType lib) ps s)"
  by (induction ps arbitrary: s) (simp_all add: wf_registerProtoType)

lemma listed_registerProtoTypes: "listed_service lib s \<Longrightarrow> listed_service lib (fold (registerProtoType lib) ps s)"
  by (induction ps arbitrary: s) (simp_all add: listed_registerProtoType)

text \<open>
  C36. What is registered is what runs. Take any service that a constructor call returned, with
  middlewares that leave the set-up alone, and any registrations with it of raw, JSON and protobuf
  handlers, of CloudEvents consumers and of message types, failed ones included. As long as none of them has
  panicked, the list of handlers the service shows agrees with those given to the router in names
  and queues. A registration that panics, for a name that is taken, may leave a listed handler that never runs;
  but even then the handlers of the router are listed, in their order, their names are distinct,
  names and consume queues are not empty, and the message types are registered under their own names.
\<close>

theorem registrations_consistent:
  assumes "set_up env st refuses jlib caps ok s w" "\<forall>taken name. refuses taken name = None \<longrightarrow> name \<notin> set taken"
  shows "listed_service (env_proto env) s \<and> (ok \<longrightarrow> wf_service (env_proto env) s)"
  using assms(1)
proof induction
  case (made registry default_registry router_error conf_text conf logger deps w s w')
  then have "wf_service (env_proto env) s" by (rule wf_made)
  with wf_listed show ?case by blast
next
  case (message_handler ok s w mcfg r s' w')
  then obtain c where "registerHandler (env_proto env) st refuses c (s, w) = (r, s', w')"
    by (auto simp: RegisterMessageHandler_def with_service_Some)
  from registerHandler_keeps [OF this assms(2)] message_handler(3) show ?case by blast
next
  case (json_handler ok s w jcfg r s' w')
  then consider "s' = s" | c where "registerHandler (env_proto env) st refuses c (s, w) = (r, s', w')"
    by (auto simp: RegisterJSONHandler_def with_service_Some split: sum.splits)
  then show ?case
  proof cases
    case 2
    from registerHandler_keeps [OF this assms(2)] json_handler(3) show ?thesis by blast
  qed (use json_handler(3) in blast)
next
  case (proto_handler ok s w gt is_T zero pcfg r s' w')
  from proto_handler(2) show ?case
  proof (cases rule: proto_registration)
    case 1
    with proto_handler(3) show ?thesis by simp
  next
    case (2 hcfg r1 s1 w1 ps)
    from registerHandler_keeps [OF 2(1) assms(2)] proto_handler(3)
    have "listed_service (env_proto env) s1" "ok \<Longrightarrow> \<not> panicked r1 \<Longrightarrow> wf_service (env_proto env) s1" by blast+
    with 2(2,3) show ?thesis by (cases "panicked r1") (simp_all add: wf_registerProtoTypes listed_registerProtoTypes)
  qed
next
  case (event_consumer ok s w eventType h r s' w')
  with ConsumeEvents_keeps [OF event_consumer(2) assms(2)] show ?case by blast
next
  case (event_handler ok s w ecfg r s' w')
  show ?case
  proof (cases "s' = s")
    case False
    then obtain h where "Service_ConsumeEvents caps refuses (reg_EventType ecfg) h (Some s, w) = (r, Some s', w')"
      using event_handler(2) by (auto simp: Service_RegisterCloudEventsHandler_def Let_def split: option.splits if_splits)
    from ConsumeEvents_keeps [OF this assms(2)] event_handler(3) show ?thesis by blast
  qed (use event_handler(3) in blast)
next
  case (message_type ok s w p)
  then show ?case by (simp add: RegisterProtoMessage_def wf_registerProtoType listed_registerProtoType)
qed

section \<open>Registered message types\<close>

text \<open>
  What a registered protobuf handler's type publishes, validation lets through. After a
  successful registration, any event of the handler's message type that the codec reads back and the
  validator accepts is published with a schema that the service's registry knows: its message is
  not refused, whatever other types the registration adds.
\<close>

theorem registered_type_accepted:
  assumes "RegisterProtoHandler gt is_T zero new_id lib st refuses pcfg (Some s, w) = (Returns (), Some s', w')"
    "EnsureProtoPrototype lib is_T gt zero = Inr prototype" "pl_type lib e = pl_type lib prototype"
    "pl_marshal lib e = Inr payload" "\<forall>p. pl_type lib p = pl_type lib e \<longrightarrow> pl_unmarshal lib payload (pl_fresh lib p) = Inr e"
    "v e = None" "wf_service lib s" "\<forall>taken name. refuses taken name = None \<longrightarrow> name \<notin> set taken"
    "NewMessageFromProto lib new_id' (Some e) md w1 = (Inr msg, w2)"
  shows "refusal lib (sv_protoRegistry s') v msg = None"
proof -
  have f: "map_of (sv_protoRegistry (fold (registerProtoType lib) ps x)) t \<noteq> None" if "map_of (sv_protoRegistry x) t \<noteq> None" for ps x t
    using that by (induction ps arbitrary: x) (auto simp: registerProtoType_def split: option.splits)
  obtain wrapped s1 w1' where r: "registerHandler lib st refuses
      (typed_registration (pr_Name pcfg) (pr_ConsumeQueue pcfg) (pr_PublishQueue pcfg) wrapped (Some prototype)) (s, w) = (Returns (), s1, w1')"
    "s' = fold (registerProtoType lib) (ApplyProtoHandlerOptions (pr_Options pcfg)) s1"
    using assms(1,2) by (auto simp: RegisterProtoHandler_def with_service_Some Let_def split: sum.splits prod.splits build.splits)
  have "sv_protoRegistry s1 = mput (pl_type lib prototype) prototype (sv_protoRegistry s)"
    using r(1) by (auto simp: registerHandler_def typed_registration_def registerProtoType_def Let_def split: if_splits option.splits)
  then have "map_of (sv_protoRegistry s') (pl_type lib e) \<noteq> None" using f [of s1 "pl_type lib e"] r(2) assms(3) by simp
  then obtain p where p: "map_of (sv_protoRegistry s') (pl_type lib e) = Some p" by auto
  have "wf_service lib s'" using registerHandler_keeps(2) [OF r(1) assms(8) wf_listed] assms(7) r(2) by (simp add: wf_registerProtoTypes)
  with p have "pl_type lib p = pl_type lib e" by (auto simp: wf_service_def)
  moreover have "Payload msg = payload" "map_of (Metadata msg) MetadataKeyEventSchema = Some (pl_type lib e)"
    using assms(4,9) by (auto simp: NewMessageFromProto_def NewMessage_def split: prod.splits)
  ultimately show ?thesis using p assms(5,6) by (simp add: refusal_def)
qed

section \<open>Origins\<close>

text \<open>The origin allowed is the wildcard or the request's own, and there is one exactly when a configured one matches.\<close>

lemma first_allowed_cases:
  "first_allowed os origin = ''*'' \<or> first_allowed os origin = origin \<or> first_allowed os origin = []"
  by (induction os) auto

lemma first_allowed_match:
  "origin \<noteq> [] \<Longrightarrow> first_allowed os origin \<noteq> [] \<longleftrightarrow> (\<exists>a \<in> set os. a = ''*'' \<or> equal_fold a origin)"
  by (induction os) auto

section \<open>Sample services\<close>

definition no_stats :: "string list stats_store" where
  "no_stats = \<lparr>st_get = (\<lambda>_ _. newHandlerStats [] [] []), st_put = (\<lambda>_ _ w. w), st_clock = (\<lambda>_. 0), st_sample = (\<lambda>_. None)\<rparr>"

definition taken_refused :: "string list \<Rightarrow> string \<Rightarrow> string option" where
  "taken_refused taken name = (if name \<in> set taken then Some ''handler exists'' else None)"

definition sample_deps :: "bool \<Rightarrow> (string list, string, nat) ServiceDependencies" where
  "sample_deps plain =
     \<lparr>dp_Outbox = None, dp_Validator = Some (\<lambda>_. None), dp_Middlewares = [], dp_DisableDefaultMiddlewares = plain,
      dp_TransportFactory = Some (\<lambda>_. Inr (Some list_publisher, None)), dp_ErrorClassifier = None\<rparr>"

lemma try_new_service_panics_witness:
  "fst (TryNewService sample_env (\<lambda>_. []) NewRegistry None PubSubSystem (Some zero_config) (Some list_logger) (sample_deps False) [])
    = Panics ''failed to register middleware poison_queue: poison queue topic is empty''"
proof -
  have "ValidateConfig (Some zero_config) = None" "PoisonQueue zero_config = []" "\<not> MetricsEnabled zero_config"
    "dp_TransportFactory (sample_deps False) = Some (\<lambda>_. Inr (Some list_publisher, None))"
    "(\<lambda>_. Inr (Some list_publisher, None :: nat option)) zero_config = Inr (Some list_publisher, None)"
    "\<not> dp_DisableDefaultMiddlewares (sample_deps False)"
    "\<forall>f. env_PoisonQueueWithFilter sample_env list_publisher [] f = Inl (Plain ''poison queue topic is empty'')"
    by (simp_all add: ValidateConfig_def Config_Validate_def errors_join_def validateTransport_def validateRetry_def
        validatePorts_def zero_config_def to_lower_def sample_deps_def sample_env_def)
  from try_new_service_panics [where factory = "\<lambda>_. Inr (Some list_publisher, None)", OF this]
  show ?thesis by simp
qed

definition plain_service :: "(string list, string, nat) Service" where
  "plain_service = (bare_service zero_config list_logger (sample_deps True))
     \<lparr>sv_publisher := Some list_publisher, sv_router := Some \<lparr>rt_middlewares = [], rt_handlers = []\<rparr>\<rparr>"

lemma plain_service_made:
  "\<exists>w'. TryNewService sample_env (\<lambda>_. []) NewRegistry None PubSubSystem (Some zero_config) (Some list_logger) (sample_deps True) []
    = (Returns plain_service, w')"
  by (simp add: TryNewService_def NewConfigValidationError_def Config_Validate_def errors_join_def validateTransport_def validateRetry_def
      validatePorts_def zero_config_def to_lower_def sample_deps_def registerConfiguredMiddlewares_def plain_service_def
      bare_service_def Let_def)

definition echo_registration :: "(string, string list) ProtoHandlerRegistration" where
  "echo_registration =
     \<lparr>pr_Name = [], pr_ConsumeQueue = ''in'', pr_PublishQueue = ''out'', pr_Handler = Some (\<lambda>ctx w. (Inr ([], None), [], w)),
      pr_Options = [None], pr_ValidateOutgoing = True\<rparr>"

lemma echo_registered:
  "\<exists>s' w'. RegisterProtoHandler (PtrTo ''pb.Text'') (\<lambda>_. True) None (\<lambda>w. (''id'', w)) text_lib no_stats taken_refused echo_registration
      (Some plain_service, w) = (Returns (), Some s', w') \<and> map hi_Name (sv_handlers s') = [''*pb.Text-Handler'']
      \<and> map_option (\<lambda>r. map rh_name (rt_handlers r)) (sv_router s') = Some [''*pb.Text-Handler'']"
  by (simp add: RegisterProtoHandler_def with_service_def EnsureProtoPrototype_def isNilProto_def text_lib_def
      ApplyProtoHandlerOptions_def echo_registration_def BuildProtoHandler_def registerHandler_def typed_registration_def
      handler_name_def Let_def registerProtoType_def plain_service_def bare_service_def taken_refused_def)

lemma taken_refused_spec: "\<forall>taken name. taken_refused taken name = None \<longrightarrow> name \<notin> set taken"
  by (simp add: taken_refused_def)

text \<open>
  A protobuf handler, a CloudEvents consumer, and the consumer's event type once more through
  the same protobuf registration, which panics.
\<close>

lemma registrations_consistent_witness:
  "\<exists>s :: (string list, string, nat) Service. listed_service text_lib s
    \<and> map hi_Name (sv_handlers s) = [''*pb.Text-Handler'', ''cloudevents-job'', ''*pb.Text-Handler'']
    \<and> map_option (\<lambda>r. map rh_name (rt_handlers r)) (sv_router s) = Some [''*pb.Text-Handler'', ''cloudevents-job'']"
proof -
  let ?up = "set_up sample_env no_stats taken_refused text_json (\<lambda>_. SQLiteCapabilities)"
  let ?p = "RegisterProtoHandler (PtrTo ''pb.Text'') (\<lambda>_. True) None (\<lambda>w. (''id'', w)) text_lib no_stats taken_refused echo_registration"
  obtain w0 where m: "TryNewService sample_env (\<lambda>_. []) NewRegistry None PubSubSystem (Some zero_config) (Some list_logger) (sample_deps True) []
      = (Returns plain_service, w0)" using plain_service_made by blast
  have e: "env_proto sample_env = text_lib" "env_new_id sample_env = (\<lambda>w. (''id'', w))" by (simp_all add: sample_env_def)
  have s0: "?up True plain_service w0" by (rule set_up.made [OF m]) (simp add: sample_deps_def)
  obtain s1 w1 where r1: "?p (Some plain_service, w0) = (Returns (), Some s1, w1)" "map hi_Name (sv_handlers s1) = [''*pb.Text-Handler'']"
    "map_option (\<lambda>r. map rh_name (rt_handlers r)) (sv_router s1) = Some [''*pb.Text-Handler'']"
    using echo_registered [of w0] by (elim exE conjE) (rule that)
  have s1: "?up True s1 w1" using set_up.proto_handler [OF s0 r1(1) [folded e]] by simp
  obtain s2 where r2: "Service_ConsumeEvents (\<lambda>_. SQLiteCapabilities) taken_refused ''job'' (Some (\<lambda>evt w. (None, evt, w))) (Some s1, w1)
      = (Returns (), Some s2, w1)" "map hi_Name (sv_handlers s2) = [''*pb.Text-Handler'', ''cloudevents-job'']"
    "map_option (\<lambda>r. map rh_name (rt_handlers r)) (sv_router s2) = Some [''*pb.Text-Handler'', ''cloudevents-job'']"
    using r1(2,3) by (auto simp: Service_ConsumeEvents_def with_service_def taken_refused_def Let_def)
  have s2: "?up True s2 w1" using set_up.event_consumer [OF s1 r2(1)] by simp
  obtain s3 w3 where r3: "?p (Some s2, w1) = (Panics ''handler exists'', Some s3, w3)"
    "map hi_Name (sv_handlers s3) = [''*pb.Text-Handler'', ''cloudevents-job'', ''*pb.Text-Handler'']" "sv_router s3 = sv_router s2"
    using r2(2,3) by (auto simp: RegisterProtoHandler_def with_service_def EnsureProtoPrototype_def isNilProto_def text_lib_def
      ApplyProtoHandlerOptions_def echo_registration_def BuildProtoHandler_def registerHandler_def typed_registration_def
      handler_name_def Let_def registerProtoType_def taken_refused_def)
  have "?up False s3 w3" using set_up.proto_handler [OF s2 r3(1) [folded e]] by simp
  from registrations_consistent [OF this taken_refused_spec] have "listed_service text_lib s3" by (simp only: e)
  with r3(2,3) r2(3) show ?thesis by (intro exI [of _ s3]) simp
qed

lemma registered_type_accepted_witness:
  "\<exists>s' w' msg w2. RegisterProtoHandler (PtrTo ''pb.Text'') (\<lambda>_. True) None (\<lambda>w. (''id'', w)) text_lib no_stats taken_refused echo_registration
      (Some plain_service, []) = (Returns (), Some s', w')
    \<and> NewMessageFromProto text_lib count_id (Some ''hi'') [] 7 = (Inr msg, w2)
    \<and> refusal text_lib (sv_protoRegistry s') (\<lambda>_. None) msg = None"
proof -
  obtain s' w' where r: "RegisterProtoHandler (PtrTo ''pb.Text'') (\<lambda>_. True) None (\<lambda>w. (''id'', w)) text_lib no_stats taken_refused
      echo_registration (Some plain_service, []) = (Returns (), Some s', w')"
    using echo_registered [of "[]"] by blast
  obtain msg w2 where n: "NewMessageFromProto text_lib count_id (Some ''hi'') [] 7 = (Inr msg, w2)"
    by (simp add: NewMessageFromProto_def text_lib_def count_id_def)
  have p: "EnsureProtoPrototype text_lib (\<lambda>_. True) (PtrTo ''pb.Text'') None = Inr []" "pl_type text_lib ''hi'' = pl_type text_lib []"
    "pl_marshal text_lib ''hi'' = Inr ''hi''"
    "\<forall>p. pl_type text_lib p = pl_type text_lib ''hi'' \<longrightarrow> pl_unmarshal text_lib ''hi'' (pl_fresh text_lib p) = Inr ''hi''"
    "wf_service text_lib plain_service"
    by (simp_all add: EnsureProtoPrototype_def isNilProto_def text_lib_def wf_service_def plain_service_def bare_service_def)
  show ?thesis
    using r n registered_type_accepted [where v = "\<lambda>_. None", OF r p(1-4) refl p(5) taken_refused_spec n] by blast
qed

end
