(* ===== verification/Rt_Resources.thy ===== *)
theory Rt_Resources
  imports Rt_Stats
begin

text \<open>
  The sampling of CPU and memory for the statistics (\<open>internal/runtime/resources.go\<close>).

  The readings of the Go runtime are parameters: \<open>metric\<close> gives the value of a metric of
  \<open>runtime/metrics\<close> that is a float, and nothing for a name the package does not have. \<open>now\<close> is the
  clock in nanoseconds. Floating-point results are rounded after every operation.
\<close>

record resourceTracker =
  rs_samples :: "string list"
  rs_lastCPUSeconds :: rat
  rs_lastSample :: "int option"
  rs_numCPU :: rat

record 'w go_runtime =
  rd_metric :: "string \<Rightarrow> 'w \<Rightarrow> rat option"
  rd_now :: "'w \<Rightarrow> int"
  rd_alloc :: "'w \<Rightarrow> 64 word"
  rd_goroutines :: "'w \<Rightarrow> int"

definition cpu_metric :: string where
  "cpu_metric = ''/sched/cpu:seconds''"

definition newResourceTracker :: "int \<Rightarrow> resourceTracker" where
  "newResourceTracker numCPU =
     \<lparr>rs_samples = [cpu_metric], rs_lastCPUSeconds = 0, rs_lastSample = None, rs_numCPU = rnd (of_int numCPU)\<rparr>"

definition cpu_share :: "resourceTracker \<Rightarrow> rat \<Rightarrow> int \<Rightarrow> int \<Rightarrow> rat" where
  "cpu_share r cpuSeconds lastAt now =
     (let deltaCPU = rnd (cpuSeconds - rs_lastCPUSeconds r);
          deltaWall = dur_seconds (sub_time now lastAt)
      in if 0 < deltaWall \<and> 0 < rs_numCPU r then rnd (rnd (rnd (deltaCPU / deltaWall) / rs_numCPU r) * 100) else 0)"

definition zero_usage :: ResourceUsage where
  "zero_usage = \<lparr>CPUPercent = 0, MemoryBytes = 0, Goroutines = 0\<rparr>"

definition Snapshot :: "'w go_runtime \<Rightarrow> resourceTracker option \<Rightarrow> 'w \<Rightarrow> ResourceUsage \<times> resourceTracker option" where
  "Snapshot rt tracker w =
     (case tracker of
        None \<Rightarrow> (zero_usage, None)
      | Some r \<Rightarrow>
          (let r = (if rs_samples r = [] then r\<lparr>rs_samples := [cpu_metric]\<rparr> else r);
               cpu = rd_metric rt (hd (rs_samples r)) w;
               now = rd_now rt w;
               cpuPercent = (case (cpu, rs_lastSample r) of
                               (Some cpuSeconds, Some lastAt) \<Rightarrow> cpu_share r cpuSeconds lastAt now
                             | _ \<Rightarrow> 0);
               r = (case cpu of Some cpuSeconds \<Rightarrow> r\<lparr>rs_lastCPUSeconds := cpuSeconds\<rparr> | None \<Rightarrow> r);
               r = r\<lparr>rs_lastSample := Some now\<rparr>
           in (\<lparr>CPUPercent = cpuPercent, MemoryBytes = rd_alloc rt w, Goroutines = rd_goroutines rt w\<rparr>, Some r)))"

fun snapshots :: "'w go_runtime \<Rightarrow> resourceTracker option \<Rightarrow> 'w list \<Rightarrow> ResourceUsage list" where
  "snapshots rt r [] = []"
| "snapshots rt r (w # worlds) = (case Snapshot rt r w of (u, r') \<Rightarrow> u # snapshots rt r' worlds)"

text \<open>
  A metric the runtime does not have is never sampled. When \<open>runtime/metrics\<close> has no metric
  named \<open>/sched/cpu:seconds\<close>, every snapshot of a tracker reports a CPU share of zero, whatever the
  program uses, while memory and goroutines are those of the moment.
\<close>

theorem cpu_share_needs_metric:
  assumes "\<forall>w. rd_metric rt cpu_metric w = None"
  shows "snapshots rt (Some (newResourceTracker n)) worlds
    = map (\<lambda>w. \<lparr>CPUPercent = 0, MemoryBytes = rd_alloc rt w, Goroutines = rd_goroutines rt w\<rparr>) worlds"
proof -
  have "rs_samples r = [cpu_metric] \<Longrightarrow> snapshots rt (Some r) worlds
    = map (\<lambda>w. \<lparr>CPUPercent = 0, MemoryBytes = rd_alloc rt w, Goroutines = rd_goroutines rt w\<rparr>) worlds" for r
    using assms by (induction worlds arbitrary: r) (simp_all add: Snapshot_def Let_def)
  then show ?thesis by (simp add: newResourceTracker_def)
qed

text \<open>The first snapshot has no share to report, and a clock that stands still gives none.\<close>

lemma first_snapshot: "CPUPercent (fst (Snapshot rt (Some (newResourceTracker n)) w)) = 0"
  by (simp add: Snapshot_def newResourceTracker_def Let_def split: option.splits)

definition idle_runtime :: "nat go_runtime" where
  "idle_runtime = \<lparr>rd_metric = (\<lambda>_ _. None), rd_now = int, rd_alloc = (\<lambda>_. 64), rd_goroutines = (\<lambda>_. 3)\<rparr>"

lemma cpu_share_needs_metric_witness:
  "map CPUPercent (snapshots idle_runtime (Some (newResourceTracker 4)) [1, 2000000000]) = [0, 0]"
proof -
  have "\<forall>w. rd_metric idle_runtime cpu_metric w = None" by (simp add: idle_runtime_def)
  from cpu_share_needs_metric [OF this, of 4 "[1, 2000000000]"] show ?thesis by simp
qed

end
