(* ===== verification/Jetstream.thy ===== *)
theory Jetstream
  imports Ce_Api
begin

text \<open>
  The NATS JetStream transport (\<open>transport/jetstream/jetstream.go\<close>): settings, stream and consumer
  setup, publishing with its delay headers, and the loop that fetches, delays, delivers and
  acknowledges.

  The NATS client is a parameter, collected in \<open>nats\<close>: each call has an effect on the world \<open>'w\<close>
  and may return an error; \<open>'m\<close> is a delivery of the server and \<open>'sub\<close> a subscription; reading and
  writing of headers are the client's too (\<open>exact_headers\<close> states what it documents of them). The
  consumer of the output channel answers a message: acknowledged, refused, or the context ends first,
  which also stands for a message that nobody takes before that. The end of the transport does not
  end the wait for an answer. \<open>nt_now\<close> is the clock in nanoseconds; the readings that follow each
  other within one step agree. Logging is left out, and so are the goroutine and the locks.
\<close>

section \<open>Settings\<close>

definition DefaultMaxDeliver :: int where
  "DefaultMaxDeliver = 3"

definition DefaultAckWait :: duration where
  "DefaultAckWait = 30 * second"

definition MetadataDelay :: string where
  "MetadataDelay = ''pf_delay_ms''"

record js_config =
  js_URL :: string
  js_StreamName :: string
  js_MaxDeliver :: int
  js_AckWait :: duration
  js_Replicas :: int
  js_RetentionPolicy :: string

definition js_withDefaults :: "js_config \<Rightarrow> js_config" where
  "js_withDefaults c =
     (let c = (if js_StreamName c = [] then c\<lparr>js_StreamName := ''PROTOFLOW''\<rparr> else c);
          c = (if js_MaxDeliver c \<le> 0 then c\<lparr>js_MaxDeliver := DefaultMaxDeliver\<rparr> else c);
          c = (if js_AckWait c \<le> 0 then c\<lparr>js_AckWait := DefaultAckWait\<rparr> else c)
      in if js_Replicas c \<le> 0 then c\<lparr>js_Replicas := 1\<rparr> else c)"

section \<open>The client\<close>

type_synonym header = "(string \<times> string list) list"

record nats_msg =
  nm_Subject :: string
  nm_Data :: string
  nm_Header :: header

datatype retention = LimitsPolicy | InterestPolicy | WorkQueuePolicy

record stream_config =
  sc_Name :: string
  sc_Subjects :: "string list"
  sc_MaxAge :: duration
  sc_Replicas :: int
  sc_Retention :: retention

record consumer_config =
  cc_Durable :: string
  cc_FilterSubject :: string
  cc_MaxDeliver :: int
  cc_AckWait :: duration

record ('w, 'm, 'sub) nats =
  nt_now :: "'w \<Rightarrow> int"
  nt_Connect :: "string \<Rightarrow> 'w \<Rightarrow> gerror option \<times> 'w"
  nt_JetStream :: "'w \<Rightarrow> gerror option \<times> 'w"
  nt_Close :: "'w \<Rightarrow> 'w"
  nt_AddStream :: "stream_config \<Rightarrow> 'w \<Rightarrow> gerror option \<times> 'w"
  nt_UpdateStream :: "stream_config \<Rightarrow> 'w \<Rightarrow> gerror option \<times> 'w"
  nt_PublishMsg :: "nats_msg \<Rightarrow> 'w \<Rightarrow> gerror option \<times> 'w"
  nt_AddConsumer :: "string \<Rightarrow> consumer_config \<Rightarrow> 'w \<Rightarrow> gerror option \<times> 'w"
  nt_UpdateConsumer :: "string \<Rightarrow> consumer_config \<Rightarrow> 'w \<Rightarrow> gerror option \<times> 'w"
  nt_PullSubscribe :: "string \<Rightarrow> string \<Rightarrow> 'w \<Rightarrow> (gerror + 'sub) \<times> 'w"
  nt_Unsubscribe :: "'sub \<Rightarrow> 'w \<Rightarrow> 'w"
  nt_HeaderSet :: "string \<Rightarrow> string \<Rightarrow> header \<Rightarrow> header"
  nt_HeaderGet :: "header \<Rightarrow> string \<Rightarrow> string"
  nt_Fetch :: "'sub \<Rightarrow> int \<Rightarrow> 'w \<Rightarrow> (gerror + 'm list) \<times> 'w"
  nt_msg :: "'m \<Rightarrow> nats_msg"
  nt_Ack :: "'m \<Rightarrow> 'w \<Rightarrow> 'w"
  nt_Nak :: "'m \<Rightarrow> 'w \<Rightarrow> 'w"
  nt_NakWithDelay :: "'m \<Rightarrow> duration \<Rightarrow> 'w \<Rightarrow> 'w"

text \<open>
  What the client documents of headers: \<open>Set\<close> puts the only value under a key, \<open>Get\<close> reads the
  first one, or the empty text, and keys are compared exactly.
\<close>

definition exact_headers :: "('w, 'm, 'sub) nats \<Rightarrow> bool" where
  "exact_headers n \<longleftrightarrow>
     (\<forall>k v h. map_of (nt_HeaderSet n k v h) = (map_of h)(k \<mapsto> [v]))
     \<and> (\<forall>k v h. wf_map h \<longrightarrow> wf_map (nt_HeaderSet n k v h))
     \<and> (\<forall>h k. nt_HeaderGet n h k = (case map_of h k of Some (v # vs) \<Rightarrow> v | _ \<Rightarrow> []))"

section \<open>The transport\<close>

record 'sub jetstream =
  jt_config :: js_config
  jt_subscriptions :: "(string \<times> 'sub) list"
  jt_closed :: bool

definition stream_config_of :: "js_config \<Rightarrow> stream_config" where
  "stream_config_of c =
     \<lparr>sc_Name = js_StreamName c, sc_Subjects = [js_StreamName c @ ''.>''], sc_MaxAge = 24 * 3600 * second * 7,
      sc_Replicas = js_Replicas c,
      sc_Retention =
        (if js_RetentionPolicy c = ''interest'' then InterestPolicy
         else if js_RetentionPolicy c = ''workqueue'' then WorkQueuePolicy
         else LimitsPolicy)\<rparr>"

text \<open>Errors of both calls are only logged.\<close>

definition ensureStream :: "('w, 'm, 'sub) nats \<Rightarrow> js_config \<Rightarrow> 'w \<Rightarrow> gerror option \<times> 'w" where
  "ensureStream n c w =
     (case nt_AddStream n (stream_config_of c) w of
        (None, w1) \<Rightarrow> (None, w1)
      | (Some _, w1) \<Rightarrow> (None, snd (nt_UpdateStream n (stream_config_of c) w1)))"

definition js_New :: "('w, 'm, 'sub) nats \<Rightarrow> js_config \<Rightarrow> 'w \<Rightarrow> (gerror + 'sub jetstream) \<times> 'w" where
  "js_New n cfg w =
     (let cfg = js_withDefaults cfg
      in case nt_Connect n (js_URL cfg) w of
           (Some err, w1) \<Rightarrow> (Inl (wrap_err ''failed to connect to NATS'' err), w1)
         | (None, w1) \<Rightarrow>
             (case nt_JetStream n w1 of
                (Some err, w2) \<Rightarrow> (Inl (wrap_err ''failed to create JetStream context'' err), nt_Close n w2)
              | (None, w2) \<Rightarrow>
                  (case ensureStream n cfg w2 of
                     (Some err, w3) \<Rightarrow> (Inl (wrap_err ''failed to ensure stream'' err), nt_Close n w3)
                   | (None, w3) \<Rightarrow> (Inr \<lparr>jt_config = cfg, jt_subscriptions = [], jt_closed = False\<rparr>, w3))))"

definition js_Build :: "('w, 'm, 'sub) nats \<Rightarrow> config \<Rightarrow> 'w \<Rightarrow> (gerror + 'sub jetstream) \<times> 'w" where
  "js_Build n cfg w =
     js_New n \<lparr>js_URL = NATSURL cfg, js_StreamName = [], js_MaxDeliver = 0, js_AckWait = 0, js_Replicas = 0,
               js_RetentionPolicy = []\<rparr> w"

definition topicToSubject :: "'sub jetstream \<Rightarrow> string \<Rightarrow> string" where
  "topicToSubject t topic = js_StreamName (jt_config t) @ ''.'' @ topic"

definition topicToConsumer :: "string \<Rightarrow> string" where
  "topicToConsumer topic = ''consumer_'' @ topic"

definition unix_milli :: "int \<Rightarrow> int" where
  "unix_milli t = t div millisecond"

text \<open>The headers of a message: its metadata, and the times of a message to be delayed.\<close>

definition delay_headers :: "('w, 'm, 'sub) nats \<Rightarrow> int \<Rightarrow> (string \<times> string) list \<Rightarrow> header \<Rightarrow> header" where
  "delay_headers n now md h =
     (let delayStr = mget md MetadataDelay
      in if delayStr = [] then h
         else (case parse_int delayStr of
                 (delayMs, ok) \<Rightarrow>
                   if ok \<and> 0 < delayMs
                   then nt_HeaderSet n ''pf_delay_until'' (dec_int (unix_milli (now + i64 (delayMs * millisecond))))
                          (nt_HeaderSet n ''pf_publish_time'' (dec_int (unix_milli now)) h)
                   else h))"

definition js_headers :: "('w, 'm, 'sub) nats \<Rightarrow> int \<Rightarrow> message \<Rightarrow> header" where
  "js_headers n now msg =
     delay_headers n now (Metadata msg) (fold (\<lambda>(k, v). nt_HeaderSet n k v) (Metadata msg) [])"

definition js_message :: "('w, 'm, 'sub) nats \<Rightarrow> string \<Rightarrow> int \<Rightarrow> message \<Rightarrow> nats_msg" where
  "js_message n subject now msg = \<lparr>nm_Subject = subject, nm_Data = Payload msg, nm_Header = js_headers n now msg\<rparr>"

fun js_publish_all :: "('w, 'm, 'sub) nats \<Rightarrow> string \<Rightarrow> message list \<Rightarrow> 'w \<Rightarrow> gerror option \<times> 'w" where
  "js_publish_all n subject [] w = (None, w)"
| "js_publish_all n subject (msg # msgs) w =
     (case nt_PublishMsg n (js_message n subject (nt_now n w) msg) w of
        (Some err, w') \<Rightarrow> (Some (wrap_err ''failed to publish to JetStream'' err), w')
      | (None, w') \<Rightarrow> js_publish_all n subject msgs w')"

definition js_Publish :: "('w, 'm, 'sub) nats \<Rightarrow> 'sub jetstream \<Rightarrow> string \<Rightarrow> message list \<Rightarrow> 'w \<Rightarrow> gerror option \<times> 'w" where
  "js_Publish n t topic msgs w =
     (if jt_closed t then (Some (Plain ''transport is closed''), w)
      else js_publish_all n (topicToSubject t topic) msgs w)"

definition consumer_config_of :: "'sub jetstream \<Rightarrow> string \<Rightarrow> consumer_config" where
  "consumer_config_of t topic =
     \<lparr>cc_Durable = topicToConsumer topic, cc_FilterSubject = topicToSubject t topic,
      cc_MaxDeliver = js_MaxDeliver (jt_config t), cc_AckWait = js_AckWait (jt_config t)\<rparr>"

definition js_Subscribe :: "('w, 'm, 'sub) nats \<Rightarrow> string \<Rightarrow> 'sub jetstream \<times> 'w \<Rightarrow> (gerror + 'sub) \<times> 'sub jetstream \<times> 'w" where
  "js_Subscribe n topic = (\<lambda>(t, w).
     (if jt_closed t then (Inl (Plain ''transport is closed''), t, w)
      else
        (let cfg = consumer_config_of t topic;
             stream = js_StreamName (jt_config t);
             (made, w1) = (case nt_AddConsumer n stream cfg w of
                             (None, w') \<Rightarrow> (None, w')
                           | (Some _, w') \<Rightarrow> nt_UpdateConsumer n stream cfg w')
         in case made of
              Some err \<Rightarrow> (Inl (wrap_err ''failed to create consumer'' err), t, w1)
            | None \<Rightarrow>
                (case nt_PullSubscribe n (topicToSubject t topic) (topicToConsumer topic) w1 of
                   (Inl err, w2) \<Rightarrow> (Inl (wrap_err ''failed to subscribe'' err), t, w2)
                 | (Inr sub, w2) \<Rightarrow> (Inr sub, t\<lparr>jt_subscriptions := mput topic sub (jt_subscriptions t)\<rparr>, w2)))))"

definition js_Close :: "('w, 'm, 'sub) nats \<Rightarrow> 'sub jetstream \<times> 'w \<Rightarrow> 'sub jetstream \<times> 'w" where
  "js_Close n = (\<lambda>(t, w).
     (if jt_closed t then (t, w)
      else (t\<lparr>jt_closed := True, jt_subscriptions := []\<rparr>,
            nt_Close n (fold (\<lambda>(topic, sub). nt_Unsubscribe n sub) (jt_subscriptions t) w))))"

section \<open>Delivery\<close>

text \<open>How long a delivery is put off: nothing when it has no due time, an unreadable one or one that has come.\<close>

definition delay_left :: "('w, 'm, 'sub) nats \<Rightarrow> int \<Rightarrow> nats_msg \<Rightarrow> duration option" where
  "delay_left n now m =
     (let delayUntilStr = nt_HeaderGet n (nm_Header m) ''pf_delay_until''
      in if delayUntilStr = [] then None
         else (case parse_int delayUntilStr of
                 (delayUntil, ok) \<Rightarrow>
                   if \<not> ok \<or> delayUntil \<le> unix_milli now then None
                   else Some (i64 (i64 (delayUntil - unix_milli now) * millisecond))))"

definition handleDelayedMessage :: "('w, 'm, 'sub) nats \<Rightarrow> 'm \<Rightarrow> 'w \<Rightarrow> bool \<times> 'w" where
  "handleDelayedMessage n m w =
     (case delay_left n (nt_now n w) (nt_msg n m) of
        None \<Rightarrow> (False, w)
      | Some d \<Rightarrow> (True, nt_NakWithDelay n m d w))"

text \<open>The id a JSON payload names, as \<open>json.Unmarshal\<close> into a map of values reads it.\<close>

definition payload_id :: "string \<Rightarrow> string" where
  "payload_id data =
     (case raw_members data of
        Inl _ \<Rightarrow> []
      | Inr m \<Rightarrow>
          if list_all (\<lambda>(k, j). of_json j \<noteq> None) m
          then (case map_of m ''id'' of Some (JStr i) \<Rightarrow> i | _ \<Rightarrow> [])
          else [])"

fun first_values :: "header \<Rightarrow> (string \<times> string) list" where
  "first_values [] = []"
| "first_values ((k, v # vs) # h) = (k, v) # first_values h"
| "first_values ((k, []) # h) = first_values h"

definition natsToWatermill :: "('w, 'm, 'sub) nats \<Rightarrow> int \<Rightarrow> nats_msg \<Rightarrow> message" where
  "natsToWatermill n now m =
     (let msgID = payload_id (nm_Data m);
          msgID = (if msgID = [] then nt_HeaderGet n (nm_Header m) ''ce_id'' else msgID);
          msgID = (if msgID = [] then dec_int now else msgID)
      in (NewMessage msgID (nm_Data m))\<lparr>Metadata := mputs (first_values (nm_Header m)) []\<rparr>)"

definition waitForAck :: "('w, 'm, 'sub) nats \<Rightarrow> answer \<Rightarrow> 'm \<Rightarrow> 'w \<Rightarrow> bool \<times> 'w" where
  "waitForAck n out m w =
     (case out of AnswerAck \<Rightarrow> (True, nt_Ack n m w) | AnswerNack \<Rightarrow> (True, nt_Nak n m w) | ContextDone \<Rightarrow> (False, w))"

definition js_processMessage :: "('w, 'm, 'sub) nats \<Rightarrow> (message \<Rightarrow> 'w \<Rightarrow> answer \<times> 'w) \<Rightarrow> 'm \<Rightarrow> 'w \<Rightarrow> bool \<times> 'w" where
  "js_processMessage n consumer m w =
     (case consumer (natsToWatermill n (nt_now n w) (nt_msg n m)) w of (out, w') \<Rightarrow> waitForAck n out m w')"

fun handle_batch :: "('w, 'm, 'sub) nats \<Rightarrow> (message \<Rightarrow> 'w \<Rightarrow> answer \<times> 'w) \<Rightarrow> 'm list \<Rightarrow> 'w \<Rightarrow> bool \<times> 'w" where
  "handle_batch n consumer [] w = (True, w)"
| "handle_batch n consumer (m # ms) w =
     (case handleDelayedMessage n m w of
        (True, w1) \<Rightarrow> handle_batch n consumer ms w1
      | (False, w1) \<Rightarrow>
          (case js_processMessage n consumer m w1 of
             (True, w2) \<Rightarrow> handle_batch n consumer ms w2
           | (False, w2) \<Rightarrow> (False, w2)))"

text \<open>
  One round of the loop: stop when asked to, otherwise fetch and handle up to ten messages; an error
  of the fetch is skipped. The loop goes on as long as the server and the program do, so it is
  given as its round, which tells whether the loop goes on.
\<close>

definition fetchMessages_round ::
  "('w, 'm, 'sub) nats \<Rightarrow> ('w \<Rightarrow> bool) \<Rightarrow> (message \<Rightarrow> 'w \<Rightarrow> answer \<times> 'w) \<Rightarrow> 'sub \<Rightarrow> 'w \<Rightarrow> bool \<times> 'w" where
  "fetchMessages_round n shouldStop consumer sub w =
     (if shouldStop w then (False, w)
      else (case nt_Fetch n sub 10 w of
              (Inl _, w1) \<Rightarrow> (True, w1)
            | (Inr ms, w1) \<Rightarrow> handle_batch n consumer ms w1))"

section \<open>Headers\<close>

lemma HeaderSet_lookup: "exact_headers n \<Longrightarrow> map_of (nt_HeaderSet n k v h) = (map_of h)(k \<mapsto> [v])"
  by (auto simp: exact_headers_def)

lemma HeaderGet_lookup:
  "exact_headers n \<Longrightarrow> nt_HeaderGet n h k = (case map_of h k of Some (v # vs) \<Rightarrow> v | _ \<Rightarrow> [])"
  by (auto simp: exact_headers_def)

lemma HeaderSet_wf: "exact_headers n \<Longrightarrow> wf_map h \<Longrightarrow> wf_map (nt_HeaderSet n k v h)"
  by (auto simp: exact_headers_def)

lemma headers_fold:
  assumes "exact_headers n"
  shows "map_of (fold (\<lambda>(k, v). nt_HeaderSet n k v) m h) k =
      (case map_of (rev m) k of Some v \<Rightarrow> Some [v] | None \<Rightarrow> map_of h k)
    \<and> (wf_map h \<longrightarrow> wf_map (fold (\<lambda>(k, v). nt_HeaderSet n k v) m h))"
proof (induction m arbitrary: h)
  case Nil
  then show ?case by simp
next
  case (Cons kv m)
  obtain a b where "kv = (a, b)" by (cases kv)
  with Cons [of "nt_HeaderSet n a b h"] show ?case
    by (auto simp: HeaderSet_lookup [OF assms] HeaderSet_wf [OF assms] map_add_def split: option.splits)
qed

lemma wf_headers:
  assumes "exact_headers n"
  shows "wf_map (js_headers n now msg)"
  using headers_fold [OF assms, of "Metadata msg" "[]"]
  by (auto simp: js_headers_def delay_headers_def Let_def HeaderSet_wf [OF assms] split: prod.splits)

text \<open>The header has one value for every metadata entry, and the two times of a delayed message.\<close>

lemma headers_lookup:
  assumes "exact_headers n" "wf_map (Metadata msg)" "k \<notin> {''pf_publish_time'', ''pf_delay_until''}"
  shows "map_of (js_headers n now msg) k = map_option (\<lambda>v. [v]) (map_of (Metadata msg) k)"
proof -
  have "map_of (js_headers n now msg) k = map_of (fold (\<lambda>(k, v). nt_HeaderSet n k v) (Metadata msg) []) k"
    using assms(3) by (auto simp: js_headers_def delay_headers_def Let_def HeaderSet_lookup [OF assms(1)] split: prod.splits)
  also have "\<dots> = map_option (\<lambda>v. [v]) (map_of (Metadata msg) k)"
    using headers_fold [OF assms(1), of "Metadata msg" "[]"] map_of_inject_set [of "rev (Metadata msg)" "Metadata msg"] assms(2)
    by (auto simp: rev_map [symmetric] split: option.splits)
  finally show ?thesis .
qed

lemma headers_due:
  assumes "exact_headers n" "mget (Metadata msg) MetadataDelay = dec_int ms" "in_i64 ms" "0 < ms"
  shows "map_of (js_headers n now msg) ''pf_delay_until'' = Some [dec_int (unix_milli (now + i64 (ms * millisecond)))]"
  using assms by (simp add: js_headers_def delay_headers_def Let_def parse_int_dec_int HeaderSet_lookup)

lemma first_values_keys: "fst ` set (first_values h) \<subseteq> fst ` set h"
  by (induction h rule: first_values.induct) auto

lemma first_values_new: "k \<notin> fst ` set h \<Longrightarrow> k \<notin> fst ` set (first_values h)"
  using first_values_keys [of h] by blast

lemma wf_first_values: "wf_map h \<Longrightarrow> wf_map (first_values h)"
  by (induction h rule: first_values.induct) (simp_all add: first_values_new)

lemma first_values_lookup:
  "wf_map h \<Longrightarrow> map_of (first_values h) k = (case map_of h k of Some (v # vs) \<Rightarrow> Some v | _ \<Rightarrow> None)"
proof (induction h rule: first_values.induct)
  case (3 k' h)
  then have "map_of (first_values h) k' = None"
    using first_values_keys [of h] by (auto simp: map_of_eq_None_iff)
  with 3 show ?case by auto
qed auto

lemma received_metadata:
  assumes "exact_headers n" "wf_map (Metadata msg)" "k \<notin> {''pf_publish_time'', ''pf_delay_until''}"
    "nm_Header nm = js_headers n t msg"
  shows "map_of (Metadata (natsToWatermill n now nm)) k = map_of (Metadata msg) k"
  using headers_lookup [OF assms(1-3), of t] wf_headers [OF assms(1), of t msg]
  by (auto simp: natsToWatermill_def Let_def assms(4) map_of_mputs wf_first_values first_values_lookup
      split: option.splits)

section \<open>An event through the stream\<close>

text \<open>
  A small server for the checks on concrete inputs: a clock, the messages published and the answers
  given, each with its delay. It refuses consumer names with a dot.
\<close>

record js_world =
  jw_now :: int
  jw_stream :: "nats_msg list"
  jw_answers :: "(nats_msg \<times> string \<times> duration) list"

definition refuse_dots :: "consumer_config \<Rightarrow> gerror option" where
  "refuse_dots c = (if CHR ''.'' \<in> set (cc_Durable c) then Some (Plain ''invalid consumer name'') else None)"

definition small_nats :: "(js_world, nats_msg, string) nats" where
  "small_nats =
     \<lparr>nt_now = jw_now, nt_Connect = (\<lambda>_ w. (None, w)), nt_JetStream = (\<lambda>w. (None, w)), nt_Close = (\<lambda>w. w),
      nt_AddStream = (\<lambda>_ w. (None, w)), nt_UpdateStream = (\<lambda>_ w. (None, w)),
      nt_PublishMsg = (\<lambda>m w. (None, w\<lparr>jw_stream := jw_stream w @ [m]\<rparr>)),
      nt_AddConsumer = (\<lambda>_ c w. (refuse_dots c, w)), nt_UpdateConsumer = (\<lambda>_ c w. (refuse_dots c, w)),
      nt_PullSubscribe = (\<lambda>s c w. (Inr c, w)), nt_Unsubscribe = (\<lambda>_ w. w),
      nt_HeaderSet = (\<lambda>k v h. mput k [v] h),
      nt_HeaderGet = (\<lambda>h k. case map_of h k of Some (v # vs) \<Rightarrow> v | _ \<Rightarrow> []),
      nt_Fetch = (\<lambda>_ k w. (Inr (take (nat k) (jw_stream w)), w)), nt_msg = (\<lambda>m. m),
      nt_Ack = (\<lambda>m w. w\<lparr>jw_answers := jw_answers w @ [(m, ''ack'', 0)]\<rparr>),
      nt_Nak = (\<lambda>m w. w\<lparr>jw_answers := jw_answers w @ [(m, ''nak'', 0)]\<rparr>),
      nt_NakWithDelay = (\<lambda>m d w. w\<lparr>jw_answers := jw_answers w @ [(m, ''nak'', d)]\<rparr>)\<rparr>"

lemma small_exact: "exact_headers small_nats"
  by (simp add: exact_headers_def small_nats_def)

definition small_jetstream :: "string jetstream" where
  "small_jetstream =
     \<lparr>jt_config = js_withDefaults \<lparr>js_URL = [], js_StreamName = [], js_MaxDeliver = 0, js_AckWait = 0,
        js_Replicas = 0, js_RetentionPolicy = []\<rparr>,
      jt_subscriptions = [], jt_closed = False\<rparr>"

definition small_world :: js_world where
  "small_world = \<lparr>jw_now = 5000000000, jw_stream = [], jw_answers = []\<rparr>"

text \<open>The id in the payload of a CloudEvent is that of the event, where the payload is read at all.\<close>

lemma payload_id_event:
  assumes "wf_event e" "MarshalJSON e = Some s"
  shows "payload_id s \<in> {[], ID e}"
proof -
  obtain m where m: "raw_members s = Inr m" "wf_map m"
    "\<And>k. map_of m k =
       Option.bind (if k \<in> knownCloudEventsAttrs then map_of (event_attrs e) k else map_of (exts e) k) to_json"
    using raw_members_marshal [OF assms] by blast
  have "map_of m ''id'' = Some (JStr (ID e))"
    using m(3) [of "''id''"] by (simp add: knownCloudEventsAttrs_def event_attrs_lookup)
  then show ?thesis by (simp add: payload_id_def m(1))
qed

lemma received_id:
  assumes "exact_headers n" "wf_event e" "map_of (exts e) ''ce_id'' = None" "toWatermillMessage e = Inr msg"
    "nm_Header nm = js_headers n t msg" "nm_Data nm = Payload msg"
  shows "UUID (natsToWatermill n now nm) = ID e"
proof -
  from assms(4) obtain s where s: "Validate e = None" "MarshalJSON e = Some s"
    "Metadata msg = ext_metadata (exts e) (core_metadata e)" "Payload msg = s"
    by (auto simp: toWatermill_Inr)
  have ne: "ID e \<noteq> []" using s(1) by (auto simp: Validate_def split: if_splits)
  have "map_of (Metadata msg) ''ce_id'' = Some (ID e)"
    using assms(2,3) by (simp add: s(3) ext_metadata_lookup wf_event_def core_metadata_lookup)
  then have "nt_HeaderGet n (nm_Header nm) ''ce_id'' = ID e"
    using headers_lookup [OF assms(1) wf_toWatermill [OF assms(4)], of "''ce_id''" t]
    by (simp add: HeaderGet_lookup [OF assms(1)] assms(5))
  with payload_id_event [OF assms(2) s(2)] ne show ?thesis
    by (auto simp: natsToWatermill_def NewMessage_def Let_def assms(6) s(4))
qed

text \<open>
  C38. A CloudEvent published on an open JetStream transport is handed to the server in one message
  under the subject of its topic, and what a subscriber makes of that message at any time later has
  the event's id, its payload and each of its metadata entries, so that the consumer decodes it
  to the event that was published.
\<close>

theorem js_event_roundtrip:
  assumes "exact_headers n" "wf_event e" "map_of (exts e) ''ce_id'' = None" "toWatermillMessage e = Inr msg"
    "json_stable (Data e) = Some d" "\<not> jt_closed t"
  shows "\<exists>nm m. js_Publish n t topic [msg] w =
        apfst (map_option (wrap_err ''failed to publish to JetStream'')) (nt_PublishMsg n nm w)
    \<and> nm_Subject nm = js_StreamName (jt_config t) @ ''.'' @ topic
    \<and> (\<forall>now. UUID (natsToWatermill n now nm) = UUID msg
        \<and> Payload (natsToWatermill n now nm) = Payload msg
        \<and> tryFromWatermillMessage (natsToWatermill n now nm) = e\<lparr>Data := d, Extensions := Some m\<rparr>
        \<and> (\<forall>k. k \<notin> {''pf_publish_time'', ''pf_delay_until''} \<longrightarrow>
              map_of (Metadata (natsToWatermill n now nm)) k = map_of (Metadata msg) k))
    \<and> (\<forall>k. map_of m k = Option.bind (map_of (exts e) k) json_stable)"
proof -
  define nm where "nm = js_message n (topicToSubject t topic) (nt_now n w) msg"
  note nm_def = nm_def js_message_def
  from assms(4) obtain s where s: "Validate e = None" "MarshalJSON e = Some s" "Payload msg = s" "UUID msg = ID e"
    by (auto simp: toWatermill_Inr)
  obtain m where m: "UnmarshalJSON zero_event s = Inr (e\<lparr>Data := d, Extensions := Some m\<rparr>)"
    "\<And>k. map_of m k = Option.bind (map_of (exts e) k) json_stable"
    using event_roundtrip [OF assms(2) s(2) assms(5)] by blast
  have v: "Validate (e\<lparr>Data := d, Extensions := Some m\<rparr>) = None" "ID e \<noteq> []"
    using s(1) by (auto simp: Validate_def split: if_splits)
  have p: "Payload (natsToWatermill n now nm) = s" for now
    by (simp add: natsToWatermill_def NewMessage_def Let_def nm_def s(3))
  have "js_Publish n t topic [msg] w =
      apfst (map_option (wrap_err ''failed to publish to JetStream'')) (nt_PublishMsg n nm w)"
    using assms(6) by (auto simp: js_Publish_def nm_def(1) [symmetric] apfst_def split: prod.splits option.splits)
  moreover have "UUID (natsToWatermill n now nm) = UUID msg" for now
    using received_id [OF assms(1-4)] by (simp add: nm_def s(4))
  moreover have "map_of (Metadata (natsToWatermill n now nm)) k = map_of (Metadata msg) k"
    if "k \<notin> {''pf_publish_time'', ''pf_delay_until''}" for k now
    using received_metadata [OF assms(1) wf_toWatermill [OF assms(4)] that] by (simp add: nm_def)
  moreover have "tryFromWatermillMessage (natsToWatermill n now nm) = e\<lparr>Data := d, Extensions := Some m\<rparr>" for now
    using m(1) v by (simp add: tryFromWatermillMessage_def p)
  ultimately show ?thesis
    using m(2) s(3) p by (intro exI [of _ nm] exI [of _ m]) (simp add: nm_def topicToSubject_def)
qed

lemma js_event_roundtrip_witness:
  "\<exists>msg nm m. toWatermillMessage sample_event = Inr msg
     \<and> js_Publish small_nats small_jetstream ''orders'' [msg] small_world = (None, small_world\<lparr>jw_stream := [nm]\<rparr>)
     \<and> nm_Subject nm = ''PROTOFLOW.orders''
     \<and> tryFromWatermillMessage (natsToWatermill small_nats 7 nm) = sample_event\<lparr>Data := AStr ''hi'', Extensions := Some m\<rparr>"
proof -
  have "\<not> isl (toWatermillMessage sample_event)" by code_simp
  then obtain msg where m: "toWatermillMessage sample_event = Inr msg" using not_isl by blast
  have x: "wf_event sample_event" "map_of (exts sample_event) ''ce_id'' = None"
    "json_stable (Data sample_event) = Some (AStr ''hi'')" "\<not> jt_closed small_jetstream" by code_simp+
  from js_event_roundtrip [OF small_exact x(1,2) m x(3,4), of "''orders''" small_world] m show ?thesis
    by (auto simp: small_nats_def small_jetstream_def small_world_def js_withDefaults_def apfst_def)
qed

text \<open>The metadata entry that carries the delay of an event.\<close>

lemma delay_metadata:
  assumes "wf_map (exts e)" "toWatermillMessage (SetDelay e d) = Inr msg"
  shows "mget (Metadata msg) MetadataDelay = dec_int (quot d millisecond)"
proof -
  have x: "exts (SetDelay e d) = mput ExtDelayMs (AInt64 (quot d millisecond)) (exts e)"
    by (simp add: SetDelay_def SetDelayMs_def WithExtension_def dur_millis_def)
  have "wf_map (exts (SetDelay e d))" using assms(1) unfolding x by simp
  then have "map_of (Metadata msg) ExtDelayMs = Some (dec_int (quot d millisecond))"
    using assms(2) by (auto simp: toWatermill_Inr ext_metadata_lookup x ext_text_def)
  then show ?thesis by (simp add: mget_def MetadataDelay_def ExtDelayMs_def)
qed

text \<open>A due time in whole milliseconds decides on a delivery.\<close>

lemma delayed_by_header:
  assumes "nt_HeaderGet n (nm_Header (nt_msg n m)) ''pf_delay_until'' = dec_int u"
    "0 \<le> u" "in_i64 (u * millisecond)" "0 \<le> nt_now n w"
  shows "handleDelayedMessage n m w =
    (if nt_now n w < u * millisecond
     then (True, nt_NakWithDelay n m (u * millisecond - nt_now n w div millisecond * millisecond) w)
     else (False, w))"
proof -
  let ?now = "nt_now n w"
  have u: "in_i64 u" using assms(2,3) by (simp add: in_i64_def)
  have c: "u \<le> unix_milli ?now \<longleftrightarrow> \<not> ?now < u * millisecond"
    unfolding unix_milli_def by linarith
  have "0 \<le> ?now div millisecond" using assms(4) by simp
  then have "in_i64 (u - ?now div millisecond)" "in_i64 ((u - ?now div millisecond) * millisecond)"
    if "?now div millisecond < u"
    using that assms(3) u by (auto simp: in_i64_def left_diff_distrib)
  then show ?thesis
    using c assms(1) parse_int_dec_int [OF u]
    by (auto simp: handleDelayedMessage_def delay_left_def Let_def unix_milli_def left_diff_distrib)
qed

text \<open>
  C37. Delays are honoured. A CloudEvent published with a delay \<open>d\<close> of at least a millisecond is due
  at a time less than two milliseconds before the delay has passed, and never after it. A
  delivery before that time does not reach the consumer: it is refused with the time that is
  left, rounded up to less than a millisecond more, so that the delivery the server makes after
  it is due; from the due time on every delivery is handed over. The other messages of the
  batch are handled alike.
\<close>

theorem js_delay_honoured:
  assumes "exact_headers n" "wf_map (exts e)" "toWatermillMessage (SetDelay e d) = Inr msg"
    "millisecond \<le> d" "0 \<le> t0" "in_i64 (t0 + d)" "nt_msg n m = js_message n subject t0 msg"
  shows "\<exists>due. t0 + d - 2 * millisecond < due \<and> due \<le> t0 + d
    \<and> (\<forall>w. 0 \<le> nt_now n w \<longrightarrow>
         (nt_now n w < due \<longrightarrow>
            (\<exists>left. due - nt_now n w \<le> left \<and> left < due - nt_now n w + millisecond
               \<and> handle_batch n consumer (m # ms) w = handle_batch n consumer ms (nt_NakWithDelay n m left w)))
       \<and> (due \<le> nt_now n w \<longrightarrow>
            handle_batch n consumer (m # ms) w =
              (case js_processMessage n consumer m w of
                 (True, w2) \<Rightarrow> handle_batch n consumer ms w2
               | (False, w2) \<Rightarrow> (False, w2))))"
proof -
  let ?ms = "quot d millisecond"
  define u where "u = unix_milli (t0 + ?ms * millisecond)"
  have ms: "?ms = d div millisecond" "0 < ?ms" "?ms * millisecond \<le> d" "d < ?ms * millisecond + millisecond"
    using assms(4) by (simp_all add: quot_nonneg)
  have i: "in_i64 ?ms" "in_i64 (?ms * millisecond)"
    using ms(2,3) assms(5,6) by (simp_all add: in_i64_def)
  have u: "u * millisecond \<le> t0 + ?ms * millisecond" "t0 + ?ms * millisecond < u * millisecond + millisecond"
    by (simp_all add: u_def unix_milli_def)
  have pos: "0 \<le> u" using ms(2) assms(5) by (simp add: u_def unix_milli_def)
  have fit: "in_i64 (u * millisecond)" using u(1) ms(3) assms(6) pos by (simp add: in_i64_def)
  have "nt_HeaderGet n (nm_Header (nt_msg n m)) ''pf_delay_until'' = dec_int u"
    using headers_due [OF assms(1) delay_metadata [OF assms(2,3)] i(1) ms(2), of t0] i(2)
    by (simp add: assms(7) js_message_def HeaderGet_lookup [OF assms(1)] u_def)
  note h = delayed_by_header [OF this pos fit]
  have late: "handle_batch n consumer (m # ms) w =
      (case js_processMessage n consumer m w of
         (True, w2) \<Rightarrow> handle_batch n consumer ms w2 | (False, w2) \<Rightarrow> (False, w2))"
    if "0 \<le> nt_now n w" "u * millisecond \<le> nt_now n w" for w
    using h [OF that(1)] that(2) by simp
  have early: "\<exists>left. u * millisecond - nt_now n w \<le> left \<and> left < u * millisecond - nt_now n w + millisecond
      \<and> handle_batch n consumer (m # ms) w = handle_batch n consumer ms (nt_NakWithDelay n m left w)"
    if "0 \<le> nt_now n w" "nt_now n w < u * millisecond" for w
    using h [OF that(1)] that(2)
    by (intro exI [of _ "u * millisecond - nt_now n w div millisecond * millisecond"]) (simp, linarith)
  from u ms(3,4) late early show ?thesis by (intro exI [of _ "u * millisecond"]) simp
qed

lemma js_delay_honoured_witness:
  "\<exists>nm due. 6998000000 < due \<and> due \<le> 7000000000
     \<and> (\<exists>left. due - 5000000000 \<le> left \<and> left < due - 4999000000
          \<and> handle_batch small_nats (\<lambda>_ w. (AnswerAck, w)) [nm] small_world
            = (True, small_world\<lparr>jw_answers := [(nm, ''nak'', left)]\<rparr>))
     \<and> handle_batch small_nats (\<lambda>_ w. (AnswerAck, w)) [nm] (small_world\<lparr>jw_now := 7000000000\<rparr>)
       = (True, small_world\<lparr>jw_now := 7000000000, jw_answers := [(nm, ''ack'', 0)]\<rparr>)"
proof -
  have "\<not> isl (toWatermillMessage (SetDelay sample_event 2000000000))" by code_simp
  then obtain msg where m: "toWatermillMessage (SetDelay sample_event 2000000000) = Inr msg" using not_isl by blast
  have x: "wf_map (exts sample_event)" "millisecond \<le> (2000000000 :: int)" "(0 :: int) \<le> 5000000000"
    "in_i64 (5000000000 + 2000000000)" by code_simp+
  let ?nm = "js_message small_nats ''PROTOFLOW.orders'' 5000000000 msg"
  have "nt_msg small_nats ?nm = ?nm" by (simp add: small_nats_def)
  from js_delay_honoured [OF small_exact x(1) m x(2-4) this, of "\<lambda>_ w. (AnswerAck, w)" "[]"]
  obtain due where d: "6998000000 < due" "due \<le> 7000000000"
    "\<And>w. 0 \<le> jw_now w \<Longrightarrow> jw_now w < due \<Longrightarrow>
       \<exists>left. due - jw_now w \<le> left \<and> left < due - jw_now w + 1000000
         \<and> handle_batch small_nats (\<lambda>_ w. (AnswerAck, w)) [?nm] w
           = handle_batch small_nats (\<lambda>_ w. (AnswerAck, w)) [] (nt_NakWithDelay small_nats ?nm left w)"
    "\<And>w. 0 \<le> jw_now w \<Longrightarrow> due \<le> jw_now w \<Longrightarrow>
       handle_batch small_nats (\<lambda>_ w. (AnswerAck, w)) [?nm] w =
         (case js_processMessage small_nats (\<lambda>_ w. (AnswerAck, w)) ?nm w of
            (True, w2) \<Rightarrow> handle_batch small_nats (\<lambda>_ w. (AnswerAck, w)) [] w2 | (False, w2) \<Rightarrow> (False, w2))"
    by (auto simp: small_nats_def)
  show ?thesis
    using d(1,2) d(3) [of small_world] d(4) [of "small_world\<lparr>jw_now := 7000000000\<rparr>"]
    by (intro exI [of _ ?nm] exI [of _ due])
      (auto simp: small_world_def small_nats_def js_processMessage_def waitForAck_def)
qed

section \<open>What the transport refuses and loses\<close>

text \<open>
  A topic with a dot can be published to, but not subscribed to where consumer names may not have
  one: event types in the reverse domain style are such topics.
\<close>

lemma js_dotted_topic_refused:
  assumes "\<And>s c w. CHR ''.'' \<in> set (cc_Durable c) \<Longrightarrow>
      fst (nt_AddConsumer n s c w) \<noteq> None \<and> fst (nt_UpdateConsumer n s c w) \<noteq> None"
    "CHR ''.'' \<in> set topic" "\<not> jt_closed t"
  shows "\<exists>err w'. js_Subscribe n topic (t, w) = (Inl (wrap_err ''failed to create consumer'' err), t, w')"
proof -
  let ?c = "consumer_config_of t topic"
  have c: "CHR ''.'' \<in> set (cc_Durable ?c)"
    using assms(2) by (simp add: consumer_config_of_def topicToConsumer_def)
  obtain e1 w1 e2 w2 where "nt_AddConsumer n (js_StreamName (jt_config t)) ?c w = (Some e1, w1)"
    "nt_UpdateConsumer n (js_StreamName (jt_config t)) ?c w1 = (Some e2, w2)"
    using assms(1) [OF c] by (metis option.exhaust prod.collapse)
  with assms(3) show ?thesis by (auto simp: js_Subscribe_def)
qed

text \<open>
  The id of a message whose payload is no JSON object and which has no \<open>ce_id\<close> entry is not sent:
  the subscriber makes one up from the clock, a different one with each delivery.
\<close>

lemma js_raw_id_lost:
  assumes "exact_headers n" "wf_map (Metadata msg)" "payload_id (Payload msg) = []"
    "mget (Metadata msg) ''ce_id'' = []"
  shows "UUID (natsToWatermill n now (js_message n subject t msg)) = dec_int now"
  using headers_lookup [OF assms(1,2), of "''ce_id''" t] assms(3,4)
  by (auto simp: natsToWatermill_def NewMessage_def Let_def js_message_def HeaderGet_lookup [OF assms(1)] mget_def
      split: option.splits)

text \<open>Closing ends every subscription once and refuses later calls.\<close>

lemma js_closed:
  "js_Close n (t, w) = (t', w') \<Longrightarrow> jt_closed t'
     \<and> js_Publish n t' topic msgs w' = (Some (Plain ''transport is closed''), w')
     \<and> js_Subscribe n topic (t', w') = (Inl (Plain ''transport is closed''), t', w')
     \<and> js_Close n (t', w') = (t', w')"
  by (auto simp: js_Close_def js_Publish_def js_Subscribe_def split: if_splits)

end
