(* ===== verification/Io_File.thy ===== *)
theory Io_File
  imports Ce_Api
begin

text \<open>
  The file transport (\<open>transport/io/io.go\<close>): each message is a line of JSON, appended to a file by
  the publisher and read from its start by every subscriber, which polls at the end of the file.

  A file is its bytes; \<open>io_ops\<close> are the calls on it, over a world \<open>'w\<close>. Of a \<open>bufio.Reader\<close> only
  the logical position counts, that of its file less what it has buffered: the code never uses
  one without the other, and the file only grows. An empty payload and empty metadata are not
  distinguished from nil ones, strings are valid UTF-8 as in the JSON theory, and logging, the
  pause of 50 ms and the goroutine are left out.
\<close>

section \<open>Base64\<close>

text \<open>\<open>encoding/json\<close> writes bytes in the standard encoding with padding.\<close>

definition b64_char :: "nat \<Rightarrow> char" where
  "b64_char n =
     (if n < 26 then char_of (65 + n)
      else if n < 52 then char_of (71 + n)
      else if n < 62 then char_of (n - 4)
      else if n = 62 then CHR ''+''
      else CHR ''/'')"

definition b64_val :: "char \<Rightarrow> nat option" where
  "b64_val c =
     (let n = code c
      in if 65 \<le> n \<and> n \<le> 90 then Some (n - 65)
         else if 97 \<le> n \<and> n \<le> 122 then Some (n - 71)
         else if 48 \<le> n \<and> n \<le> 57 then Some (n + 4)
         else if n = 43 then Some 62
         else if n = 47 then Some 63
         else None)"

fun base64 :: "string \<Rightarrow> string" where
  "base64 [] = []"
| "base64 [a] = [b64_char (code a div 4), b64_char (code a mod 4 * 16), CHR ''='', CHR ''='']"
| "base64 [a, b] =
     [b64_char (code a div 4), b64_char (code a mod 4 * 16 + code b div 16), b64_char (code b mod 16 * 4), CHR ''='']"
| "base64 (a # b # c # s) =
     b64_char (code a div 4) # b64_char (code a mod 4 * 16 + code b div 16)
       # b64_char (code b mod 16 * 4 + code c div 64) # b64_char (code c mod 64) # base64 s"

text \<open>The decoder, on a text without line breaks: unused bits of the last group are not looked at.\<close>

fun unbase64_groups :: "string \<Rightarrow> string option" where
  "unbase64_groups [] = Some []"
| "unbase64_groups (a # b # c # d # s) =
     (case (b64_val a, b64_val b) of
        (Some i, Some j) \<Rightarrow>
          if d = CHR ''='' then
            (if s \<noteq> [] then None
             else if c = CHR ''='' then Some [char_of (i * 4 + j div 16)]
             else (case b64_val c of
                     None \<Rightarrow> None
                   | Some k \<Rightarrow> Some [char_of (i * 4 + j div 16), char_of (j mod 16 * 16 + k div 4)]))
          else (case (b64_val c, b64_val d, unbase64_groups s) of
                  (Some k, Some l, Some t) \<Rightarrow>
                    Some (char_of (i * 4 + j div 16) # char_of (j mod 16 * 16 + k div 4) # char_of (k mod 4 * 64 + l) # t)
                | _ \<Rightarrow> None)
      | _ \<Rightarrow> None)"
| "unbase64_groups _ = None"

definition unbase64 :: "string \<Rightarrow> string option" where
  "unbase64 s = unbase64_groups (filter (\<lambda>c. code c \<noteq> 10 \<and> code c \<noteq> 13) s)"

lemma b64_val_char: "n < 64 \<Longrightarrow> b64_val (b64_char n) = Some n"
  by (auto simp: b64_val_def b64_char_def Let_def)

lemma char_of_eq: "n < 256 \<Longrightarrow> char_of n = c \<longleftrightarrow> n = code c"
  by (metis char_of_char of_char_of mod_less)

lemma b64_char_other: "n < 64 \<Longrightarrow> b64_char n \<noteq> CHR ''='' \<and> code (b64_char n) \<noteq> 10 \<and> code (b64_char n) \<noteq> 13"
  by (auto simp: b64_char_def char_of_eq)

lemma code_less: "code c < 256"
  by (metis of_char_mod_256 mod_less_divisor zero_less_numeral)

lemma sextets:
  "code a div 4 < 64" "code a mod 4 * 16 < 64" "code a mod 4 * 16 + code b div 16 < 64"
  "code b mod 16 * 4 < 64" "code b mod 16 * 4 + code c div 64 < 64" "code c mod 64 < 64"
  using code_less [of a] code_less [of b] code_less [of c] by linarith+

lemma base64_chars: "filter (\<lambda>c. code c \<noteq> 10 \<and> code c \<noteq> 13) (base64 s) = base64 s"
  by (induction s rule: base64.induct) (simp_all add: b64_char_other sextets)

lemma unbase64_base64 [simp]: "unbase64 (base64 s) = Some s"
proof -
  have "unbase64_groups (base64 s) = Some s"
  proof (induction s rule: base64.induct)
    case (2 a)
    then show ?case by (simp add: b64_val_char b64_char_other sextets)
  next
    case (3 a b)
    have "(code a mod 4 * 16 + code b div 16) div 16 = code a mod 4" "(code a mod 4 * 16 + code b div 16) mod 16 = code b div 16"
      using code_less [of b] by (simp_all add: less_mult_imp_div_less)
    then show ?case by (simp add: b64_val_char b64_char_other sextets)
  next
    case (4 a b c s)
    have "(code a mod 4 * 16 + code b div 16) div 16 = code a mod 4" "(code a mod 4 * 16 + code b div 16) mod 16 = code b div 16"
      "(code b mod 16 * 4 + code c div 64) div 4 = code b mod 16" "(code b mod 16 * 4 + code c div 64) mod 4 = code c div 64"
      using code_less [of b] code_less [of c] by (simp_all add: less_mult_imp_div_less)
    then show ?case using 4 by (simp add: b64_val_char b64_char_other sextets)
  qed simp
  then show ?thesis by (simp add: unbase64_def base64_chars)
qed

section \<open>The line of a message\<close>

record storedMessage =
  sm_UUID :: string
  sm_Metadata :: "(string \<times> string) list"
  sm_Payload :: string
  sm_Topic :: string

definition stored_of :: "string \<Rightarrow> message \<Rightarrow> storedMessage" where
  "stored_of topic msg = \<lparr>sm_UUID = UUID msg, sm_Metadata = Metadata msg, sm_Payload = Payload msg, sm_Topic = topic\<rparr>"

text \<open>\<open>json.Marshal\<close> of it: the tagged names in order, a map by its keys, bytes in base64. It cannot fail.\<close>

definition stored_json :: "storedMessage \<Rightarrow> json" where
  "stored_json sm =
     JObj [(''uuid'', JStr (sm_UUID sm)),
           (''metadata'', JObj (map (\<lambda>(k, v). (k, JStr v)) (by_key (sm_Metadata sm)))),
           (''payload'', JStr (base64 (sm_Payload sm))),
           (''topic'', JStr (sm_Topic sm))]"

text \<open>
  \<open>json.Unmarshal\<close> into the struct: members are matched without regard to case, a later one
  replaces an earlier one (members of the metadata add up), \<open>null\<close> leaves a string as it is and
  empties a map or slice; a value of a wrong kind makes the whole call fail. A slice of bytes
  is also read from an array of numbers.
\<close>

definition byte_of :: "json \<Rightarrow> char option" where
  "byte_of j =
     (case j of
        JNull \<Rightarrow> Some (CHR 0x00)
      | JNum t \<Rightarrow> if all_digits t \<and> undec t < 256 then Some (char_of (undec t)) else None
      | _ \<Rightarrow> None)"

definition bytes_of :: "json \<Rightarrow> string option" where
  "bytes_of j =
     (case j of
        JNull \<Rightarrow> Some []
      | JStr s \<Rightarrow> unbase64 s
      | JArr js \<Rightarrow> those (map byte_of js)
      | _ \<Rightarrow> None)"

definition text_of :: "json \<Rightarrow> string \<Rightarrow> string option" where
  "text_of j old = (case j of JNull \<Rightarrow> Some old | JStr s \<Rightarrow> Some s | _ \<Rightarrow> None)"

fun texts_into :: "(string \<times> json) list \<Rightarrow> (string \<times> string) list \<Rightarrow> (string \<times> string) list option" where
  "texts_into [] m = Some m"
| "texts_into ((k, j) # kvs) m = Option.bind (text_of j []) (\<lambda>v. texts_into kvs (mput k v m))"

definition map_into :: "json \<Rightarrow> (string \<times> string) list \<Rightarrow> (string \<times> string) list option" where
  "map_into j m = (case j of JNull \<Rightarrow> Some [] | JObj kvs \<Rightarrow> texts_into kvs m | _ \<Rightarrow> None)"

definition stored_member :: "string \<times> json \<Rightarrow> storedMessage \<Rightarrow> storedMessage option" where
  "stored_member kj sm =
     (let k = to_lower (fst kj); j = snd kj
      in if k = ''uuid'' then map_option (\<lambda>v. sm\<lparr>sm_UUID := v\<rparr>) (text_of j (sm_UUID sm))
         else if k = ''metadata'' then map_option (\<lambda>v. sm\<lparr>sm_Metadata := v\<rparr>) (map_into j (sm_Metadata sm))
         else if k = ''payload'' then map_option (\<lambda>v. sm\<lparr>sm_Payload := v\<rparr>) (bytes_of j)
         else if k = ''topic'' then map_option (\<lambda>v. sm\<lparr>sm_Topic := v\<rparr>) (text_of j (sm_Topic sm))
         else Some sm)"

fun stored_members :: "(string \<times> json) list \<Rightarrow> storedMessage \<Rightarrow> storedMessage option" where
  "stored_members [] sm = Some sm"
| "stored_members (kj # kjs) sm = Option.bind (stored_member kj sm) (stored_members kjs)"

definition empty_stored :: storedMessage where
  "empty_stored = \<lparr>sm_UUID = [], sm_Metadata = [], sm_Payload = [], sm_Topic = []\<rparr>"

definition unmarshal_stored :: "string \<Rightarrow> storedMessage option" where
  "unmarshal_stored line =
     (case json_parse line of
        Some (JObj kvs) \<Rightarrow> stored_members kvs empty_stored
      | Some JNull \<Rightarrow> Some empty_stored
      | _ \<Rightarrow> None)"

section \<open>The calls on the file\<close>

record 'w io_ops =
  io_OpenAppend :: "'w \<Rightarrow> gerror option \<times> 'w"
  io_OpenRead :: "'w \<Rightarrow> gerror option \<times> 'w"
  io_Write :: "string \<Rightarrow> 'w \<Rightarrow> gerror option \<times> 'w"
  io_ReadError :: "'w \<Rightarrow> gerror option"
  io_SeekError :: "'w \<Rightarrow> gerror option"
  io_content :: "'w \<Rightarrow> string"

section \<open>Publishing\<close>

text \<open>The line and the line break are two writes.\<close>

fun io_write_all :: "'w io_ops \<Rightarrow> string list \<Rightarrow> 'w \<Rightarrow> gerror option \<times> 'w" where
  "io_write_all io [] w = (None, w)"
| "io_write_all io (c # cs) w =
     (case io_Write io c w of (Some err, w') \<Rightarrow> (Some err, w') | (None, w') \<Rightarrow> io_write_all io cs w')"

definition io_chunks :: "string \<Rightarrow> message list \<Rightarrow> string list" where
  "io_chunks topic msgs = concat (map (\<lambda>msg. [json_text (stored_json (stored_of topic msg)), [CHR 0x0A]]) msgs)"

definition io_Publish :: "'w io_ops \<Rightarrow> string \<Rightarrow> message list \<Rightarrow> 'w \<Rightarrow> gerror option \<times> 'w" where
  "io_Publish io topic msgs w =
     (case io_OpenAppend io w of
        (Some err, w') \<Rightarrow> (Some err, w')
      | (None, w') \<Rightarrow> io_write_all io (io_chunks topic msgs) w')"

section \<open>Subscribing\<close>

text \<open>The variables of the reading loop: where the reader stands, and the position remembered.\<close>

record io_reader =
  rd_pos :: nat
  rd_lastPos :: nat

text \<open>
  \<open>ReadBytes\<close> of a line break: the bytes up to and with the first one, or all that is left at the
  end of the file, which are then gone from the reader.
\<close>

definition ReadBytes :: "string \<Rightarrow> nat \<Rightarrow> string \<times> bool" where
  "ReadBytes content pos =
     (let rest = drop pos content; line = takeWhile (\<lambda>c. c \<noteq> CHR 0x0A) rest
      in if line = rest then (rest, False) else (line @ [CHR 0x0A], True))"

definition io_handleEOF :: "'w io_ops \<Rightarrow> 'w \<Rightarrow> io_reader \<Rightarrow> bool \<times> io_reader" where
  "io_handleEOF io w r =
     (let currentPos = rd_pos r;
          r = (if rd_lastPos r < currentPos then r\<lparr>rd_lastPos := currentPos\<rparr> else r)
      in case io_SeekError io w of
           Some _ \<Rightarrow> (False, r)
         | None \<Rightarrow> (True, r\<lparr>rd_pos := rd_lastPos r\<rparr>))"

definition io_processMessage :: "(message \<Rightarrow> 'w \<Rightarrow> answer \<times> 'w) \<Rightarrow> string \<Rightarrow> string \<Rightarrow> 'w \<Rightarrow> bool \<times> 'w" where
  "io_processMessage consumer line topic w =
     (case unmarshal_stored line of
        None \<Rightarrow> (True, w)
      | Some sm \<Rightarrow>
          if sm_Topic sm \<noteq> topic then (True, w)
          else
            (case consumer ((NewMessage (sm_UUID sm) (sm_Payload sm))\<lparr>Metadata := sm_Metadata sm\<rparr>) w of
               (AnswerAck, w') \<Rightarrow> (True, w')
             | (AnswerNack, w') \<Rightarrow> (True, w')
             | (ContextDone, w') \<Rightarrow> (False, w')))"

text \<open>One round of the loop, and the whole of it for a number of rounds.\<close>

definition io_round ::
  "'w io_ops \<Rightarrow> ('w \<Rightarrow> bool) \<Rightarrow> (message \<Rightarrow> 'w \<Rightarrow> answer \<times> 'w) \<Rightarrow> string \<Rightarrow> io_reader \<times> 'w \<Rightarrow> bool \<times> io_reader \<times> 'w" where
  "io_round io ctx_done consumer topic = (\<lambda>(r, w).
     (if ctx_done w then (False, r, w)
      else case io_ReadError io w of
        Some _ \<Rightarrow> (False, r, w)
      | None \<Rightarrow>
          (case ReadBytes (io_content io w) (rd_pos r) of
             (line, found) \<Rightarrow>
               (let r = r\<lparr>rd_pos := rd_pos r + length line\<rparr>
                in if \<not> found then (case io_handleEOF io w r of (go, r') \<Rightarrow> (go, r', w))
                   else
                     (let currentPos = rd_pos r; r = r\<lparr>rd_lastPos := currentPos\<rparr>
                      in case io_processMessage consumer line topic w of (go, w') \<Rightarrow> (go, r, w'))))))"

fun io_rounds ::
  "nat \<Rightarrow> 'w io_ops \<Rightarrow> ('w \<Rightarrow> bool) \<Rightarrow> (message \<Rightarrow> 'w \<Rightarrow> answer \<times> 'w) \<Rightarrow> string \<Rightarrow> io_reader \<times> 'w \<Rightarrow> bool \<times> io_reader \<times> 'w" where
  "io_rounds 0 io ctx_done consumer topic rw = (True, rw)"
| "io_rounds (Suc k) io ctx_done consumer topic rw =
     (case io_round io ctx_done consumer topic rw of
        (False, rw') \<Rightarrow> (False, rw')
      | (True, rw') \<Rightarrow> io_rounds k io ctx_done consumer topic rw')"

definition io_Subscribe ::
  "nat \<Rightarrow> 'w io_ops \<Rightarrow> ('w \<Rightarrow> bool) \<Rightarrow> (message \<Rightarrow> 'w \<Rightarrow> answer \<times> 'w) \<Rightarrow> string \<Rightarrow> 'w \<Rightarrow> bool \<times> io_reader \<times> 'w" where
  "io_Subscribe k io ctx_done consumer topic w =
     (case io_OpenRead io w of
        (Some _, w') \<Rightarrow> (False, \<lparr>rd_pos = 0, rd_lastPos = 0\<rparr>, w')
      | (None, w') \<Rightarrow> io_rounds k io ctx_done consumer topic (\<lparr>rd_pos = 0, rd_lastPos = 0\<rparr>, w'))"

section \<open>Building the transport\<close>

definition DefaultFilePath :: string where
  "DefaultFilePath = ''messages.log''"

text \<open>Publisher and subscriber are what the factories, which may be replaced, make of the path.\<close>

definition io_Build ::
  "(string \<Rightarrow> gerror + 'p) \<Rightarrow> (string \<Rightarrow> gerror + 's) \<Rightarrow> config \<Rightarrow> gerror + 'p \<times> 's" where
  "io_Build PublisherFactory SubscriberFactory cfg =
     (let filePath = (if IOFile cfg = [] then DefaultFilePath else IOFile cfg)
      in sbind (PublisherFactory filePath) (\<lambda>pub.
         sbind (SubscriberFactory filePath) (\<lambda>sub. Inr (pub, sub))))"

section \<open>Reading back a line\<close>

definition line_of :: "string \<times> message \<Rightarrow> string" where
  "line_of x = json_text (stored_json (stored_of (fst x) (snd x))) @ [CHR 0x0A]"

lemma io_chunks_lines: "concat (io_chunks topic msgs) = concat (map line_of (map (Pair topic) msgs))"
  by (induction msgs) (simp_all add: io_chunks_def line_of_def)

lemma hexd_no_break: "k < 16 \<Longrightarrow> hexd k \<noteq> CHR 0x0A"
  by (auto simp: hexd_def char_of_eq)

lemma esc_no_break: "CHR 0x0A \<notin> set (esc c)"
proof (cases "code c < 32 \<or> code c = 60 \<or> code c = 62 \<or> code c = 38")
  case True
  then have "hexd (code c div 16) \<noteq> CHR 0x0A" "hexd (code c mod 16) \<noteq> CHR 0x0A"
    by (auto intro!: hexd_no_break)
  with True show ?thesis unfolding esc_def Let_def by auto
next
  case False
  then have "c \<noteq> CHR 0x0A" by auto
  with False show ?thesis unfolding esc_def Let_def by simp
qed

lemma str_text_no_break: "CHR 0x0A \<notin> set (str_text s)"
  using esc_no_break by (auto simp: str_text_def)

lemma commas_no_break: "list_all (\<lambda>x. CHR 0x0A \<notin> set x) xs \<Longrightarrow> CHR 0x0A \<notin> set (commas xs)"
  by (induction xs rule: commas.induct) auto

lemma stored_no_break: "CHR 0x0A \<notin> set (json_text (stored_json sm))"
proof -
  have "CHR 0x0A \<notin> set (commas (map (\<lambda>kv. str_text (fst kv) @ CHR '':'' # json_text (snd kv))
      (map (\<lambda>(k, v). (k, JStr v)) m)))" for m
    by (rule commas_no_break) (auto simp: list_all_iff str_text_no_break)
  then show ?thesis by (simp add: stored_json_def str_text_no_break)
qed

lemma texts_into_map: "texts_into (map (\<lambda>(k, v). (k, JStr v)) kvs) m = Some (mputs kvs m)"
  by (induction kvs arbitrary: m) (auto simp: text_of_def)

lemma wf_stored: "wf_map (sm_Metadata sm) \<Longrightarrow> wf_json (stored_json sm)"
  by (auto simp: stored_json_def list_all_iff)

lemma unmarshal_line:
  assumes "wf_map (Metadata (snd x))"
  shows "unmarshal_stored (line_of x) = Some (stored_of (fst x) (norm_message (snd x)))"
proof -
  let ?sm = "stored_of (fst x) (snd x)"
  have "wf_json (stored_json ?sm)" using assms by (intro wf_stored) (simp add: stored_of_def)
  then have "json_parse (line_of x) = Some (stored_json ?sm)"
    by (simp add: line_of_def json_parse_line)
  then show ?thesis
    using assms
    by (simp add: unmarshal_stored_def stored_json_def stored_member_def to_lower_def lower_char_def map_into_def text_of_def bytes_of_def
        texts_into_map mputs_copy stored_of_def empty_stored_def norm_message_def Let_def)
qed

lemma takeWhile_break: "CHR 0x0A \<notin> set b \<Longrightarrow> takeWhile (\<lambda>c. c \<noteq> CHR 0x0A) (b @ CHR 0x0A # after) = b"
  by (subst takeWhile_append2) auto

lemma ReadBytes_line:
  assumes "drop pos content = b @ CHR 0x0A # after" "CHR 0x0A \<notin> set b"
  shows "ReadBytes content pos = (b @ [CHR 0x0A], True)"
  using takeWhile_break [OF assms(2), of after] by (simp add: ReadBytes_def assms(1))

lemma ReadBytes_end:
  assumes "CHR 0x0A \<notin> set (drop pos content)"
  shows "ReadBytes content pos = (drop pos content, False)"
proof -
  have "takeWhile (\<lambda>c. c \<noteq> CHR 0x0A) (drop pos content) = drop pos content"
    using assms by (subst takeWhile_eq_all_conv) auto
  then show ?thesis by (simp add: ReadBytes_def)
qed

section \<open>Publisher and subscriber on one file\<close>

text \<open>A file on which nothing fails, and a consumer that keeps what it gets.\<close>

record io_world =
  iw_file :: string
  iw_got :: "message list"

definition plain_io :: "io_world io_ops" where
  "plain_io =
     \<lparr>io_OpenAppend = (\<lambda>w. (None, w)), io_OpenRead = (\<lambda>w. (None, w)),
      io_Write = (\<lambda>c w. (None, w\<lparr>iw_file := iw_file w @ c\<rparr>)),
      io_ReadError = (\<lambda>_. None), io_SeekError = (\<lambda>_. None), io_content = iw_file\<rparr>"

definition keep :: "answer \<Rightarrow> message \<Rightarrow> io_world \<Rightarrow> answer \<times> io_world" where
  "keep a m w = (a, w\<lparr>iw_got := iw_got w @ [m]\<rparr>)"

abbreviation running_round ::
  "answer \<Rightarrow> string \<Rightarrow> io_reader \<times> io_world \<Rightarrow> bool \<times> io_reader \<times> io_world" where
  "running_round a \<equiv> io_round plain_io (\<lambda>_. False) (keep a)"

abbreviation running_rounds ::
  "nat \<Rightarrow> answer \<Rightarrow> string \<Rightarrow> io_reader \<times> io_world \<Rightarrow> bool \<times> io_reader \<times> io_world" where
  "running_rounds k a \<equiv> io_rounds k plain_io (\<lambda>_. False) (keep a)"

definition for_topic :: "string \<Rightarrow> (string \<times> message) list \<Rightarrow> message list" where
  "for_topic topic xs = map (\<lambda>x. norm_message (snd x)) (filter (\<lambda>x. fst x = topic) xs)"

lemma for_topic_simps [simp]:
  "for_topic topic [] = []"
  "for_topic topic (x # xs) = (if fst x = topic then [norm_message (snd x)] else []) @ for_topic topic xs"
  "for_topic topic (xs @ ys) = for_topic topic xs @ for_topic topic ys"
  by (simp_all add: for_topic_def)

lemma publish_appends:
  "io_Publish plain_io topic msgs w = (None, w\<lparr>iw_file := iw_file w @ concat (map line_of (map (Pair topic) msgs))\<rparr>)"
proof -
  have "io_write_all plain_io cs w = (None, w\<lparr>iw_file := iw_file w @ concat cs\<rparr>)" for cs w
    by (induction cs arbitrary: w) (simp_all add: plain_io_def)
  then show ?thesis by (simp only: io_Publish_def io_chunks_lines) (simp add: plain_io_def)
qed

lemma round_line:
  assumes "drop (rd_pos r) (iw_file w) = line_of x @ after" "wf_map (Metadata (snd x))" "a \<noteq> ContextDone"
  shows "running_round a topic (r, w) =
    (True, \<lparr>rd_pos = rd_pos r + length (line_of x), rd_lastPos = rd_pos r + length (line_of x)\<rparr>,
     w\<lparr>iw_got := iw_got w @ for_topic topic [x]\<rparr>)"
proof -
  have "ReadBytes (iw_file w) (rd_pos r) = (line_of x, True)"
    using ReadBytes_line [of "rd_pos r" "iw_file w" _ after] assms(1) stored_no_break by (simp add: line_of_def)
  moreover have "\<lparr>UUID = UUID m, Metadata = Metadata m, Payload = Payload m\<rparr> = m" for m :: message by simp
  ultimately show ?thesis
    using assms(3) by (cases a)
      (simp_all add: io_round_def plain_io_def io_processMessage_def unmarshal_line [OF assms(2)] stored_of_def NewMessage_def keep_def)
qed

lemma rounds_lines:
  assumes "drop (rd_pos r) (iw_file w) = concat (map line_of xs) @ after" "a \<noteq> ContextDone"
    "list_all (\<lambda>x. wf_map (Metadata (snd x))) xs" "rd_lastPos r = rd_pos r"
  shows "running_rounds (length xs) a topic (r, w) =
    (True, \<lparr>rd_pos = rd_pos r + length (concat (map line_of xs)), rd_lastPos = rd_pos r + length (concat (map line_of xs))\<rparr>,
     w\<lparr>iw_got := iw_got w @ for_topic topic xs\<rparr>)"
  using assms(1,3,4)
proof (induction xs arbitrary: r w)
  case Nil
  then show ?case by simp
next
  case (Cons x xs)
  have "drop (rd_pos r + length (line_of x)) (iw_file w) = concat (map line_of xs) @ after"
    using Cons.prems(1) by (metis append.assoc add.commute append_eq_conv_conj drop_drop concat.simps(2) list.simps(9))
  with Cons round_line [of r w x "concat (map line_of xs) @ after" a topic] assms(2) show ?case
    by (simp add: add.assoc)
qed

text \<open>At the end of what is written, with or without a line begun.\<close>

lemma round_end:
  assumes "CHR 0x0A \<notin> set (drop (rd_pos r) (iw_file w))" "rd_pos r \<le> length (iw_file w)" "rd_lastPos r \<le> rd_pos r"
  shows "running_round a topic (r, w) =
    (True, \<lparr>rd_pos = length (iw_file w), rd_lastPos = length (iw_file w)\<rparr>, w)"
  using ReadBytes_end [OF assms(1)] assms(2,3)
  by (cases r) (auto simp: io_round_def plain_io_def io_handleEOF_def Let_def)

section \<open>Every interleaving\<close>

text \<open>
  The publisher's writes and the subscriber's rounds in any order: what has been given to
  \<open>Publish\<close> and what of it is still to be written, where the reader stands, and whether a round
  has found a line begun but not finished at the end of the file (\<open>torn\<close>).
\<close>

record io_state =
  st_sent :: "(string \<times> message) list"
  st_queue :: "string list"
  st_reader :: io_reader
  st_world :: io_world
  st_torn :: bool

definition io_start :: io_state where
  "io_start =
     \<lparr>st_sent = [], st_queue = [], st_reader = \<lparr>rd_pos = 0, rd_lastPos = 0\<rparr>,
      st_world = \<lparr>iw_file = [], iw_got = []\<rparr>, st_torn = False\<rparr>"

definition io_unread :: "io_state \<Rightarrow> string" where
  "io_unread s = drop (rd_pos (st_reader s)) (iw_file (st_world s))"

inductive io_step :: "string \<Rightarrow> io_state \<Rightarrow> io_state \<Rightarrow> bool" for topic where
  publish: "list_all (\<lambda>m. wf_map (Metadata m)) msgs \<Longrightarrow>
    io_step topic s
      (s\<lparr>st_sent := st_sent s @ map (Pair t) msgs, st_queue := st_queue s @ io_chunks t msgs\<rparr>)"
| append: "st_queue s = c # cs \<Longrightarrow> io_Write plain_io c (st_world s) = (None, w) \<Longrightarrow>
    io_step topic s (s\<lparr>st_queue := cs, st_world := w\<rparr>)"
| poll: "a \<noteq> ContextDone \<Longrightarrow> running_round a topic (st_reader s, st_world s) = (True, r, w) \<Longrightarrow>
    io_step topic s
      (s\<lparr>st_reader := r, st_world := w,
        st_torn := st_torn s \<or> (io_unread s \<noteq> [] \<and> CHR 0x0A \<notin> set (io_unread s))\<rparr>)"

inductive io_reach :: "string \<Rightarrow> io_state \<Rightarrow> bool" for topic where
  start: "io_reach topic io_start"
| step: "io_reach topic s \<Longrightarrow> io_step topic s s' \<Longrightarrow> io_reach topic s'"

definition lines_of :: "(string \<times> message) list \<Rightarrow> string" where
  "lines_of xs = concat (map line_of xs)"

lemma lines_of_simps [simp]:
  "lines_of [] = []" "lines_of (x # xs) = line_of x @ lines_of xs" "lines_of (xs @ ys) = lines_of xs @ lines_of ys"
  by (simp_all add: lines_of_def)

text \<open>The reader has read the first messages, and exactly those for its topic were handed over.\<close>

definition read_up_to :: "string \<Rightarrow> io_state \<Rightarrow> (string \<times> message) list \<Rightarrow> (string \<times> message) list \<Rightarrow> bool" where
  "read_up_to topic s xs ys \<longleftrightarrow>
     st_sent s = xs @ ys \<and> rd_pos (st_reader s) = length (lines_of xs)
     \<and> rd_lastPos (st_reader s) = rd_pos (st_reader s) \<and> iw_got (st_world s) = for_topic topic xs"

definition io_inv :: "string \<Rightarrow> io_state \<Rightarrow> bool" where
  "io_inv topic s \<longleftrightarrow>
     iw_file (st_world s) @ concat (st_queue s) = lines_of (st_sent s)
     \<and> list_all (\<lambda>x. wf_map (Metadata (snd x))) (st_sent s)
     \<and> rd_pos (st_reader s) \<le> length (iw_file (st_world s))
     \<and> rd_lastPos (st_reader s) \<le> rd_pos (st_reader s)
     \<and> (\<not> st_torn s \<longrightarrow> (\<exists>xs ys. read_up_to topic s xs ys))"

text \<open>What is left to read begins the lines of the messages not read yet.\<close>

lemma unread_prefix:
  assumes "iw_file (st_world s) @ concat (st_queue s) = lines_of (st_sent s)"
    "rd_pos (st_reader s) \<le> length (iw_file (st_world s))" "read_up_to topic s xs ys"
  shows "io_unread s @ concat (st_queue s) = lines_of ys"
proof -
  have "drop (length (lines_of xs)) (iw_file (st_world s) @ concat (st_queue s)) = lines_of ys"
    using assms(1,3) by (simp add: read_up_to_def)
  then show ?thesis using assms(2,3) by (simp add: io_unread_def read_up_to_def)
qed

text \<open>If it has a line break it has the whole next line.\<close>

lemma first_line:
  assumes "u @ q = lines_of ys" "CHR 0x0A \<in> set u"
  obtains y zs after where "ys = y # zs" "u = line_of y @ after"
proof -
  obtain b v where u: "u = b @ CHR 0x0A # v" "CHR 0x0A \<notin> set b" using split_list_first [OF assms(2)] by blast
  then obtain y zs where ys: "ys = y # zs" using assms(1) by (cases ys) auto
  define j where "j = json_text (stored_json (stored_of (fst y) (snd y)))"
  have "b @ CHR 0x0A # (v @ q) = j @ CHR 0x0A # lines_of zs"
    using assms(1) by (simp add: u(1) ys line_of_def j_def)
  moreover have "CHR 0x0A \<notin> set j" by (simp add: j_def stored_no_break)
  ultimately have "b = j" using takeWhile_break [OF u(2), of "v @ q"] takeWhile_break [of j "lines_of zs"] by simp
  with u(1) ys that show thesis by (simp add: line_of_def j_def)
qed

lemma ReadBytes_length: "ReadBytes content pos = (line, found) \<Longrightarrow> length line \<le> length content - pos"
proof -
  assume r: "ReadBytes content pos = (line, found)"
  let ?t = "takeWhile (\<lambda>c. c \<noteq> CHR 0x0A) (drop pos content)" and ?d = "dropWhile (\<lambda>c. c \<noteq> CHR 0x0A) (drop pos content)"
  have td: "?t @ ?d = drop pos content" by (rule takeWhile_dropWhile_id)
  have sum: "length ?t + length ?d = length content - pos"
    using arg_cong [OF td, of length] unfolding length_append length_drop .
  have len: "length ?t \<le> length content - pos" "?t \<noteq> drop pos content \<Longrightarrow> length ?t < length content - pos"
  proof -
    show "length ?t \<le> length content - pos" using sum by linarith
    assume "?t \<noteq> drop pos content"
    with td have "?d \<noteq> []" by (metis append_Nil2)
    with sum show "length ?t < length content - pos" by (metis length_greater_0_conv less_add_same_cancel1)
  qed
  show ?thesis
  proof (cases "?t = drop pos content")
    case True
    with r have "line = drop pos content" unfolding ReadBytes_def Let_def by simp
    then show ?thesis by simp
  next
    case False
    with r have "line = ?t @ [CHR 0x0A]" unfolding ReadBytes_def Let_def by (auto split: if_splits)
    with len(2) [OF False] show ?thesis by (metis Suc_leI length_append_singleton)
  qed
qed

lemma round_unfold:
  "running_round a topic (r, w) =
     (case ReadBytes (iw_file w) (rd_pos r) of
        (line, found) \<Rightarrow>
          let p = rd_pos r + length line; q = max (rd_lastPos r) p
          in if found then (case io_processMessage (keep a) line topic w of (go, w') \<Rightarrow> (go, \<lparr>rd_pos = p, rd_lastPos = p\<rparr>, w'))
             else (True, \<lparr>rd_pos = q, rd_lastPos = q\<rparr>, w))"
  by (cases r) (simp add: io_round_def plain_io_def io_handleEOF_def Let_def max_def split: prod.splits)

lemma process_keeps: "io_processMessage (keep a) line topic w = (go, w') \<Longrightarrow> iw_file w' = iw_file w"
  by (cases a) (auto simp: io_processMessage_def keep_def split: option.splits if_splits)

lemma round_keeps:
  assumes "running_round a topic (r, w) = (go, r', w')" "rd_pos r \<le> length (iw_file w)" "rd_lastPos r \<le> rd_pos r"
  shows "iw_file w' = iw_file w \<and> rd_pos r' \<le> length (iw_file w) \<and> rd_lastPos r' \<le> rd_pos r'"
proof -
  obtain line found where l: "ReadBytes (iw_file w) (rd_pos r) = (line, found)" by fastforce
  have len: "rd_pos r + length line \<le> length (iw_file w)" using ReadBytes_length [OF l] assms(2) by linarith
  show ?thesis
  proof (cases found)
    case True
    obtain go' w'' where p: "io_processMessage (keep a) line topic w = (go', w'')" by fastforce
    with assms(1) len True process_keeps [OF p] show ?thesis unfolding round_unfold l by (auto simp: Let_def)
  next
    case False
    with assms len show ?thesis unfolding round_unfold l by (auto simp: Let_def)
  qed
qed

lemma poll_inv:
  assumes "io_inv topic s" "a \<noteq> ContextDone" "running_round a topic (st_reader s, st_world s) = (True, r, w)"
  shows "io_inv topic (s\<lparr>st_reader := r, st_world := w,
        st_torn := st_torn s \<or> (io_unread s \<noteq> [] \<and> CHR 0x0A \<notin> set (io_unread s))\<rparr>)"
proof -
  have inv: "iw_file (st_world s) @ concat (st_queue s) = lines_of (st_sent s)"
    "list_all (\<lambda>x. wf_map (Metadata (snd x))) (st_sent s)"
    "rd_pos (st_reader s) \<le> length (iw_file (st_world s))" "rd_lastPos (st_reader s) \<le> rd_pos (st_reader s)"
    using assms(1) by (simp_all add: io_inv_def)
  note keeps = round_keeps [OF assms(3) inv(3,4)]
  have "\<exists>xs ys. read_up_to topic (s\<lparr>st_reader := r, st_world := w, st_torn := t\<rparr>) xs ys"
    if ok: "\<not> st_torn s" "io_unread s = [] \<or> CHR 0x0A \<in> set (io_unread s)" for t
  proof -
    obtain xs ys where xy: "read_up_to topic s xs ys" using assms(1) ok(1) by (auto simp: io_inv_def)
    note u = unread_prefix [OF inv(1,3) xy]
    show ?thesis
    proof (cases "io_unread s = []")
      case True
      then have "rd_pos (st_reader s) = length (iw_file (st_world s))" using inv(3) by (simp add: io_unread_def)
      with round_end [of "st_reader s" "st_world s" a topic] inv(3,4) True assms(3)
      have "r = \<lparr>rd_pos = rd_pos (st_reader s), rd_lastPos = rd_pos (st_reader s)\<rparr>" "w = st_world s"
        by (simp_all add: io_unread_def)
      with xy show ?thesis by (intro exI [of _ xs] exI [of _ ys]) (simp add: read_up_to_def)
    next
      case False
      with ok(2) obtain y zs after where y: "ys = y # zs" "io_unread s = line_of y @ after"
        using first_line [OF u] by blast
      have "wf_map (Metadata (snd y))" using inv(2) xy y(1) by (simp add: read_up_to_def)
      with round_line [of "st_reader s" "st_world s" y after a topic] y(2) assms(2,3)
      have "r = \<lparr>rd_pos = rd_pos (st_reader s) + length (line_of y), rd_lastPos = rd_pos (st_reader s) + length (line_of y)\<rparr>"
        "w = (st_world s)\<lparr>iw_got := iw_got (st_world s) @ for_topic topic [y]\<rparr>"
        by (simp_all add: io_unread_def)
      with xy y(1) show ?thesis by (intro exI [of _ "xs @ [y]"] exI [of _ zs]) (simp add: read_up_to_def)
    qed
  qed
  with inv keeps show ?thesis by (auto simp: io_inv_def)
qed

lemma io_reach_inv: "io_reach topic s \<Longrightarrow> io_inv topic s"
proof (induction rule: io_reach.induct)
  case start
  then show ?case by (auto simp: io_inv_def io_start_def read_up_to_def)
next
  case (step s s')
  from step.hyps(2) show ?case
  proof cases
    case (publish msgs t)
    have "concat (io_chunks t msgs) = lines_of (map (Pair t) msgs)" by (simp add: io_chunks_lines lines_of_def)
    moreover have "read_up_to topic s xs ys \<Longrightarrow> read_up_to topic s' xs (ys @ map (Pair t) msgs)" for xs ys
      by (simp add: publish(1) read_up_to_def)
    ultimately show ?thesis using step.IH publish by (auto simp: io_inv_def list_all_iff)
  next
    case (append c cs w)
    have "read_up_to topic s xs ys \<Longrightarrow> read_up_to topic s' xs ys" for xs ys
      using append by (auto simp: read_up_to_def plain_io_def)
    then show ?thesis using step.IH append by (auto simp: io_inv_def plain_io_def)
  next
    case (poll a r w)
    show ?thesis unfolding poll(1) by (rule poll_inv [OF step.IH poll(2,3)])
  qed
qed

text \<open>
  C40. Delivery from the file. Whatever the order in which lines are written and rounds are run, and
  whether the consumer acknowledges or refuses, as long as no round finds an unfinished line at
  the end of the file a subscriber has been handed the messages of its topic in the order they were
  published, each once and from the first one on, up to some point; and once all is written,
  as many further rounds as there are messages left hand over the rest.
\<close>

theorem io_delivers_in_order:
  assumes "io_reach topic s" "\<not> st_torn s" "a \<noteq> ContextDone"
  shows "\<exists>xs ys. st_sent s = xs @ ys \<and> iw_got (st_world s) = for_topic topic xs
    \<and> (st_queue s = [] \<longrightarrow>
         (\<exists>r. running_rounds (length ys) a topic (st_reader s, st_world s)
           = (True, r, (st_world s)\<lparr>iw_got := for_topic topic (st_sent s)\<rparr>)
         \<and> rd_pos r = length (iw_file (st_world s))))"
proof -
  have inv: "io_inv topic s" by (rule io_reach_inv [OF assms(1)])
  then obtain xs ys where xy: "read_up_to topic s xs ys" using assms(2) by (auto simp: io_inv_def)
  have i: "iw_file (st_world s) @ concat (st_queue s) = lines_of (st_sent s)"
    "rd_pos (st_reader s) \<le> length (iw_file (st_world s))" using inv by (simp_all add: io_inv_def)
  have "\<exists>r. running_rounds (length ys) a topic (st_reader s, st_world s)
        = (True, r, (st_world s)\<lparr>iw_got := for_topic topic (st_sent s)\<rparr>)
      \<and> rd_pos r = length (iw_file (st_world s))" if q: "st_queue s = []"
  proof -
    have "drop (rd_pos (st_reader s)) (iw_file (st_world s)) = concat (map line_of ys) @ []"
      using unread_prefix [OF i xy] q by (simp add: io_unread_def lines_of_def)
    moreover have "list_all (\<lambda>x. wf_map (Metadata (snd x))) ys"
      using inv xy by (simp add: io_inv_def read_up_to_def)
    ultimately show ?thesis
      using rounds_lines [of "st_reader s" "st_world s" ys "[]" a topic] assms(3) xy i q
      by (simp add: read_up_to_def lines_of_def)
  qed
  with xy show ?thesis by (intro exI [of _ xs] exI [of _ ys]) (simp add: read_up_to_def)
qed

text \<open>A message published, written and read.\<close>

definition io_one :: "string \<Rightarrow> message \<Rightarrow> io_state" where
  "io_one t m =
     \<lparr>st_sent = [(t, m)], st_queue = [],
      st_reader = \<lparr>rd_pos = length (line_of (t, m)), rd_lastPos = length (line_of (t, m))\<rparr>,
      st_world = \<lparr>iw_file = line_of (t, m), iw_got = [norm_message m]\<rparr>, st_torn = False\<rparr>"

lemma io_one_reached:
  assumes "wf_map (Metadata m)"
  shows "io_reach t (io_one t m)"
proof -
  obtain b where c: "io_chunks t [m] = [b, [CHR 0x0A]]" "line_of (t, m) = b @ [CHR 0x0A]"
    by (simp add: io_chunks_def line_of_def)
  let ?r0 = "\<lparr>rd_pos = 0, rd_lastPos = 0\<rparr>"
  let ?s = "\<lambda>q f. \<lparr>st_sent = [(t, m)], st_queue = q, st_reader = ?r0, st_world = \<lparr>iw_file = f, iw_got = []\<rparr>, st_torn = False\<rparr>"
  have "io_step t io_start (?s [b, [CHR 0x0A]] [])"
    using io_step.publish [of "[m]" t io_start t] assms by (simp add: io_start_def c(1))
  moreover have "io_step t (?s [b, [CHR 0x0A]] []) (?s [[CHR 0x0A]] b)"
    using io_step.append [of "?s [b, [CHR 0x0A]] []" b "[[CHR 0x0A]]" "\<lparr>iw_file = b, iw_got = []\<rparr>" t]
    by (simp add: plain_io_def)
  moreover have "io_step t (?s [[CHR 0x0A]] b) (?s [] (line_of (t, m)))"
    using io_step.append [of "?s [[CHR 0x0A]] b" "[CHR 0x0A]" "[]" "\<lparr>iw_file = line_of (t, m), iw_got = []\<rparr>" t]
    by (simp add: plain_io_def c(2))
  moreover have "io_step t (?s [] (line_of (t, m))) (io_one t m)"
  proof -
    let ?w = "\<lparr>iw_file = line_of (t, m), iw_got = []\<rparr>"
    have "running_round AnswerNack t (?r0, ?w) = (True, st_reader (io_one t m), st_world (io_one t m))"
      using round_line [of ?r0 ?w "(t, m)" "[]" AnswerNack t] assms by (simp add: io_one_def)
    moreover have "CHR 0x0A \<in> set (io_unread (?s [] (line_of (t, m))))" by (simp add: io_unread_def c(2))
    ultimately show ?thesis
      using io_step.poll [of AnswerNack t "?s [] (line_of (t, m))" "st_reader (io_one t m)" "st_world (io_one t m)"]
      by (simp add: io_one_def)
  qed
  ultimately show ?thesis by (meson io_reach.intros)
qed

lemma io_delivers_in_order_witness:
  "\<exists>xs ys. st_sent (io_one ''t'' (NewMessage ''1'' ''hi'')) = xs @ ys
    \<and> iw_got (st_world (io_one ''t'' (NewMessage ''1'' ''hi''))) = for_topic ''t'' xs"
proof -
  have "wf_map (Metadata (NewMessage ''1'' ''hi''))" by (simp add: NewMessage_def)
  from io_delivers_in_order [where a = AnswerAck, OF io_one_reached [OF this, of "''t''"]] show ?thesis
    by (auto simp: io_one_def)
qed

lemma unmarshal_empty_line: "unmarshal_stored [CHR 0x0A] = None"
  by code_simp

text \<open>
  C39. A line polled too early is lost. \<open>Publish\<close> writes a message and its line break in two calls. If
  a subscriber that has read everything polls between them, it drops what it has read of the line
  and remembers the position behind it: when the line is complete and others follow, it reads the
  line break alone, which is no message, and goes on with the others. It never hands over the
  message, although the file has it.
\<close>

theorem io_partial_line_lost:
  assumes "a \<noteq> ContextDone" "list_all (\<lambda>x. wf_map (Metadata (snd x))) xs"
    "r = \<lparr>rd_pos = length F, rd_lastPos = length F\<rparr>" "io_chunks t [m] = [b, nl]"
  shows "\<exists>r1 r2. running_round a topic (r, \<lparr>iw_file = F @ b, iw_got = got\<rparr>)
        = (True, r1, \<lparr>iw_file = F @ b, iw_got = got\<rparr>)
    \<and> running_rounds (Suc (length xs)) a topic (r1, \<lparr>iw_file = F @ b @ nl @ lines_of xs, iw_got = got\<rparr>)
        = (True, r2, \<lparr>iw_file = F @ b @ nl @ lines_of xs, iw_got = got @ for_topic topic xs\<rparr>)
    \<and> rd_pos r2 = length (F @ b @ nl @ lines_of xs)"
proof -
  have bn: "nl = [CHR 0x0A]" "CHR 0x0A \<notin> set b" using assms(4) stored_no_break by (auto simp: io_chunks_def)
  let ?p = "length (F @ b)"
  let ?r1 = "\<lparr>rd_pos = ?p, rd_lastPos = ?p\<rparr>" and ?r2 = "\<lparr>rd_pos = Suc ?p, rd_lastPos = Suc ?p\<rparr>"
  let ?F = "F @ b @ nl @ lines_of xs"
  let ?w = "\<lparr>iw_file = ?F, iw_got = got\<rparr>"
  have 1: "running_round a topic (r, \<lparr>iw_file = F @ b, iw_got = got\<rparr>) = (True, ?r1, \<lparr>iw_file = F @ b, iw_got = got\<rparr>)"
    using round_end [of r "\<lparr>iw_file = F @ b, iw_got = got\<rparr>" a topic] bn(2) assms(3) by simp
  have "ReadBytes ?F ?p = ([CHR 0x0A], True)"
    using ReadBytes_line [of ?p ?F "[]" "lines_of xs"] by (simp add: bn(1))
  then have 2: "running_round a topic (?r1, ?w) = (True, ?r2, ?w)"
    by (simp add: io_round_def plain_io_def io_processMessage_def unmarshal_empty_line Let_def)
  have "drop (Suc ?p) ?F = concat (map line_of xs) @ []" by (simp add: bn(1) lines_of_def)
  then obtain r3 where 3: "running_rounds (length xs) a topic (?r2, ?w) = (True, r3, ?w\<lparr>iw_got := got @ for_topic topic xs\<rparr>)"
    "rd_pos r3 = Suc ?p + length (lines_of xs)"
    using rounds_lines [of ?r2 ?w xs "[]" a topic] assms(1,2) by (simp add: lines_of_def)
  show ?thesis using 1 2 3 by (intro exI [of _ ?r1] exI [of _ r3]) (simp add: bn(1))
qed

lemma io_partial_line_lost_witness:
  "\<exists>b r1 r2. running_round AnswerAck ''t'' (\<lparr>rd_pos = 0, rd_lastPos = 0\<rparr>, \<lparr>iw_file = b, iw_got = []\<rparr>)
       = (True, r1, \<lparr>iw_file = b, iw_got = []\<rparr>)
     \<and> running_rounds 1 AnswerAck ''t'' (r1, \<lparr>iw_file = line_of (''t'', NewMessage ''1'' ''hi''), iw_got = []\<rparr>)
       = (True, r2, \<lparr>iw_file = line_of (''t'', NewMessage ''1'' ''hi''), iw_got = []\<rparr>)"
proof -
  let ?b = "json_text (stored_json (stored_of ''t'' (NewMessage ''1'' ''hi'')))"
  have "io_chunks ''t'' [NewMessage ''1'' ''hi''] = [?b, [CHR 0x0A]]" by (simp add: io_chunks_def)
  with io_partial_line_lost [OF _ _ _ this, of AnswerAck "[]" "\<lparr>rd_pos = 0, rd_lastPos = 0\<rparr>" "[]" "''t''" "[]"]
  obtain r1 r2 where "running_round AnswerAck ''t'' (\<lparr>rd_pos = 0, rd_lastPos = 0\<rparr>, \<lparr>iw_file = ?b, iw_got = []\<rparr>)
       = (True, r1, \<lparr>iw_file = ?b, iw_got = []\<rparr>)"
    "running_rounds 1 AnswerAck ''t'' (r1, \<lparr>iw_file = ?b @ [CHR 0x0A], iw_got = []\<rparr>)
       = (True, r2, \<lparr>iw_file = ?b @ [CHR 0x0A], iw_got = []\<rparr>)"
    by (auto simp del: io_rounds.simps)
  then show ?thesis by (auto simp: line_of_def simp del: io_rounds.simps)
qed

end
