(* ===== verification/Aws.thy ===== *)
theory Aws
  imports Ce_Api
begin

text \<open>
  The AWS SNS/SQS transport (\<open>transport/aws/aws.go\<close>): what the program makes of its configuration
  before it calls the AWS and Watermill libraries. These are parameters, collected in \<open>aws_lib\<close>:
  the loader of the SDK's configuration, \<open>url.Parse\<close> and \<open>URL.String\<close>, the topic resolver, and the
  two constructors. Of an SDK configuration \<open>'o aws_config\<close> the program reads and writes the region
  and reads the base endpoint. Logging is left out.
\<close>

section \<open>Libraries\<close>

record 'o aws_config =
  ac_Region :: string
  ac_BaseEndpoint :: "string option"
  ac_other :: 'o

record Credentials =
  AccessKeyID :: string
  SecretAccessKey :: string

datatype load_option = WithRegion string | WithCredentialsProvider Credentials

text \<open>The publisher's option function sets the base endpoint of its client.\<close>

record ('o, 'r) publisher_config =
  pc_TopicResolver :: 'r
  pc_AWSConfig :: "'o aws_config"
  pc_BaseEndpoint :: "string option"

text \<open>The subscriber's two clients have an endpoint resolver, or the SDK's own.\<close>

record ('o, 'r, 'u) sns_subscriber_config =
  nc_AWSConfig :: "'o aws_config"
  nc_Endpoint :: "'u option"
  nc_TopicResolver :: 'r
  nc_GenerateSqsQueueName :: "string \<Rightarrow> gerror + string"

record ('o, 'u) sqs_subscriber_config =
  qc_AWSConfig :: "'o aws_config"
  qc_Endpoint :: "'u option"

record ('o, 'r, 'u, 'p, 's) aws_lib =
  al_LoadConfig :: "load_option list \<Rightarrow> gerror + 'o aws_config"
  al_ParseURL :: "string \<Rightarrow> gerror + 'u"
  al_URLString :: "'u \<Rightarrow> string"
  al_TopicResolver :: "string \<Rightarrow> string \<Rightarrow> gerror + 'r"
  al_ExtractTopicName :: "string \<Rightarrow> gerror + string"
  al_NewPublisher :: "('o, 'r) publisher_config \<Rightarrow> gerror + 'p"
  al_NewSubscriber :: "('o, 'r, 'u) sns_subscriber_config \<Rightarrow> ('o, 'u) sqs_subscriber_config \<Rightarrow> gerror + 's"

section \<open>Account, region and endpoint\<close>

definition localstackAccountID :: string where
  "localstackAccountID = ''000000000000''"

definition awsAccountIDLength :: nat where
  "awsAccountIDLength = 12"

text \<open>\<open>strings.Trim\<close> with a set of characters.\<close>

definition trim :: "string \<Rightarrow> string \<Rightarrow> string" where
  "trim s cutset = rev (dropWhile (\<lambda>c. c \<in> set cutset) (rev (dropWhile (\<lambda>c. c \<in> set cutset) s)))"

definition useLocalstackEndpoint :: "config option \<Rightarrow> bool" where
  "useLocalstackEndpoint cfg = (case cfg of None \<Rightarrow> False | Some c \<Rightarrow> AWSEndpoint c \<noteq> [])"

definition resolveAccountAndRegion :: "config option \<Rightarrow> string \<Rightarrow> string \<times> string" where
  "resolveAccountAndRegion cfg fallbackRegion =
     (case cfg of
        None \<Rightarrow> ([], fallbackRegion)
      | Some c \<Rightarrow>
          (let accountID = trim (AWSAccountID c) [CHR 0x22, CHR 0x27, CHR '' ''];
               region = AWSRegion c;
               region = (if region = [] then fallbackRegion else region)
           in if accountID = [] \<and> useLocalstackEndpoint cfg then (localstackAccountID, region)
              else
                (let accountID = (if accountID \<noteq> [] \<and> length accountID \<noteq> awsAccountIDLength \<and> useLocalstackEndpoint cfg
                                  then localstackAccountID else accountID)
                 in (accountID, region))))"

definition awsEndpointURL :: "('o, 'r, 'u, 'p, 's) aws_lib \<Rightarrow> config option \<Rightarrow> gerror + 'u option" where
  "awsEndpointURL lib cfg =
     (case cfg of
        None \<Rightarrow> Inr None
      | Some c \<Rightarrow>
          if AWSEndpoint c = [] then Inr None
          else (case al_ParseURL lib (AWSEndpoint c) of
                  Inl err \<Rightarrow> Inl (wrap_err ''failed to parse AWS endpoint'' err)
                | Inr u \<Rightarrow> Inr (Some u)))"

definition safeAWSRegion :: "'o aws_config option \<Rightarrow> string" where
  "safeAWSRegion cfg = (case cfg of None \<Rightarrow> [] | Some c \<Rightarrow> ac_Region c)"

definition hasCustomEndpoint :: "'o aws_config option \<Rightarrow> bool" where
  "hasCustomEndpoint cfg =
     (case cfg of None \<Rightarrow> False | Some c \<Rightarrow> (case ac_BaseEndpoint c of None \<Rightarrow> False | Some e \<Rightarrow> e \<noteq> []))"

section \<open>The SDK's configuration\<close>

definition staticCredentialsProvider :: "string \<Rightarrow> string \<Rightarrow> Credentials" where
  "staticCredentialsProvider accessKeyID secretAccessKey =
     \<lparr>AccessKeyID = accessKeyID, SecretAccessKey = secretAccessKey\<rparr>"

definition load_options :: "config option \<Rightarrow> load_option list" where
  "load_options cfg =
     (case cfg of
        None \<Rightarrow> []
      | Some c \<Rightarrow>
          (if AWSRegion c \<noteq> [] then [WithRegion (AWSRegion c)] else [])
          @ (if AWSAccessKeyID c \<noteq> [] \<and> AWSSecretAccessKey c \<noteq> []
             then [WithCredentialsProvider (staticCredentialsProvider (AWSAccessKeyID c) (AWSSecretAccessKey c))] else []))"

definition createAWSConfig :: "('o, 'r, 'u, 'p, 's) aws_lib \<Rightarrow> config option \<Rightarrow> gerror + 'o aws_config" where
  "createAWSConfig lib cfg =
     sbind (al_LoadConfig lib (load_options cfg)) (\<lambda>awsCfg.
       (case cfg of
          None \<Rightarrow> Inr awsCfg
        | Some c \<Rightarrow> Inr (if AWSRegion c \<noteq> [] then awsCfg\<lparr>ac_Region := AWSRegion c\<rparr> else awsCfg)))"

section \<open>Publisher and subscriber\<close>

definition buildPublisherConfig ::
  "('o, 'r, 'u, 'p, 's) aws_lib \<Rightarrow> config option \<Rightarrow> 'o aws_config \<Rightarrow> 'r \<Rightarrow> gerror + ('o, 'r) publisher_config" where
  "buildPublisherConfig lib cfg awsCfg topicResolver =
     sbind (awsEndpointURL lib cfg) (\<lambda>endpoint.
       Inr \<lparr>pc_TopicResolver = topicResolver, pc_AWSConfig = awsCfg,
            pc_BaseEndpoint = map_option (al_URLString lib) endpoint\<rparr>)"

definition createPublisher :: "('o, 'r, 'u, 'p, 's) aws_lib \<Rightarrow> config option \<Rightarrow> 'o aws_config \<Rightarrow> gerror + 'p" where
  "createPublisher lib cfg awsCfg =
     (case resolveAccountAndRegion cfg (safeAWSRegion (Some awsCfg)) of
        (accountID, region) \<Rightarrow>
          sbind (al_TopicResolver lib accountID region) (\<lambda>topicResolver.
          sbind (buildPublisherConfig lib cfg awsCfg topicResolver) (al_NewPublisher lib)))"

text \<open>The endpoint in the configuration is parsed, but the one of the SDK's configuration is used.\<close>

definition addEndpointResolver ::
  "('o, 'r, 'u, 'p, 's) aws_lib \<Rightarrow> config option \<Rightarrow> 'o aws_config \<Rightarrow> gerror + 'u option \<times> 'u option" where
  "addEndpointResolver lib cfg awsCfg =
     (if hasCustomEndpoint (Some awsCfg)
      then sbind (awsEndpointURL lib cfg) (\<lambda>_.
             (case al_ParseURL lib (case ac_BaseEndpoint awsCfg of Some e \<Rightarrow> e | None \<Rightarrow> []) of
                Inl err \<Rightarrow> Inl (wrap_err ''failed to parse BaseEndpoint'' err)
              | Inr u \<Rightarrow> Inr (Some u, Some u)))
      else Inr (None, None))"

definition makeSqsQueueNameGenerator :: "('o, 'r, 'u, 'p, 's) aws_lib \<Rightarrow> string \<Rightarrow> gerror + string" where
  "makeSqsQueueNameGenerator lib snsTopic =
     (case al_ExtractTopicName lib snsTopic of Inl err \<Rightarrow> Inl err | Inr topic \<Rightarrow> Inr topic)"

definition createSubscriber :: "('o, 'r, 'u, 'p, 's) aws_lib \<Rightarrow> config option \<Rightarrow> 'o aws_config \<Rightarrow> gerror + 's" where
  "createSubscriber lib cfg awsCfg =
     (case resolveAccountAndRegion cfg (safeAWSRegion (Some awsCfg)) of
        (accountID, region) \<Rightarrow>
          sbind (al_TopicResolver lib accountID region) (\<lambda>topicResolver.
          sbind (addEndpointResolver lib cfg awsCfg) (\<lambda>(snsOpts, sqsOpts).
            al_NewSubscriber lib
              \<lparr>nc_AWSConfig = awsCfg, nc_Endpoint = snsOpts, nc_TopicResolver = topicResolver,
               nc_GenerateSqsQueueName = makeSqsQueueNameGenerator lib\<rparr>
              \<lparr>qc_AWSConfig = awsCfg, qc_Endpoint = sqsOpts\<rparr>)))"

definition aws_Build :: "('o, 'r, 'u, 'p, 's) aws_lib \<Rightarrow> config option \<Rightarrow> gerror + 'p \<times> 's" where
  "aws_Build lib cfg =
     sbind (createAWSConfig lib cfg) (\<lambda>awsCfg.
     sbind (createPublisher lib cfg awsCfg) (\<lambda>publisher.
     sbind (createSubscriber lib cfg awsCfg) (\<lambda>subscriber.
     Inr (publisher, subscriber))))"

section \<open>Account and region\<close>

text \<open>
  With an endpoint in the configuration the account id is one of twelve characters, the given one
  without quotes and spaces around it or that of LocalStack; without one it is passed on as
  trimmed, even if it is no account id. The region of the configuration comes first.
\<close>

lemma account_decision:
  "resolveAccountAndRegion (Some c) fallback =
     (let a = trim (AWSAccountID c) [CHR 0x22, CHR 0x27, CHR '' '']
      in if AWSEndpoint c = [] \<or> length a = 12 then a else ''000000000000'',
      if AWSRegion c = [] then fallback else AWSRegion c)"
  by (auto simp: resolveAccountAndRegion_def useLocalstackEndpoint_def localstackAccountID_def awsAccountIDLength_def Let_def)

lemma account_length:
  "AWSEndpoint c \<noteq> [] \<Longrightarrow> length (fst (resolveAccountAndRegion (Some c) fallback)) = 12"
  by (simp add: account_decision Let_def)

lemma region_kept:
  assumes "createAWSConfig lib (Some c) = Inr a" "AWSRegion c \<noteq> []"
  shows "ac_Region a = AWSRegion c"
  using assms by (auto simp: createAWSConfig_def sbind_Inr)

section \<open>Endpoints\<close>

text \<open>
  The endpoint of the configuration reaches the publisher only. Where the SDK's own
  configuration names no base endpoint, a transport built from a configuration with an endpoint
  publishes to that endpoint, under an account id of twelve characters, and subscribes through
  clients that are left to the SDK's own endpoints, that is to AWS itself.
\<close>

theorem aws_subscriber_ignores_endpoint:
  assumes "aws_Build lib (Some c) = Inr (p, s)" "AWSEndpoint c \<noteq> []"
    "al_LoadConfig lib (load_options (Some c)) = Inr a" "ac_BaseEndpoint a = None"
  shows "\<exists>u acc reg r cfg.
      al_ParseURL lib (AWSEndpoint c) = Inr u \<and> length acc = 12
    \<and> al_TopicResolver lib acc reg = Inr r \<and> ac_BaseEndpoint cfg = None
    \<and> al_NewPublisher lib \<lparr>pc_TopicResolver = r, pc_AWSConfig = cfg, pc_BaseEndpoint = Some (al_URLString lib u)\<rparr> = Inr p
    \<and> al_NewSubscriber lib
        \<lparr>nc_AWSConfig = cfg, nc_Endpoint = None, nc_TopicResolver = r, nc_GenerateSqsQueueName = makeSqsQueueNameGenerator lib\<rparr>
        \<lparr>qc_AWSConfig = cfg, qc_Endpoint = None\<rparr> = Inr s"
proof -
  from assms(1) obtain cfg where cfg: "createAWSConfig lib (Some c) = Inr cfg"
    "createPublisher lib (Some c) cfg = Inr p" "createSubscriber lib (Some c) cfg = Inr s"
    by (auto simp: aws_Build_def sbind_Inr)
  have e: "ac_BaseEndpoint cfg = None" using cfg(1) assms(3,4) by (auto simp: createAWSConfig_def)
  obtain acc reg where ar: "resolveAccountAndRegion (Some c) (ac_Region cfg) = (acc, reg)" by fastforce
  then have "length acc = 12" using account_length [OF assms(2), of "ac_Region cfg"] by simp
  moreover obtain u where "al_ParseURL lib (AWSEndpoint c) = Inr u"
    using cfg(2) assms(2) ar
    by (auto simp: createPublisher_def safeAWSRegion_def buildPublisherConfig_def sbind_Inr awsEndpointURL_def split: sum.splits)
  moreover obtain r where "al_TopicResolver lib acc reg = Inr r"
    using cfg(2) ar by (auto simp: createPublisher_def safeAWSRegion_def sbind_Inr)
  ultimately show ?thesis
    using cfg(2,3) ar e assms(2)
    by (intro exI [of _ u] exI [of _ acc] exI [of _ reg] exI [of _ r] exI [of _ cfg])
      (simp add: createPublisher_def createSubscriber_def buildPublisherConfig_def awsEndpointURL_def safeAWSRegion_def
        addEndpointResolver_def hasCustomEndpoint_def)
qed

text \<open>Libraries that take everything: a publisher and a subscriber show the endpoint they were given.\<close>

definition open_aws :: "(unit, string, string, string option, string option) aws_lib" where
  "open_aws =
     \<lparr>al_LoadConfig = (\<lambda>_. Inr \<lparr>ac_Region = ''eu-west-1'', ac_BaseEndpoint = None, ac_other = ()\<rparr>),
      al_ParseURL = Inr, al_URLString = (\<lambda>u. u), al_TopicResolver = (\<lambda>a r. Inr (a @ r)),
      al_ExtractTopicName = Inr, al_NewPublisher = (\<lambda>c. Inr (pc_BaseEndpoint c)),
      al_NewSubscriber = (\<lambda>c d. Inr (nc_Endpoint c))\<rparr>"

lemma aws_subscriber_ignores_endpoint_witness:
  "aws_Build open_aws (Some (zero_config\<lparr>AWSEndpoint := ''http://localhost:4566''\<rparr>))
     = Inr (Some ''http://localhost:4566'', None)"
proof -
  let ?c = "zero_config\<lparr>AWSEndpoint := ''http://localhost:4566''\<rparr>"
  have b: "\<not> isl (aws_Build open_aws (Some ?c))" by code_simp
  then obtain p s where ps: "aws_Build open_aws (Some ?c) = Inr (p, s)" by (metis not_isl prod.collapse)
  have x: "AWSEndpoint ?c \<noteq> []"
    "al_LoadConfig open_aws (load_options (Some ?c)) = Inr \<lparr>ac_Region = ''eu-west-1'', ac_BaseEndpoint = None, ac_other = ()\<rparr>"
    by (simp_all add: open_aws_def)
  from aws_subscriber_ignores_endpoint [OF ps x] ps show ?thesis by (auto simp: open_aws_def)
qed

end
