(* ===== verification/Tp_Builds.thy ===== *)
theory Tp_Builds
  imports Ce_Api
begin

text \<open>
  What the remaining transport packages do: they turn the configuration into the settings of a
  publisher and a subscriber of Watermill and call two constructors, which are parameters
  (\<open>transport/kafka\<close>, \<open>rabbitmq\<close>, \<open>nats\<close>, \<open>http\<close> and \<open>channel\<close>). Marshalers are the libraries' own
  and appear as parameters where the code names them; the HTTP server's goroutine is left out.
\<close>

section \<open>Kafka\<close>

record 'm kafka_publisher_config =
  kp_Brokers :: "string list"
  kp_Marshaler :: 'm

record 'm kafka_subscriber_config =
  ks_Brokers :: "string list"
  ks_Unmarshaler :: 'm
  ks_ConsumerGroup :: string

definition kafka_Build ::
  "('m kafka_publisher_config \<Rightarrow> gerror + 'p) \<Rightarrow> ('m kafka_subscriber_config \<Rightarrow> gerror + 's) \<Rightarrow> 'm \<Rightarrow> config
    \<Rightarrow> gerror + 'p \<times> 's" where
  "kafka_Build PublisherFactory SubscriberFactory DefaultMarshaler cfg =
     (let brokers = KafkaBrokers cfg; consumerGroup = KafkaConsumerGroup cfg
      in sbind (PublisherFactory \<lparr>kp_Brokers = brokers, kp_Marshaler = DefaultMarshaler\<rparr>) (\<lambda>publisher.
         sbind (SubscriberFactory
                  \<lparr>ks_Brokers = brokers, ks_Unmarshaler = DefaultMarshaler, ks_ConsumerGroup = consumerGroup\<rparr>) (\<lambda>subscriber.
         Inr (publisher, subscriber))))"

section \<open>RabbitMQ\<close>

text \<open>One connection for both; \<open>NewDurablePubSubConfig\<close> and the reconnection settings are the library's.\<close>

record 'r amqp_connection_config =
  am_AmqpURI :: string
  am_Reconnect :: 'r

definition rabbitmq_Build ::
  "(string \<Rightarrow> 'a) \<Rightarrow> 'r \<Rightarrow> ('r amqp_connection_config \<Rightarrow> gerror + 'c) \<Rightarrow> ('a \<Rightarrow> 'c \<Rightarrow> gerror + 'p)
    \<Rightarrow> ('a \<Rightarrow> 'c \<Rightarrow> gerror + 's) \<Rightarrow> config \<Rightarrow> gerror + 'p \<times> 's" where
  "rabbitmq_Build NewDurablePubSubConfig DefaultReconnectConfig ConnectionFactory PublisherFactory SubscriberFactory cfg =
     (let url = RabbitMQURL cfg; amqpConfig = NewDurablePubSubConfig url
      in sbind (ConnectionFactory \<lparr>am_AmqpURI = url, am_Reconnect = DefaultReconnectConfig\<rparr>) (\<lambda>conn.
         sbind (PublisherFactory amqpConfig conn) (\<lambda>publisher.
         sbind (SubscriberFactory amqpConfig conn) (\<lambda>subscriber.
         Inr (publisher, subscriber)))))"

section \<open>NATS\<close>

record 'm nats_publisher_config =
  np_URL :: string
  np_Marshaler :: 'm

record 'm nats_subscriber_config =
  ns_URL :: string
  ns_Unmarshaler :: 'm

definition nats_Build ::
  "('m nats_publisher_config \<Rightarrow> gerror + 'p) \<Rightarrow> ('m nats_subscriber_config \<Rightarrow> gerror + 's) \<Rightarrow> 'm \<Rightarrow> config
    \<Rightarrow> gerror + 'p \<times> 's" where
  "nats_Build PublisherFactory SubscriberFactory marshaler cfg =
     (let url = NATSURL cfg
      in sbind (PublisherFactory \<lparr>np_URL = url, np_Marshaler = marshaler\<rparr>) (\<lambda>publisher.
         sbind (SubscriberFactory \<lparr>ns_URL = url, ns_Unmarshaler = marshaler\<rparr>) (\<lambda>subscriber.
         Inr (publisher, subscriber))))"

section \<open>HTTP\<close>

text \<open>The request of a message: Watermill's own, for the publisher's URL followed by the topic.\<close>

definition http_marshal :: "(string \<Rightarrow> message \<Rightarrow> gerror + 'r) \<Rightarrow> string \<Rightarrow> string \<Rightarrow> message \<Rightarrow> gerror + 'r" where
  "http_marshal DefaultMarshalMessageFunc publisherURL topic msg =
     (let url = publisherURL @ topic in DefaultMarshalMessageFunc url msg)"

definition http_Build ::
  "(string \<Rightarrow> message \<Rightarrow> gerror + 'r) \<Rightarrow> 'u \<Rightarrow> ((string \<Rightarrow> message \<Rightarrow> gerror + 'r) \<Rightarrow> gerror + 'p)
    \<Rightarrow> (string \<Rightarrow> 'u \<Rightarrow> gerror + 's) \<Rightarrow> config \<Rightarrow> gerror + 'p \<times> 's" where
  "http_Build DefaultMarshalMessageFunc DefaultUnmarshalMessageFunc PublisherFactory SubscriberFactory cfg =
     (let serverAddr = HTTPServerAddress cfg; publisherURL = HTTPPublisherURL cfg
      in sbind (PublisherFactory (http_marshal DefaultMarshalMessageFunc publisherURL)) (\<lambda>publisher.
         sbind (SubscriberFactory serverAddr DefaultUnmarshalMessageFunc) (\<lambda>subscriber.
         Inr (publisher, subscriber))))"

section \<open>Channels in the process\<close>

text \<open>The factory is given the zero configuration of \<open>gochannel\<close>.\<close>

definition channel_Build :: "('g \<Rightarrow> 'p \<times> 's) \<Rightarrow> 'g \<Rightarrow> gerror + 'p \<times> 's" where
  "channel_Build Factory zero_gochannel_config = Inr (Factory zero_gochannel_config)"

section \<open>What the transports agree on\<close>

text \<open>
  Both sides of a transport speak to the same brokers: whatever the two constructors are, they are
  given the same addresses, and a failure of either is that of the transport.
\<close>

lemma same_brokers:
  "kafka_Build Inr Inr mar cfg = Inr (p, s) \<Longrightarrow> kp_Brokers p = ks_Brokers s \<and> kp_Marshaler p = ks_Unmarshaler s"
  by (auto simp: kafka_Build_def Let_def)

lemma same_connection:
  "rabbitmq_Build f r Inr (\<lambda>a c. Inr (a, c)) (\<lambda>a c. Inr (a, c)) cfg = Inr (p, s) \<Longrightarrow> p = s \<and> am_AmqpURI (snd p) = RabbitMQURL cfg"
  by (auto simp: rabbitmq_Build_def Let_def)

text \<open>
  The topic is put behind the URL as it is: with the URL the documentation shows, which does not end
  in a slash, it becomes part of the port.
\<close>

lemma http_topic_in_port:
  "http_marshal (\<lambda>url msg. Inr url) ''http://localhost:8080'' ''orders'' msg = (Inr ''http://localhost:8080orders'' :: gerror + string)"
  by (simp add: http_marshal_def)

end
