(* ===== verification/Lib_Api.thy ===== *)
theory Lib_Api
  imports Sqlite Postgres
begin

text \<open>
  The library's own interface (\<open>libapi.go\<close>): almost all of it is other names for the types and
  functions of the runtime, which the other theories model under their own names. What it adds is
  \<open>WithDelay\<close>, the metadata by which a message is published with a delay: its text is that of
  \<open>Duration.String\<close>, which the SQL transports read with \<open>time.ParseDuration\<close>.
\<close>

definition MetadataKeyDelay :: string where
  "MetadataKeyDelay = ''protoflow_delay''"

definition Lib_WithDelay :: "duration \<Rightarrow> (string \<times> string) list" where
  "Lib_WithDelay delay = [(MetadataKeyDelay, dur_text delay)]"

section \<open>Durations are read as they are written\<close>

lemma digits_before:
  assumes "list_all is_digit ds" "z = [] \<or> \<not> is_digit (hd z)"
  shows "takeWhile is_digit (ds @ z) = ds" "dropWhile is_digit (ds @ z) = z"
  using assms by (cases z; simp add: takeWhile_append2 dropWhile_append2 list_all_iff)+

lemma unit_before:
  assumes "list_all (\<lambda>c. \<not> is_num_char c) u" "z = [] \<or> is_num_char (hd z)"
  shows "takeWhile (\<lambda>c. \<not> is_num_char c) (u @ z) = u" "dropWhile (\<lambda>c. \<not> is_num_char c) (u @ z) = z"
  using assms by (cases z; simp add: takeWhile_append2 dropWhile_append2 list_all_iff)+

text \<open>The fraction of a number: its digits and the power of ten they stand over.\<close>

lemma frac_digits:
  assumes "0 < prec" "ds = trim_zeros (pad prec (u mod 10 ^ prec))"
  shows "list_all is_digit ds" "length ds \<le> prec" "undec ds * 10 ^ (prec - length ds) = u mod 10 ^ prec"
proof -
  let ?n = "u mod 10 ^ prec"
  have p: "length (pad prec ?n) = prec" "undec (pad prec ?n) = ?n" "list_all is_digit (pad prec ?n)"
    using pad_props [of ?n prec] assms(1) by simp_all
  obtain k where k: "pad prec ?n = ds @ replicate k CHR ''0''"
    using trim_zeros_append unfolding assms(2) by blast
  show "list_all is_digit ds" using p(3) k by (simp add: list_all_append)
  have "k = prec - length ds" "length ds \<le> prec" using p(1) k by auto
  then show "length ds \<le> prec" "undec ds * 10 ^ (prec - length ds) = ?n"
    using p(2) k by (simp_all add: undec_append)
qed

lemma undec_less: "list_all is_digit ds \<Longrightarrow> undec ds < 10 ^ length ds"
proof (induction ds rule: rev_induct)
  case Nil
  then show ?case by (simp add: undec_def)
next
  case (snoc c ds)
  moreover from snoc have "dval c < 10" by (auto simp: is_digit_def dval_def)
  ultimately show ?case by (simp add: undec_snoc)
qed

lemma leading_frac_digits:
  assumes "list_all is_digit ds" "length es + length ds \<le> 18" "list_all is_digit es"
  shows "leading_frac ds (undec es) (10 ^ length es) = (undec (es @ ds), 10 ^ (length es + length ds))"
  using assms
proof (induction ds arbitrary: es)
  case Nil
  then show ?case by simp
next
  case (Cons c ds)
  have b: "undec (es @ [c]) < 10 ^ 18"
    using undec_less [of "es @ [c]"] Cons.prems power_increasing [of "length (es @ [c])" 18 "10 :: nat"] by simp
  then have "undec es * 10 + dval c < 10 ^ 18" by (simp add: undec_snoc)
  then have "\<not> ((two63 - 1) div 10 < undec es \<or> two63 < undec es * 10 + dval c)" by simp
  with Cons.IH [of "es @ [c]"] Cons.prems show ?case by (simp add: undec_snoc mult.commute)
qed

lemma round64_nat: "n \<le> 2 ^ 53 \<Longrightarrow> round64 (of_nat n) = Fin (of_nat n)"
  using round64_int [of "int n"] by simp

lemma f64_mult_nat:
  assumes "a * b = of_nat n" "n \<le> 2 ^ 53"
  shows "f64_mult a b = of_nat n"
  by (simp add: f64_mult_def assms(1) round64_nat [OF assms(2)])

text \<open>A number with its fraction over its own unit of ten to the number of places.\<close>

lemma dur_term_frac:
  assumes "0 < prec" "prec \<le> 9" "ds = trim_zeros (pad prec (u mod 10 ^ prec))" "v * 10 ^ prec + u mod 10 ^ prec \<le> two63"
  shows "dur_term v (leading_frac ds 0 1) (10 ^ prec) = Some (v * 10 ^ prec + u mod 10 ^ prec)"
proof -
  let ?n = "u mod 10 ^ prec"
  note d = frac_digits [OF assms(1,3)]
  have lf: "leading_frac ds 0 1 = (undec ds, 10 ^ length ds)"
    using leading_frac_digits [of ds "[]"] d(1,2) assms(2) by (simp add: undec_def)
  have n: "?n < 10 ^ prec" by simp
  then have "?n < 10 ^ 9" using power_increasing [OF assms(2), of "10 :: nat"] by linarith
  then have small: "?n \<le> 2 ^ 53" by simp
  have f: "undec ds \<le> 2 ^ 53"
    using d(3) small mult_le_mono2 [of 1 "10 ^ (prec - length ds)" "undec ds"] by simp
  have s: "(10 :: nat) ^ (prec - length ds) \<le> 2 ^ 53"
    by (rule order_trans [OF power_increasing [of "prec - length ds" 9]]) (use assms(2) in simp_all)
  have q: "(of_nat (10 ^ prec) :: rat) * (1 / of_nat (10 ^ length ds)) = of_nat (10 ^ (prec - length ds))"
  proof -
    have "(10 :: rat) ^ prec = 10 ^ (prec - length ds) * 10 ^ length ds"
      using d(2) by (simp flip: power_add)
    then show ?thesis by simp
  qed
  have g: "f64_mult (of_nat (10 ^ prec)) (1 / of_nat (10 ^ length ds)) = of_nat (10 ^ (prec - length ds))"
    by (rule f64_mult_nat [OF q s])
  have h: "f64_mult (of_nat (undec ds)) 1 = of_nat (undec ds)" by (rule f64_mult_nat [OF _ f]) simp
  have "(of_nat (undec ds) :: rat) * of_nat (10 ^ (prec - length ds)) = of_nat ?n"
    by (simp only: d(3) [symmetric] of_nat_mult)
  then have w: "f64_mult (of_nat (undec ds)) (of_nat (10 ^ (prec - length ds))) = of_nat ?n"
    by (rule f64_mult_nat [OF _ small])
  have tr: "nat (trunc (of_nat k)) = k" for k using trunc_int [of "int k"] by simp
  have "v \<le> two63 div 10 ^ prec"
    using assms(4) by (simp add: less_eq_div_iff_mult_less_eq)
  moreover have "?n = 0" if "undec ds = 0" using d(3) that by simp
  ultimately show ?thesis
    using assms(4) unfolding dur_term_def lf prod.case g h w tr Let_def by auto
qed

lemma dur_term_whole:
  assumes "v * u \<le> two63" "0 < u"
  shows "dur_term v (leading_frac [] 0 1) u = Some (v * u)"
  using assms by (simp add: dur_term_def less_eq_div_iff_mult_less_eq not_less)

text \<open>One number with its unit, and what follows it.\<close>

lemma dur_terms_step:
  assumes "unit_of u = Some un" "u \<noteq> []" "list_all (\<lambda>c. \<not> is_num_char c) u" "v \<le> two63" "list_all is_digit ds"
    "r = [] \<or> is_num_char (hd r)" "dur_term v (leading_frac ds 0 1) un = Some w" "acc + w \<le> two63"
  shows "dur_terms (Suc fuel) acc (dec_nat v @ (if ds = [] then [] else CHR ''.'' # ds) @ u @ r)
    = dur_terms fuel (acc + w) r"
proof -
  let ?F = "if ds = [] then [] else CHR ''.'' # ds"
  let ?s = "dec_nat v @ ?F @ u @ r"
  have hu: "\<not> is_digit (hd u)" "hd u \<noteq> CHR ''.''"
    using assms(2,3) by (cases u; simp add: is_num_char_def)+
  have z: "\<not> is_digit (hd (?F @ u @ r))" "?F @ u @ r \<noteq> []"
    using hu assms(2) by (auto simp: is_digit_def)
  have 1: "takeWhile is_digit ?s = dec_nat v" "dropWhile is_digit ?s = ?F @ u @ r"
    using digits_before [OF dec_nat_digits, of "?F @ u @ r" v] z by simp_all
  have dot: "(hd (?F @ u @ r) = CHR ''.'') = (ds \<noteq> [])" using hu(2) assms(2) by auto
  have 2: "takeWhile is_digit (ds @ u @ r) = ds" "dropWhile is_digit (ds @ u @ r) = u @ r"
    using digits_before [OF assms(5), of "u @ r"] hu(1) assms(2) by simp_all
  note 3 = unit_before [OF assms(3,6)]
  have "is_num_char (hd ?s)" "?s \<noteq> []"
    using hd_dec_nat_digit [of v] by (simp_all add: is_num_char_def hd_append)
  moreover have "leading_int (dec_nat v) = Some v" using assms(4) by (simp add: leading_int_def)
  ultimately show ?thesis
    using z(2) dot 1 2 3 assms(1,7,8)
    by (cases "ds = []") (simp_all add: Let_def hd_append)
qed

lemma dur_terms_end: "0 < fuel \<Longrightarrow> dur_terms fuel acc [] = Some acc"
  by (cases fuel) simp_all

declare dur_terms.simps(2) [simp del]

lemma units [simp]:
  "unit_of ''ns'' = Some 1" "unit_of [CHR 0xC2, CHR 0xB5, CHR ''s''] = Some 1000" "unit_of ''ms'' = Some 1000000"
  "unit_of ''s'' = Some 1000000000" "unit_of ''m'' = Some 60000000000" "unit_of ''h'' = Some 3600000000000"
  by (simp_all add: unit_of_def)

lemma unit_chars [simp]:
  "list_all (\<lambda>c. \<not> is_num_char c) ''ns''" "list_all (\<lambda>c. \<not> is_num_char c) [CHR 0xC2, CHR 0xB5, CHR ''s'']"
  "list_all (\<lambda>c. \<not> is_num_char c) ''ms''" "list_all (\<lambda>c. \<not> is_num_char c) ''s''"
  "list_all (\<lambda>c. \<not> is_num_char c) ''m''" "list_all (\<lambda>c. \<not> is_num_char c) ''h''"
  by (simp_all add: is_num_char_def is_digit_def)

text \<open>A number with a fraction, the last of a text, in a unit of a power of ten.\<close>

lemma dur_last:
  assumes "0 < prec" "prec \<le> 9" "unit_of u = Some (10 ^ prec)" "u \<noteq> []" "list_all (\<lambda>c. \<not> is_num_char c) u"
    "acc + v * 10 ^ prec + x mod 10 ^ prec \<le> two63" "1 < fuel"
  shows "dur_terms fuel acc (dec_nat v @ frac_text prec x @ u) = Some (acc + v * 10 ^ prec + x mod 10 ^ prec)"
proof -
  let ?ds = "trim_zeros (pad prec (x mod 10 ^ prec))"
  have t: "dur_term v (leading_frac ?ds 0 1) (10 ^ prec) = Some (v * 10 ^ prec + x mod 10 ^ prec)"
    by (rule dur_term_frac [OF assms(1,2) refl]) (use assms(6) in simp)
  have "v \<le> v * 10 ^ prec" using mult_le_mono2 [of 1 "10 ^ prec" v] by simp
  then have v: "v \<le> two63" using assms(6) by linarith
  obtain k where k: "fuel = Suc k" "0 < k" using assms(7) by (cases fuel) auto
  show ?thesis
    using dur_terms_step [OF assms(3-5) v frac_digits(1) [OF assms(1) refl], of "[]" x "v * 10 ^ prec + x mod 10 ^ prec" acc k]
      t assms(6) k(2)
    by (simp add: frac_text_def Let_def k(1) dur_terms_end add.assoc)
qed

text \<open>A whole number with its unit, followed by another number.\<close>

lemma dur_whole:
  assumes "unit_of u = Some un" "u \<noteq> []" "list_all (\<lambda>c. \<not> is_num_char c) u" "0 < un"
    "acc + v * un \<le> two63" "r = [] \<or> is_num_char (hd r)"
  shows "dur_terms (Suc fuel) acc (dec_nat v @ u @ r) = dur_terms fuel (acc + v * un) r"
proof -
  have t: "dur_term v (leading_frac [] 0 1) un = Some (v * un)"
    by (rule dur_term_whole) (use assms in simp_all)
  have "v \<le> v * un" using mult_le_mono2 [of 1 un v] assms(4) by simp
  then have v: "v \<le> two63" using assms(5) by linarith
  show ?thesis using dur_terms_step [OF assms(1-3) v, of "[]" r "v * un" acc fuel] t assms(5,6) by simp
qed

lemma num_head: "is_num_char (hd (dec_nat v @ s))"
  using hd_dec_nat_digit [of v] by (simp add: hd_append is_num_char_def)

lemma seconds_text:
  fixes x :: nat
  defines "secs \<equiv> x div 1000000000"
  assumes "x \<le> two63" "0 < fuel" "secs div 60 = 0 \<or> 2 < fuel"
  shows "dur_terms (Suc fuel) 0
      ((if secs div 60 div 60 = 0 then [] else dec_nat (secs div 60 div 60) @ ''h'')
       @ (if secs div 60 = 0 then [] else dec_nat (secs div 60 mod 60) @ ''m'')
       @ dec_nat (secs mod 60) @ frac_text 9 x @ ''s'') = Some x"
proof -
  let ?last = "dec_nat (secs mod 60) @ frac_text 9 x @ ''s''"
  let ?h = "secs div 60 div 60" and ?m = "secs div 60"
  have x: "secs * 1000000000 + x mod 1000000000 = x" by (simp add: secs_def)
  have s: "?h * 3600 + ?m mod 60 * 60 + secs mod 60 = secs"
  proof -
    have "?h * 60 + ?m mod 60 = ?m" "?m * 60 + secs mod 60 = secs" by (rule div_mult_mod_eq)+
    then show ?thesis by linarith
  qed
  have val: "?h * 3600000000000 + ?m mod 60 * 60000000000 + secs mod 60 * 1000000000 + x mod 1000000000 = x"
    using x s by linarith
  have l: "dur_terms f acc ?last = Some x"
    if "acc + secs mod 60 * 1000000000 + x mod 1000000000 = x" "1 < f" for f acc
    using dur_last [OF _ _ _ _ unit_chars(4), of 9 acc "secs mod 60" x f] that assms(2) by simp
  show ?thesis
  proof (cases "?m = 0")
    case True
    then show ?thesis using l [of 0 "Suc fuel"] val assms(3) by simp
  next
    case m: False
    with assms(4) obtain k where k: "fuel = Suc k" "1 < k" by (cases fuel) auto
    show ?thesis
    proof (cases "?h = 0")
      case True
      have "dur_terms (Suc fuel) 0 (dec_nat (?m mod 60) @ ''m'' @ ?last) = dur_terms fuel (0 + ?m mod 60 * 60000000000) ?last"
        by (rule dur_whole [OF units(5) _ unit_chars(5)]) (use val assms(2) num_head in auto)
      with True m val k l show ?thesis by simp
    next
      case False
      have "dur_terms (Suc fuel) 0 (dec_nat ?h @ ''h'' @ dec_nat (?m mod 60) @ ''m'' @ ?last)
          = dur_terms fuel (0 + ?h * 3600000000000) (dec_nat (?m mod 60) @ ''m'' @ ?last)"
        by (rule dur_whole [OF units(6) _ unit_chars(6)]) (use val assms(2) num_head in auto)
      moreover have "dur_terms (Suc k) (?h * 3600000000000) (dec_nat (?m mod 60) @ ''m'' @ ?last)
          = dur_terms k (?h * 3600000000000 + ?m mod 60 * 60000000000) ?last"
        by (rule dur_whole [OF units(5) _ unit_chars(5)]) (use val assms(2) num_head in auto)
      ultimately show ?thesis using False m val k l by simp
    qed
  qed
qed

text \<open>The text of a length of time: it begins with a digit and is read back.\<close>

definition abs_text :: "nat \<Rightarrow> string" where
  "abs_text u =
     (if u = 0 then ''0s''
      else if u < 1000 then dec_nat u @ ''ns''
      else if u < 1000000 then dec_nat (u div 1000) @ frac_text 3 u @ [CHR 0xC2, CHR 0xB5, CHR ''s'']
      else if u < 1000000000 then dec_nat (u div 1000000) @ frac_text 6 u @ ''ms''
      else (let secs = u div 1000000000; mins = secs div 60; hours = mins div 60
            in (if hours = 0 then [] else dec_nat hours @ ''h'')
               @ (if mins = 0 then [] else dec_nat (mins mod 60) @ ''m'')
               @ dec_nat (secs mod 60) @ frac_text 9 u @ ''s''))"

lemma dur_text_abs: "dur_text d = (if d < 0 then CHR ''-'' # abs_text (nat \<bar>d\<bar>) else abs_text (nat \<bar>d\<bar>))"
  by (simp only: dur_text_def abs_text_def Let_def)

lemma abs_text_read:
  assumes "0 < u" "u \<le> two63"
  shows "abs_text u \<noteq> [] \<and> is_digit (hd (abs_text u)) \<and> abs_text u \<noteq> ''0''
    \<and> dur_terms (Suc (length (abs_text u))) 0 (abs_text u) = Some u"
proof -
  define t where "t = abs_text u"
  consider "u < 1000" | "1000 \<le> u" "u < 1000000" | "1000000 \<le> u" "u < 1000000000" | "1000000000 \<le> u" by linarith
  then have "t \<noteq> [] \<and> is_digit (hd t) \<and> t \<noteq> ''0'' \<and> dur_terms (Suc (length t)) 0 t = Some u"
  proof cases
    case 1
    then have t: "t = dec_nat u @ ''ns'' @ []" using assms(1) by (simp add: t_def abs_text_def Let_def)
    have "dur_terms (Suc (length t)) 0 t = dur_terms (length t) (0 + u * 1) []"
      unfolding t by (rule dur_whole) (use 1 in \<open>simp_all add: is_num_char_def is_digit_def\<close>)
    with t hd_dec_nat_digit [of u] show ?thesis by (simp add: hd_append dur_terms_end)
  next
    case 2
    then have t: "t = dec_nat (u div 1000) @ frac_text 3 u @ [CHR 0xC2, CHR 0xB5, CHR ''s'']"
      using assms(1) by (simp add: t_def abs_text_def Let_def)
    have "dur_terms (Suc (length t)) 0 t = Some (0 + u div 1000 * 10 ^ 3 + u mod 10 ^ 3)"
      unfolding t by (rule dur_last) (use 2 assms(2) in \<open>simp_all add: is_num_char_def is_digit_def\<close>)
    with t hd_dec_nat_digit [of "u div 1000"] show ?thesis by (simp add: hd_append)
  next
    case 3
    then have t: "t = dec_nat (u div 1000000) @ frac_text 6 u @ ''ms''"
      using assms(1) by (simp add: t_def abs_text_def Let_def)
    have "dur_terms (Suc (length t)) 0 t = Some (0 + u div 1000000 * 10 ^ 6 + u mod 10 ^ 6)"
      unfolding t by (rule dur_last) (use 3 assms(2) in \<open>simp_all add: is_num_char_def is_digit_def\<close>)
    with t hd_dec_nat_digit [of "u div 1000000"] show ?thesis by (simp add: hd_append)
  next
    case 4
    let ?s = "u div 1000000000"
    have t: "t = (if ?s div 60 div 60 = 0 then [] else dec_nat (?s div 60 div 60) @ ''h'')
       @ (if ?s div 60 = 0 then [] else dec_nat (?s div 60 mod 60) @ ''m'') @ dec_nat (?s mod 60) @ frac_text 9 u @ ''s''"
      using 4 assms(1) by (simp add: t_def abs_text_def Let_def)
    have h: "is_digit (hd (dec_nat n @ r))" for n r using hd_dec_nat_digit [of n] by (simp add: hd_append)
    have l: "0 < length (dec_nat n)" for n by simp
    have len: "0 < length t" "?s div 60 = 0 \<or> 2 < length t"
      unfolding t using l [of "?s div 60 mod 60"] l [of "?s mod 60"] by simp_all
    have "dur_terms (Suc (length t)) 0 t = Some u"
      using seconds_text [OF assms(2) len] unfolding t [symmetric] .
    moreover have "is_digit (hd t)" unfolding t using h by auto
    moreover have "last t = CHR ''s''" unfolding t by simp
    ultimately show ?thesis using len(1) by auto
  qed
  then show ?thesis unfolding t_def .
qed

text \<open>Every duration is read as it is written.\<close>

lemma parse_dur_text:
  assumes "in_i64 d"
  shows "parse_duration (dur_text d) = Some d"
proof (cases "d = 0")
  case True
  have "dec_nat 0 = ''0''" by code_simp
  then have "dur_terms 3 0 ''0s'' = Some 0"
    using dur_whole [OF units(4) _ unit_chars(4), of 0 0 "[]" 2] dur_terms_end [of 2 0] by (simp add: numeral_3_eq_3)
  then have "parse_duration (dur_text 0) = Some 0" by (simp add: dur_text_def parse_duration_def split_sign_def numeral_3_eq_3)
  with True show ?thesis by simp
next
  case False
  define u where "u = nat \<bar>d\<bar>"
  have u: "0 < u" "u \<le> two63" using False assms by (auto simp: u_def in_i64_def)
  note t = abs_text_read [OF u]
  have "split_sign (dur_text d) = (d < 0, abs_text u)"
  proof -
    have "dur_text d = (if d < 0 then CHR ''-'' # abs_text u else abs_text u)" by (simp only: dur_text_abs u_def)
    then show ?thesis using t by (cases "abs_text u") (auto simp: split_sign_def)
  qed
  moreover have "d < 0 \<and> d = - int u \<or> \<not> d < 0 \<and> u \<noteq> two63 \<and> d = int u"
    using assms by (auto simp: u_def in_i64_def)
  ultimately show ?thesis using t unfolding parse_duration_def by auto
qed

section \<open>Delayed messages\<close>

text \<open>
  A message published with the metadata of \<open>WithDelay\<close> is available at the time of publishing plus
  exactly that delay, whatever it is and whatever other metadata the message has, on SQLite and
  on Postgres, where the instant is kept as the database keeps it.
\<close>

theorem with_delay_schedules:
  assumes "in_i64 d" "Metadata msg = mputs (Lib_WithDelay d) md"
  shows "new_available (sqlite_row now topic msg) = now + d
    \<and> new_available (pg_row t topic msg) = pg_ts t (pg_now t + d)"
proof -
  have "mget (Metadata msg) ''protoflow_delay'' = dur_text d"
    by (simp add: assms(2) Lib_WithDelay_def MetadataKeyDelay_def)
  moreover from this have "dur_text d \<noteq> []" using parse_dur_text [OF assms(1)] by auto
  ultimately have "available_at n msg = n + d" for n
    by (simp add: available_at_def Let_def parse_dur_text [OF assms(1)])
  then show ?thesis by (simp add: sqlite_row_def pg_row_def)
qed

lemma with_delay_schedules_witness:
  "new_available (sqlite_row 1000 ''t'' ((NewMessage ''1'' ''x'')\<lparr>Metadata := Lib_WithDelay (90 * second)\<rparr>)) = 90000001000"
proof -
  let ?m = "(NewMessage ''1'' ''x'')\<lparr>Metadata := Lib_WithDelay (90 * second)\<rparr>"
  have "in_i64 (90 * second)" "Metadata ?m = mputs (Lib_WithDelay (90 * second)) []"
    by (simp_all add: in_i64_def Lib_WithDelay_def)
  from with_delay_schedules [OF this, of 1000 "''t''"] show ?thesis by simp
qed

end
