(* ===== verification/Rt_Config_Print.thy ===== *)
theory Rt_Config_Print
  imports Rt_Config Go_Value
begin

text \<open>
  Printing a configuration (\<open>Config.String\<close> and \<open>redactURLCredentials\<close> in
  \<open>internal/runtime/config/config.go\<close>): secrets and the passwords in the connection URLs are
  replaced before everything is printed in Go's \<open>%+v\<close> format. \<open>url.Parse\<close> and \<open>URL.String\<close> are
  parameters; of a URL the program reads and writes the user part only.
\<close>

record 'u url =
  User :: "(string \<times> string option) option"
  url_rest :: 'u

record 'u url_lib =
  ul_Parse :: "string \<Rightarrow> gerror + 'u url"
  ul_String :: "'u url \<Rightarrow> string"

definition redactURLCredentials :: "'u url_lib \<Rightarrow> string \<Rightarrow> string" where
  "redactURLCredentials lib rawURL =
     (case ul_Parse lib rawURL of
        Inl err \<Rightarrow> ''***REDACTED_URL***''
      | Inr parsed \<Rightarrow>
          (let parsed = (case User parsed of
                           None \<Rightarrow> parsed
                         | Some (username, password) \<Rightarrow>
                             (case password of
                                None \<Rightarrow> parsed
                              | Some _ \<Rightarrow> parsed\<lparr>User := Some (username, Some ''***REDACTED***'')\<rparr>))
           in ul_String lib parsed))"

definition redact_config :: "'u url_lib \<Rightarrow> config \<Rightarrow> config" where
  "redact_config lib c =
     (let c = (if AWSSecretAccessKey c \<noteq> [] then c\<lparr>AWSSecretAccessKey := ''***REDACTED***''\<rparr> else c);
          c = (if AWSAccessKeyID c \<noteq> [] then c\<lparr>AWSAccessKeyID := ''***REDACTED***''\<rparr> else c);
          c = (if RabbitMQURL c \<noteq> [] then c\<lparr>RabbitMQURL := redactURLCredentials lib (RabbitMQURL c)\<rparr> else c);
          c = (if NATSURL c \<noteq> [] then c\<lparr>NATSURL := redactURLCredentials lib (NATSURL c)\<rparr> else c)
      in if PostgresURL c \<noteq> [] then c\<lparr>PostgresURL := redactURLCredentials lib (PostgresURL c)\<rparr> else c)"

text \<open>\<open>%+v\<close> of the struct: the fields with their names, in order; a duration prints itself.\<close>

definition list_text :: "string list \<Rightarrow> string" where
  "list_text xs = ''['' @ spaced xs @ '']''"

definition bool_text :: "bool \<Rightarrow> string" where
  "bool_text b = (if b then ''true'' else ''false'')"

definition config_fields :: "config \<Rightarrow> (string \<times> string) list" where
  "config_fields c =
     [(''PubSubSystem'', PubSubSystem c), (''KafkaBrokers'', list_text (KafkaBrokers c)),
      (''KafkaClientID'', KafkaClientID c), (''KafkaConsumerGroup'', KafkaConsumerGroup c),
      (''RabbitMQURL'', RabbitMQURL c), (''NATSURL'', NATSURL c), (''HTTPServerAddress'', HTTPServerAddress c),
      (''HTTPPublisherURL'', HTTPPublisherURL c), (''IOFile'', IOFile c), (''SQLiteFile'', SQLiteFile c),
      (''PostgresURL'', PostgresURL c), (''PoisonQueue'', PoisonQueue c), (''AWSRegion'', AWSRegion c),
      (''AWSAccountID'', AWSAccountID c), (''AWSAccessKeyID'', AWSAccessKeyID c),
      (''AWSSecretAccessKey'', AWSSecretAccessKey c), (''AWSEndpoint'', AWSEndpoint c),
      (''RetryMaxRetries'', dec_int (RetryMaxRetries c)), (''RetryInitialInterval'', dur_text (RetryInitialInterval c)),
      (''RetryMaxInterval'', dur_text (RetryMaxInterval c)), (''MetricsEnabled'', bool_text (MetricsEnabled c)),
      (''MetricsPort'', dec_int (MetricsPort c)), (''WebUIEnabled'', bool_text (WebUIEnabled c)),
      (''WebUIPort'', dec_int (WebUIPort c)), (''WebUICORSAllowedOrigins'', list_text (WebUICORSAllowedOrigins c))]"

definition Config_String :: "'u url_lib \<Rightarrow> config \<Rightarrow> string" where
  "Config_String lib c =
     ''{'' @ spaced (map (\<lambda>(k, v). k @ '':'' @ v) (config_fields (redact_config lib c))) @ ''}''"

section \<open>Secrets do not show\<close>

text \<open>Two texts that a reader of the printed configuration cannot tell apart.\<close>

definition same_presence :: "string \<Rightarrow> string \<Rightarrow> bool" where
  "same_presence a b \<longleftrightarrow> (a = [] \<longleftrightarrow> b = [])"

text \<open>Two URLs of the same place and user, whatever their passwords; or none that can be parsed.\<close>

definition same_but_password :: "'u url_lib \<Rightarrow> string \<Rightarrow> string \<Rightarrow> bool" where
  "same_but_password lib a b \<longleftrightarrow>
     a = b
     \<or> (a \<noteq> [] \<and> b \<noteq> []
        \<and> (case (ul_Parse lib a, ul_Parse lib b) of
             (Inl _, Inl _) \<Rightarrow> True
           | (Inr u, Inr v) \<Rightarrow>
               url_rest u = url_rest v
               \<and> (case (User u, User v) of
                    (Some (n, Some _), Some (n', Some _)) \<Rightarrow> n = n'
                  | _ \<Rightarrow> False)
           | _ \<Rightarrow> False))"

lemma same_rest: "url_rest u = url_rest v \<Longrightarrow> u\<lparr>User := x\<rparr> = v\<lparr>User := x\<rparr>" for u v :: "'u url"
  by (cases u; cases v) simp

lemma redact_same: "same_but_password lib a b \<Longrightarrow> redactURLCredentials lib a = redactURLCredentials lib b"
  by (auto simp: same_but_password_def redactURLCredentials_def intro!: arg_cong [of _ _ "ul_String lib"] same_rest
      split: sum.splits option.splits)

lemma same_but_password_presence: "same_but_password lib a b \<Longrightarrow> a = [] \<longleftrightarrow> b = []"
  by (auto simp: same_but_password_def)

text \<open>The fields of a redacted configuration, one by one.\<close>

definition hidden :: "string \<Rightarrow> string" where
  "hidden s = (if s \<noteq> [] then ''***REDACTED***'' else s)"

definition hidden_url :: "'u url_lib \<Rightarrow> string \<Rightarrow> string" where
  "hidden_url lib s = (if s \<noteq> [] then redactURLCredentials lib s else s)"

lemma update_if:
  "(if b then c\<lparr>AWSSecretAccessKey := x\<rparr> else c) = c\<lparr>AWSSecretAccessKey := if b then x else AWSSecretAccessKey c\<rparr>"
  "(if b then c\<lparr>AWSAccessKeyID := x\<rparr> else c) = c\<lparr>AWSAccessKeyID := if b then x else AWSAccessKeyID c\<rparr>"
  "(if b then c\<lparr>RabbitMQURL := x\<rparr> else c) = c\<lparr>RabbitMQURL := if b then x else RabbitMQURL c\<rparr>"
  "(if b then c\<lparr>NATSURL := x\<rparr> else c) = c\<lparr>NATSURL := if b then x else NATSURL c\<rparr>"
  "(if b then c\<lparr>PostgresURL := x\<rparr> else c) = c\<lparr>PostgresURL := if b then x else PostgresURL c\<rparr>"
  by simp_all

lemma redacted:
  "redact_config lib c =
     c\<lparr>AWSSecretAccessKey := hidden (AWSSecretAccessKey c), AWSAccessKeyID := hidden (AWSAccessKeyID c),
       RabbitMQURL := hidden_url lib (RabbitMQURL c), NATSURL := hidden_url lib (NATSURL c),
       PostgresURL := hidden_url lib (PostgresURL c)\<rparr>"
  unfolding redact_config_def Let_def update_if hidden_def hidden_url_def by simp

lemma hidden_same: "same_presence a b \<Longrightarrow> hidden b = hidden a"
  by (auto simp: same_presence_def hidden_def)

lemma url_same: "same_but_password lib a b \<Longrightarrow> hidden_url lib b = hidden_url lib a"
  using redact_same [of lib a b] same_but_password_presence [of lib a b] by (auto simp: hidden_url_def)

text \<open>
  Printing a configuration gives away nothing of its secrets: two configurations that agree except
  for their AWS keys, which both have or both lack, and the passwords in their RabbitMQ, NATS
  and Postgres URLs, are printed as the same text; URLs that cannot be parsed are not shown at all.
\<close>

theorem config_string_hides_secrets:
  assumes "same_presence (AWSSecretAccessKey c) secret" "same_presence (AWSAccessKeyID c) key"
    "same_but_password lib (RabbitMQURL c) rabbit" "same_but_password lib (NATSURL c) nats"
    "same_but_password lib (PostgresURL c) postgres"
  shows "Config_String lib (c\<lparr>AWSSecretAccessKey := secret, AWSAccessKeyID := key, RabbitMQURL := rabbit,
      NATSURL := nats, PostgresURL := postgres\<rparr>) = Config_String lib c"
proof -
  let ?c = "c\<lparr>AWSSecretAccessKey := secret, AWSAccessKeyID := key, RabbitMQURL := rabbit,
      NATSURL := nats, PostgresURL := postgres\<rparr>"
  have "redact_config lib ?c = redact_config lib c"
    unfolding redacted
    using hidden_same [OF assms(1)] hidden_same [OF assms(2)] url_same [OF assms(3)] url_same [OF assms(4)] url_same [OF assms(5)]
    by simp
  then show ?thesis by (simp add: Config_String_def)
qed

definition user_urls :: "string url_lib" where
  "user_urls =
     \<lparr>ul_Parse = (\<lambda>s. Inr \<lparr>User = Some (''app'', Some s), url_rest = ''host''\<rparr>),
      ul_String = (\<lambda>u. url_rest u @ (case User u of Some (n, Some p) \<Rightarrow> n @ p | _ \<Rightarrow> []))\<rparr>"

lemma config_string_hides_secrets_witness:
  "Config_String user_urls (zero_config\<lparr>PostgresURL := ''a'', AWSSecretAccessKey := ''s''\<rparr>)
   = Config_String user_urls (zero_config\<lparr>PostgresURL := ''b'', AWSSecretAccessKey := ''t''\<rparr>)"
proof -
  let ?c = "zero_config\<lparr>PostgresURL := ''b'', AWSSecretAccessKey := ''t''\<rparr>"
  have "same_presence (AWSSecretAccessKey ?c) ''s''" "same_presence (AWSAccessKeyID ?c) []"
    "same_but_password user_urls (RabbitMQURL ?c) []" "same_but_password user_urls (NATSURL ?c) []"
    "same_but_password user_urls (PostgresURL ?c) ''a''"
    by (simp_all add: zero_config_def same_presence_def same_but_password_def user_urls_def)
  from config_string_hides_secrets [OF this] show ?thesis by (simp add: zero_config_def)
qed

text \<open>
  A URL whose user part has no password is printed in full, with whatever else it carries: a password
  in its query or in a text of keys and values, which parses as a path, is not hidden.
\<close>

lemma other_credentials_shown:
  "ul_Parse lib raw = Inr u \<Longrightarrow> User u = None \<Longrightarrow> redactURLCredentials lib raw = ul_String lib u"
  by (simp add: redactURLCredentials_def)

end
