(* ===== verification/Rt_Logging.thy ===== *)
theory Rt_Logging
  imports Go_Value Ce_Errors
begin

text \<open>
  The logging adapters (\<open>internal/runtime/logging/logging.go\<close>). A logger, of the service's kind or of
  Watermill's, which have the same methods, is what its four methods do to the world and what
  its \<open>With\<close> returns: a logger again, so loggers are a codatatype. A field map is an option, nil
  being \<open>None\<close>. A logger given as nil is \<open>None\<close>, and a panic an \<open>Inl\<close>.
\<close>

section \<open>Loggers\<close>

datatype level = LvlError | LvlInfo | LvlDebug | LvlTrace

type_synonym log_fields = "(string \<times> any) list option"

codatatype 'w logger =
  Logger (log_at: "level \<Rightarrow> string \<Rightarrow> gerror option \<Rightarrow> log_fields \<Rightarrow> 'w \<Rightarrow> 'w") (with_fields: "log_fields \<Rightarrow> 'w logger")

definition no_fields :: "log_fields \<Rightarrow> bool" where
  "no_fields fs = (case fs of None \<Rightarrow> True | Some m \<Rightarrow> m = [])"

definition toWatermillFields :: "log_fields \<Rightarrow> log_fields" where
  "toWatermillFields fs = (if no_fields fs then None else fs)"

definition fromWatermillFields :: "log_fields \<Rightarrow> log_fields" where
  "fromWatermillFields fs = (if no_fields fs then None else fs)"

section \<open>The two adapters\<close>

primcorec watermillServiceLogger :: "'w logger \<Rightarrow> 'w logger" where
  "log_at (watermillServiceLogger inner) = (\<lambda>l msg err fs. log_at inner l msg err (toWatermillFields fs))"
| "with_fields (watermillServiceLogger inner) = (\<lambda>fs. watermillServiceLogger (with_fields inner (toWatermillFields fs)))"

primcorec serviceLoggerAdapter :: "'w logger \<Rightarrow> 'w logger" where
  "log_at (serviceLoggerAdapter base) = (\<lambda>l msg err fs. log_at base l msg err (fromWatermillFields fs))"
| "with_fields (serviceLoggerAdapter base) = (\<lambda>fs. serviceLoggerAdapter (with_fields base (fromWatermillFields fs)))"

definition NewWatermillServiceLogger :: "'w logger option \<Rightarrow> string + 'w logger" where
  "NewWatermillServiceLogger lg =
     (case lg of
        None \<Rightarrow> Inl ''protoflow: watermill logger cannot be nil''
      | Some inner \<Rightarrow> Inr (watermillServiceLogger inner))"

definition NewWatermillAdapter :: "'w logger option \<Rightarrow> string + 'w logger" where
  "NewWatermillAdapter lg =
     (case lg of
        None \<Rightarrow> Inl ''protoflow: ServiceLogger cannot be nil''
      | Some base \<Rightarrow> Inr (serviceLoggerAdapter base))"

text \<open>\<open>slog\<close> and Watermill's adapter for it are the libraries'.\<close>

definition NewSlogServiceLogger :: "('l \<Rightarrow> 'w logger) \<Rightarrow> 'l option \<Rightarrow> string + 'w logger" where
  "NewSlogServiceLogger NewSlogLoggerWithLevelMapping lg =
     (case lg of
        None \<Rightarrow> Inl ''protoflow: slog logger cannot be nil''
      | Some l \<Rightarrow> NewWatermillServiceLogger (Some (NewSlogLoggerWithLevelMapping l)))"

section \<open>Entry loggers\<close>

record ('e, 'w) entry_ops =
  en_emit :: "level \<Rightarrow> string \<Rightarrow> 'e \<Rightarrow> 'w \<Rightarrow> 'w"
  en_WithError :: "gerror \<Rightarrow> 'e \<Rightarrow> 'e"
  en_WithField :: "string \<Rightarrow> any \<Rightarrow> 'e \<Rightarrow> 'e"

definition applyEntryFields :: "('e, 'w) entry_ops \<Rightarrow> 'e \<Rightarrow> log_fields \<Rightarrow> 'e" where
  "applyEntryFields ops entry fs =
     (case fs of
        None \<Rightarrow> entry
      | Some m \<Rightarrow> fold (\<lambda>(key, value) enriched. en_WithField ops key value enriched) m entry)"

primcorec entryServiceLogger :: "('e, 'w) entry_ops \<Rightarrow> 'e \<Rightarrow> 'w logger" where
  "log_at (entryServiceLogger ops entry) =
     (\<lambda>l msg err fs.
        let e = applyEntryFields ops entry fs
        in en_emit ops l msg (case (l, err) of (LvlError, Some x) \<Rightarrow> en_WithError ops x e | _ \<Rightarrow> e))"
| "with_fields (entryServiceLogger ops entry) =
     (\<lambda>fs. entryServiceLogger ops (if no_fields fs then entry else applyEntryFields ops entry fs))"

definition NewEntryServiceLogger :: "('e, 'w) entry_ops \<Rightarrow> 'e option \<Rightarrow> string + 'w logger" where
  "NewEntryServiceLogger ops entry =
     (case entry of
        None \<Rightarrow> Inl ''protoflow: entry logger cannot be nil''
      | Some e \<Rightarrow> Inr (entryServiceLogger ops e))"

section \<open>What adapting keeps\<close>

lemma fields_idem [simp]:
  "fromWatermillFields (fromWatermillFields fs) = fromWatermillFields fs"
  "toWatermillFields (fromWatermillFields fs) = fromWatermillFields fs"
  "fromWatermillFields (toWatermillFields fs) = fromWatermillFields fs"
  "toWatermillFields fs = fromWatermillFields fs"
  by (simp_all add: toWatermillFields_def fromWatermillFields_def no_fields_def)

text \<open>A logger to which an empty map of fields is as good as none, now and after every \<open>With\<close>.\<close>

coinductive nil_is_empty :: "'w logger \<Rightarrow> bool" where
  "(\<And>l msg err fs. log_at lg l msg err (fromWatermillFields fs) = log_at lg l msg err fs) \<Longrightarrow>
   (\<And>fs. with_fields lg (fromWatermillFields fs) = with_fields lg fs) \<Longrightarrow>
   (\<And>fs. nil_is_empty (with_fields lg fs)) \<Longrightarrow> nil_is_empty lg"

lemma nil_is_emptyD:
  assumes "nil_is_empty lg"
  shows "log_at lg l msg err (fromWatermillFields fs) = log_at lg l msg err fs"
    "with_fields lg (fromWatermillFields fs) = with_fields lg fs" "nil_is_empty (with_fields lg fs)"
  using assms by (auto elim: nil_is_empty.cases)

text \<open>
  Adapting a Watermill logger for the service and back gives the logger itself, with all its
  descendants by \<open>With\<close>, when empty fields mean nothing to it.
\<close>

theorem adapters_cancel:
  assumes "nil_is_empty lg"
  shows "serviceLoggerAdapter (watermillServiceLogger lg) = lg"
  using assms
proof (coinduction arbitrary: lg rule: logger.coinduct_strong)
  case (Eq_logger lg)
  then show ?case
    by (auto simp: rel_fun_def fun_eq_iff nil_is_emptyD)
qed

text \<open>Whatever the logger, adapting it twice is adapting it once.\<close>

theorem adapter_idem: "serviceLoggerAdapter (serviceLoggerAdapter lg) = serviceLoggerAdapter lg"
  by (coinduction arbitrary: lg rule: logger.coinduct_strong) (auto simp: rel_fun_def)

end
