(* ===== verification/Sql_Lifecycle.thy ===== *)
theory Sql_Lifecycle
  imports Sqlite Postgres
begin

text \<open>
  The life of a SQL transport as a concurrent program: \<open>Subscribe\<close>, the goroutine \<open>pollMessages\<close> it
  starts, and \<open>Close\<close>, which \<open>transport/sqlite/sqlite.go\<close> and \<open>transport/postgres/postgres.go\<close> have in
  the same words. The steps of every goroutine between two points at which others can observe it
  are functions on the state; a relation interleaves them with each other and with the
  environment, which publishes, administers and lets time pass. What a tick fetches and what an
  outcome does to the database is an argument, filled in with the functions of the two transports.
  A fetch is one transaction, an acknowledgement and an unlocking are one statement each; a refusal
  (\<open>nackMessage\<close>) is several, and each of its parts is a step.

  \<open>select\<close> takes any of the cases that are ready, so a poller whose context is done or whose
  transport is closed may still take the tick. \<open>closed\<close> and \<open>closedChan\<close> change together under the
  mutex and are one flag. A handler answers at any time, so an answered message is a step of the
  poller that holds it.
\<close>

section \<open>State\<close>

text \<open>
  Where a poller is: at the \<open>select\<close> of \<open>pollMessages\<close>, at the one that hands a message over, at the one
  that waits for the answer, in \<open>nackMessage\<close>, or returned. \<open>po_cancelled\<close> is whether its context is
  done.
\<close>

datatype 'h stage = Ticking | Offering int 'h | Handed int 'h | Refusing int 'h refusal | Exited

record 'h poller =
  po_topic :: string
  po_cancelled :: bool
  po_at :: "'h stage"

text \<open>A call of \<open>Subscribe\<close> past the test of \<open>closed\<close>, or past the assignment to the map.\<close>

datatype subscribing = Checked string | Stored string

text \<open>Where the call of \<open>Close\<close> is that found the transport open.\<close>

datatype closing = NotClosing | WaitingForPollers | Waited | Cleared | DbClosed

record ('s, 'h) lifecycle =
  lc_queue :: 's
  lc_closed :: bool
  lc_subscriptions :: "string list option"
  lc_subscribing :: "subscribing list"
  lc_wg :: nat
  lc_pollers :: "'h poller list"
  lc_closing :: closing
  lc_panic :: "string option"

text \<open>
  The database side. The flag is whether the poller's context is done; a fetch returns the id of the
  row and what is handed over. \<open>op_settle\<close> is for the outcomes other than a refusal, \<open>op_refuse\<close> is one
  part of a refusal.
\<close>

record ('s, 'h) queue_ops =
  op_fetch :: "bool \<Rightarrow> string \<Rightarrow> 's \<Rightarrow> (int \<times> 'h) option \<times> 's"
  op_settle :: "bool \<Rightarrow> outcome \<Rightarrow> int \<Rightarrow> 's \<Rightarrow> 's"
  op_refuse :: "bool \<Rightarrow> int \<Rightarrow> refusal \<Rightarrow> 's \<Rightarrow> refusal option \<times> 's"
  op_close :: "'s \<Rightarrow> 's"

definition lc_New :: "'s \<Rightarrow> ('s, 'h) lifecycle" where
  "lc_New q =
     \<lparr>lc_queue = q, lc_closed = False, lc_subscriptions = Some [], lc_subscribing = [], lc_wg = 0,
      lc_pollers = [], lc_closing = NotClosing, lc_panic = None\<rparr>"

section \<open>Subscribing\<close>

definition Subscribe_check :: "string \<Rightarrow> ('s, 'h) lifecycle \<Rightarrow> gerror option \<times> ('s, 'h) lifecycle" where
  "Subscribe_check topic s =
     (if lc_closed s then (Some (Plain ''transport is closed''), s)
      else (None, s\<lparr>lc_subscribing := lc_subscribing s @ [Checked topic]\<rparr>))"

text \<open>\<open>k\<close> is the call that moves. An assignment to a nil map panics and ends the program.\<close>

definition Subscribe_store :: "nat \<Rightarrow> ('s, 'h) lifecycle \<Rightarrow> ('s, 'h) lifecycle" where
  "Subscribe_store k s =
     (case lc_subscribing s ! k of
        Stored _ \<Rightarrow> s
      | Checked topic \<Rightarrow>
          (case lc_subscriptions s of
             None \<Rightarrow> s\<lparr>lc_panic := Some ''assignment to entry in nil map''\<rparr>
           | Some topics \<Rightarrow>
               s\<lparr>lc_subscriptions := Some (List.insert topic topics),
                 lc_subscribing := (lc_subscribing s)[k := Stored topic]\<rparr>))"

definition Subscribe_start :: "bool \<Rightarrow> nat \<Rightarrow> ('s, 'h) lifecycle \<Rightarrow> ('s, 'h) lifecycle" where
  "Subscribe_start cancelled k s =
     (case lc_subscribing s ! k of
        Checked _ \<Rightarrow> s
      | Stored topic \<Rightarrow>
          s\<lparr>lc_subscribing := take k (lc_subscribing s) @ drop (Suc k) (lc_subscribing s),
            lc_wg := lc_wg s + 1,
            lc_pollers := lc_pollers s @ [\<lparr>po_topic = topic, po_cancelled = cancelled, po_at = Ticking\<rparr>]\<rparr>)"

section \<open>Polling\<close>

abbreviation set_poller :: "nat \<Rightarrow> 'h poller \<Rightarrow> ('s, 'h) lifecycle \<Rightarrow> ('s, 'h) lifecycle" where
  "set_poller j p s \<equiv> s\<lparr>lc_pollers := (lc_pollers s)[j := p]\<rparr>"

text \<open>On a closed database every statement fails: a fetch finds nothing and an outcome is lost.\<close>

definition poll_tick :: "('s, 'h) queue_ops \<Rightarrow> nat \<Rightarrow> ('s, 'h) lifecycle \<Rightarrow> ('s, 'h) lifecycle" where
  "poll_tick ops j s =
     (let p = lc_pollers s ! j
      in if po_at p \<noteq> Ticking \<or> lc_closing s = DbClosed then s
         else case op_fetch ops (po_cancelled p) (po_topic p) (lc_queue s) of
                (None, q) \<Rightarrow> s\<lparr>lc_queue := q\<rparr>
              | (Some (i, h), q) \<Rightarrow> set_poller j (p\<lparr>po_at := Offering i h\<rparr>) (s\<lparr>lc_queue := q\<rparr>))"

definition poll_return :: "nat \<Rightarrow> ('s, 'h) lifecycle \<Rightarrow> ('s, 'h) lifecycle" where
  "poll_return j s =
     (let p = lc_pollers s ! j
      in if po_at p = Ticking \<and> (po_cancelled p \<or> lc_closed s)
         then set_poller j (p\<lparr>po_at := Exited\<rparr>) (s\<lparr>lc_wg := lc_wg s - 1\<rparr>) else s)"

definition poll_hand :: "nat \<Rightarrow> ('s, 'h) lifecycle \<Rightarrow> ('s, 'h) lifecycle" where
  "poll_hand j s =
     (let p = lc_pollers s ! j
      in case po_at p of Offering i h \<Rightarrow> set_poller j (p\<lparr>po_at := Handed i h\<rparr>) s | _ \<Rightarrow> s)"

text \<open>
  The end of a message, from the \<open>select\<close> that hands it over (no answer is possible there) or the
  one of \<open>handleMessageResult\<close>.
\<close>

definition outcome_ready :: "outcome \<Rightarrow> 'h poller \<Rightarrow> ('s, 'h) lifecycle \<Rightarrow> bool" where
  "outcome_ready out p s =
     (case out of
        Cancelled \<Rightarrow> po_cancelled p
      | TransportClosed \<Rightarrow> lc_closed s
      | _ \<Rightarrow> (case po_at p of Handed _ _ \<Rightarrow> True | _ \<Rightarrow> False))"

fun waiting_id :: "'h stage \<Rightarrow> int option" where
  "waiting_id (Offering i h) = Some i"
| "waiting_id (Handed i h) = Some i"
| "waiting_id _ = None"

definition after_outcome :: "outcome \<Rightarrow> 'h stage \<Rightarrow> 'h stage" where
  "after_outcome out st =
     (case st of
        Handed i h \<Rightarrow> if out = Nacked then Refusing i h Asked else Ticking
      | _ \<Rightarrow> Ticking)"

definition poll_settle :: "('s, 'h) queue_ops \<Rightarrow> outcome \<Rightarrow> nat \<Rightarrow> ('s, 'h) lifecycle \<Rightarrow> ('s, 'h) lifecycle" where
  "poll_settle ops out j s =
     (let p = lc_pollers s ! j
      in case waiting_id (po_at p) of
           None \<Rightarrow> s
         | Some i \<Rightarrow>
             if outcome_ready out p s
             then set_poller j (p\<lparr>po_at := after_outcome out (po_at p)\<rparr>)
                    (s\<lparr>lc_queue := (if out = Nacked \<or> lc_closing s = DbClosed then lc_queue s
                                   else op_settle ops (po_cancelled p) out i (lc_queue s))\<rparr>)
             else s)"

text \<open>The next part of a refusal.\<close>

definition poll_refuse :: "('s, 'h) queue_ops \<Rightarrow> nat \<Rightarrow> ('s, 'h) lifecycle \<Rightarrow> ('s, 'h) lifecycle" where
  "poll_refuse ops j s =
     (let p = lc_pollers s ! j
      in case po_at p of
           Refusing i h c \<Rightarrow>
             (if lc_closing s = DbClosed then set_poller j (p\<lparr>po_at := Ticking\<rparr>) s
              else case op_refuse ops (po_cancelled p) i c (lc_queue s) of
                     (None, q) \<Rightarrow> set_poller j (p\<lparr>po_at := Ticking\<rparr>) (s\<lparr>lc_queue := q\<rparr>)
                   | (Some c', q) \<Rightarrow> set_poller j (p\<lparr>po_at := Refusing i h c'\<rparr>) (s\<lparr>lc_queue := q\<rparr>))
         | _ \<Rightarrow> s)"

definition cancel_context :: "nat \<Rightarrow> ('s, 'h) lifecycle \<Rightarrow> ('s, 'h) lifecycle" where
  "cancel_context j s = set_poller j ((lc_pollers s ! j)\<lparr>po_cancelled := True\<rparr>) s"

section \<open>Closing\<close>

text \<open>A second call of \<open>Close\<close> finds the flag set and returns at once.\<close>

definition Close_flag :: "('s, 'h) queue_ops \<Rightarrow> ('s, 'h) lifecycle \<Rightarrow> ('s, 'h) lifecycle" where
  "Close_flag ops s =
     (if lc_closed s then s
      else s\<lparr>lc_closed := True, lc_queue := op_close ops (lc_queue s), lc_closing := WaitingForPollers\<rparr>)"

definition Close_advance :: "('s, 'h) lifecycle \<Rightarrow> ('s, 'h) lifecycle" where
  "Close_advance s =
     (case lc_closing s of
        WaitingForPollers \<Rightarrow> if lc_wg s = 0 then s\<lparr>lc_closing := Waited\<rparr> else s
      | Waited \<Rightarrow> s\<lparr>lc_subscriptions := None, lc_closing := Cleared\<rparr>
      | Cleared \<Rightarrow> s\<lparr>lc_closing := DbClosed\<rparr>
      | _ \<Rightarrow> s)"

section \<open>Runs\<close>

text \<open>The steps the transport makes without its callers, its handlers or the passing of time.\<close>

inductive own_step :: "('s, 'h) queue_ops \<Rightarrow> ('s, 'h) lifecycle \<Rightarrow> ('s, 'h) lifecycle \<Rightarrow> bool" for ops where
  return: "j < length (lc_pollers s) \<Longrightarrow> own_step ops s (poll_return j s)"
| give_up: "j < length (lc_pollers s) \<Longrightarrow> own_step ops s (poll_settle ops TransportClosed j s)"
| refuse: "j < length (lc_pollers s) \<Longrightarrow> own_step ops s (poll_refuse ops j s)"
| advance: "own_step ops s (Close_advance s)"

inductive lc_step ::
  "('s, 'h) queue_ops \<Rightarrow> ('s \<Rightarrow> 's \<Rightarrow> bool) \<Rightarrow> ('s, 'h) lifecycle \<Rightarrow> ('s, 'h) lifecycle \<Rightarrow> bool" for ops env where
  own: "lc_panic s = None \<Longrightarrow> own_step ops s s' \<Longrightarrow> lc_step ops env s s'"
| check: "lc_panic s = None \<Longrightarrow> lc_step ops env s (snd (Subscribe_check topic s))"
| store: "lc_panic s = None \<Longrightarrow> k < length (lc_subscribing s) \<Longrightarrow> lc_step ops env s (Subscribe_store k s)"
| start: "lc_panic s = None \<Longrightarrow> k < length (lc_subscribing s) \<Longrightarrow> lc_step ops env s (Subscribe_start c k s)"
| tick: "lc_panic s = None \<Longrightarrow> j < length (lc_pollers s) \<Longrightarrow> lc_step ops env s (poll_tick ops j s)"
| hand: "lc_panic s = None \<Longrightarrow> j < length (lc_pollers s) \<Longrightarrow> lc_step ops env s (poll_hand j s)"
| settle: "lc_panic s = None \<Longrightarrow> j < length (lc_pollers s) \<Longrightarrow> lc_step ops env s (poll_settle ops out j s)"
| cancel: "lc_panic s = None \<Longrightarrow> j < length (lc_pollers s) \<Longrightarrow> lc_step ops env s (cancel_context j s)"
| close: "lc_panic s = None \<Longrightarrow> lc_step ops env s (Close_flag ops s)"
| environment: "lc_panic s = None \<Longrightarrow> env (lc_queue s) q \<Longrightarrow> lc_step ops env s (s\<lparr>lc_queue := q\<rparr>)"

inductive lc_reach ::
  "('s, 'h) queue_ops \<Rightarrow> ('s \<Rightarrow> 's \<Rightarrow> bool) \<Rightarrow> 's \<Rightarrow> ('s, 'h) lifecycle \<Rightarrow> bool" for ops env q where
  init: "lc_reach ops env q (lc_New q)"
| step: "lc_reach ops env q s \<Longrightarrow> lc_step ops env s s' \<Longrightarrow> lc_reach ops env q s'"

lemmas lc_defs = Subscribe_check_def Subscribe_store_def Subscribe_start_def poll_tick_def poll_return_def
  poll_hand_def poll_settle_def poll_refuse_def cancel_context_def Close_flag_def Close_advance_def


section \<open>The invariant\<close>

definition active :: "'h poller \<Rightarrow> bool" where
  "active p \<longleftrightarrow> po_at p \<noteq> Exited"

lemma active_simps [simp]:
  "active (p\<lparr>po_at := Ticking\<rparr>)" "active (p\<lparr>po_at := Refusing i h c\<rparr>)" "active (p\<lparr>po_at := after_outcome out st\<rparr>)"
  "po_at p \<noteq> Exited \<Longrightarrow> active p"
  by (auto simp: active_def after_outcome_def split: stage.splits)

definition lc_inv :: "('s, 'h) lifecycle \<Rightarrow> bool" where
  "lc_inv s \<longleftrightarrow>
     (lc_closed s \<longleftrightarrow> lc_closing s \<noteq> NotClosing)
     \<and> lc_wg s = length (filter active (lc_pollers s))
     \<and> (lc_subscriptions s = None \<longleftrightarrow> lc_closing s \<in> {Cleared, DbClosed})"

lemma length_filter_update:
  "j < length xs \<Longrightarrow> length (filter P (xs[j := x])) + (if P (xs ! j) then 1 else 0)
     = length (filter P xs) + (if P x then 1 else 0)"
proof (induction xs arbitrary: j)
  case (Cons y ys)
  show ?case
  proof (cases j)
    case 0
    then show ?thesis by simp
  next
    case (Suc k)
    with Cons.prems Cons.IH [of k] show ?thesis by (auto split: if_splits)
  qed
qed simp

lemma filter_update_same:
  assumes "j < length xs" "P x = P (xs ! j)"
  shows "length (filter P (xs[j := x])) = length (filter P xs)"
  using length_filter_update [OF assms(1), of P x] assms(2) by (simp split: if_splits)

lemma filter_update_drop:
  assumes "j < length xs" "P (xs ! j)" "\<not> P x"
  shows "length (filter P (xs[j := x])) = length (filter P xs) - 1"
  using length_filter_update [OF assms(1), of P x] assms(2,3) by simp

lemma own_inv:
  assumes "own_step ops s s'" "lc_inv s"
  shows "lc_inv s' \<and> lc_panic s' = lc_panic s \<and> lc_closed s' = lc_closed s \<and> lc_subscribing s' = lc_subscribing s"
  using assms
proof cases
  case (return j)
  then show ?thesis
    using assms(2) by (simp add: lc_inv_def poll_return_def Let_def filter_update_drop active_def)
next
  case (give_up j)
  then show ?thesis
    using assms(2) by (cases "po_at (lc_pollers s ! j)")
      (auto simp: lc_inv_def poll_settle_def Let_def filter_update_same outcome_ready_def)
next
  case (refuse j)
  then show ?thesis
    using assms(2) by (auto simp: lc_inv_def poll_refuse_def Let_def filter_update_same split: stage.splits prod.splits option.splits)
next
  case advance
  then show ?thesis using assms(2) by (auto simp: lc_inv_def Close_advance_def split: closing.splits)
qed

lemma lc_step_inv:
  assumes "lc_step ops env s s'" "lc_inv s"
  shows "lc_inv s'"
  using assms(1)
proof cases
  case own
  then show ?thesis using own_inv assms(2) by blast
next
  case (store k)
  then show ?thesis
    using assms(2) by (auto simp: lc_inv_def Subscribe_store_def split: subscribing.splits option.splits)
next
  case (start k c)
  then show ?thesis
    using assms(2) by (auto simp: lc_inv_def Subscribe_start_def active_def split: subscribing.splits)
next
  case (tick j)
  then show ?thesis
    using assms(2) by (auto simp: lc_inv_def poll_tick_def Let_def filter_update_same active_def split: option.splits prod.splits)
next
  case (hand j)
  then show ?thesis
    using assms(2) by (auto simp: lc_inv_def poll_hand_def Let_def filter_update_same active_def split: stage.splits)
next
  case (settle j out)
  then show ?thesis
    using assms(2) by (cases "po_at (lc_pollers s ! j)")
      (auto simp: lc_inv_def poll_settle_def Let_def filter_update_same)
next
  case (cancel j)
  then show ?thesis
    using assms(2) by (simp add: lc_inv_def cancel_context_def filter_update_same active_def)
qed (use assms(2) in \<open>auto simp: lc_inv_def Subscribe_check_def Close_flag_def\<close>)

lemma lc_reach_inv: "lc_reach ops env q s \<Longrightarrow> lc_inv s"
proof (induction rule: lc_reach.induct)
  case init
  then show ?case by (simp add: lc_inv_def lc_New_def)
next
  case (step s s')
  then show ?case using lc_step_inv by blast
qed

section \<open>Subscribing while the transport closes\<close>

lemma no_late_panic:
  assumes "(lc_step ops env)\<^sup>*\<^sup>* s s'" "lc_closed s" "lc_subscribing s = []" "lc_panic s = None" "lc_inv s"
  shows "lc_panic s' = None \<and> lc_subscribing s' = [] \<and> lc_closed s' \<and> lc_inv s'"
  using assms(1)
proof (induction rule: rtranclp_induct)
  case base
  then show ?case using assms by simp
next
  case (step s1 s2)
  from step.hyps(2) have "lc_panic s2 = None \<and> lc_subscribing s2 = [] \<and> lc_closed s2"
  proof cases
    case own
    then show ?thesis using own_inv step.IH by metis
  next
    case (settle j out)
    then show ?thesis using step.IH by (auto simp: poll_settle_def Let_def split: option.splits)
  qed (use step.IH in \<open>auto simp: lc_defs Let_def split: option.splits prod.splits stage.splits\<close>)
  then show ?case using step lc_step_inv by blast
qed

text \<open>
  C13. Subscribing races with closing. Every transport has a run in which a call of \<open>Subscribe\<close> tests
  \<open>closed\<close> before \<open>Close\<close> sets it and assigns to the map of subscriptions after \<open>Close\<close> has set it to
  nil, which ends the program; a transport that is closed while no such call is under way never
  panics afterwards, whatever is called.
\<close>

theorem subscribe_close_race:
  "(\<exists>s. lc_reach ops env q s \<and> lc_panic s = Some ''assignment to entry in nil map'')
   \<and> (lc_reach ops env q s \<and> lc_closed s \<and> lc_subscribing s = [] \<and> lc_panic s = None
       \<longrightarrow> (lc_step ops env)\<^sup>*\<^sup>* s s' \<longrightarrow> lc_panic s' = None)"
proof (intro conjI impI)
  let ?c = "\<lambda>s. lc_reach ops env q s"
  have 1: "?c (s\<lparr>lc_closing := Waited\<rparr>)" if "?c s" "lc_panic s = None" "lc_closing s = WaitingForPollers" "lc_wg s = 0" for s
    using lc_reach.step [OF that(1) lc_step.own [OF that(2) own_step.advance]] that(3,4) by (simp add: Close_advance_def)
  have 2: "?c (s\<lparr>lc_subscriptions := None, lc_closing := Cleared\<rparr>)" if "?c s" "lc_panic s = None" "lc_closing s = Waited" for s
    using lc_reach.step [OF that(1) lc_step.own [OF that(2) own_step.advance]] that(3) by (simp add: Close_advance_def)
  let ?s1 = "(lc_New q)\<lparr>lc_subscribing := [Checked topic]\<rparr>"
  have "lc_step ops env (lc_New q) (snd (Subscribe_check topic (lc_New q)))"
    by (rule lc_step.check) (simp add: lc_New_def)
  from lc_reach.step [OF lc_reach.init this] have "?c ?s1" by (simp add: lc_New_def Subscribe_check_def)
  moreover have "lc_step ops env ?s1 (Close_flag ops ?s1)" by (rule lc_step.close) (simp add: lc_New_def)
  ultimately have "?c (Close_flag ops ?s1)" by (rule lc_reach.step)
  then have "?c (Close_flag ops ?s1\<lparr>lc_closing := Waited\<rparr>)" by (rule 1) (simp_all add: Close_flag_def lc_New_def)
  then have "?c (Close_flag ops ?s1\<lparr>lc_closing := Waited, lc_subscriptions := None, lc_closing := Cleared\<rparr>)"
    by (rule 2) (simp_all add: Close_flag_def lc_New_def)
  moreover have "lc_step ops env s (Subscribe_store 0 s)" if "lc_panic s = None" "lc_subscribing s = [Checked topic]" for s
    using that by (simp add: lc_step.store)
  ultimately have "?c (Subscribe_store 0 (Close_flag ops ?s1\<lparr>lc_closing := Waited, lc_subscriptions := None, lc_closing := Cleared\<rparr>))"
    by (rule lc_reach.step) (simp_all add: Close_flag_def lc_New_def)
  moreover have "lc_panic (Subscribe_store 0 (Close_flag ops ?s1\<lparr>lc_closing := Waited, lc_subscriptions := None, lc_closing := Cleared\<rparr>))
      = Some ''assignment to entry in nil map''"
    by (simp add: Close_flag_def lc_New_def Subscribe_store_def)
  ultimately show "\<exists>s. lc_reach ops env q s \<and> lc_panic s = Some ''assignment to entry in nil map''" by blast
next
  assume a: "lc_reach ops env q s \<and> lc_closed s \<and> lc_subscribing s = [] \<and> lc_panic s = None"
    and "(lc_step ops env)\<^sup>*\<^sup>* s s'"
  from no_late_panic [OF this(2)] a lc_reach_inv [of ops env q s] show "lc_panic s' = None" by simp
qed


section \<open>Closing comes to an end\<close>

text \<open>
  What a poller does with its message when the transport closes: it lets a refusal under way come to its
  end, and unlocks the row of a message that it waits for.
\<close>

definition conclude :: "('s, 'h) queue_ops \<Rightarrow> 'h poller \<Rightarrow> 's \<Rightarrow> 's" where
  "conclude ops p q =
     (case po_at p of Refusing i h c \<Rightarrow> refuse_all 3 (op_refuse ops (po_cancelled p) i) c q | _ \<Rightarrow> q)"

definition concluded :: "'h poller \<Rightarrow> 'h poller" where
  "concluded p = (case po_at p of Refusing i h c \<Rightarrow> p\<lparr>po_at := Ticking\<rparr> | _ \<Rightarrow> p)"

definition release :: "('s, 'h) queue_ops \<Rightarrow> 'h poller \<Rightarrow> 's \<Rightarrow> 's" where
  "release ops p q =
     (case waiting_id (po_at p) of None \<Rightarrow> q | Some i \<Rightarrow> op_settle ops (po_cancelled p) TransportClosed i q)"

abbreviation exited :: "'h poller \<Rightarrow> 'h poller" where
  "exited p \<equiv> p\<lparr>po_at := Exited\<rparr>"

lemma concluded_simps [simp]:
  "waiting_id (po_at (concluded p)) = waiting_id (po_at p)" "active (concluded p) = active p"
  "exited (concluded p) = exited p" "po_cancelled (concluded p) = po_cancelled p"
  "release ops (concluded p) = release ops p" "po_at (concluded p) \<noteq> Refusing i h c"
  by (auto simp: concluded_def active_def release_def fun_eq_iff split: stage.splits)

text \<open>One poller after the other makes steps that concern it alone.\<close>

lemma in_turn:
  assumes "\<And>s j. lc_closed s \<Longrightarrow> lc_closing s \<noteq> DbClosed \<Longrightarrow> j < length (lc_pollers s) \<Longrightarrow> P (lc_pollers s ! j) \<Longrightarrow>
      (own_step ops)\<^sup>*\<^sup>* s (s\<lparr>lc_queue := g (lc_pollers s ! j) (lc_queue s), lc_wg := lc_wg s - w (lc_pollers s ! j),
        lc_pollers := (lc_pollers s)[j := f (lc_pollers s ! j)]\<rparr>)"
    "lc_closed s" "lc_closing s \<noteq> DbClosed" "k \<le> length (lc_pollers s)" "\<And>p. p \<in> set (lc_pollers s) \<Longrightarrow> P p"
  shows "(own_step ops)\<^sup>*\<^sup>* s (s\<lparr>lc_queue := fold g (take k (lc_pollers s)) (lc_queue s),
      lc_wg := lc_wg s - sum_list (map w (take k (lc_pollers s))),
      lc_pollers := map f (take k (lc_pollers s)) @ drop k (lc_pollers s)\<rparr>)"
  using assms(4)
proof (induction k)
  case 0
  then show ?case by simp
next
  case (Suc k)
  let ?p = "lc_pollers s ! k"
  define t where "t = s\<lparr>lc_queue := fold g (take k (lc_pollers s)) (lc_queue s),
      lc_wg := lc_wg s - sum_list (map w (take k (lc_pollers s))),
      lc_pollers := map f (take k (lc_pollers s)) @ drop k (lc_pollers s)\<rparr>"
  have k: "k < length (lc_pollers s)" using Suc.prems by simp
  then have n: "k < length (lc_pollers t)" "lc_pollers t ! k = ?p" by (simp_all add: t_def nth_append)
  have "(own_step ops)\<^sup>*\<^sup>* s t" using Suc.IH k by (simp add: t_def)
  also have "(own_step ops)\<^sup>*\<^sup>* t (t\<lparr>lc_queue := g ?p (lc_queue t), lc_wg := lc_wg t - w ?p, lc_pollers := (lc_pollers t)[k := f ?p]\<rparr>)"
    using assms(1) [of t k] assms(2,3) assms(5) [of ?p] n k by (simp add: t_def)
  finally show ?case
    using k by (simp add: t_def take_Suc_conv_app_nth list_update_append Cons_nth_drop_Suc [symmetric])
qed

lemma drain_own:
  assumes "lc_closed s" "lc_closing s \<noteq> DbClosed" "j < length (lc_pollers s)" "\<And>i h c. po_at (lc_pollers s ! j) \<noteq> Refusing i h c"
  shows "(own_step ops)\<^sup>*\<^sup>* s (s\<lparr>lc_queue := release ops (lc_pollers s ! j) (lc_queue s),
      lc_wg := lc_wg s - (if active (lc_pollers s ! j) then 1 else 0),
      lc_pollers := (lc_pollers s)[j := exited (lc_pollers s ! j)]\<rparr>)"
proof -
  let ?s = "poll_settle ops TransportClosed j s"
  have "exited (lc_pollers s ! j) = lc_pollers s ! j" if "po_at (lc_pollers s ! j) = Exited"
    using that by (cases "lc_pollers s ! j") simp
  then have "set_poller j (exited (lc_pollers s ! j)) s = s" if "po_at (lc_pollers s ! j) = Exited"
    using that by (metis (no_types) list_update_id lifecycle.surjective lifecycle.update_convs(6))
  then have e: "poll_return j ?s = s\<lparr>lc_queue := release ops (lc_pollers s ! j) (lc_queue s),
      lc_wg := lc_wg s - (if active (lc_pollers s ! j) then 1 else 0),
      lc_pollers := (lc_pollers s)[j := exited (lc_pollers s ! j)]\<rparr>"
  proof (cases "po_at (lc_pollers s ! j)")
    case Refusing
    with assms(4) show ?thesis by blast
  qed (use assms in \<open>simp_all add: poll_settle_def poll_return_def release_def outcome_ready_def active_def after_outcome_def Let_def\<close>)
  have 1: "own_step ops s ?s" using assms(3) by (rule own_step.give_up)
  have "length (lc_pollers ?s) = length (lc_pollers s)"
    by (simp add: poll_settle_def Let_def split: option.splits)
  then have "own_step ops ?s (poll_return j ?s)" using assms(3) by (intro own_step.return) simp
  with r_into_rtranclp [of "own_step ops", OF 1] show ?thesis unfolding e by (rule rtranclp.rtrancl_into_rtrancl)
qed

text \<open>The contract of a queue whose refusals come to an end.\<close>

locale refusing_queue =
  fixes ops :: "('s, 'h) queue_ops"
  assumes refusal_shrinks: "op_refuse ops ended i c q = (Some c', q') \<Longrightarrow> parts_left c' < parts_left c"
begin

lemma conclude_own:
  assumes "lc_closing s \<noteq> DbClosed" "j < length (lc_pollers s)" "po_at (lc_pollers s ! j) = Refusing i h c" "parts_left c \<le> n"
  shows "(own_step ops)\<^sup>*\<^sup>* s (s\<lparr>lc_queue := refuse_all n (op_refuse ops (po_cancelled (lc_pollers s ! j)) i) c (lc_queue s),
      lc_pollers := (lc_pollers s)[j := (lc_pollers s ! j)\<lparr>po_at := Ticking\<rparr>]\<rparr>)"
  using assms
proof (induction n arbitrary: s c)
  case 0
  then show ?case by (cases c) simp_all
next
  case (Suc n)
  let ?p = "lc_pollers s ! j"
  have o: "own_step ops s (poll_refuse ops j s)" using Suc.prems(2) by (rule own_step.refuse)
  show ?case
  proof (cases "op_refuse ops (po_cancelled ?p) i c (lc_queue s)")
    case (Pair oc q)
    show ?thesis
    proof (cases oc)
      case None
      with o Pair Suc.prems show ?thesis by (simp add: poll_refuse_def)
    next
      case (Some c')
      have l: "parts_left c' \<le> n" using refusal_shrinks Pair Some Suc.prems(4) by fastforce
      have r: "poll_refuse ops j s = set_poller j (?p\<lparr>po_at := Refusing i h c'\<rparr>) (s\<lparr>lc_queue := q\<rparr>)"
        using Pair Some Suc.prems by (simp add: poll_refuse_def)
      have "(own_step ops)\<^sup>*\<^sup>* (poll_refuse ops j s) (s\<lparr>lc_queue := refuse_all n (op_refuse ops (po_cancelled ?p) i) c' q,
          lc_pollers := (lc_pollers s)[j := ?p\<lparr>po_at := Ticking\<rparr>]\<rparr>)"
        using Suc.IH [of "poll_refuse ops j s" c'] Suc.prems(1,2) l by (simp add: r)
      with o Pair Some show ?thesis by simp
    qed
  qed
qed

lemma concluded_own:
  assumes "lc_closing s \<noteq> DbClosed" "j < length (lc_pollers s)"
  shows "(own_step ops)\<^sup>*\<^sup>* s (s\<lparr>lc_queue := conclude ops (lc_pollers s ! j) (lc_queue s), lc_wg := lc_wg s - 0,
      lc_pollers := (lc_pollers s)[j := concluded (lc_pollers s ! j)]\<rparr>)"
proof (cases "po_at (lc_pollers s ! j)")
  case (Refusing i h c)
  have "parts_left c \<le> 3" by (cases c) simp_all
  from conclude_own [OF assms Refusing this] show ?thesis by (simp add: conclude_def concluded_def Refusing)
qed (simp_all add: conclude_def concluded_def)

text \<open>
  \<open>Close\<close> is never held up. From every reachable state in which \<open>Close\<close> waits, the transport comes
  by steps of its own, without an answer of any handler, to the state in which \<open>Close\<close> has returned:
  the refusals under way have come to their end, every other poller has given back the row it
  held, and all have returned.
\<close>

lemma close_runs:
  assumes "lc_reach ops env q s" "lc_closing s = WaitingForPollers"
  shows "(own_step ops)\<^sup>*\<^sup>* s (s\<lparr>lc_queue := fold (release ops) (lc_pollers s) (fold (conclude ops) (lc_pollers s) (lc_queue s)),
      lc_wg := 0, lc_pollers := map exited (lc_pollers s), lc_subscriptions := None, lc_closing := DbClosed\<rparr>)"
proof -
  have i: "lc_closed s" "lc_wg s = length (filter active (lc_pollers s))"
    using lc_reach_inv [OF assms(1)] assms(2) by (simp_all add: lc_inv_def)
  define s1 where "s1 = s\<lparr>lc_queue := fold (conclude ops) (lc_pollers s) (lc_queue s), lc_pollers := map concluded (lc_pollers s)\<rparr>"
  define s2 where "s2 = s\<lparr>lc_queue := fold (release ops) (lc_pollers s) (fold (conclude ops) (lc_pollers s) (lc_queue s)),
      lc_wg := 0, lc_pollers := map exited (lc_pollers s)\<rparr>"
  have n: "sum_list (map (\<lambda>p. if active p then 1 else 0) ps) = length (filter active ps)" for ps :: "'h poller list"
    by (induction ps) simp_all
  have "(own_step ops)\<^sup>*\<^sup>* s s1"
    using in_turn [where P = "\<lambda>_. True" and g = "conclude ops" and w = "\<lambda>_. 0" and f = concluded and ops = ops
        and s = s and k = "length (lc_pollers s)"] concluded_own i(1) assms(2)
    by (simp add: s1_def)
  moreover have c: "lc_closed s1" "lc_closing s1 \<noteq> DbClosed" using i(1) assms(2) by (simp_all add: s1_def)
  have r: "\<forall>i h c. po_at p \<noteq> Refusing i h c" if "p \<in> set (lc_pollers s1)" for p
    using that by (auto simp: s1_def)
  have "(own_step ops)\<^sup>*\<^sup>* s1 (s1\<lparr>lc_queue := fold (release ops) (lc_pollers s1) (lc_queue s1),
      lc_wg := lc_wg s1 - sum_list (map (\<lambda>p. if active p then 1 else 0) (lc_pollers s1)),
      lc_pollers := map exited (lc_pollers s1)\<rparr>)"
    using in_turn [where P = "\<lambda>p. \<forall>i h c. po_at p \<noteq> Refusing i h c" and g = "release ops" and f = exited
        and w = "\<lambda>p. if active p then 1 else 0" and ops = ops and s = s1 and k = "length (lc_pollers s1)"] drain_own [where ops = ops] c r
    by simp
  then have "(own_step ops)\<^sup>*\<^sup>* s1 s2"
    by (simp add: s1_def s2_def i(2) n fold_map comp_def)
  moreover have "(own_step ops)\<^sup>*\<^sup>* s2 (Close_advance (Close_advance (Close_advance s2)))"
    by (meson own_step.advance r_into_rtranclp rtranclp.rtrancl_into_rtrancl)
  ultimately have "(own_step ops)\<^sup>*\<^sup>* s (Close_advance (Close_advance (Close_advance s2)))" by (meson rtranclp_trans)
  then show ?thesis
    using assms(2) by (simp add: s2_def Close_advance_def)
qed

end

section \<open>The transport over SQLite\<close>

text \<open>
  What a poller holds is the message and the time its lock runs out. A transaction on a context that
  is done fails; the statements after it have no context.
\<close>

definition sqlite_ops :: "(sqlite_sys, int \<times> message) queue_ops" where
  "sqlite_ops =
     \<lparr>op_fetch = (\<lambda>cancelled topic s.
        if cancelled then (None, s)
        else case sqlite_fetchAndLockMessage topic (sys_t s) of
               (r, t') \<Rightarrow> (map_option (\<lambda>r. (row_id r, sq_now (sys_t s) + 30 * second, sqlite_message r)) r, s\<lparr>sys_t := t'\<rparr>)),
      op_settle = (\<lambda>_ out i s. s\<lparr>sys_t := sqlite_handleMessageResult out i (sys_t s),
        sys_acked := sys_acked s + (if out = Acked then row_items i (sys_t s) else {#})\<rparr>),
      op_refuse = (\<lambda>_ i c s. sys_nack_part i c s),
      op_close = (\<lambda>s. s\<lparr>sys_t := sqlite_Close (sys_t s)\<rparr>)\<rparr>"

definition pg_ops :: "(postgres, message) queue_ops" where
  "pg_ops =
     \<lparr>op_fetch = pg_fetchAndLockMessage, op_settle = pg_handleMessageResult, op_refuse = pg_nack_part,
      op_close = pg_Close\<rparr>"

interpretation sqlite_refusing: refusing_queue sqlite_ops
  by unfold_locales (auto simp: sqlite_ops_def sys_nack_part_def dest: sqlite_nack_shrinks split: prod.splits)

interpretation pg_refusing: refusing_queue pg_ops
  by unfold_locales (auto simp: pg_ops_def dest: pg_nack_shrinks)

text \<open>The steps of a running Postgres transport.\<close>

definition pg_run_step ::
  "(postgres \<Rightarrow> postgres \<Rightarrow> bool) \<Rightarrow> (postgres, message) lifecycle \<Rightarrow> (postgres, message) lifecycle \<Rightarrow> bool" where
  "pg_run_step env = lc_step pg_ops env"

section \<open>The running transport as one of single statements\<close>

text \<open>
  The refusals the pollers are in, beside those of other processes: the running transport seen as
  the system of \<open>Sqlite\<close>, whose steps are single statements.
\<close>

definition refusal_of :: "'h poller \<Rightarrow> (int \<times> refusal) multiset" where
  "refusal_of p = (case po_at p of Refusing i h c \<Rightarrow> {#(i, c)#} | _ \<Rightarrow> {#})"

fun refusals_of :: "'h poller list \<Rightarrow> (int \<times> refusal) multiset" where
  "refusals_of [] = {#}"
| "refusals_of (p # ps) = refusal_of p + refusals_of ps"

definition with_refusals :: "(int \<times> refusal) multiset \<Rightarrow> sqlite_sys \<Rightarrow> sqlite_sys" where
  "with_refusals R q = q\<lparr>sys_refusals := sys_refusals q + R\<rparr>"

lemma with_no_refusals [simp]: "with_refusals {#} q = q"
  by (simp add: with_refusals_def)

definition lc_system :: "(sqlite_sys, 'h) lifecycle \<Rightarrow> sqlite_sys" where
  "lc_system s = with_refusals (refusals_of (lc_pollers s)) (lc_queue s)"

lemma refusal_of_simps [simp]:
  "refusal_of (p\<lparr>po_at := Ticking\<rparr>) = {#}" "refusal_of (p\<lparr>po_at := Exited\<rparr>) = {#}"
  "refusal_of (p\<lparr>po_at := Offering i h\<rparr>) = {#}" "refusal_of (p\<lparr>po_at := Handed i h\<rparr>) = {#}"
  "refusal_of (p\<lparr>po_at := Refusing i h c\<rparr>) = {#(i, c)#}" "refusal_of (p\<lparr>po_cancelled := b\<rparr>) = refusal_of p"
  "waiting_id (po_at p) = Some i \<Longrightarrow> refusal_of p = {#}" "po_at p = Ticking \<Longrightarrow> refusal_of p = {#}"
  "po_at p = Offering i h \<Longrightarrow> refusal_of p = {#}" "po_at p = Refusing i h c \<Longrightarrow> refusal_of p = {#(i, c)#}"
  by (auto simp: refusal_of_def split: stage.splits)

lemma refusals_append: "refusals_of (ps @ qs) = refusals_of ps + refusals_of qs"
  by (induction ps) (simp_all add: union_assoc)

lemma refusals_update:
  "j < length ps \<Longrightarrow> refusals_of (ps[j := p]) + refusal_of (ps ! j) = refusals_of ps + refusal_of p"
proof (induction ps arbitrary: j)
  case (Cons q ps)
  show ?case
  proof (cases j)
    case (Suc k)
    with Cons.IH [of k] Cons.prems show ?thesis by (simp add: union_assoc)
  qed (simp add: ac_simps)
qed simp

lemma refusals_same: "j < length ps \<Longrightarrow> refusal_of p = refusal_of (ps ! j) \<Longrightarrow> refusals_of (ps[j := p]) = refusals_of ps"
  using refusals_update [of j ps p] by simp

lemma refusals_member: "j < length ps \<Longrightarrow> refusal_of (ps ! j) \<subseteq># refusals_of ps"
  by (induction ps arbitrary: j) (auto simp: nth_Cons' intro: subset_mset.add_increasing)

lemma refusals_moves:
  assumes "j < length ps" "refusal_of (ps ! j) = {#x#}"
  shows "x \<in># refusals_of ps" "refusals_of (ps[j := p]) = refusals_of ps - {#x#} + refusal_of p"
proof -
  show m: "x \<in># refusals_of ps" using refusals_member [OF assms(1)] assms(2) by (simp add: single_subset_iff)
  have "refusals_of (ps[j := p]) + {#x#} = (refusals_of ps - {#x#} + refusal_of p) + {#x#}"
    using refusals_update [OF assms(1), of p] assms(2) m by simp
  then show "refusals_of (ps[j := p]) = refusals_of ps - {#x#} + refusal_of p" by simp
qed

text \<open>Refusals of others do not keep a step from being one.\<close>

lemma with_refusals_update [simp]:
  "with_refusals R (q\<lparr>sys_t := t\<rparr>) = (with_refusals R q)\<lparr>sys_t := t\<rparr>"
  "with_refusals R (q\<lparr>sys_published := m\<rparr>) = (with_refusals R q)\<lparr>sys_published := m\<rparr>"
  "with_refusals R (q\<lparr>sys_acked := m\<rparr>) = (with_refusals R q)\<lparr>sys_acked := m\<rparr>"
  "with_refusals R (q\<lparr>sys_purged := m\<rparr>) = (with_refusals R q)\<lparr>sys_purged := m\<rparr>"
  "with_refusals R (q\<lparr>sys_copied := m\<rparr>) = (with_refusals R q)\<lparr>sys_copied := m\<rparr>"
  "with_refusals R (q\<lparr>sys_removed := m\<rparr>) = (with_refusals R q)\<lparr>sys_removed := m\<rparr>"
  "with_refusals R (q\<lparr>sys_refusals := S\<rparr>) = q\<lparr>sys_refusals := S + R\<rparr>"
  by (cases q, simp add: with_refusals_def)+

lemma with_refusals_sel [simp]:
  "sys_t (with_refusals R q) = sys_t q" "sys_published (with_refusals R q) = sys_published q"
  "sys_acked (with_refusals R q) = sys_acked q" "sys_purged (with_refusals R q) = sys_purged q"
  "sys_copied (with_refusals R q) = sys_copied q" "sys_removed (with_refusals R q) = sys_removed q"
  "sys_refusals (with_refusals R q) = sys_refusals q + R"
  "with_refusals R q\<lparr>sys_refusals := S\<rparr> = q\<lparr>sys_refusals := S\<rparr>"
  by (simp_all add: with_refusals_def)

lemma part_frame: "sys_nack_part i c (with_refusals R q) = map_prod id (with_refusals R) (sys_nack_part i c q)"
  by (cases "sqlite_nack_part i c (sys_t q)") (simp add: sys_nack_part_def)

lemma part_refusals: "sys_refusals (snd (sys_nack_part i c q)) = sys_refusals q"
  by (simp add: sys_nack_part_def split: prod.splits)

lemma step_frame:
  assumes "sqlite_step q q'"
  shows "sqlite_step (with_refusals R q) (with_refusals R q')"
  using assms
proof cases
  case (publish topic msgs r t')
  then show ?thesis using sqlite_step.publish [of topic msgs "with_refusals R q" r t'] by simp
next
  case (tick now)
  then show ?thesis using sqlite_step.tick [of "with_refusals R q" now] by simp
next
  case (fetch topic r t')
  then show ?thesis using sqlite_step.fetch [of topic "with_refusals R q" r t'] by simp
next
  case (finish out i)
  then show ?thesis using sqlite_step.finish [of out "with_refusals R q" i] by (auto split: if_splits)
next
  case (refuse i)
  then show ?thesis using sqlite_step.refuse [of "with_refusals R q" i] by (simp add: ac_simps)
next
  case (proceed i c c' q1)
  have "(i, c) \<in># sys_refusals (with_refusals R q)" using proceed(2) by simp
  moreover have "sys_nack_part i c (with_refusals R q) = (c', with_refusals R q1)" using proceed(3) by (simp add: part_frame)
  ultimately have "sqlite_step (with_refusals R q)
      (with_refusals R q1\<lparr>sys_refusals := sys_refusals (with_refusals R q) - {#(i, c)#} + at_point i c'\<rparr>)"
    by (rule sqlite_step.proceed)
  moreover have "with_refusals R q1\<lparr>sys_refusals := sys_refusals (with_refusals R q) - {#(i, c)#} + at_point i c'\<rparr> = with_refusals R q'"
    using proceed(2) by (simp add: proceed(1) ac_simps)
  ultimately show ?thesis by simp
next
  case (abandon i c)
  then show ?thesis using sqlite_step.abandon [of i c "with_refusals R q"] by simp
next
  case (replay i r t')
  then show ?thesis using sqlite_step.replay [of i "with_refusals R q" r t'] by simp
next
  case (replay_all topic n t')
  then show ?thesis using sqlite_step.replay_all [of topic "with_refusals R q" n t'] by simp
next
  case (purge topic n t')
  then show ?thesis using sqlite_step.purge [of topic "with_refusals R q" n t'] by simp
next
  case close
  then show ?thesis using sqlite_step.close [of "with_refusals R q"] by simp
qed

lemma settle_system:
  assumes "j < length (lc_pollers s)"
  shows "sqlite_step\<^sup>=\<^sup>= (lc_system s) (lc_system (poll_settle sqlite_ops out j s))"
proof (cases "\<exists>i. waiting_id (po_at (lc_pollers s ! j)) = Some i \<and> outcome_ready out (lc_pollers s ! j) s")
  case False
  then show ?thesis by (auto simp: poll_settle_def Let_def split: option.splits)
next
  case True
  then obtain i where i: "waiting_id (po_at (lc_pollers s ! j)) = Some i" "outcome_ready out (lc_pollers s ! j) s" by blast
  let ?p = "lc_pollers s ! j" and ?R = "refusals_of (lc_pollers s)"
  have r: "refusals_of ((lc_pollers s)[j := p]) = ?R + refusal_of p" for p
    using refusals_update [OF assms, of p] i(1) by simp
  show ?thesis
  proof (cases "out = Nacked")
    case True
    with i obtain h where h: "po_at ?p = Handed i h" by (cases "po_at ?p") (simp_all add: outcome_ready_def)
    show ?thesis
      using sqlite_step.refuse [of "lc_system s" i] i True
      by (simp add: h lc_system_def poll_settle_def after_outcome_def r at_point_def with_refusals_def)
  next
    case False
    have a: "after_outcome out (po_at ?p) = Ticking" using False by (simp add: after_outcome_def split: stage.splits)
    show ?thesis
      using step_frame [OF sqlite_step.finish [OF False, of "lc_queue s" i], of ?R] i False
      by (auto simp: lc_system_def poll_settle_def a r sqlite_ops_def Let_def)
  qed
qed

lemma refuse_system:
  assumes "j < length (lc_pollers s)"
  shows "sqlite_step\<^sup>=\<^sup>= (lc_system s) (lc_system (poll_refuse sqlite_ops j s))"
proof (cases "po_at (lc_pollers s ! j)")
  case (Refusing i h c)
  let ?p = "lc_pollers s ! j" and ?R = "refusals_of (lc_pollers s)"
  have "refusal_of ?p = {#(i, c)#}" using Refusing by simp
  note r = refusals_moves [OF assms this]
  have m: "(i, c) \<in># sys_refusals (lc_system s)" using r(1) by (simp add: lc_system_def)
  show ?thesis
  proof (cases "lc_closing s = DbClosed")
    case True
    then show ?thesis
      using sqlite_step.abandon [OF m] r(1)
      by (simp add: Refusing lc_system_def poll_refuse_def r(2) with_refusals_def)
  next
    case False
    obtain c' q where n: "sys_nack_part i c (lc_queue s) = (c', q)" by (cases "sys_nack_part i c (lc_queue s)")
    then have "sys_nack_part i c (lc_system s) = (c', with_refusals ?R q)" by (simp add: lc_system_def part_frame)
    note p = sqlite_step.proceed [OF m this]
    have "sys_refusals q = sys_refusals (lc_queue s)" using part_refusals [of i c "lc_queue s"] n by simp
    then have "lc_system (poll_refuse sqlite_ops j s)
        = with_refusals ?R q\<lparr>sys_refusals := sys_refusals (lc_system s) - {#(i, c)#} + at_point i c'\<rparr>"
      using n False r(1)
      by (simp add: Refusing lc_system_def poll_refuse_def r(2) sqlite_ops_def at_point_def split: option.splits)
    with p show ?thesis by simp
  qed
qed (simp_all add: poll_refuse_def)

lemma sqlite_lc_step:
  assumes "lc_step sqlite_ops sqlite_step s s'"
  shows "sqlite_step\<^sup>=\<^sup>= (lc_system s) (lc_system s')"
  using assms
proof cases
  case own
  from own(2) show ?thesis
  proof cases
    case (return j)
    then show ?thesis by (auto simp: lc_system_def poll_return_def Let_def refusals_same)
  next
    case (give_up j)
    then show ?thesis using settle_system by blast
  next
    case (refuse j)
    then show ?thesis using refuse_system by blast
  next
    case advance
    then show ?thesis by (auto simp: lc_system_def Close_advance_def split: closing.splits)
  qed
next
  case (start k c)
  then show ?thesis
    by (auto simp: lc_system_def Subscribe_start_def refusals_append refusal_of_def split: subscribing.splits)
next
  case (tick j)
  let ?R = "refusals_of (lc_pollers s)"
  show ?thesis
    using tick step_frame [OF sqlite_step.fetch [of "po_topic (lc_pollers s ! j)" "lc_queue s"], of _ _ ?R]
    by (auto simp: lc_system_def poll_tick_def Let_def sqlite_ops_def refusals_same split: option.splits prod.splits)
next
  case (settle j out)
  then show ?thesis using settle_system by blast
next
  case close
  then show ?thesis
    using step_frame [OF sqlite_step.close [of "lc_queue s"]] by (auto simp: lc_system_def Close_flag_def sqlite_ops_def)
next
  case (environment q)
  then show ?thesis using step_frame by (simp add: lc_system_def)
qed (auto simp: lc_system_def Subscribe_check_def Subscribe_store_def poll_hand_def cancel_context_def Let_def refusals_same
    split: subscribing.splits option.splits stage.splits)

lemma sqlite_running_system:
  assumes "lc_reach sqlite_ops sqlite_step (sqlite_init cfg now) s"
  shows "sqlite_reach cfg now (lc_system s)"
  using assms
proof (induction rule: lc_reach.induct)
  case init
  then show ?case by (simp add: lc_New_def lc_system_def sqlite_reach.init)
next
  case (step s s')
  then show ?case using sqlite_lc_step [OF step.hyps(2)] sqlite_reach.step by auto
qed

section \<open>Locks given back\<close>

definition held_ids :: "'h poller list \<Rightarrow> int set" where
  "held_ids ps = {i. \<exists>p \<in> set ps. waiting_id (po_at p) = Some i}"

lemma held_ids_simps [simp]:
  "held_ids [] = {}"
  "held_ids (p # ps) = (case waiting_id (po_at p) of None \<Rightarrow> held_ids ps | Some i \<Rightarrow> insert i (held_ids ps))"
  by (auto simp: held_ids_def split: option.splits)

definition unlocked :: "int set \<Rightarrow> 'm msg_row \<Rightarrow> 'm msg_row" where
  "unlocked is r = (if row_id r \<in> is then r\<lparr>row_locked := None\<rparr> else r)"

lemma unlocked_simps [simp]: "unlocked {} = id" "row_id (unlocked is r) = row_id r"
  by (auto simp: unlocked_def fun_eq_iff)

lemma unlock_messages:
  "messages (update_row i (\<lambda>x. x\<lparr>row_locked := None\<rparr>) d) = map (unlocked {i}) (messages d)"
  by (simp add: update_row_def unlocked_def)

lemma unlocked_twice: "unlocked is (unlocked {i} r) = unlocked (insert i is) r"
  by (simp add: unlocked_def)

lemma sqlite_releases:
  "messages (sq_db (sys_t (fold (release sqlite_ops) ps q))) = map (unlocked (held_ids ps)) (messages (sq_db (sys_t q)))"
proof (induction ps arbitrary: q)
  case Nil
  then show ?case by simp
next
  case (Cons p ps)
  then show ?case
    by (cases "waiting_id (po_at p)")
      (simp_all add: release_def sqlite_ops_def sqlite_handleMessageResult_def sqlite_unlockMessage_def
        unlock_messages unlocked_twice comp_def)
qed

text \<open>What is left of the refusals under way, run one after the other.\<close>

definition concluded_queue :: "('s, 'h) queue_ops \<Rightarrow> ('s, 'h) lifecycle \<Rightarrow> 's" where
  "concluded_queue ops s = fold (conclude ops) (lc_pollers s) (lc_queue s)"

definition refusing :: "'h poller \<Rightarrow> bool" where
  "refusing p = (case po_at p of Refusing i h c \<Rightarrow> True | _ \<Rightarrow> False)"

lemma concluded_queue_none:
  assumes "\<not> list_ex refusing (lc_pollers s)"
  shows "concluded_queue ops s = lc_queue s"
proof -
  have "fold (conclude ops) ps q = q" if "\<not> list_ex refusing ps" for ps q
    using that by (induction ps) (auto simp: conclude_def refusing_def split: stage.splits)
  with assms show ?thesis by (simp add: concluded_queue_def)
qed

text \<open>
  C9. Closing SQLite comes to an end and gives the locks back. From every reachable state in which
  \<open>Close\<close> waits, steps of the transport alone, without an answer of any handler, lead to its return:
  then no poller is left, the refusals that were under way have come to their end, and the table is
  as they leave it except that exactly the rows of the messages that pollers offered or had handed
  over are unlocked, so that they are delivered again at once after a restart. When no refusal was
  under way, the table is as before up to these locks.
\<close>

theorem sqlite_close_releases:
  assumes "lc_reach sqlite_ops env q s" "lc_closing s = WaitingForPollers"
  shows "\<exists>s'. (own_step sqlite_ops)\<^sup>*\<^sup>* s s' \<and> lc_closing s' = DbClosed
    \<and> list_all (\<lambda>p. po_at p = Exited) (lc_pollers s')
    \<and> messages (sys_db (lc_queue s'))
        = map (unlocked (held_ids (lc_pollers s))) (messages (sys_db (concluded_queue sqlite_ops s)))
    \<and> (\<not> list_ex refusing (lc_pollers s) \<longrightarrow>
        messages (sys_db (lc_queue s')) = map (unlocked (held_ids (lc_pollers s))) (messages (sys_db (lc_queue s))))"
proof -
  from sqlite_refusing.close_runs [OF assms] obtain s' where "(own_step sqlite_ops)\<^sup>*\<^sup>* s s'"
    "lc_queue s' = fold (release sqlite_ops) (lc_pollers s) (concluded_queue sqlite_ops s)"
    "lc_pollers s' = map exited (lc_pollers s)" "lc_closing s' = DbClosed"
    by (force simp: concluded_queue_def)
  with concluded_queue_none [of s sqlite_ops] show ?thesis
    by (intro exI [of _ s']) (simp add: sqlite_releases list_all_iff)
qed

text \<open>On Postgres the same holds for the pollers whose context is not done.\<close>

lemma pg_releases:
  "messages (pg_db (fold (release pg_ops) ps q))
     = map (unlocked (held_ids (filter (\<lambda>p. \<not> po_cancelled p) ps))) (messages (pg_db q))"
proof (induction ps arbitrary: q)
  case Nil
  then show ?case by simp
next
  case (Cons p ps)
  then show ?case
    by (cases "waiting_id (po_at p)")
      (simp_all add: release_def pg_ops_def pg_handleMessageResult_def pg_unlockMessage_def
        unlock_messages unlocked_twice comp_def)
qed

lemma pg_close_releases:
  assumes "(pg_run_step env)\<^sup>*\<^sup>* (lc_New q) s" "lc_closing s = WaitingForPollers"
  shows "\<exists>s'. (own_step pg_ops)\<^sup>*\<^sup>* s s' \<and> lc_closing s' = DbClosed \<and> list_all (\<lambda>p. po_at p = Exited) (lc_pollers s')
    \<and> messages (pg_db (lc_queue s'))
        = map (unlocked (held_ids (filter (\<lambda>p. \<not> po_cancelled p) (lc_pollers s)))) (messages (pg_db (concluded_queue pg_ops s)))"
proof -
  from assms(1) have "lc_reach pg_ops env q s"
    by (induction rule: rtranclp_induct) (auto simp: pg_run_step_def intro: lc_reach.intros)
  from pg_refusing.close_runs [OF this assms(2)] show ?thesis
    by (intro exI conjI, assumption) (simp_all add: pg_releases list_all_iff concluded_queue_def)
qed

section \<open>One holder for a row\<close>

text \<open>
  The other callers here publish, replay, purge and let time pass; no other process polls the table or
  refuses rows of it.
\<close>

definition undisturbed :: "sqlite_sys \<Rightarrow> sqlite_sys \<Rightarrow> bool" where
  "undisturbed s s' \<longleftrightarrow> sqlite_step s s' \<and> sys_refusals s' = sys_refusals s
     \<and> set (messages (sys_db s)) \<subseteq> set (messages (sys_db s'))"

lemma undisturbed_tick: "sq_now (sys_t s) \<le> now \<Longrightarrow> undisturbed s (s\<lparr>sys_t := (sys_t s)\<lparr>sq_now := now\<rparr>\<rparr>)"
  by (simp add: undisturbed_def sqlite_step.tick)

lemma undisturbed_publish:
  assumes "sqlite_Publish topic msgs (sys_t s) = (r, t')"
  shows "undisturbed s (s\<lparr>sys_t := t', sys_published := sys_published s
       + (if r = None then mset (map (\<lambda>m. (topic, Payload m)) msgs) else {#})\<rparr>)"
  using sqlite_step.publish [OF assms] assms
  by (auto simp: undisturbed_def sqlite_Publish_def dest: insert_rows_messages split: if_splits option.splits)

lemma undisturbed_purge:
  assumes "sqlite_PurgeDLQ topic (sys_t s) = (n, t')"
  shows "undisturbed s (s\<lparr>sys_t := t', sys_purged := sys_purged s
       + mset (map (\<lambda>x. (dlq_topic x, dlq_payload x)) (filter (\<lambda>x. dlq_topic x = topic) (dead (sq_db (sys_t s)))))\<rparr>)"
  using sqlite_step.purge [OF assms] assms
  by (auto simp: undisturbed_def sqlite_PurgeDLQ_def delete_dead_def)

lemma undisturbed_lc_step: "lc_step sqlite_ops undisturbed s s' \<Longrightarrow> lc_step sqlite_ops sqlite_step s s'"
  by (induction rule: lc_step.induct) (auto intro: lc_step.intros simp: undisturbed_def)

lemma undisturbed_reach: "lc_reach sqlite_ops undisturbed q s \<Longrightarrow> lc_reach sqlite_ops sqlite_step q s"
  by (induction rule: lc_reach.induct) (auto intro: lc_reach.intros undisturbed_lc_step)

text \<open>A poller holds a row until its outcome, and through its refusal, is done with.\<close>

fun held_until :: "(int \<times> 'h) stage \<Rightarrow> (int \<times> int) option" where
  "held_until (Offering i h) = Some (i, fst h)"
| "held_until (Handed i h) = Some (i, fst h)"
| "held_until (Refusing i h c) = Some (i, fst h)"
| "held_until _ = None"

fun held_id :: "'h stage \<Rightarrow> int option" where
  "held_id (Offering i h) = Some i"
| "held_id (Handed i h) = Some i"
| "held_id (Refusing i h c) = Some i"
| "held_id _ = None"

lemma held_id_until: "held_id st = map_option fst (held_until st)"
  by (cases st) simp_all

lemma waiting_held: "waiting_id st = Some i \<Longrightarrow> held_id st = Some i"
  by (cases st) simp_all

definition punctual :: "(sqlite_sys, int \<times> message) lifecycle \<Rightarrow> bool" where
  "punctual s \<longleftrightarrow> list_all (\<lambda>p. case held_until (po_at p) of
      None \<Rightarrow> True | Some (i, until) \<Rightarrow> sq_now (sys_t (lc_queue s)) \<le> until) (lc_pollers s)"

inductive punctual_reach :: "sqlite_config \<Rightarrow> int \<Rightarrow> (sqlite_sys, int \<times> message) lifecycle \<Rightarrow> bool" for cfg now where
  init: "punctual_reach cfg now (lc_New (sqlite_init cfg now))"
| step: "punctual_reach cfg now s \<Longrightarrow> lc_step sqlite_ops undisturbed s s' \<Longrightarrow> punctual s' \<Longrightarrow> punctual_reach cfg now s'"

lemma punctual_reach_punctual: "punctual_reach cfg now s \<Longrightarrow> punctual s"
  by (induction rule: punctual_reach.induct) (simp_all add: punctual_def lc_New_def)

text \<open>Every message in hand is a row that is locked for it, and no row is in two hands.\<close>

definition locked_row :: "int \<times> int \<Rightarrow> 'm db \<Rightarrow> bool" where
  "locked_row iu d \<longleftrightarrow> (\<exists>r \<in> set (messages d). row_id r = fst iu \<and> row_locked r = Some (snd iu))"

definition holders_inv :: "'m db \<Rightarrow> (int \<times> 'h) poller list \<Rightarrow> bool" where
  "holders_inv d ps \<longleftrightarrow>
     (\<forall>j < length ps. \<forall>iu. held_until (po_at (ps ! j)) = Some iu \<longrightarrow> locked_row iu d)
     \<and> (\<forall>j < length ps. \<forall>k < length ps. \<forall>i. held_id (po_at (ps ! j)) = Some i \<longrightarrow> held_id (po_at (ps ! k)) = Some i \<longrightarrow> j = k)"

lemma holders_locked:
  "holders_inv d ps \<Longrightarrow> j < length ps \<Longrightarrow> held_until (po_at (ps ! j)) = Some iu \<Longrightarrow> locked_row iu d"
  unfolding holders_inv_def by blast

lemma holders_unique:
  "holders_inv d ps \<Longrightarrow> j < length ps \<Longrightarrow> k < length ps \<Longrightarrow> held_id (po_at (ps ! j)) = Some i
    \<Longrightarrow> held_id (po_at (ps ! k)) = Some i \<Longrightarrow> j = k"
  unfolding holders_inv_def by blast

lemma locked_row_other:
  "locked_row iu d \<Longrightarrow> fst iu \<noteq> i \<Longrightarrow> (\<And>r. r \<in> set (messages d) \<Longrightarrow> row_id r \<noteq> i \<Longrightarrow> r \<in> set (messages d')) \<Longrightarrow> locked_row iu d'"
  unfolding locked_row_def by metis

lemma holders_invI:
  assumes "\<And>j iu. j < length ps \<Longrightarrow> held_until (po_at (ps ! j)) = Some iu \<Longrightarrow> locked_row iu d"
    "\<And>j k i. j < length ps \<Longrightarrow> k < length ps \<Longrightarrow> held_id (po_at (ps ! j)) = Some i
      \<Longrightarrow> held_id (po_at (ps ! k)) = Some i \<Longrightarrow> j = k"
  shows "holders_inv d ps"
  unfolding holders_inv_def using assms by blast

text \<open>A poller that lets go of its row leaves the rows of the others alone.\<close>

lemma holders_release:
  assumes "holders_inv d ps" "j < length ps" "held_id (po_at (ps ! j)) = Some i" "held_until (po_at p) = None"
    "\<And>r. r \<in> set (messages d) \<Longrightarrow> row_id r \<noteq> i \<Longrightarrow> r \<in> set (messages d')"
  shows "holders_inv d' (ps[j := p])"
proof (rule holders_invI)
  fix k iu
  assume k: "k < length (ps[j := p])" "held_until (po_at (ps[j := p] ! k)) = Some iu"
  have "k \<noteq> j" using k assms(2,4) by auto
  with k have kj: "k \<noteq> j" "k < length ps" "held_until (po_at (ps ! k)) = Some iu" by simp_all
  then have "held_id (po_at (ps ! k)) = Some (fst iu)" by (simp add: held_id_until)
  then have "fst iu \<noteq> i" using holders_unique [OF assms(1) kj(2) assms(2)] assms(3) kj(1) by blast
  with holders_locked [OF assms(1) kj(2,3)] show "locked_row iu d'" by (rule locked_row_other) (rule assms(5))
next
  fix k l i'
  assume "k < length (ps[j := p])" "l < length (ps[j := p])"
    "held_id (po_at (ps[j := p] ! k)) = Some i'" "held_id (po_at (ps[j := p] ! l)) = Some i'"
  moreover from this have "k \<noteq> j" "l \<noteq> j" using assms(2,4) by (auto simp: held_id_until)
  ultimately show "k = l" using holders_unique [OF assms(1), of k l i'] by simp
qed

text \<open>A poller that takes a row that nobody holds.\<close>

lemma holders_take:
  assumes "holders_inv d ps" "j < length ps" "held_until (po_at p) = Some (i, u)"
    "\<And>k. k < length ps \<Longrightarrow> held_id (po_at (ps ! k)) \<noteq> Some i"
    "\<And>r. r \<in> set (messages d) \<Longrightarrow> row_id r \<noteq> i \<Longrightarrow> r \<in> set (messages d')" "locked_row (i, u) d'"
  shows "holders_inv d' (ps[j := p])"
proof (rule holders_invI)
  fix k iu
  assume k: "k < length (ps[j := p])" "held_until (po_at (ps[j := p] ! k)) = Some iu"
  show "locked_row iu d'"
  proof (cases "k = j")
    case True
    then show ?thesis using k assms(3,6) by simp
  next
    case False
    with k have kj: "k < length ps" "held_until (po_at (ps ! k)) = Some iu" by simp_all
    then have "fst iu \<noteq> i" using assms(4) [OF kj(1)] by (auto simp: held_id_until)
    with holders_locked [OF assms(1) kj] show ?thesis by (rule locked_row_other) (rule assms(5))
  qed
next
  fix k l i'
  assume kl: "k < length (ps[j := p])" "l < length (ps[j := p])"
    "held_id (po_at (ps[j := p] ! k)) = Some i'" "held_id (po_at (ps[j := p] ! l)) = Some i'"
  have p: "held_id (po_at p) = Some i" using assms(3) by (simp add: held_id_until)
  consider "k = j" "l = j" | "k \<noteq> j" "l \<noteq> j" | "k = j" "l \<noteq> j" | "k \<noteq> j" "l = j" by blast
  then show "k = l"
  proof cases
    case 2
    with kl show ?thesis using holders_unique [OF assms(1), of k l i'] by simp
  next
    case 3
    with kl p assms(4) [of l] show ?thesis by simp
  next
    case 4
    with kl p assms(4) [of k] show ?thesis by simp
  qed simp
qed

text \<open>A step that leaves the hands and the rows as they are.\<close>

lemma holders_same:
  assumes "holders_inv d ps" "map (held_until \<circ> po_at) ps' = map (held_until \<circ> po_at) ps"
    "set (messages d) \<subseteq> set (messages d')"
  shows "holders_inv d' ps'"
proof -
  have l: "length ps' = length ps" using assms(2) by (metis length_map)
  have "held_until (po_at (ps' ! k)) = held_until (po_at (ps ! k))" if "k < length ps" for k
    using arg_cong [OF assms(2), of "\<lambda>xs. xs ! k"] that l by simp
  moreover have "locked_row iu d \<Longrightarrow> locked_row iu d'" for iu
    using assms(3) unfolding locked_row_def by blast
  ultimately show ?thesis
    using assms(1) unfolding holders_inv_def held_id_until l by simp
qed


abbreviation lc_rows :: "(sqlite_sys, 'h) lifecycle \<Rightarrow> string db" where
  "lc_rows s \<equiv> sq_db (sys_t (lc_queue s))"

lemma settle_keeps:
  assumes "r \<in> set (messages (sq_db t))" "row_id r \<noteq> i" "out \<noteq> Nacked"
  shows "r \<in> set (messages (sq_db (sqlite_handleMessageResult out i t)))"
  using other_row_stays [OF assms(1,2)] assms(3)
  by (simp add: sqlite_handleMessageResult_def sqlite_ackMessage_def sqlite_unlockMessage_def split: outcome.split)

lemma part_keeps:
  assumes "sqlite_nack_part i c t = (c', t')"
  shows "r \<in> set (messages (sq_db t)) \<Longrightarrow> row_id r \<noteq> i \<Longrightarrow> r \<in> set (messages (sq_db t'))"
    "c' \<noteq> None \<Longrightarrow> messages (sq_db t') = messages (sq_db t)"
  using assms other_row_stays [of r "sq_db t" i]
  by (auto simp: sqlite_nack_part_def Let_def insert_dead_def split: refusal.splits option.splits)

text \<open>An outcome, and a part of a refusal, from the message's own poller.\<close>

lemma settle_holders:
  fixes out :: outcome
  assumes "holders_inv (lc_rows s) (lc_pollers s)" "wf_db (lc_rows s)" "j < length (lc_pollers s)"
  defines "s' \<equiv> poll_settle sqlite_ops out j s"
  shows "wf_db (lc_rows s') \<and> holders_inv (lc_rows s') (lc_pollers s')"
proof (cases "\<exists>i. waiting_id (po_at (lc_pollers s ! j)) = Some i \<and> outcome_ready out (lc_pollers s ! j) s")
  case False
  then have "s' = s" by (auto simp: s'_def poll_settle_def Let_def split: option.splits)
  with assms(1,2) show ?thesis by simp
next
  case True
  let ?p = "lc_pollers s ! j"
  from True obtain i where i: "waiting_id (po_at ?p) = Some i" "outcome_ready out ?p s" by blast
  have p: "lc_pollers s' = (lc_pollers s)[j := ?p\<lparr>po_at := after_outcome out (po_at ?p)\<rparr>]"
    using i by (simp add: s'_def poll_settle_def Let_def)
  show ?thesis
  proof (cases "out = Nacked")
    case True
    with i obtain h where "po_at ?p = Handed i h" by (cases "po_at ?p") (simp_all add: outcome_ready_def)
    with True have "map (held_until \<circ> po_at) (lc_pollers s') = map (held_until \<circ> po_at) (lc_pollers s)"
      by (intro nth_equalityI) (auto simp: p nth_list_update [OF assms(3)] after_outcome_def)
    moreover have "lc_rows s' = lc_rows s" using i True by (simp add: s'_def poll_settle_def Let_def)
    ultimately show ?thesis using holders_same [OF assms(1), of "lc_pollers s'" "lc_rows s'"] assms(2) by (simp del: map_map)
  next
    case False
    let ?d = "lc_rows s'"
    have a: "after_outcome out (po_at ?p) = Ticking" using False by (simp add: after_outcome_def split: stage.splits)
    have d: "?d = (if lc_closing s = DbClosed then lc_rows s
        else sq_db (sqlite_handleMessageResult out i (sys_t (lc_queue s))))"
      using i False by (simp add: s'_def poll_settle_def Let_def sqlite_ops_def)
    have "holders_inv ?d (lc_pollers s')"
      unfolding p a by (rule holders_release [OF assms(1,3) waiting_held [OF i(1)]]) (auto simp: d settle_keeps False)
    moreover have "wf_db ?d" using assms(2) by (simp add: d wf_finish)
    ultimately show ?thesis by simp
  qed
qed

lemma poll_refuse_sqlite:
  assumes "po_at (lc_pollers s ! j) = Refusing i h c" "lc_closing s \<noteq> DbClosed"
    "sqlite_nack_part i c (sys_t (lc_queue s)) = (c', t')"
  shows "lc_pollers (poll_refuse sqlite_ops j s)
      = (lc_pollers s)[j := (lc_pollers s ! j)\<lparr>po_at := (case c' of None \<Rightarrow> Ticking | Some k \<Rightarrow> Refusing i h k)\<rparr>]"
    "sys_t (lc_queue (poll_refuse sqlite_ops j s)) = t'"
    "sys_published (lc_queue (poll_refuse sqlite_ops j s)) = sys_published (lc_queue s)"
    "sys_acked (lc_queue (poll_refuse sqlite_ops j s)) = sys_acked (lc_queue s)"
    "sys_purged (lc_queue (poll_refuse sqlite_ops j s)) = sys_purged (lc_queue s)"
    "sys_refusals (lc_queue (poll_refuse sqlite_ops j s)) = sys_refusals (lc_queue s)"
  using assms by (simp_all add: poll_refuse_def sqlite_ops_def sys_nack_part_def Let_def split: option.split)

lemma refuse_holders:
  assumes "holders_inv (lc_rows s) (lc_pollers s)" "wf_db (lc_rows s)" "j < length (lc_pollers s)"
  defines "s' \<equiv> poll_refuse sqlite_ops j s"
  shows "wf_db (lc_rows s') \<and> holders_inv (lc_rows s') (lc_pollers s')"
proof (cases "po_at (lc_pollers s ! j)")
  case (Refusing i h c)
  let ?p = "lc_pollers s ! j"
  have h: "held_id (po_at ?p) = Some i" by (simp add: Refusing)
  show ?thesis
  proof (cases "lc_closing s = DbClosed")
    case True
    then have s': "lc_rows s' = lc_rows s" "lc_pollers s' = (lc_pollers s)[j := ?p\<lparr>po_at := Ticking\<rparr>]"
      by (simp_all add: s'_def poll_refuse_def Refusing)
    show ?thesis unfolding s' using holders_release [OF assms(1,3) h] assms(2) by simp
  next
    case False
    obtain c' t' where n: "sqlite_nack_part i c (sys_t (lc_queue s)) = (c', t')"
      by (cases "sqlite_nack_part i c (sys_t (lc_queue s))")
    note s' = poll_refuse_sqlite [OF Refusing False n, folded s'_def]
    have d: "lc_rows s' = sq_db t'" by (simp add: s'(2))
    have w: "wf_db (sq_db t')" using wf_part [OF assms(2), of i c] n by simp
    show ?thesis
    proof (cases c')
      case None
      then have p: "lc_pollers s' = (lc_pollers s)[j := ?p\<lparr>po_at := Ticking\<rparr>]"
        using s'(1) by simp
      have "holders_inv (sq_db t') ((lc_pollers s)[j := ?p\<lparr>po_at := Ticking\<rparr>])"
        by (rule holders_release [OF assms(1,3) h]) (simp_all add: part_keeps [OF n])
      with w show ?thesis by (simp add: d p)
    next
      case (Some k)
      then have p: "lc_pollers s' = (lc_pollers s)[j := ?p\<lparr>po_at := Refusing i h k\<rparr>]"
        using s'(1) by simp
      have "map (held_until \<circ> po_at) (lc_pollers s') = map (held_until \<circ> po_at) (lc_pollers s)"
        by (rule nth_equalityI) (auto simp: p nth_list_update [OF assms(3)] Refusing)
      moreover have "messages (sq_db t') = messages (lc_rows s)" using part_keeps(2) [OF n] Some by simp
      ultimately show ?thesis
        using holders_same [OF assms(1), of "lc_pollers s'" "sq_db t'"] w by (simp add: d del: map_map)
    qed
  qed
qed (use assms(1,2) in \<open>simp_all add: s'_def poll_refuse_def\<close>)

text \<open>A fetch, while all who hold a row are in time.\<close>

lemma tick_holders:
  assumes "holders_inv (lc_rows s) (lc_pollers s)" "wf_db (lc_rows s)" "punctual s" "j < length (lc_pollers s)"
  defines "s' \<equiv> poll_tick sqlite_ops j s"
  shows "wf_db (lc_rows s') \<and> holders_inv (lc_rows s') (lc_pollers s')"
proof (cases "s' = s")
  case True
  with assms(1,2) show ?thesis by simp
next
  case False
  let ?p = "lc_pollers s ! j" and ?t = "sys_t (lc_queue s)"
  from False have c: "po_at ?p = Ticking" "lc_closing s \<noteq> DbClosed" "\<not> po_cancelled ?p"
    by (auto simp: s'_def poll_tick_def Let_def sqlite_ops_def split: if_splits)
  obtain r t' where f: "sqlite_fetchAndLockMessage (po_topic ?p) ?t = (Some r, t')"
    using False c by (cases "sqlite_fetchAndLockMessage (po_topic ?p) ?t"; cases "fst (sqlite_fetchAndLockMessage (po_topic ?p) ?t)")
      (auto simp: s'_def poll_tick_def Let_def sqlite_ops_def dest!: fetch_None)
  let ?u = "sq_now ?t + 30 * second"
  note n = fetch_Some [OF f]
  have r: "r \<in> set (messages (lc_rows s))" "fetchable (po_topic ?p) (sq_now ?t) r" using next_row_SomeD [OF n(1)] by auto
  have d: "lc_rows s' = update_row (row_id r) (\<lambda>x. x\<lparr>row_locked := Some ?u\<rparr>) (lc_rows s)"
    and p: "lc_pollers s' = (lc_pollers s)[j := ?p\<lparr>po_at := Offering (row_id r) (?u, sqlite_message r)\<rparr>]"
    using c f n(2) by (simp_all add: s'_def poll_tick_def Let_def sqlite_ops_def)
  have "held_id (po_at (lc_pollers s ! k)) \<noteq> Some (row_id r)" if k: "k < length (lc_pollers s)" for k
  proof
    assume "held_id (po_at (lc_pollers s ! k)) = Some (row_id r)"
    then obtain u where u: "held_until (po_at (lc_pollers s ! k)) = Some (row_id r, u)" by (auto simp: held_id_until)
    with assms(3) k have "sq_now ?t \<le> u" by (auto simp: punctual_def list_all_length)
    moreover obtain x where x: "x \<in> set (messages (lc_rows s))" "row_id x = row_id r" "row_locked x = Some u"
      using holders_locked [OF assms(1) k u] by (auto simp: locked_row_def)
    moreover from x(1,2) r(1) have "x = r"
      using find_row_unique [OF assms(2)] by (metis option.inject)
    ultimately show False using r(2) by (simp add: fetchable_def)
  qed
  moreover have "locked_row (row_id r, ?u) (lc_rows s')"
    unfolding locked_row_def d using r(1)
    by (intro bexI [of _ "r\<lparr>row_locked := Some ?u\<rparr>"]) (auto simp: update_row_def intro!: image_eqI [of _ _ r])
  moreover have "x \<in> set (messages (lc_rows s'))" if "x \<in> set (messages (lc_rows s))" "row_id x \<noteq> row_id r" for x
    using other_row_stays(1) [OF that] by (simp add: d)
  ultimately have "holders_inv (lc_rows s') (lc_pollers s')"
    unfolding p by (intro holders_take [OF assms(1,4), where u = ?u]) simp_all
  moreover have "wf_db (lc_rows s')" using assms(2) by (simp add: d wf_update_row keeps_lock)
  ultimately show ?thesis by simp
qed

lemma punctual_step:
  assumes "lc_step sqlite_ops undisturbed s s'" "wf_db (lc_rows s)" "holders_inv (lc_rows s) (lc_pollers s)" "punctual s"
  shows "wf_db (lc_rows s') \<and> holders_inv (lc_rows s') (lc_pollers s')"
  using assms(1)
proof cases
  case own
  from own(2) show ?thesis
  proof cases
    case (refuse j)
    then show ?thesis using refuse_holders assms(2,3) by blast
  next
    case (return j)
    then have "lc_rows s' = lc_rows s" "map (held_until \<circ> po_at) (lc_pollers s') = map (held_until \<circ> po_at) (lc_pollers s)"
      by (auto simp: poll_return_def Let_def map_update intro: list_update_same_conv [THEN iffD2])
    then show ?thesis using holders_same [OF assms(3), of "lc_pollers s'" "lc_rows s'"] assms(2) by (simp del: map_map)
  next
    case (give_up j)
    then show ?thesis using settle_holders assms(2,3) by blast
  next
    case advance
    then have "lc_rows s' = lc_rows s" "lc_pollers s' = lc_pollers s" by (auto simp: Close_advance_def split: closing.splits)
    then show ?thesis using assms(2,3) by simp
  qed
next
  case (check topic)
  then show ?thesis using assms(2,3) by (simp add: Subscribe_check_def)
next
  case (store k)
  then show ?thesis using assms(2,3) by (auto simp: Subscribe_store_def split: subscribing.splits option.splits)
next
  case (start k c)
  have "holders_inv d (ps @ [\<lparr>po_topic = topic, po_cancelled = c, po_at = Ticking\<rparr>])" if "holders_inv d ps"
    for topic and d :: "string db" and ps :: "(int \<times> message) poller list"
    using holders_locked [OF that] holders_unique [OF that]
    by (intro holders_invI) (auto simp: nth_append less_Suc_eq split: if_splits)
  then show ?thesis using start assms(2,3) by (auto simp: Subscribe_start_def split: subscribing.splits)
next
  case (tick j)
  then show ?thesis using tick_holders [OF assms(3,2,4)] by blast
next
  case (hand j)
  then have "lc_rows s' = lc_rows s" "map (held_until \<circ> po_at) (lc_pollers s') = map (held_until \<circ> po_at) (lc_pollers s)"
    by (auto simp: poll_hand_def Let_def map_update intro: list_update_same_conv [THEN iffD2] split: stage.splits)
  then show ?thesis using holders_same [OF assms(3), of "lc_pollers s'" "lc_rows s'"] assms(2) by (simp del: map_map)
next
  case (settle j out)
  then show ?thesis using settle_holders assms(2,3) by blast
next
  case (cancel j)
  then have "lc_rows s' = lc_rows s" "map (held_until \<circ> po_at) (lc_pollers s') = map (held_until \<circ> po_at) (lc_pollers s)"
    by (auto simp: cancel_context_def map_update intro: list_update_same_conv [THEN iffD2])
  then show ?thesis using holders_same [OF assms(3), of "lc_pollers s'" "lc_rows s'"] assms(2) by (simp del: map_map)
next
  case close
  then show ?thesis using assms(2,3) by (simp add: Close_flag_def sqlite_ops_def sqlite_Close_def)
next
  case (environment q)
  then have "wf_db (sq_db (sys_t q))" "set (messages (lc_rows s)) \<subseteq> set (messages (sq_db (sys_t q)))"
    using step_wf [OF _ assms(2)] by (auto simp: undisturbed_def)
  then show ?thesis using holders_same [OF assms(3) refl] environment(1) by simp
qed


lemma punctual_holders:
  assumes "punctual_reach cfg now s"
  shows "wf_db (lc_rows s) \<and> holders_inv (lc_rows s) (lc_pollers s)"
  using assms
proof (induction rule: punctual_reach.induct)
  case init
  then show ?case by (simp add: lc_New_def holders_inv_def sqlite_init_def sqlite_New_def wf_empty_db)
next
  case (step s s')
  with punctual_step [OF step.hyps(2)] punctual_reach_punctual [OF step.hyps(1)] show ?case by simp
qed

text \<open>
  C8. A row is in one hand only. As long as every outcome, and with it a refusal down to its last
  statement, comes before the lock of its message runs out, after 30 seconds, and no other process
  polls the table, a message that a poller holds is in the table, locked for a time not yet over, and
  no other poller of the process holds it, whatever the subscriptions, answers, cancellations and
  closings in between.
\<close>

theorem sqlite_punctual_exclusive:
  assumes "punctual_reach cfg now s" "j < length (lc_pollers s)" "held_id (po_at (lc_pollers s ! j)) = Some i"
  shows "(\<exists>r \<in> set (messages (lc_rows s)). row_id r = i \<and> (\<exists>u. row_locked r = Some u \<and> sq_now (sys_t (lc_queue s)) \<le> u))
    \<and> (\<forall>k < length (lc_pollers s). held_id (po_at (lc_pollers s ! k)) = Some i \<longrightarrow> k = j)"
proof -
  from punctual_holders [OF assms(1)] have h: "holders_inv (lc_rows s) (lc_pollers s)" by simp
  from assms(3) obtain u where u: "held_until (po_at (lc_pollers s ! j)) = Some (i, u)" by (auto simp: held_id_until)
  have "sq_now (sys_t (lc_queue s)) \<le> u"
    using punctual_reach_punctual [OF assms(1)] assms(2) u by (auto simp: punctual_def list_all_length)
  then show ?thesis
    using holders_locked [OF h assms(2) u] holders_unique [OF h _ assms(2) _ assms(3)] by (auto simp: locked_row_def)
qed

section \<open>The transport as a mailbox\<close>

text \<open>
  What a queue is meant to be: items wait, are accepted or buried, are brought back from the dead or
  purged, one by one and never twice. There are no rows, locks, retries, pollers or statements here.
\<close>

type_synonym items = "(string \<times> string) multiset"

record mailbox =
  mb_posted :: items
  mb_waiting :: items
  mb_dead :: items
  mb_accepted :: items
  mb_purged :: items

inductive mailbox_step :: "mailbox \<Rightarrow> mailbox \<Rightarrow> bool" where
  post: "mailbox_step m (m\<lparr>mb_posted := mb_posted m + X, mb_waiting := mb_waiting m + X\<rparr>)"
| accept: "x \<in># mb_waiting m \<Longrightarrow>
     mailbox_step m (m\<lparr>mb_waiting := mb_waiting m - {#x#}, mb_accepted := mb_accepted m + {#x#}\<rparr>)"
| bury: "x \<in># mb_waiting m \<Longrightarrow>
     mailbox_step m (m\<lparr>mb_waiting := mb_waiting m - {#x#}, mb_dead := mb_dead m + {#x#}\<rparr>)"
| revive: "X \<subseteq># mb_dead m \<Longrightarrow>
     mailbox_step m (m\<lparr>mb_waiting := mb_waiting m + X, mb_dead := mb_dead m - X\<rparr>)"
| purge: "X \<subseteq># mb_dead m \<Longrightarrow>
     mailbox_step m (m\<lparr>mb_dead := mb_dead m - X, mb_purged := mb_purged m + X\<rparr>)"

definition empty_mailbox :: mailbox where
  "empty_mailbox = \<lparr>mb_posted = {#}, mb_waiting = {#}, mb_dead = {#}, mb_accepted = {#}, mb_purged = {#}\<rparr>"

inductive mailbox_reach :: "mailbox \<Rightarrow> bool" where
  init: "mailbox_reach empty_mailbox"
| step: "mailbox_reach m \<Longrightarrow> mailbox_step m m' \<Longrightarrow> mailbox_reach m'"

lemma mailbox_balance:
  "mailbox_reach m \<Longrightarrow> mb_posted m = mb_waiting m + mb_dead m + mb_accepted m + mb_purged m"
proof (induction rule: mailbox_reach.induct)
  case init
  then show ?case by (simp add: empty_mailbox_def)
next
  case (step m m')
  from step.hyps(2) show ?case
    by cases (use step.IH in \<open>auto simp: ac_simps subset_mset.le_iff_add dest!: multi_member_split\<close>)
qed

text \<open>
  The mailbox a queue stands for: a row between the two statements of its move counts as dead already.
\<close>

definition mailbox_view :: "int set \<Rightarrow> sqlite_sys \<Rightarrow> mailbox" where
  "mailbox_view M q =
     \<lparr>mb_posted = sys_published q, mb_waiting = items_in (- M) (sys_db q), mb_dead = dead_items (sys_db q),
      mb_accepted = sys_acked q, mb_purged = sys_purged q\<rparr>"

definition mailbox_of :: "(sqlite_sys, 'h) lifecycle \<Rightarrow> mailbox" where
  "mailbox_of s = mailbox_view (in_move (refusals_of (lc_pollers s))) (lc_queue s)"

text \<open>Steps that are none of the mailbox's.\<close>

lemma view_same:
  assumes "items_in (- M) (sys_db q') = items_in (- M) (sys_db q)" "dead_items (sys_db q') = dead_items (sys_db q)"
    "sys_published q' = sys_published q" "sys_acked q' = sys_acked q" "sys_purged q' = sys_purged q"
  shows "mailbox_view M q' = mailbox_view M q"
  using assms by (simp add: mailbox_view_def)

lemma items_waiting:
  assumes "msg_items d' = msg_items d + X" "items_in M d' = items_in M d"
  shows "items_in (- M) d' = items_in (- M) d + X"
proof -
  have "items_in (- M) d' + items_in M d = items_in (- M) d + X + items_in M d"
    using assms items_in_split [of d' M] items_in_split [of d M] by (simp add: ac_simps)
  then show ?thesis by (simp only: add_right_cancel)
qed

lemma insert_rows_waiting:
  assumes "insert_rows c ns d = Some d'" "\<And>i. i \<in> M \<Longrightarrow> i < next_id d"
  shows "items_in (- M) d' = items_in (- M) d + image_mset (\<lambda>n. (new_topic n, new_payload n)) (mset ns)"
    "dead_items d' = dead_items d"
proof -
  from insert_rows_ids [OF assms(1)] obtain rs where rs: "messages d' = messages d @ rs" "list_all (\<lambda>r. next_id d \<le> row_id r) rs"
    by blast
  have "items_in M d' = items_in M d"
    using rs(1) by (rule items_in_append) (use rs(2) assms(2) in \<open>fastforce simp: list_all_iff\<close>)
  then show "items_in (- M) d' = items_in (- M) d + image_mset (\<lambda>n. (new_topic n, new_payload n)) (mset ns)"
    using items_insert_rows [OF assms(1)] by (intro items_waiting) simp_all
  show "dead_items d' = dead_items d" using items_insert_rows [OF assms(1)] by simp
qed

lemma replay_view:
  assumes "sqlite_replay P (sys_t q) = (r, t')" "\<And>i. i \<in> M \<Longrightarrow> i < next_id (sys_db q)"
  shows "mailbox_step\<^sup>=\<^sup>= (mailbox_view M q) (mailbox_view M (q\<lparr>sys_t := t'\<rparr>))"
proof (cases "insert_rows (current_timestamp (sq_now (sys_t q)))
    (map (sqlite_replay_row (sq_now (sys_t q))) (filter P (dead (sys_db q)))) (sys_db q)")
  case None
  with assms(1) have "t' = sys_t q" by (simp add: sqlite_replay_def)
  then show ?thesis by (simp add: mailbox_view_def)
next
  case (Some d)
  let ?X = "image_mset (\<lambda>x. (dlq_topic x, dlq_payload x)) (mset (filter P (dead (sys_db q))))"
  have t': "sq_db t' = delete_dead P d" using assms(1) Some by (auto simp: sqlite_replay_def Let_def)
  have w: "items_in (- M) (sq_db t') = items_in (- M) (sys_db q) + ?X"
    using insert_rows_waiting(1) [OF Some assms(2)] by (simp add: t' multiset.map_comp comp_def sqlite_replay_row_def)
  have d: "dead_items (sys_db q) = dead_items (sq_db t') + ?X"
    using items_delete_dead(2) [of d P] insert_rows_waiting(2) [OF Some assms(2)] dead_insert_rows [OF Some] by (simp add: t')
  have "mailbox_step (mailbox_view M q) ((mailbox_view M q)\<lparr>mb_waiting := mb_waiting (mailbox_view M q) + ?X,
      mb_dead := mb_dead (mailbox_view M q) - ?X\<rparr>)"
    by (rule mailbox_step.revive) (simp add: mailbox_view_def d)
  then show ?thesis by (simp add: mailbox_view_def w d)
qed

text \<open>What others do while the pollers are as they are.\<close>

lemma undisturbed_view:
  assumes "undisturbed q q'" "\<And>i. i \<in> M \<Longrightarrow> i < next_id (sys_db q)"
  shows "mailbox_step\<^sup>=\<^sup>= (mailbox_view M q) (mailbox_view M q')"
proof -
  from assms(1) have st: "sqlite_step q q'" and R: "sys_refusals q' = sys_refusals q"
    and keep: "set (messages (sys_db q)) \<subseteq> set (messages (sys_db q'))"
    by (simp_all add: undisturbed_def)
  from st show ?thesis
  proof cases
    case (publish topic msgs r t')
    show ?thesis
    proof (cases "r = None")
      case True
      with publish(2) obtain d where d: "insert_rows (current_timestamp (sq_now (sys_t q)))
          (map (sqlite_row (sq_now (sys_t q)) topic) msgs) (sys_db q) = Some d" "t' = (sys_t q)\<lparr>sq_db := d\<rparr>"
        by (auto simp: sqlite_Publish_def split: if_splits option.splits)
      let ?X = "mset (map (\<lambda>m. (topic, Payload m)) msgs)"
      have "items_in (- M) d = items_in (- M) (sys_db q) + ?X" "dead_items d = dead_items (sys_db q)"
        using insert_rows_waiting [OF d(1) assms(2)] by (simp_all add: multiset.map_comp comp_def sqlite_row_def)
      then show ?thesis
        using mailbox_step.post [of "mailbox_view M q" ?X] by (simp add: publish(1) True d(2) mailbox_view_def)
    next
      case False
      with publish have "t' = sys_t q" by (auto simp: sqlite_Publish_def split: if_splits option.splits)
      then show ?thesis using False by (auto simp: publish(1) mailbox_view_def)
    qed
  next
    case (tick now)
    then show ?thesis by (simp add: mailbox_view_def)
  next
    case (fetch topic r t')
    then show ?thesis
    proof (cases r)
      case None
      then show ?thesis using fetch by (auto simp: mailbox_view_def dest: fetch_None)
    next
      case (Some x)
      with fetch have t': "t' = (sys_t q)\<lparr>sq_db := update_row (row_id x) (\<lambda>x. x\<lparr>row_locked := Some (sq_now (sys_t q) + 30 * second)\<rparr>) (sys_db q)\<rparr>"
        using fetch_Some(2) by blast
      show ?thesis by (simp add: fetch(1) t' mailbox_view_def items_in_update [OF keeps_lock] items_update_row [OF keeps_lock])
    qed
  next
    case (finish out i)
    show ?thesis
    proof (cases "out = Acked")
      case True
      have "row_id r \<noteq> i" if "r \<in> set (messages (sys_db q))" for r
        using keep that by (auto simp: finish(1) True sqlite_handleMessageResult_def sqlite_ackMessage_def delete_row_def)
      then have "find_row i (sys_db q) = None" "delete_row i (sys_db q) = sys_db q"
        by (auto simp: find_row_None delete_row_def filter_id_conv)
      then show ?thesis
        by (simp add: finish(1) True mailbox_view_def sqlite_handleMessageResult_def sqlite_ackMessage_def row_items_def)
    next
      case False
      with finish(2) have "sqlite_handleMessageResult out i (sys_t q) = sqlite_unlockMessage i (sys_t q)"
        by (cases out) (simp_all add: sqlite_handleMessageResult_def)
      then show ?thesis
        using False by (simp add: finish(1) mailbox_view_def sqlite_unlockMessage_def items_in_update [OF keeps_lock] items_update_row [OF keeps_lock])
    qed
  next
    case (refuse i)
    with R show ?thesis by (simp add: at_point_def)
  next
    case (proceed i c c' q1)
    have "sys_refusals q - {#(i, c)#} + at_point i c' = sys_refusals q - {#(i, c)#} + {#(i, c)#}"
      using R proceed(2) by (simp add: proceed(1))
    then have "at_point i c' = {#(i, c)#}" by (simp only: add_left_cancel)
    then have "c' = Some c" by (simp add: at_point_def split: option.splits)
    then show ?thesis
      using sqlite_nack_shrinks [of i c "sys_t q" c] proceed(3) by (fastforce simp: sys_nack_part_def split: prod.splits)
  next
    case (abandon i c)
    with R multi_drop_mem_not_eq [OF abandon(2)] show ?thesis by simp
  next
    case (replay i r t')
    then obtain x where "sqlite_replay (\<lambda>x. dlq_id x = i) (sys_t q) = (x, t')"
      by (auto simp: sqlite_ReplayDLQMessage_def split: prod.splits sum.splits)
    from replay_view [OF this assms(2)] show ?thesis by (simp add: replay(1))
  next
    case (replay_all topic n t')
    then have "sqlite_replay (\<lambda>x. dlq_topic x = topic) (sys_t q) = (n, t')" by (simp add: sqlite_ReplayAllDLQ_def)
    from replay_view [OF this assms(2)] show ?thesis by (simp add: replay_all(1))
  next
    case (purge topic n t')
    let ?X = "mset (map (\<lambda>x. (dlq_topic x, dlq_payload x)) (filter (\<lambda>x. dlq_topic x = topic) (dead (sys_db q))))"
    have d: "dead_items (sys_db q) = dead_items (sq_db t') + ?X" "items_in (- M) (sq_db t') = items_in (- M) (sys_db q)"
      using purge(2) items_delete_dead(2) [of "sys_db q" "\<lambda>x. dlq_topic x = topic"] by (auto simp: sqlite_PurgeDLQ_def)
    have "mailbox_step (mailbox_view M q) ((mailbox_view M q)\<lparr>mb_dead := mb_dead (mailbox_view M q) - ?X,
        mb_purged := mb_purged (mailbox_view M q) + ?X\<rparr>)"
      by (rule mailbox_step.purge) (simp add: mailbox_view_def d)
    then show ?thesis using d by (simp add: purge(1) mailbox_view_def)
  next
    case close
    then show ?thesis by (simp add: mailbox_view_def sqlite_Close_def)
  qed
qed

text \<open>The rows in the midst of a move, with one poller set apart.\<close>

lemma refusals_memD: "x \<in># refusals_of ps \<Longrightarrow> \<exists>k < length ps. \<exists>h. po_at (ps ! k) = Refusing (fst x) h (snd x)"
proof (induction ps)
  case (Cons p ps)
  then consider "x \<in># refusal_of p" | "x \<in># refusals_of ps" by auto
  then show ?case
  proof cases
    case 1
    then show ?thesis by (intro exI [of _ 0]) (auto simp: refusal_of_def split: stage.splits)
  next
    case 2
    with Cons.IH show ?thesis by fastforce
  qed
qed simp

lemma in_move_plus [simp]: "in_move (R + S) = in_move R \<union> in_move S" "in_move {#} = {}"
  by (auto simp: in_move_def)

lemma moves_apart:
  assumes "holders_inv d ps" "j < length ps"
  obtains M where "in_move (refusals_of ps) = in_move (refusal_of (ps ! j)) \<union> M"
    "\<And>p. in_move (refusals_of (ps[j := p])) = in_move (refusal_of p) \<union> M"
    "\<And>i. held_id (po_at (ps ! j)) = Some i \<Longrightarrow> i \<notin> M"
proof
  let ?t = "(ps ! j)\<lparr>po_at := Ticking\<rparr>"
  let ?M = "in_move (refusals_of (ps[j := ?t]))"
  have r: "refusals_of (ps[j := p]) = refusals_of (ps[j := ?t]) + refusal_of p" for p
    using refusals_update [of j "ps[j := ?t]" p] assms(2) by simp
  show "in_move (refusals_of (ps[j := p])) = in_move (refusal_of p) \<union> ?M" for p
    by (subst r) auto
  from this [of "ps ! j"] show "in_move (refusals_of ps) = in_move (refusal_of (ps ! j)) \<union> ?M" by simp
  show "i \<notin> ?M" if h: "held_id (po_at (ps ! j)) = Some i" for i
  proof
    assume "i \<in> ?M"
    then obtain k g where k: "k < length ps" "po_at (ps[j := ?t] ! k) = Refusing i g Copied"
      using refusals_memD [of "(i, Copied)" "ps[j := ?t]"] by (auto simp: in_move_def)
    then have "k \<noteq> j" using assms(2) by auto
    with k holders_unique [OF assms(1) k(1) assms(2) _ h] show False by simp
  qed
qed

lemma moves_below:
  assumes "holders_inv d ps" "wf_db d" "i \<in> in_move (refusals_of ps)"
  shows "i < next_id d"
proof -
  from assms(3) obtain k h where k: "k < length ps" "po_at (ps ! k) = Refusing i h Copied"
    using refusals_memD [of "(i, Copied)" ps] by (auto simp: in_move_def)
  then have "locked_row (i, fst h) d" using holders_locked [OF assms(1) k(1)] by simp
  with assms(2) show ?thesis by (auto simp: locked_row_def wf_db_def list_all_iff)
qed

text \<open>A held row is in the table, and a row leaves the waiting ones by itself.\<close>

lemma held_row:
  assumes "holders_inv d ps" "wf_db d" "j < length ps" "held_id (po_at (ps ! j)) = Some i"
  obtains r where "find_row i d = Some r"
proof -
  from assms(4) obtain u where "held_until (po_at (ps ! j)) = Some (i, u)" by (auto simp: held_id_until)
  from holders_locked [OF assms(1,3) this] obtain r where "r \<in> set (messages d)" "row_id r = i" by (auto simp: locked_row_def)
  with find_row_unique [OF assms(2)] that show thesis by metis
qed

lemma items_in_take:
  assumes "wf_db d" "find_row i d = Some r" "i \<notin> M"
  shows "items_in (- M) d = items_in (- insert i M) d + {#(row_topic r, row_payload r)#}"
proof -
  have "insert i (- M) = - M" "- M - {i} = - insert i M" using assms(3) by auto
  with items_in_row [OF assms(1), of i "- M"] assms(2) show ?thesis by simp
qed

lemma settle_mailbox:
  fixes s :: "(sqlite_sys, int \<times> message) lifecycle"
  assumes "holders_inv (lc_rows s) (lc_pollers s)" "wf_db (lc_rows s)" "lc_closing s \<noteq> DbClosed" "j < length (lc_pollers s)"
  shows "mailbox_step\<^sup>=\<^sup>= (mailbox_of s) (mailbox_of (poll_settle sqlite_ops out j s))"
proof (cases "\<exists>i. waiting_id (po_at (lc_pollers s ! j)) = Some i \<and> outcome_ready out (lc_pollers s ! j) s")
  case False
  then have "poll_settle sqlite_ops out j s = s" by (auto simp: poll_settle_def Let_def split: option.splits)
  then show ?thesis by simp
next
  case True
  let ?p = "lc_pollers s ! j" and ?s = "poll_settle sqlite_ops out j s" and ?q = "lc_queue s"
  from True obtain i where i: "waiting_id (po_at ?p) = Some i" "outcome_ready out ?p s" by blast
  obtain M where M: "in_move (refusals_of (lc_pollers s)) = in_move (refusal_of ?p) \<union> M"
    "\<And>p. in_move (refusals_of ((lc_pollers s)[j := p])) = in_move (refusal_of p) \<union> M" "i \<notin> M"
    using moves_apart [OF assms(1,4)] waiting_held [OF i(1)] by metis
  have "in_move (refusal_of (?p\<lparr>po_at := after_outcome out (po_at ?p)\<rparr>)) = {}"
    by (auto simp: after_outcome_def in_move_def split: stage.splits)
  moreover have "lc_pollers ?s = (lc_pollers s)[j := ?p\<lparr>po_at := after_outcome out (po_at ?p)\<rparr>]"
    using i by (simp add: poll_settle_def Let_def)
  ultimately have m: "mailbox_of s = mailbox_view M ?q" "mailbox_of ?s = mailbox_view M (lc_queue ?s)"
    using i(1) by (simp_all add: mailbox_of_def M)
  have q: "lc_queue ?s = (if out = Nacked then ?q else op_settle sqlite_ops (po_cancelled ?p) out i ?q)"
    using i assms(3) by (simp add: poll_settle_def Let_def)
  show ?thesis
  proof (cases out)
    case Acked
    obtain r where r: "find_row i (lc_rows s) = Some r" using held_row [OF assms(1,2,4) waiting_held [OF i(1)]] by blast
    let ?x = "(row_topic r, row_payload r)"
    note w = items_in_take [OF assms(2) r M(3)]
    have d: "- insert i M = - M - {i}" by auto
    have "mailbox_step (mailbox_view M ?q) ((mailbox_view M ?q)\<lparr>mb_waiting := mb_waiting (mailbox_view M ?q) - {#?x#},
        mb_accepted := mb_accepted (mailbox_view M ?q) + {#?x#}\<rparr>)"
      by (rule mailbox_step.accept) (simp add: mailbox_view_def w)
    then show ?thesis
      using Acked r items_delete_row(2) [OF assms(2), of i] w unfolding m q d
      by (simp add: mailbox_view_def sqlite_ops_def sqlite_handleMessageResult_def sqlite_ackMessage_def items_in_delete row_items_def)
  next
    case Nacked
    then show ?thesis unfolding m q by simp
  qed (unfold m q, simp_all add: mailbox_view_def sqlite_ops_def sqlite_handleMessageResult_def sqlite_unlockMessage_def
      items_in_update [OF keeps_lock] items_update_row [OF keeps_lock])
qed

text \<open>
  In a refusal, the insertion into the dead letter queue is the burial of the item; the other parts
  do not show, the deletion included.
\<close>

lemma refuse_mailbox:
  fixes s :: "(sqlite_sys, int \<times> message) lifecycle"
  assumes "holders_inv (lc_rows s) (lc_pollers s)" "wf_db (lc_rows s)" "lc_closing s \<noteq> DbClosed" "j < length (lc_pollers s)"
  shows "mailbox_step\<^sup>=\<^sup>= (mailbox_of s) (mailbox_of (poll_refuse sqlite_ops j s))"
proof (cases "po_at (lc_pollers s ! j)")
  case (Refusing i h c)
  let ?p = "lc_pollers s ! j" and ?s = "poll_refuse sqlite_ops j s" and ?q = "lc_queue s"
  obtain c' t' where n: "sqlite_nack_part i c (sys_t ?q) = (c', t')" by (cases "sqlite_nack_part i c (sys_t ?q)")
  note s' = poll_refuse_sqlite [OF Refusing assms(3) n]
  have held: "held_id (po_at ?p) = Some i" by (simp add: Refusing)
  obtain M where M: "in_move (refusals_of (lc_pollers s)) = in_move (refusal_of ?p) \<union> M"
    "\<And>p. in_move (refusals_of ((lc_pollers s)[j := p])) = in_move (refusal_of p) \<union> M" "i \<notin> M"
    using moves_apart [OF assms(1,4)] held by metis
  have a: "refusal_of (?p\<lparr>po_at := (case c' of None \<Rightarrow> Ticking | Some k \<Rightarrow> Refusing i h k)\<rparr>) = at_point i c'"
    by (simp add: at_point_def split: option.split)
  have m: "mailbox_of s = mailbox_view (in_move {#(i, c)#} \<union> M) ?q"
    "mailbox_of ?s = mailbox_view (in_move (at_point i c') \<union> M) (lc_queue ?s)"
    using Refusing by (simp_all add: mailbox_of_def M(1)) (simp add: s'(1) M(2) a)
  have v: "mailbox_view A (lc_queue ?s) = (mailbox_view A ?q)\<lparr>mb_waiting := items_in (- A) (sq_db t'), mb_dead := dead_items (sq_db t')\<rparr>" for A
    by (simp add: mailbox_view_def s'(2-5))
  obtain r where r: "find_row i (lc_rows s) = Some r" using held_row [OF assms(1,2,4) held] by blast
  let ?x = "(row_topic r, row_payload r)"
  show ?thesis
  proof (cases c)
    case Limit
    then have k: "in_move {#(i, c)#} = {}" "in_move (at_point i c') = {i}"
      "dead_items (sq_db t') = dead_items (lc_rows s) + {#?x#}" "items_in A (sq_db t') = items_in A (lc_rows s)" for A
      using n r items_insert_dead(2) [of "current_timestamp (sq_now (sys_t ?q))" i "lc_rows s"]
      by (auto simp: sqlite_nack_part_def in_move_def at_point_def)
    note w = items_in_take [OF assms(2) r M(3)]
    have "mailbox_step (mailbox_view M ?q) ((mailbox_view M ?q)\<lparr>mb_waiting := mb_waiting (mailbox_view M ?q) - {#?x#},
        mb_dead := mb_dead (mailbox_view M ?q) + {#?x#}\<rparr>)"
      by (rule mailbox_step.bury) (simp add: mailbox_view_def w)
    then show ?thesis unfolding m v by (simp add: mailbox_view_def k w)
  next
    case Copied
    then have k: "in_move {#(i, c)#} = {i}" "in_move (at_point i c') = {}" "sq_db t' = delete_row i (lc_rows s)"
      using n by (auto simp: sqlite_nack_part_def in_move_def at_point_def)
    have "- insert i M = - M - {i}" by auto
    then have "mailbox_of ?s = mailbox_of s"
      unfolding m v by (simp add: mailbox_view_def k items_in_delete items_delete_row(2) [OF assms(2)])
    then show ?thesis by simp
  next
    case Asked
    then have "in_move {#(i, c)#} = {}" "in_move (at_point i c') = {}" "t' = sys_t ?q"
      using n by (auto simp: sqlite_nack_part_def in_move_def at_point_def split: option.splits if_splits)
    then have "mailbox_of ?s = mailbox_of s" unfolding m v by (simp add: mailbox_view_def)
    then show ?thesis by simp
  next
    case (Below b)
    then have "in_move {#(i, c)#} = {}" "in_move (at_point i c') = {}" "t' = sys_t ?q"
      using n by (auto simp: sqlite_nack_part_def in_move_def at_point_def Let_def)
    then have "mailbox_of ?s = mailbox_of s" unfolding m v by (simp add: mailbox_view_def)
    then show ?thesis by simp
  next
    case (Due b)
    then have "in_move {#(i, c)#} = {}" "in_move (at_point i c') = {}" "items_in A (sq_db t') = items_in A (lc_rows s)"
      "dead_items (sq_db t') = dead_items (lc_rows s)" for A
      using n by (auto simp: sqlite_nack_part_def in_move_def at_point_def items_in_update [OF keeps_retry] items_update_row [OF keeps_retry])
    then have "mailbox_of ?s = mailbox_of s" unfolding m v by (simp add: mailbox_view_def)
    then show ?thesis by simp
  qed
qed (simp_all add: poll_refuse_def)

lemma mailbox_of_same:
  assumes "lc_queue s' = lc_queue s" "refusals_of (lc_pollers s') = refusals_of (lc_pollers s)"
  shows "mailbox_step\<^sup>=\<^sup>= (mailbox_of s) (mailbox_of s')"
  using assms by (simp add: mailbox_of_def)

lemma tick_mailbox:
  assumes "j < length (lc_pollers s)"
  shows "mailbox_of (poll_tick sqlite_ops j s) = mailbox_of s"
proof -
  have v: "mailbox_view M (q\<lparr>sys_t := t'\<rparr>) = mailbox_view M q" if "sqlite_fetchAndLockMessage topic (sys_t q) = (r, t')" for topic r t' M q
    using that fetch_None fetch_Some(2)
    by (cases r) (fastforce simp: mailbox_view_def items_in_update [OF keeps_lock] items_update_row [OF keeps_lock])+
  show ?thesis
    using assms by (auto simp: mailbox_of_def poll_tick_def Let_def sqlite_ops_def refusals_same v split: option.splits prod.splits)
qed

lemma mailbox_lc_step:
  assumes "lc_step sqlite_ops undisturbed s s'" "wf_db (lc_rows s)" "holders_inv (lc_rows s) (lc_pollers s)" "lc_closing s \<noteq> DbClosed"
  shows "mailbox_step\<^sup>=\<^sup>= (mailbox_of s) (mailbox_of s')"
  using assms(1)
proof cases
  case own
  from own(2) show ?thesis
  proof cases
    case (return j)
    then show ?thesis by (intro mailbox_of_same) (auto simp: poll_return_def Let_def refusals_same)
  next
    case (give_up j)
    then show ?thesis using settle_mailbox [OF assms(3,2,4)] by simp
  next
    case (refuse j)
    then show ?thesis using refuse_mailbox [OF assms(3,2,4)] by simp
  next
    case advance
    then show ?thesis by (intro mailbox_of_same) (auto simp: Close_advance_def split: closing.splits)
  qed
next
  case (tick j)
  then show ?thesis using tick_mailbox by simp
next
  case (settle j out)
  then show ?thesis using settle_mailbox [OF assms(3,2,4)] by simp
next
  case close
  then show ?thesis by (simp add: Close_flag_def sqlite_ops_def mailbox_of_def mailbox_view_def sqlite_Close_def)
next
  case (environment q)
  have "\<And>i. i \<in> in_move (refusals_of (lc_pollers s)) \<Longrightarrow> i < next_id (lc_rows s)"
    using moves_below [OF assms(3,2)] by blast
  with undisturbed_view [OF environment(3)] show ?thesis by (simp add: environment(1) mailbox_of_def)
next
  case (start k c)
  then show ?thesis
    by (intro mailbox_of_same) (auto simp: Subscribe_start_def refusals_append refusal_of_def split: subscribing.splits)
qed (intro mailbox_of_same; auto simp: Subscribe_check_def Subscribe_store_def poll_hand_def cancel_context_def Let_def refusals_same
    split: subscribing.splits option.splits stage.splits)+

lemma closed_for_good:
  "lc_step sqlite_ops env s s' \<Longrightarrow> lc_closing s = DbClosed \<Longrightarrow> lc_inv s \<Longrightarrow> lc_closing s' = DbClosed"
proof (induction rule: lc_step.induct)
  case (own s s')
  from own.hyps(2) show ?case
    by cases (use own.prems in \<open>auto simp: lc_defs Let_def split: option.splits stage.splits\<close>)
qed (auto simp: lc_defs lc_inv_def Let_def split: option.splits prod.splits stage.splits subscribing.splits)

lemma punctual_inv: "punctual_reach cfg now s \<Longrightarrow> lc_inv s"
proof (induction rule: punctual_reach.induct)
  case init
  then show ?case by (simp add: lc_inv_def lc_New_def)
next
  case (step s s')
  then show ?case using lc_step_inv by blast
qed

text \<open>
  C7. The running transport over SQLite is a mailbox, as long as outcomes come in time. Every run of
  subscribers, pollers, handlers and a closing, with the statements of the refusals interleaved in
  any way, is one of the system of single statements, so that nothing is lost. While moreover
  every outcome, down to the last statement of a refusal, comes before its lock runs out, no other
  process polls the table and the database is open, the run is one of the mailbox: each published
  item is accepted, buried, revived or purged one at a time, a refusal's copy and deletion
  appear as one burial, and what was posted is what waits, is dead, was accepted or was purged.
\<close>

theorem sqlite_running_refines:
  assumes "lc_reach sqlite_ops sqlite_step (sqlite_init cfg now) s"
  shows "sqlite_reach cfg now (lc_system s)
    \<and> (punctual_reach cfg now s \<longrightarrow> lc_closing s \<noteq> DbClosed \<longrightarrow>
        mailbox_reach (mailbox_of s)
        \<and> sys_published (lc_queue s) = mb_waiting (mailbox_of s) + mb_dead (mailbox_of s) + mb_accepted (mailbox_of s) + mb_purged (mailbox_of s))"
proof (intro conjI impI)
  show "sqlite_reach cfg now (lc_system s)" using assms by (rule sqlite_running_system)
  assume p: "punctual_reach cfg now s" "lc_closing s \<noteq> DbClosed"
  then show m: "mailbox_reach (mailbox_of s)"
  proof (induction rule: punctual_reach.induct)
    case init
    have "mailbox_of (lc_New (sqlite_init cfg now) :: (sqlite_sys, int \<times> message) lifecycle) = empty_mailbox"
      by (simp add: mailbox_of_def mailbox_view_def lc_New_def sqlite_init_def sqlite_New_def empty_db_def empty_mailbox_def
          items_in_def dead_items_def)
    then show ?case by (simp add: mailbox_reach.init)
  next
    case (step s s')
    then have c: "lc_closing s \<noteq> DbClosed" using closed_for_good punctual_inv by blast
    with mailbox_lc_step [OF step.hyps(2)] punctual_holders [OF step.hyps(1)]
    have "mailbox_step\<^sup>=\<^sup>= (mailbox_of s) (mailbox_of s')" by simp
    with step.IH [OF c] show ?case by (auto intro: mailbox_reach.step)
  qed
  from mailbox_balance [OF m]
  show "sys_published (lc_queue s) = mb_waiting (mailbox_of s) + mb_dead (mailbox_of s) + mb_accepted (mailbox_of s) + mb_purged (mailbox_of s)"
    by (simp add: mailbox_of_def mailbox_view_def)
qed

section \<open>Runs to look at\<close>

datatype lc_action = Checks string | Stores nat | Starts nat | Ticks nat | Hands nat | Answers outcome nat
  | Refuses nat | Closes | Publishes string "message list" | Clock int

type_synonym sqlite_life = "(sqlite_sys, int \<times> message) lifecycle"

definition with_queue :: "sqlite_life \<Rightarrow> sqlite_sys \<Rightarrow> sqlite_life" where
  "with_queue s q = s\<lparr>lc_queue := q\<rparr>"

definition published_sys :: "string \<Rightarrow> message list \<Rightarrow> sqlite_sys \<Rightarrow> sqlite_sys" where
  "published_sys topic msgs q =
     (case sqlite_Publish topic msgs (sys_t q) of
        (r, t') \<Rightarrow> q\<lparr>sys_t := t', sys_published := sys_published q
          + (if r = None then mset (map (\<lambda>m. (topic, Payload m)) msgs) else {#})\<rparr>)"

fun perform :: "lc_action \<Rightarrow> sqlite_life \<Rightarrow> sqlite_life" where
  "perform (Checks topic) s = snd (Subscribe_check topic s)"
| "perform (Stores k) s = Subscribe_store k s"
| "perform (Starts k) s = Subscribe_start False k s"
| "perform (Ticks j) s = poll_tick sqlite_ops j s"
| "perform (Hands j) s = poll_hand j s"
| "perform (Answers out j) s = poll_settle sqlite_ops out j s"
| "perform (Refuses j) s = poll_refuse sqlite_ops j s"
| "perform Closes s = Close_flag sqlite_ops s"
| "perform (Publishes topic msgs) s = with_queue s (published_sys topic msgs (lc_queue s))"
| "perform (Clock now) s = with_queue s ((lc_queue s)\<lparr>sys_t := (sys_t (lc_queue s))\<lparr>sq_now := now\<rparr>\<rparr>)"

fun enabled :: "lc_action \<Rightarrow> sqlite_life \<Rightarrow> bool" where
  "enabled (Stores k) s \<longleftrightarrow> lc_panic s = None \<and> k < length (lc_subscribing s)"
| "enabled (Starts k) s \<longleftrightarrow> lc_panic s = None \<and> k < length (lc_subscribing s)"
| "enabled (Ticks j) s \<longleftrightarrow> lc_panic s = None \<and> j < length (lc_pollers s)"
| "enabled (Hands j) s \<longleftrightarrow> lc_panic s = None \<and> j < length (lc_pollers s)"
| "enabled (Answers out j) s \<longleftrightarrow> lc_panic s = None \<and> j < length (lc_pollers s)"
| "enabled (Refuses j) s \<longleftrightarrow> lc_panic s = None \<and> j < length (lc_pollers s)"
| "enabled (Clock now) s \<longleftrightarrow> lc_panic s = None \<and> sq_now (sys_t (lc_queue s)) \<le> now"
| "enabled _ s \<longleftrightarrow> lc_panic s = None"

fun all_enabled :: "(sqlite_life \<Rightarrow> bool) \<Rightarrow> lc_action list \<Rightarrow> sqlite_life \<Rightarrow> bool" where
  "all_enabled P [] s \<longleftrightarrow> True"
| "all_enabled P (a # as) s \<longleftrightarrow> enabled a s \<and> P (perform a s) \<and> all_enabled P as (perform a s)"

lemma perform_step: "enabled a s \<Longrightarrow> lc_step sqlite_ops undisturbed s (perform a s)"
proof (cases a)
  case (Publishes topic msgs)
  have "undisturbed (lc_queue s) (published_sys topic msgs (lc_queue s))"
    using undisturbed_publish [of topic msgs "lc_queue s"] by (simp add: published_sys_def split: prod.splits)
  then show "enabled a s \<Longrightarrow> ?thesis" using Publishes by (simp add: with_queue_def lc_step.environment)
qed (auto simp: with_queue_def intro: lc_step.intros own_step.refuse undisturbed_tick)

lemma runs_punctual:
  "all_enabled punctual as s \<Longrightarrow> punctual_reach cfg now s \<Longrightarrow> punctual_reach cfg now (fold perform as s)"
  by (induction as arbitrary: s) (auto intro: punctual_reach.step perform_step)

lemma runs_reach:
  "all_enabled (\<lambda>_. True) as s \<Longrightarrow> lc_reach sqlite_ops undisturbed q s \<Longrightarrow> lc_reach sqlite_ops undisturbed q (fold perform as s)"
  by (induction as arbitrary: s) (auto intro: lc_reach.step perform_step)

lemma runs_steps:
  "all_enabled (\<lambda>_. True) as s \<Longrightarrow> (lc_step sqlite_ops undisturbed)\<^sup>*\<^sup>* s (fold perform as s)"
  by (induction as arbitrary: s) (auto intro: converse_rtranclp_into_rtranclp perform_step)

text \<open>Two subscriptions to a topic, one message; the first poller takes it.\<close>

definition two_pollers :: "lc_action list" where
  "two_pollers = [Checks ''q'', Stores 0, Starts 0, Checks ''q'', Stores 0, Starts 0,
     Publishes ''q'' [\<lparr>UUID = ''u'', Metadata = [], Payload = ''p''\<rparr>], Ticks 0, Hands 0]"

definition plain_config :: sqlite_config where
  "plain_config = \<lparr>FilePath = ''f'', PollInterval = 0, MaxRetries = 3\<rparr>"

lemma subscribe_close_race_witness:
  "lc_panic (snd (Subscribe_check ''q'' (fold perform [Closes] (lc_New (sqlite_init plain_config 0))))) = None"
proof -
  let ?s = "fold perform [Closes] (lc_New (sqlite_init plain_config 0))"
  have "all_enabled (\<lambda>_. True) [Closes] (lc_New (sqlite_init plain_config 0))" by code_simp
  then have r: "lc_reach sqlite_ops undisturbed (sqlite_init plain_config 0) ?s" by (rule runs_reach) (rule lc_reach.init)
  have c: "lc_closed ?s" "lc_subscribing ?s = []" "lc_panic ?s = None" by code_simp+
  have "(lc_step sqlite_ops undisturbed)\<^sup>*\<^sup>* ?s (snd (Subscribe_check ''q'' ?s))"
    using c(3) by (intro r_into_rtranclp lc_step.check)
  with subscribe_close_race [of sqlite_ops undisturbed "sqlite_init plain_config 0" ?s] r c show ?thesis by simp
qed

text \<open>A refusal under way, with the row in both tables.\<close>

definition no_retry_config :: sqlite_config where
  "no_retry_config = \<lparr>FilePath = ''f'', PollInterval = 0, MaxRetries = 0\<rparr>"

definition in_midst :: sqlite_life where
  "in_midst = fold perform (two_pollers @ [Answers Nacked 0, Refuses 0, Refuses 0]) (lc_New (sqlite_init no_retry_config 0))"

lemma sqlite_running_refines_witness:
  "map row_payload (messages (lc_rows in_midst)) = [''p''] \<and> map dlq_payload (dead (lc_rows in_midst)) = [''p'']
   \<and> sqlite_reach no_retry_config 0 (lc_system in_midst)
   \<and> mailbox_reach (mailbox_of in_midst)
   \<and> sys_published (lc_queue in_midst) = mb_waiting (mailbox_of in_midst) + mb_dead (mailbox_of in_midst)
       + mb_accepted (mailbox_of in_midst) + mb_purged (mailbox_of in_midst)"
proof -
  let ?as = "two_pollers @ [Answers Nacked 0, Refuses 0, Refuses 0]"
  have e: "all_enabled punctual ?as (lc_New (sqlite_init no_retry_config 0))"
    "all_enabled (\<lambda>_. True) ?as (lc_New (sqlite_init no_retry_config 0))" by code_simp+
  have "lc_reach sqlite_ops undisturbed (sqlite_init no_retry_config 0) in_midst"
    unfolding in_midst_def by (rule runs_reach [OF e(2)]) (rule lc_reach.init)
  note r = undisturbed_reach [OF this]
  have p: "punctual_reach no_retry_config 0 in_midst"
    unfolding in_midst_def by (rule runs_punctual [OF e(1)]) (rule punctual_reach.init)
  have c: "lc_closing in_midst \<noteq> DbClosed" "map row_payload (messages (lc_rows in_midst)) = [''p'']"
    "map dlq_payload (dead (lc_rows in_midst)) = [''p'']" by code_simp+
  from sqlite_running_refines [OF r] p c show ?thesis by blast
qed

definition closing_run :: sqlite_life where
  "closing_run = fold perform (two_pollers @ [Closes]) (lc_New (sqlite_init plain_config 0))"

lemma sqlite_close_releases_witness:
  "\<exists>s'. (own_step sqlite_ops)\<^sup>*\<^sup>* closing_run s' \<and> map row_locked (messages (lc_rows s')) = [None]"
proof -
  have "all_enabled (\<lambda>_. True) (two_pollers @ [Closes]) (lc_New (sqlite_init plain_config 0))" by code_simp
  then have r: "lc_reach sqlite_ops undisturbed (sqlite_init plain_config 0) closing_run"
    unfolding closing_run_def by (rule runs_reach) (rule lc_reach.init)
  have c: "lc_closing closing_run = WaitingForPollers" "\<not> list_ex refusing (lc_pollers closing_run)"
    "map row_id (messages (lc_rows closing_run)) = [1]" "waiting_id (po_at (lc_pollers closing_run ! 0)) = Some 1"
    "0 < length (lc_pollers closing_run)"
    by code_simp+
  from sqlite_close_releases [OF r c(1)] c(2) obtain s' where s': "(own_step sqlite_ops)\<^sup>*\<^sup>* closing_run s'"
    "messages (lc_rows s') = map (unlocked (held_ids (lc_pollers closing_run))) (messages (lc_rows closing_run))"
    by blast
  have "map row_locked (map (unlocked (held_ids (lc_pollers closing_run))) (messages (lc_rows closing_run))) = [None]"
    using c(3-5) by (auto simp: unlocked_def held_ids_def Cons_eq_map_conv map_eq_Cons_conv)
  with s' show ?thesis by metis
qed

lemma sqlite_punctual_exclusive_witness:
  "held_id (po_at (lc_pollers (fold perform two_pollers (lc_New (sqlite_init plain_config 0))) ! 0)) = Some 1
   \<and> held_id (po_at (lc_pollers (fold perform two_pollers (lc_New (sqlite_init plain_config 0))) ! 1)) \<noteq> Some 1"
proof -
  let ?s = "fold perform two_pollers (lc_New (sqlite_init plain_config 0))"
  have "all_enabled punctual two_pollers (lc_New (sqlite_init plain_config 0))" by code_simp
  then have r: "punctual_reach plain_config 0 ?s" by (rule runs_punctual) (rule punctual_reach.init)
  have h: "0 < length (lc_pollers ?s)" "held_id (po_at (lc_pollers ?s ! 0)) = Some 1" "1 < length (lc_pollers ?s)"
    by code_simp+
  from sqlite_punctual_exclusive [OF r h(1,2)] h(2,3) show ?thesis by (metis zero_neq_one)
qed

text \<open>
  C14. A late answer breaks the lock of another. Let a handler have a row whose lock has run out, while
  another poller holds the same row within its time. If the late handler refuses it below the
  limit, the parts of the refusal leave the row unlocked, with one retry more and due after the backoff,
  while the other poller still holds it; and once it is due again and first in line, a tick of the
  first poller takes it, so that the row is in two hands, both within their time. If the late handler
  acknowledges, the row is gone under the other poller. (\<open>nackMessage\<close>, \<open>ackMessage\<close> and \<open>unlockMessage\<close>
  find the row by its id alone.)
\<close>

theorem late_answer_breaks_lock:
  assumes "j < length (lc_pollers s)" "k < length (lc_pollers s)" "k \<noteq> j" "lc_panic s = None" "lc_closing s \<noteq> DbClosed"
    "po_at (lc_pollers s ! j) = Handed i (uj, mj)" "uj < sq_now (sys_t (lc_queue s))"
    "held_until (po_at (lc_pollers s ! k)) = Some (i, uk)" "sq_now (sys_t (lc_queue s)) \<le> uk"
    "find_row i (lc_rows s) = Some r" "0 \<le> row_retries r"
    "row_retries r < MaxRetries (sq_config (sys_t (lc_queue s)))" "MaxRetries (sq_config (sys_t (lc_queue s))) \<le> 9223372036"
  defines "due \<equiv> sq_now (sys_t (lc_queue s)) + (row_retries r + 1) * second"
    and "s' \<equiv> fold perform [Answers Nacked j, Refuses j, Refuses j, Refuses j] s"
  shows "(lc_step sqlite_ops undisturbed)\<^sup>*\<^sup>* s s'
    \<and> find_row i (lc_rows s') = Some (r\<lparr>row_retries := row_retries r + 1, row_locked := None, row_available := due\<rparr>)
    \<and> held_until (po_at (lc_pollers s' ! k)) = Some (i, uk)
    \<and> (\<forall>t x. due \<le> t \<and> t \<le> uk \<and> \<not> po_cancelled (lc_pollers s ! j)
          \<and> next_row (po_topic (lc_pollers s ! j)) t (lc_rows s') = Some x \<and> row_id x = i \<longrightarrow>
        held_until (po_at (lc_pollers (perform (Ticks j) (perform (Clock t) s')) ! j)) = Some (i, t + 30 * second)
        \<and> held_until (po_at (lc_pollers (perform (Ticks j) (perform (Clock t) s')) ! k)) = Some (i, uk))
    \<and> find_row i (lc_rows (perform (Answers Acked j) s)) = None
    \<and> held_until (po_at (lc_pollers (perform (Answers Acked j) s) ! k)) = Some (i, uk)"
proof -
  let ?p = "lc_pollers s ! j" and ?t = "sys_t (lc_queue s)" and ?h = "(uj, mj)"
  let ?b = "Below (row_retries r)"
  define s1 where "s1 = perform (Answers Nacked j) s"
  have s1: "s1 = set_poller j (?p\<lparr>po_at := Refusing i ?h Asked\<rparr>) s"
    using assms(6) by (simp add: s1_def poll_settle_def outcome_ready_def after_outcome_def Let_def)
  have s1q: "lc_queue s1 = lc_queue s" "po_at (lc_pollers s1 ! j) = Refusing i ?h Asked" "lc_closing s1 \<noteq> DbClosed"
    using assms(1,5) by (simp_all add: s1)
  have keep: "lc_panic (poll_refuse sqlite_ops j w) = lc_panic w" "lc_closing (poll_refuse sqlite_ops j w) = lc_closing w"
    "length (lc_pollers (poll_refuse sqlite_ops j w)) = length (lc_pollers w)" for w
    by (simp_all add: poll_refuse_def Let_def split: stage.split prod.split option.split)
  define s2 where "s2 = poll_refuse sqlite_ops j s1"
  have "sqlite_nack_part i Asked (sys_t (lc_queue s1)) = (Some ?b, ?t)"
    using assms(10,12) by (simp add: s1q sqlite_nack_part_def)
  note n2 = poll_refuse_sqlite [OF s1q(2,3) this, folded s2_def]
  have s2q: "po_at (lc_pollers s2 ! j) = Refusing i ?h ?b" "lc_closing s2 \<noteq> DbClosed"
    using n2(1) assms(1) s1q(3) keep(2) [of s1] by (simp_all add: s1 s2_def)
  define s3 where "s3 = poll_refuse sqlite_ops j s2"
  have "in_i64 ((row_retries r + 1) * second)" using assms(11-13) by (simp add: in_i64_def)
  then have "sqlite_nack_part i ?b (sys_t (lc_queue s2)) = (Some (Due due), ?t)"
    by (simp add: n2(2) sqlite_nack_part_def Let_def due_def)
  note n3 = poll_refuse_sqlite [OF s2q this, folded s3_def]
  have s3q: "po_at (lc_pollers s3 ! j) = Refusing i ?h (Due due)" "lc_closing s3 \<noteq> DbClosed"
    using n3(1) n2(1) assms(1) s2q(2) keep(2) [of s2] by (simp_all add: s1 s3_def)
  define d where "d = update_row i (\<lambda>x. x\<lparr>row_retries := row_retries x + 1, row_locked := None, row_available := due\<rparr>) (lc_rows s)"
  have s': "s' = poll_refuse sqlite_ops j s3" by (simp add: s'_def s1_def s2_def s3_def)
  have "sqlite_nack_part i (Due due) (sys_t (lc_queue s3)) = (None, ?t\<lparr>sq_db := d\<rparr>)"
    by (simp add: n3(2) sqlite_nack_part_def d_def)
  note n4 = poll_refuse_sqlite [OF s3q this, folded s']
  have q': "lc_pollers s' = (lc_pollers s)[j := ?p\<lparr>po_at := Ticking\<rparr>]" "sys_t (lc_queue s') = ?t\<lparr>sq_db := d\<rparr>" "lc_closing s' \<noteq> DbClosed"
    using n4(1,2) n3(1) n2(1) assms(1) s3q(2) keep(2) [of s3] by (simp_all add: s1 s')
  have "all_enabled (\<lambda>_. True) [Answers Nacked j, Refuses j, Refuses j, Refuses j] s"
    using assms(1,4) by (simp add: s1_def [simplified, symmetric] s1 keep)
  then have run: "(lc_step sqlite_ops undisturbed)\<^sup>*\<^sup>* s s'" unfolding s'_def by (rule runs_steps)
  have f: "find_row i d = Some (r\<lparr>row_retries := row_retries r + 1, row_locked := None, row_available := due\<rparr>)"
    using assms(10) by (simp add: d_def find_update)
  have tick: "held_until (po_at (lc_pollers (perform (Ticks j) (perform (Clock t) s')) ! j)) = Some (i, t + 30 * second)
      \<and> held_until (po_at (lc_pollers (perform (Ticks j) (perform (Clock t) s')) ! k)) = Some (i, uk)"
    if "\<not> po_cancelled ?p" "next_row (po_topic ?p) t (lc_rows s') = Some x" "row_id x = i" for t x
    using that assms(1-3,8) q'
    by (simp add: poll_tick_def with_queue_def sqlite_ops_def sqlite_fetchAndLockMessage_def Let_def)
  have "find_row i (lc_rows (perform (Answers Acked j) s)) = None"
    "held_until (po_at (lc_pollers (perform (Answers Acked j) s) ! k)) = Some (i, uk)"
    using assms(1-3,5,6,8) by (simp_all add: poll_settle_def outcome_ready_def after_outcome_def Let_def sqlite_ops_def
        sqlite_handleMessageResult_def sqlite_ackMessage_def find_delete)
  with run f tick q' assms(1-3,8) show ?thesis by auto
qed

definition late_refusal :: "lc_action list" where
  "late_refusal = two_pollers @ [Clock (31 * second), Ticks 1, Hands 1]"

lemma late_answer_breaks_lock_witness:
  "let s = fold perform (late_refusal @ [Answers Nacked 0, Refuses 0, Refuses 0, Refuses 0, Clock (32 * second), Ticks 0])
       (lc_New (sqlite_init plain_config 0))
   in held_until (po_at (lc_pollers s ! 0)) = Some (1, 62 * second) \<and> held_until (po_at (lc_pollers s ! 1)) = Some (1, 61 * second)"
proof -
  define s where "s = fold perform late_refusal (lc_New (sqlite_init plain_config 0))"
  let ?as = "[Answers Nacked 0, Refuses 0, Refuses 0, Refuses 0]"
  have h: "(0 :: nat) < length (lc_pollers s)" "1 < length (lc_pollers s)" "(1 :: nat) \<noteq> 0" "lc_panic s = None" "lc_closing s \<noteq> DbClosed"
    "held_until (po_at (lc_pollers s ! 1)) = Some (1, 61 * second)" "sq_now (sys_t (lc_queue s)) = 31 * second"
    "MaxRetries (sq_config (sys_t (lc_queue s))) = 3" "\<not> po_cancelled (lc_pollers s ! 0)"
    unfolding s_def by code_simp+
  have "held_until (po_at (lc_pollers s ! 0)) = Some (1, 30 * second)" "outcome_ready Nacked (lc_pollers s ! 0) s"
    "\<not> refusing (lc_pollers s ! 0)"
    unfolding s_def by code_simp+
  then obtain mj where p: "po_at (lc_pollers s ! 0) = Handed 1 (30 * second, mj)"
    by (cases "po_at (lc_pollers s ! 0)") (auto simp: outcome_ready_def refusing_def)
  have "map_option row_retries (find_row 1 (lc_rows s)) = Some 0" unfolding s_def by code_simp
  then obtain r where r: "find_row 1 (lc_rows s) = Some r" "row_retries r = 0" by auto
  have "map_option row_id (next_row (po_topic (lc_pollers s ! 0)) (32 * second) (lc_rows (fold perform ?as s))) = Some 1"
    unfolding s_def by code_simp
  then obtain x where x: "next_row (po_topic (lc_pollers s ! 0)) (32 * second) (lc_rows (fold perform ?as s)) = Some x" "row_id x = 1"
    by auto
  have "30 * second < sq_now (sys_t (lc_queue s))" "sq_now (sys_t (lc_queue s)) \<le> 61 * second" "0 \<le> row_retries r"
    "row_retries r < MaxRetries (sq_config (sys_t (lc_queue s)))" "MaxRetries (sq_config (sys_t (lc_queue s))) \<le> 9223372036"
    "sq_now (sys_t (lc_queue s)) + (row_retries r + 1) * second \<le> 32 * second" "32 * second \<le> 61 * second"
    by (simp_all add: h(7,8) r(2))
  with late_answer_breaks_lock [OF h(1-5) p _ h(6) _ r(1)] h(9) x
  have "held_until (po_at (lc_pollers (perform (Ticks 0) (perform (Clock (32 * second)) (fold perform ?as s))) ! 0)) = Some (1, 32 * second + 30 * second)
      \<and> held_until (po_at (lc_pollers (perform (Ticks 0) (perform (Clock (32 * second)) (fold perform ?as s))) ! 1)) = Some (1, 61 * second)"
    by blast
  then show ?thesis by (simp add: Let_def s_def del: perform.simps)
qed

end
