(* ===== verification/Ce_Flows.thy ===== *)
theory Ce_Flows
  imports Ce_Api
begin

text \<open>
  CloudEvents over several deliveries: what becomes of an event that is published, decoded by its
  consumer, published again by the wrapper around the handler, and so on. The functions are those
  of \<open>Ce_Api\<close>; this theory follows a message from one to the next.
\<close>

section \<open>Events that travel\<close>

text \<open>
  Events as the calls of the library make them: data and extensions that can be encoded and decoded again
  and again, an attempt number and a delay as integers.
\<close>

coinductive settling :: "any \<Rightarrow> bool" where
  "json_stable v = Some d \<Longrightarrow> wf_any d \<Longrightarrow> settling d \<Longrightarrow> settling v"

definition settling_exts :: "ext_map \<Rightarrow> bool" where
  "settling_exts m \<longleftrightarrow> (\<forall>k v. map_of m k = Some v \<longrightarrow> k \<notin> {ExtAttempt, ExtDelayMs} \<longrightarrow> settling v)"

definition travelling :: "int \<Rightarrow> event \<Rightarrow> bool" where
  "travelling a e \<longleftrightarrow>
     wf_event e \<and> Validate e = None \<and> settling (Data e) \<and> settling_exts (exts e)
     \<and> (map_of (exts e) ExtAttempt = Some (AInt a) \<or> (map_of (exts e) ExtAttempt = None \<and> a = 0))
     \<and> (\<forall>v. map_of (exts e) ExtDelayMs = Some v \<longrightarrow> (\<exists>n. v = AInt64 n \<and> \<bar>n\<bar> \<le> 2 ^ 53))"

text \<open>The event its consumer is given on the delivery with number \<open>a\<close>.\<close>

definition arrived :: "int \<Rightarrow> event \<Rightarrow> event \<Rightarrow> bool" where
  "arrived a e d \<longleftrightarrow>
     wf_event d \<and> Validate d = None \<and> json_stable (Data e) = Some (Data d) \<and> Type d = Type e \<and> ID d = ID e \<and> Source d = Source e
     \<and> map_of (exts d) ExtAttempt = Some (AInt a)
     \<and> (\<forall>k. k \<notin> {ExtAttempt, ExtDelayMs} \<longrightarrow> map_of (exts d) k = Option.bind (map_of (exts e) k) json_stable)
     \<and> (map_of (exts e) ExtDelayMs = None \<longrightarrow> map_of (exts d) ExtDelayMs = None)"

lemma settling_fixed: "json_stable v = Some v \<Longrightarrow> wf_any v \<Longrightarrow> settling v"
  by (coinduction arbitrary: v) auto

lemma settling_next: "settling v \<Longrightarrow> json_stable v = Some d \<Longrightarrow> settling d"
  by (erule settling.cases) simp

lemma Validate_exts [simp]:
  "Validate (WithExtension e k v) = Validate e" "Validate (e\<lparr>Extensions := x\<rparr>) = Validate e"
  "Validate (e\<lparr>Data := v\<rparr>) = Validate e"
  by (simp_all add: Validate_def WithExtension_def)

lemma settling_json: "settling v \<Longrightarrow> (\<exists>d. json_stable v = Some d \<and> wf_any d \<and> settling d) \<and> to_json v \<noteq> None"
  by (erule settling.cases) (auto simp: json_stable_def bind_eq_Some_conv)

lemma text_settles [simp]: "json_stable (AStr s) = Some (AStr s)" "settling (AStr s)" "json_stable (ABool b) = Some (ABool b)" "settling (ABool b)"
  by (simp_all add: settling_fixed json_stable_def)

lemma those_all: "list_all (\<lambda>x. x \<noteq> None) xs \<Longrightarrow> those xs \<noteq> None"
  by (induction xs) (auto split: option.splits)

text \<open>An event whose data and extensions can be encoded can be sent.\<close>

lemma marshal_defined:
  assumes "wf_event e" "Data e = ANil \<or> to_json (Data e) \<noteq> None"
    "\<And>k v. map_of (exts e) k = Some v \<Longrightarrow> to_json v \<noteq> None"
  shows "MarshalJSON e \<noteq> None"
proof -
  have v: "to_json v \<noteq> None" if "(k, v) \<in> set (event_members e)" for k v
  proof (cases "k \<in> knownCloudEventsAttrs")
    case True
    with that members_lookup [OF assms(1), of k] wf_members [of e] have "map_of (event_attrs e) k = Some v"
      by (metis map_of_eq_Some_iff)
    with True assms(2) show ?thesis
      by (auto simp: knownCloudEventsAttrs_def event_attrs_lookup split: if_splits)
  next
    case False
    with that members_lookup [OF assms(1), of k] wf_members [of e] have "map_of (exts e) k = Some v"
      by (metis map_of_eq_Some_iff)
    then show ?thesis by (rule assms(3))
  qed
  have "list_all (\<lambda>x. x \<noteq> None) (map (\<lambda>kv. map_option (Pair (fst kv)) (to_json (snd kv))) (event_members e))"
    using v by (auto simp: list_all_iff)
  from those_all [OF this] show ?thesis by (auto simp: MarshalJSON_def event_members_def)
qed

lemma wf_unmarshal_exts: "wf_map acc \<Longrightarrow> wf_map (unmarshal_exts m acc)"
  by (induction m acc rule: unmarshal_exts.induct) (auto split: option.splits)

lemma wf_metadata_exts: "wf_map acc \<Longrightarrow> wf_map (metadata_exts m acc)"
  by (induction m acc rule: metadata_exts.induct) auto

lemma wf_decoded: "wf_map (exts (tryFromWatermillMessage msg))"
proof (cases "UnmarshalJSON zero_event (Payload msg)")
  case (Inl err)
  then show ?thesis by (simp add: tryFromWatermillMessage_def synthetic_event_def wf_metadata_exts)
next
  case (Inr e)
  then have "wf_map (exts e)"
    by (auto simp: UnmarshalJSON_def sbind_Inr unmarshalExtensions_def wf_unmarshal_exts)
  with Inr show ?thesis
    by (cases "Extensions e") (simp_all add: tryFromWatermillMessage_def synthetic_event_def wf_metadata_exts exts_def)
qed

lemma ext_keys_unknown [simp]: "ExtAttempt \<notin> knownCloudEventsAttrs" "ExtDelayMs \<notin> knownCloudEventsAttrs"
  by (simp_all add: ext_keys knownCloudEventsAttrs_def)

lemma ext_keys_distinct [simp]: "ExtAttempt \<noteq> ExtDelayMs" "ExtDelayMs \<noteq> ExtAttempt"
  by (simp_all add: ext_keys)

lemma travelling_attempt: "travelling a e \<Longrightarrow> GetAttempt e = a"
  by (auto simp: travelling_def GetAttempt_def GetExtensionInt_def GetExtension_exts)

text \<open>A travelling event is sent and arrives with its next attempt number.\<close>

lemma travels:
  assumes "travelling a e" "0 \<le> a" "a < 2 ^ 53"
  obtains m where "toWatermillMessage e = Inr m" "UUID m = ID e" "arrived (a + 1) e (delivered m)"
proof -
  note t = assms(1) [unfolded travelling_def]
  have s: "(\<exists>x. json_stable v = Some x \<and> wf_any x) \<and> to_json v \<noteq> None" if "map_of (exts e) k = Some v" for k v
  proof -
    consider "k = ExtAttempt" | "k = ExtDelayMs" | "k \<notin> {ExtAttempt, ExtDelayMs}" by blast
    then show ?thesis
    proof cases
      case 1
      with that t have "v = AInt a" by auto
      then show ?thesis using json_stable_int(1) [of a] assms(2,3) by auto
    next
      case 2
      with that t obtain n where "v = AInt64 n" "\<bar>n\<bar> \<le> 2 ^ 53" by auto
      then show ?thesis using json_stable_int(2) [of n] by auto
    next
      case 3
      with that t have "settling v" by (auto simp: settling_exts_def)
      then show ?thesis using settling_json by blast
    qed
  qed
  obtain da where da: "json_stable (Data e) = Some da" "wf_any da"
    using t by (auto elim: settling.cases)
  have "MarshalJSON e \<noteq> None"
    using t s da(1) by (intro marshal_defined) (auto simp: json_stable_def bind_eq_Some_conv)
  then obtain m where m: "toWatermillMessage e = Inr m" "UUID m = ID e"
    using t by (auto simp: toWatermill_Inr)
  obtain es where es: "tryFromWatermillMessage m = e\<lparr>Data := da, Extensions := Some es\<rparr>"
    "\<And>k. map_of es k = Option.bind (map_of (exts e) k) json_stable"
    using message_decodes [OF _ da(1) m(1)] t by blast
  have w: "wf_map es" using wf_decoded [of m] by (simp add: es(1))
  have att: "GetAttempt (tryFromWatermillMessage m) = a"
  proof (cases "map_of (exts e) ExtAttempt")
    case None
    with t have "a = 0" by auto
    with None show ?thesis by (simp add: es GetAttempt_def GetExtensionInt_def GetExtension_exts)
  next
    case (Some v)
    with t have "map_of es ExtAttempt = Some (AFloat (Fin (of_int a)))"
      using json_stable_int(1) [of a] assms(2,3) by (auto simp: es(2))
    moreover have "in_i64 a" using assms(2,3) by (simp add: in_i64_def)
    ultimately show ?thesis
      by (simp add: es(1) GetAttempt_def GetExtensionInt_def GetExtension_exts del: f64_int64.simps)
  qed
  have i: "i64 (a + 1) = a + 1" using assms(2,3) by (simp add: in_i64_def)
  have d: "delivered m = WithExtension (e\<lparr>Data := da, Extensions := Some es\<rparr>) ExtAttempt (AInt (a + 1))"
    using att by (simp add: delivered_def IncrementAttempt_def SetAttempt_def es(1) i Let_def)
  have l: "map_of (exts (delivered m)) k = (if k = ExtAttempt then Some (AInt (a + 1)) else Option.bind (map_of (exts e) k) json_stable)" for k
    by (simp add: d WithExtension_def es(2))
  have dec: "wf_any v" if "map_of es k = Some v" for k v
    using that es(2) [of k] s [of k] by (auto simp: bind_eq_Some_conv)
  have known: "k \<notin> knownCloudEventsAttrs" if "map_of es k = Some v" for k v
  proof -
    from that es(2) [of k] have "map_of (exts e) k \<noteq> None" by (cases "map_of (exts e) k") auto
    then show ?thesis using t by (auto simp: wf_event_def list_all_iff map_of_eq_None_iff)
  qed
  have "wf_event (e\<lparr>Data := da, Extensions := Some es\<rparr>)"
    using t w dec known da(2) by (auto simp: wf_event_def list_all_iff map_of_eq_Some_iff [OF w])
  then have "wf_event (delivered m)" unfolding d by (rule wf_event_With) simp_all
  moreover have "Validate (delivered m) = None" using t by (simp add: d)
  moreover have "map_of (exts (delivered m)) k = Option.bind (map_of (exts e) k) json_stable" if "k \<notin> {ExtAttempt, ExtDelayMs}" for k
    using that by (simp add: l)
  moreover have "Data (delivered m) = da" "Type (delivered m) = Type e" "ID (delivered m) = ID e" "Source (delivered m) = Source e"
    by (simp_all add: d ext_simps)
  ultimately have "arrived (a + 1) e (delivered m)"
    using l [of ExtAttempt] l [of ExtDelayMs] da(1) by (auto simp: arrived_def)
  with m show thesis by (rule that)
qed


section \<open>Dead letters circulate\<close>

lemma arrived_plain:
  assumes "arrived a e d" "travelling b e"
  shows "settling_exts (exts d)" "settling (Data d)" "GetAttempt d = a" "GetMaxAttempts d = DefaultMaxAttempts \<or> map_of (exts e) ExtMaxAttempts \<noteq> None"
proof -
  show "settling_exts (exts d)"
    unfolding settling_exts_def
  proof (intro allI impI)
    fix k v assume k: "map_of (exts d) k = Some v" "k \<notin> {ExtAttempt, ExtDelayMs}"
    with assms(1) obtain y where "map_of (exts e) k = Some y" "json_stable y = Some v"
      by (auto simp: arrived_def bind_eq_Some_conv)
    with assms(2) k(2) show "settling v" using settling_next by (auto simp: travelling_def settling_exts_def)
  qed
  show "settling (Data d)" "GetAttempt d = a"
    using assms settling_next by (auto simp: arrived_def travelling_def GetAttempt_def GetExtensionInt_def GetExtension_exts)
  have "ExtMaxAttempts \<notin> {ExtAttempt, ExtDelayMs}" by (simp add: ext_keys)
  then show "GetMaxAttempts d = DefaultMaxAttempts \<or> map_of (exts e) ExtMaxAttempts \<noteq> None"
    using assms(1) unfolding arrived_def
    by (cases "map_of (exts e) ExtMaxAttempts") (simp_all add: GetMaxAttempts_def GetExtensionInt_def GetExtension_exts)
qed

lemma exts_With: "exts (WithExtension e k v) = mput k v (exts e)"
  by (simp add: WithExtension_def)

lemma travelling_With:
  assumes "travelling a e" "settling v" "wf_any v" "k \<notin> knownCloudEventsAttrs" "k \<notin> {ExtAttempt, ExtDelayMs}"
  shows "travelling a (WithExtension e k v)"
  using assms wf_event_With [OF _ assms(4,3)]
  by (auto simp: travelling_def settling_exts_def ext_simps exts_With)

lemma arrived_travels:
  assumes "arrived a e d" "travelling b e" "map_of (exts e) ExtDelayMs = None"
  shows "travelling a d"
  using assms arrived_plain [OF assms(1,2)] by (simp add: travelling_def arrived_def)

lemma travelling_dead:
  assumes "travelling a e"
  shows "travelling a (PrepareForDLQ e topic err)"
proof -
  have k: "k \<notin> knownCloudEventsAttrs" "k \<notin> {ExtAttempt, ExtDelayMs}" if "k \<in> {ExtDeadLetter, ExtOriginalTopic, ExtErrorMessage}" for k
    using that by (auto simp: ext_keys knownCloudEventsAttrs_def)
  show ?thesis
    using assms by (auto simp: PrepareForDLQ_def Let_def SetDeadLetter_def SetOriginalTopic_def SetErrorMessage_def
        intro!: travelling_With k split: option.splits)
qed

lemma PrepareForDLQ_delay: "map_of (exts (PrepareForDLQ e t err)) ExtDelayMs = map_of (exts e) ExtDelayMs"
  by (simp add: PrepareForDLQ_def Let_def SetDeadLetter_def SetOriginalTopic_def SetErrorMessage_def WithExtension_def ext_keys
      split: option.splits)

text \<open>What a handler that dead-letters makes of the delivery with number \<open>a\<close>: the next message.\<close>

lemma dead_letter_hop:
  assumes "travelling a e" "0 \<le> a" "a + 1 < 2 ^ 53" "map_of (exts e) ExtDelayMs = None" "toWatermillMessage e = Inr m"
    "svc_publisher s = Some publish" "\<And>evt w. \<exists>w'. h evt w = (Some err, evt, w')" "fst (ClassifyError (Some err)) = ResultDeadLetter"
  obtains e' m' where "travelling (a + 1) e'" "map_of (exts e') ExtDelayMs = None" "Type e' = Type e" "ID e' = ID e"
    "toWatermillMessage e' = Inr m'" "UUID m = ID e" "GetAttempt (delivered m) = a + 1"
    "\<And>w. wrapCloudEventsHandler s topic h m w = (None, snd (publish (Type e) m' (snd (snd (h (delivered m) w)))))"
proof -
  obtain m0 where m0: "toWatermillMessage e = Inr m0" "UUID m0 = ID e" "arrived (a + 1) e (delivered m0)"
    using travels [OF assms(1,2)] assms(3) by auto
  with assms(5) have m: "UUID m = ID e" "arrived (a + 1) e (delivered m)" by auto
  let ?d = "delivered m" and ?e = "PrepareForDLQ (delivered m) topic (Some err)"
  have t: "travelling (a + 1) ?e" using arrived_travels [OF m(2) assms(1,4)] by (rule travelling_dead)
  obtain m' where m': "toWatermillMessage ?e = Inr m'" using travels [OF t] assms(2,3) by auto
  have y: "Type ?e = Type e" "ID ?e = ID e" "map_of (exts ?e) ExtDelayMs = None" "Validate ?d = None"
    using m(2) assms(4) by (simp_all add: arrived_def PrepareForDLQ_delay)
  have "wrapCloudEventsHandler s topic h m w = (None, snd (publish (Type e) m' (snd (snd (h ?d w)))))" for w
  proof -
    obtain w' where w': "h ?d w = (Some err, ?d, w')" using assms(7) by blast
    obtain x where "ClassifyError (Some err) = (ResultDeadLetter, x)"
      using assms(8) by (cases "ClassifyError (Some err)") auto
    moreover have "shared_part ?d ?d = ?d" by (simp add: shared_part_def)
    ultimately show ?thesis
      using assms(6) m' y by (simp add: wrap_unfold w' handleCloudEventsResult_def sendDLQ_result PublishEvent_def)
  qed
  with that [OF t y(3,1,2) m' m(1) arrived_plain(3) [OF m(2) assms(1)]] show thesis .
qed

text \<open>
  C4. A dead letter goes round for ever. When the handler of an event type asks for the dead letter
  queue, each delivery of the event is acknowledged and publishes the event once more to the topic
  the same handler consumes, with the next attempt number: for every number \<open>n\<close> of deliveries
  (below \<open>2 ^ 53\<close>) there is a chain of \<open>n\<close> messages with the event's id, each published by the
  handling of the one before.
\<close>

theorem dead_letter_circulates:
  assumes "travelling a e" "0 \<le> a" "a + int n < 2 ^ 53" "map_of (exts e) ExtDelayMs = None"
    "svc_publisher s = Some publish" "\<And>evt w. \<exists>w'. h evt w = (Some err, evt, w')" "fst (ClassifyError (Some err)) = ResultDeadLetter"
  shows "\<exists>ms :: nat \<Rightarrow> message. toWatermillMessage e = Inr (ms 0)
    \<and> (\<forall>k < n. UUID (ms k) = ID e \<and> GetAttempt (delivered (ms k)) = a + int k + 1
        \<and> (\<forall>w. wrapCloudEventsHandler s (Type e) h (ms k) w
             = (None, snd (publish (Type e) (ms (Suc k)) (snd (snd (h (delivered (ms k)) w)))))))"
  using assms(1-4)
proof (induction n arbitrary: a e)
  case 0
  obtain m where "toWatermillMessage e = Inr m" using travels [OF 0(1,2)] 0(3) by auto
  then show ?case by (intro exI [of _ "\<lambda>_. m"]) simp
next
  case (Suc n)
  obtain m where m: "toWatermillMessage e = Inr m" using travels [OF Suc.prems(1,2)] Suc.prems(3) by auto
  have "a + 1 < 2 ^ 53" using Suc.prems(3) by simp
  obtain e' m' where e': "travelling (a + 1) e'" "map_of (exts e') ExtDelayMs = None" "Type e' = Type e" "ID e' = ID e"
    "toWatermillMessage e' = Inr m'" "UUID m = ID e" "GetAttempt (delivered m) = a + 1"
    "\<And>w. wrapCloudEventsHandler s (Type e) h m w = (None, snd (publish (Type e) m' (snd (snd (h (delivered m) w)))))"
    by (rule dead_letter_hop [where h = h and topic = "Type e", OF Suc.prems(1,2) \<open>a + 1 < 2 ^ 53\<close> Suc.prems(4) m assms(5-7)])
      (auto intro: that)
  obtain ms where ms: "toWatermillMessage e' = Inr (ms 0)"
    "\<forall>k < n. UUID (ms k) = ID e' \<and> GetAttempt (delivered (ms k)) = a + 1 + int k + 1
        \<and> (\<forall>w. wrapCloudEventsHandler s (Type e') h (ms k) w
             = (None, snd (publish (Type e') (ms (Suc k)) (snd (snd (h (delivered (ms k)) w))))))"
    using Suc.IH [OF e'(1) _ _ e'(2)] Suc.prems(2,3) by auto
  have "m' = ms 0" using e'(5) ms(1) by simp
  then show ?case
    using m e' ms(2) by (intro exI [of _ "case_nat m ms"]) (auto simp: less_Suc_eq_0_disj algebra_simps)
qed

section \<open>The budget of delayed retries\<close>

lemma arrived_SetDelay:
  assumes "arrived a e d" "travelling b e" "\<bar>quot delay millisecond\<bar> \<le> 2 ^ 53"
  shows "travelling a (SetDelay d delay)"
proof -
  have w: "wf_event (SetDelay d delay)"
    unfolding SetDelay_def SetDelayMs_def by (rule wf_event_With) (use assms(1) in \<open>simp_all add: arrived_def\<close>)
  have x: "exts (SetDelay d delay) = mput ExtDelayMs (AInt64 (quot delay millisecond)) (exts d)"
    by (simp add: SetDelay_def SetDelayMs_def WithExtension_def dur_millis_def)
  show ?thesis
    using w assms(1,3) arrived_plain(1,2) [OF assms(1,2)]
    by (auto simp: travelling_def arrived_def x settling_exts_def)
qed

lemma retry_hop:
  assumes "travelling a e" "0 \<le> a" "a + 1 < DefaultMaxAttempts" "map_of (exts e) ExtMaxAttempts = None"
    "toWatermillMessage e = Inr m" "svc_publisher s = Some publish" "SupportsDelay (svc_capabilities s (svc_system s))"
    "\<And>w. \<exists>w1. h (delivered m) w = (Some err, delivered m, w1)" "ClassifyError (Some err) = (ResultRetryAfter, delay)"
    "\<bar>quot delay millisecond\<bar> \<le> 2 ^ 53"
  obtains e' m' where "travelling (a + 1) e'" "Type e' = Type e" "ID e' = ID e" "map_of (exts e') ExtMaxAttempts = None"
    "toWatermillMessage e' = Inr m'" "UUID m = ID e" "GetAttempt (delivered m) = a + 1"
    "mget (Metadata m') ExtDelayMs = dec_int (quot delay millisecond)"
    "\<forall>w. wrapCloudEventsHandler s topic h m w
      = (case publish (Type e) m' (snd (snd (h (delivered m) w))) of (None, w2) \<Rightarrow> (None, w2) | (Some _, w2) \<Rightarrow> (Some err, w2))"
proof -
  have a: "a + 1 < 2 ^ 53" using assms(3) by (simp add: DefaultMaxAttempts_def)
  obtain m0 where m0: "toWatermillMessage e = Inr m0" "UUID m0 = ID e" "arrived (a + 1) e (delivered m0)"
    using travels [OF assms(1,2)] a by auto
  with assms(5) have u: "UUID m = ID e" and d: "arrived (a + 1) e (delivered m)" by auto
  note p = arrived_plain [OF d assms(1)]
  let ?e = "SetDelay (delivered m) delay"
  have t: "travelling (a + 1) ?e" by (rule arrived_SetDelay [OF d assms(1,10)])
  obtain m' where m': "toWatermillMessage ?e = Inr m'" using travels [OF t] assms(2) a by auto
  have i: "shared_part (delivered m) (delivered m) = delivered m" by (simp add: shared_part_def)
  have m'': "toWatermillMessage (SetDelay (shared_part (delivered m) (delivered m)) delay) = Inr m'" using m' by (simp add: i)
  have x: "\<not> ExceedsMaxAttempts (shared_part (delivered m) (delivered m))"
    using p assms(3,4) by (simp add: ExceedsMaxAttempts_def i)
  have wf: "Validate (delivered m) = None" "wf_map (exts (delivered m))" "Type (delivered m) = Type e"
    using d by (simp_all add: arrived_def wf_event_def)
  have r: "wrapCloudEventsHandler s topic h m w
      = (case publish (Type e) m' (snd (snd (h (delivered m) w))) of (None, w2) \<Rightarrow> (None, w2) | (Some _, w2) \<Rightarrow> (Some err, w2))
    \<and> mget (Metadata m') ExtDelayMs = dec_int (quot delay millisecond)" for w
  proof -
    obtain w1 where w1: "h (delivered m) w = (Some err, delivered m, w1)" using assms(8) by blast
    from retry_after_sent [where h = h, OF w1 assms(9) x assms(7,6) wf(1) m'' wf(2), of topic] wf(3)
    show ?thesis by (simp add: w1)
  qed
  have k: "ExtMaxAttempts \<notin> {ExtAttempt, ExtDelayMs}" by (simp add: ext_keys)
  with d have "map_of (exts (delivered m)) ExtMaxAttempts = None" using assms(4) by (simp add: arrived_def)
  with k have "Type ?e = Type e" "ID ?e = ID e" "map_of (exts ?e) ExtMaxAttempts = None"
    using d by (simp_all add: arrived_def SetDelay_def SetDelayMs_def exts_With ext_simps)
  then show thesis using r by (intro that [OF t _ _ _ m' u p(3)]) simp_all
qed

text \<open>
  C5. Delayed retries stop at the limit. An event without a limit of its own, whose handler fails every
  time with a retry-after error, is handled three times, with attempt numbers 1, 2 and 3: the first
  two deliveries publish it again with the delay, under its id, and are acknowledged when that
  succeeds; the third is acknowledged and hands the event on as a dead letter.
\<close>

theorem retry_after_budget:
  assumes "travelling 0 e" "map_of (exts e) ExtMaxAttempts = None"
    "svc_publisher s = Some publish" "SupportsDelay (svc_capabilities s (svc_system s))"
    "\<And>evt w. \<exists>w'. h evt w = (Some err, evt, w')" "ClassifyError (Some err) = (ResultRetryAfter, delay)"
    "\<bar>quot delay millisecond\<bar> \<le> 2 ^ 53"
  defines "after m w \<equiv> snd (snd (h (delivered m) w))"
  shows "\<exists>ms :: nat \<Rightarrow> message. toWatermillMessage e = Inr (ms 0)
    \<and> (\<forall>k < 2. \<forall>w. wrapCloudEventsHandler s (Type e) h (ms k) w
          = (case publish (Type e) (ms (k + 1)) (after (ms k) w) of (None, w2) \<Rightarrow> (None, w2) | (Some _, w2) \<Rightarrow> (Some err, w2))
        \<and> mget (Metadata (ms (k + 1))) ExtDelayMs = dec_int (quot delay millisecond))
    \<and> (\<forall>k \<le> 2. UUID (ms k) = ID e \<and> GetAttempt (delivered (ms k)) = int k + 1)
    \<and> (\<forall>w. wrapCloudEventsHandler s (Type e) h (ms 2) w
          = (None, snd (PublishEvent (Some s) (PrepareForDLQ (delivered (ms 2)) (Type e) (Some err)) (after (ms 2) w))))"
proof -
  note hyps = assms(3-7)
  obtain m0 where m0: "toWatermillMessage e = Inr m0" using travels [OF assms(1)] by auto
  have a: "0 + 1 < DefaultMaxAttempts" "1 + 1 < DefaultMaxAttempts" by (simp_all add: DefaultMaxAttempts_def)
  obtain e1 m1 where 1: "travelling 1 e1" "Type e1 = Type e" "ID e1 = ID e" "map_of (exts e1) ExtMaxAttempts = None"
    "toWatermillMessage e1 = Inr m1" "UUID m0 = ID e" "GetAttempt (delivered m0) = 1"
    "mget (Metadata m1) ExtDelayMs = dec_int (quot delay millisecond)"
    "\<forall>w. wrapCloudEventsHandler s (Type e) h m0 w
      = (case publish (Type e) m1 (snd (snd (h (delivered m0) w))) of (None, w2) \<Rightarrow> (None, w2) | (Some _, w2) \<Rightarrow> (Some err, w2))"
    by (rule retry_hop [where h = h and topic = "Type e", OF assms(1) order_refl a(1) assms(2) m0 hyps(1,2) hyps(3) hyps(4,5), simplified]) (rule that; assumption)
  obtain e2 m2 where 2: "travelling 2 e2" "Type e2 = Type e" "ID e2 = ID e" "map_of (exts e2) ExtMaxAttempts = None"
    "toWatermillMessage e2 = Inr m2" "UUID m1 = ID e" "GetAttempt (delivered m1) = 2"
    "mget (Metadata m2) ExtDelayMs = dec_int (quot delay millisecond)"
    "\<forall>w. wrapCloudEventsHandler s (Type e) h m1 w
      = (case publish (Type e) m2 (snd (snd (h (delivered m1) w))) of (None, w2) \<Rightarrow> (None, w2) | (Some _, w2) \<Rightarrow> (Some err, w2))"
    by (rule retry_hop [where h = h and topic = "Type e", OF 1(1) zero_le_one a(2) 1(4,5) hyps(1,2) hyps(3) hyps(4,5), simplified, unfolded 1(2,3)]) (rule that; assumption)
  obtain m3 where "toWatermillMessage e2 = Inr m3" "UUID m3 = ID e2" "arrived 3 e2 (delivered m3)"
    using travels [OF 2(1)] by auto
  with 2(3,5) have d: "UUID m2 = ID e" "arrived 3 e2 (delivered m2)" by simp_all
  note p = arrived_plain [OF d(2) 2(1)]
  have i: "shared_part (delivered m2) (delivered m2) = delivered m2" by (simp add: shared_part_def)
  have x: "ExceedsMaxAttempts (delivered m2)" using p 2(4) by (simp add: ExceedsMaxAttempts_def DefaultMaxAttempts_def)
  have 3: "wrapCloudEventsHandler s (Type e) h m2 w
      = (None, snd (PublishEvent (Some s) (PrepareForDLQ (delivered m2) (Type e) (Some err)) (after m2 w)))" for w
  proof -
    obtain w' where "h (delivered m2) w = (Some err, delivered m2, w')" using hyps(3) by blast
    then show ?thesis using x hyps(4) by (simp add: wrap_unfold after_def i handleCloudEventsResult_def sendDLQ_result)
  qed
  define ms where "ms k = (if k = 0 then m0 else if k = 1 then m1 else m2)" for k :: nat
  have ms: "ms 0 = m0" "ms 1 = m1" "ms (Suc 0) = m1" "ms 2 = m2" by (simp_all add: ms_def)
  have "\<forall>k < 2. \<forall>w. wrapCloudEventsHandler s (Type e) h (ms k) w
          = (case publish (Type e) (ms (k + 1)) (after (ms k) w) of (None, w2) \<Rightarrow> (None, w2) | (Some _, w2) \<Rightarrow> (Some err, w2))
        \<and> mget (Metadata (ms (k + 1))) ExtDelayMs = dec_int (quot delay millisecond)"
    using 1(8,9) 2(8,9) by (simp add: after_def less_2_cases_iff all_conj_distrib ms numeral_2_eq_2 [symmetric])
  moreover have "\<forall>k \<le> 2. UUID (ms k) = ID e \<and> GetAttempt (delivered (ms k)) = int k + 1"
    using 1(6,7) 2(6,7) d(1) p(3) by (auto simp: le_Suc_eq numeral_2_eq_2 ms ms_def)
  ultimately show ?thesis
    using m0 3 by (intro exI [of _ ms]) (simp add: ms)
qed

section \<open>Witnesses\<close>

definition fresh_event :: event where
  "fresh_event = New ''01J'' (utc_time 1700000000 0) ''order.created'' ''/shop'' (AStr ''hi'')"

lemma fresh_travels: "travelling 0 fresh_event" "map_of (exts fresh_event) k = None"
proof -
  have "wf_event fresh_event" "Validate fresh_event = None"
    "json_stable (Data fresh_event) = Some (Data fresh_event)" "wf_any (Data fresh_event)"
    "exts fresh_event = []"
    by code_simp+
  then show "travelling 0 fresh_event" "map_of (exts fresh_event) k = None" by (simp_all add: travelling_def settling_exts_def settling_fixed)
qed

lemma dead_letter_circulates_witness:
  "\<exists>ms :: nat \<Rightarrow> message. toWatermillMessage fresh_event = Inr (ms 0)
    \<and> wrapCloudEventsHandler log_service (Type fresh_event) (\<lambda>evt w. (Some (Sentinel ErrDeadLetter), evt, w)) (ms 41) []
      = (None, [Type fresh_event])"
proof -
  have c: "fst (ClassifyError (Some (Sentinel ErrDeadLetter))) = ResultDeadLetter"
    by (simp add: ClassifyError_def errors_as_retry_after.simps errors_is_requests requests_def nodes.simps)
  have p: "svc_publisher log_service = Some topic_log" by (simp add: log_service_def)
  from dead_letter_circulates [where h = "\<lambda>evt w. (Some (Sentinel ErrDeadLetter), evt, w)" and n = 100,
      OF fresh_travels(1) _ _ fresh_travels(2) p _ c]
  obtain ms where "toWatermillMessage fresh_event = Inr (ms 0)"
    "\<forall>k < 100. \<forall>w. wrapCloudEventsHandler log_service (Type fresh_event) (\<lambda>evt w. (Some (Sentinel ErrDeadLetter), evt, w)) (ms k) w
        = (None, snd (topic_log (Type fresh_event) (ms (Suc k)) w))"
    by auto
  then show ?thesis by (intro exI [of _ ms]) (simp add: topic_log_def)
qed

lemma retry_after_budget_witness:
  "\<exists>ms :: nat \<Rightarrow> message. toWatermillMessage fresh_event = Inr (ms 0) \<and> GetAttempt (delivered (ms 2)) = 3
    \<and> wrapCloudEventsHandler log_service (Type fresh_event) (\<lambda>evt w. (Some (RetryAfterError 2500000000 None), evt, w)) (ms 0) []
      = (None, [Type fresh_event])"
proof -
  have c: "ClassifyError (Some (RetryAfterError 2500000000 None)) = (ResultRetryAfter, 2500000000)"
    by (simp add: ClassifyError_def errors_as_retry_after.simps)
  have p: "svc_publisher log_service = Some topic_log" "SupportsDelay (svc_capabilities log_service (svc_system log_service))"
    by (simp_all add: log_service_def SQLiteCapabilities_def)
  have q: "\<bar>quot 2500000000 millisecond\<bar> \<le> 2 ^ 53" by (simp add: quot_def)
  from retry_after_budget [where h = "\<lambda>evt w. (Some (RetryAfterError 2500000000 None), evt, w)",
      OF fresh_travels(1) fresh_travels(2) p _ c q]
  obtain ms where "toWatermillMessage fresh_event = Inr (ms 0)" "\<forall>k \<le> 2. GetAttempt (delivered (ms k)) = int k + 1"
    "\<forall>k < 2. \<forall>w. wrapCloudEventsHandler log_service (Type fresh_event) (\<lambda>evt w. (Some (RetryAfterError 2500000000 None), evt, w)) (ms k) w
        = (case topic_log (Type fresh_event) (ms (k + 1)) w of
             (None, w2) \<Rightarrow> (None, w2) | (Some _, w2) \<Rightarrow> (Some (RetryAfterError 2500000000 None), w2))"
    by auto
  then show ?thesis by (intro exI [of _ ms]) (auto simp: topic_log_def)
qed

end
