(* ===== verification/Ex_Jobs.thy ===== *)
theory Ex_Jobs
  imports Lib_Api Rt_Service Rt_Hooks
begin

text \<open>
  The example programs on raw messages (\<open>examples/simple\<close>, \<open>hooks\<close>, \<open>dlq_metrics\<close>, \<open>sqlite\<close>, \<open>postgres\<close>
  and \<open>full\<close>): their handlers, hooks, middleware chains and the messages they publish.

  A handler's world holds what the program counts and logs; fresh ids are parameters, pauses and the
  remaining log output are left out.
\<close>

section \<open>Middleware chains\<close>

text \<open>\<open>JobHooksMiddleware\<close> of \<open>hooks.go\<close>, the registration of the middleware.\<close>

definition JobHooksMiddleware :: "('w \<Rightarrow> int) \<Rightarrow> 'w JobHooks \<Rightarrow> ('w, 'p, 's) MiddlewareRegistration" where
  "JobHooksMiddleware clock hooks = registration ''job_hooks'' (\<lambda>s. (Returns (Some (jobHooksMiddleware clock hooks)), s))"

definition ErrTemporary :: gerror where
  "ErrTemporary = Sentinel (OtherSentinel 1 ''temporary error'')"

definition simple_retry :: RetryMiddlewareConfig where
  "simple_retry = zero_retry\<lparr>RetryMiddlewareConfig.MaxRetries := 3, InitialInterval := second,
     RetryIf := Some (\<lambda>err. errors_is err (TSentinel (OtherSentinel 1 ''temporary error'')))\<rparr>"

definition simple_middlewares ::
  "('w, 'p, 'span) env \<Rightarrow> ('w \<Rightarrow> (string \<times> 'p) list) \<Rightarrow> ('w, 'p, 's) MiddlewareRegistration list" where
  "simple_middlewares env registry =
     [CorrelationIDMiddleware env, LogMessagesMiddleware None, ProtoValidateMiddleware env registry, OutboxMiddleware,
      TracerMiddleware env, MetricsMiddleware env, RetryMiddleware env simple_retry, PoisonQueueMiddleware env None,
      RecovererMiddleware env]"

text \<open>The handler of \<open>simple\<close>; \<open>info\<close> is the logger.\<close>

definition simple_handler :: "'w new_id \<Rightarrow> (string \<Rightarrow> log_fields \<Rightarrow> 'w \<Rightarrow> 'w) \<Rightarrow> 'w raw_handler" where
  "simple_handler new_id info msg w =
     (if mget (Metadata msg) ''simulate_error'' = ''true''
      then (Inr ([], Some ErrTemporary), info ''simulating temporary error'' [] w)
      else (case new_id (info ''received raw event'' [(''payload'', AStr (Payload msg)), (''metadata'', metadata_any (Metadata msg))] w) of
              (i, w') \<Rightarrow>
                (Inr ([(NewMessage i ''acknowledged'')\<lparr>Metadata :=
                   [(''event_source'', ''simple_example''), (''event_message_schema'', ''example.AckV1'')]\<rparr>], None), w')))"

section \<open>Hooks\<close>

record app =
  app_jobs :: int
  app_started :: int
  app_completed :: int
  app_failed :: int
  app_now :: int
  app_log :: "(string \<times> gerror option \<times> log_fields) list"

abbreviation logged :: "string \<Rightarrow> gerror option \<Rightarrow> log_fields \<Rightarrow> app \<Rightarrow> app" where
  "logged text err fs w \<equiv> w\<lparr>app_log := app_log w @ [(text, err, fs)]\<rparr>"

definition rocket :: string where "rocket = [CHR 0xF0, CHR 0x9F, CHR 0x9A, CHR 0x80]"
definition check_mark :: string where "check_mark = [CHR 0xE2, CHR 0x9C, CHR 0x85]"
definition cross_mark :: string where "cross_mark = [CHR 0xE2, CHR 0x9D, CHR 0x8C]"
definition siren :: string where "siren = [CHR 0xF0, CHR 0x9F, CHR 0x9A, CHR 0xA8]"

definition job_started :: "JobContext \<Rightarrow> app effect" where
  "job_started ctx w =
     (let count = i64 (app_started w + 1)
      in (None, logged (rocket @ '' Job started'') None
            [(''job_number'', AInt64 count), (''message_uuid'', AStr (jc_MessageUUID ctx)), (''handler'', AStr (jc_HandlerName ctx)),
             (''topic'', AStr (jc_Topic ctx)), (''retry_count'', AInt (jc_RetryCount ctx))]
            (w\<lparr>app_started := count\<rparr>)))"

definition job_done :: "JobContext \<Rightarrow> app effect" where
  "job_done ctx w =
     (let count = i64 (app_completed w + 1)
      in (None, logged (check_mark @ '' Job completed successfully'') None
            [(''completed_count'', AInt64 count), (''message_uuid'', AStr (jc_MessageUUID ctx)),
             (''duration_ms'', AInt64 (dur_millis (jc_Duration ctx)))]
            (w\<lparr>app_completed := count\<rparr>)))"

definition alert :: string where
  "alert = siren @ '' ALERT: Job exhausted retries''"

definition job_failed :: "JobContext \<Rightarrow> gerror \<Rightarrow> app effect" where
  "job_failed ctx err w =
     (let count = i64 (app_failed w + 1);
          w1 = logged (cross_mark @ '' Job failed'') (Some err)
            [(''failed_count'', AInt64 count), (''message_uuid'', AStr (jc_MessageUUID ctx)),
             (''retry_count'', AInt (jc_RetryCount ctx)), (''duration_ms'', AInt64 (dur_millis (jc_Duration ctx)))]
            (w\<lparr>app_failed := count\<rparr>)
      in (None, if 2 \<le> jc_RetryCount ctx then logged alert None [(''message_uuid'', AStr (jc_MessageUUID ctx))] w1 else w1))"

definition createApplicationHooks :: "app JobHooks" where
  "createApplicationHooks = \<lparr>OnJobStart = Some job_started, OnJobDone = Some job_done, OnJobError = Some job_failed\<rparr>"

definition hooks_middlewares :: "(app, 'p, 'span) env \<Rightarrow> (app, 'p, 's) MiddlewareRegistration list" where
  "hooks_middlewares env =
     [CorrelationIDMiddleware env, LogMessagesMiddleware None, JobHooksMiddleware app_now createApplicationHooks,
      RetryMiddleware env (zero_retry\<lparr>RetryMiddlewareConfig.MaxRetries := 2, InitialInterval := 100 * millisecond\<rparr>), RecovererMiddleware env]"

definition ErrSimulatedFailure :: gerror where
  "ErrSimulatedFailure = Sentinel (OtherSentinel 2 ''simulated failure for demonstration'')"

definition createJobHandler :: "app new_id \<Rightarrow> app raw_handler" where
  "createJobHandler new_id msg w =
     (let w = w\<lparr>app_jobs := i64 (app_jobs w + 1)\<rparr>
      in if mget (Metadata msg) ''simulate_error'' = ''true'' then (Inr ([], Some ErrSimulatedFailure), w)
         else (case new_id w of
                 (i, w') \<Rightarrow>
                   (Inr ([(NewMessage i (''processed: '' @ UUID msg))\<lparr>Metadata :=
                      [(''event_source'', ''hooks_example''), (''event_message_schema'', ''hooks.ResultV1''),
                       (''original_message_id'', UUID msg)]\<rparr>], None), w')))"

definition sample_job :: "string \<Rightarrow> nat \<Rightarrow> message" where
  "sample_job eid i =
     (let metadata = [(''event_source'', ''hooks_example''), (''event_message_schema'', ''hooks.JobV1''),
            (''protoflow_handler'', ''job-processor''), (''protoflow_topic'', ''hooks.jobs'')];
          metadata = (if i mod 3 = 2 then mput ''simulate_error'' ''true'' metadata else metadata)
      in (NewMessage eid (''job-'' @ dec_nat i))\<lparr>Metadata := metadata\<rparr>)"

definition publishSampleJobs :: "(nat \<Rightarrow> string) \<Rightarrow> ('w, 'p, 's) Service \<Rightarrow> 'w \<Rightarrow> 'w" where
  "publishSampleJobs fresh svc w =
     fold (\<lambda>i w. snd (Service_Publish (Some svc) ''hooks.jobs'' [sample_job (fresh i) i] w)) [0..<5] w"

section \<open>Dead letter metrics\<close>

definition ErrProcessingFailed :: gerror where
  "ErrProcessingFailed = Sentinel (OtherSentinel 3 ''message processing failed'')"

definition createFlakyHandler :: "app raw_handler" where
  "createFlakyHandler msg w =
     (if mget (Metadata msg) ''should_fail'' = ''true''
      then (Inr ([], Some ErrProcessingFailed), logged (cross_mark @ '' Handler failing (simulated)'') None [(''message_id'', AStr (UUID msg))] w)
      else (Inr ([], None), logged (check_mark @ '' Handler succeeded'') None [(''message_id'', AStr (UUID msg))] w))"

definition test_message :: "string \<Rightarrow> nat \<Rightarrow> message" where
  "test_message eid i =
     (let metadata = [(''event_source'', ''dlq_metrics_example''), (''event_message_schema'', ''dlq.TestMessageV1''),
            (''protoflow_handler'', ''flaky-processor''), (''protoflow_topic'', ''dlq.incoming'')];
          metadata = (if i mod 3 = 0 then mput ''should_fail'' ''true'' metadata else metadata)
      in (NewMessage eid (''message-'' @ dec_nat i))\<lparr>Metadata := metadata\<rparr>)"

definition publishTestMessages :: "(nat \<Rightarrow> string) \<Rightarrow> ('w, 'p, 's) Service \<Rightarrow> 'w \<Rightarrow> 'w" where
  "publishTestMessages fresh svc w =
     fold (\<lambda>i w. snd (Service_Publish (Some svc) ''dlq.incoming'' [test_message (fresh i) i] w)) [0..<10] w"

section \<open>SQL queues\<close>

definition immediate_job :: "string \<Rightarrow> nat \<Rightarrow> message" where
  "immediate_job eid i = (NewMessage eid (''immediate-job-'' @ dec_nat i))\<lparr>Metadata :=
     [(''event_source'', ''sqlite_example''), (''event_message_schema'', ''sqlite.JobV1'')]\<rparr>"

definition scheduled_job :: "string \<Rightarrow> nat \<Rightarrow> message" where
  "scheduled_job eid i = (NewMessage eid (''scheduled-job-'' @ dec_nat i))\<lparr>Metadata :=
     [(''event_source'', ''sqlite_example''), (''event_message_schema'', ''sqlite.ScheduledJobV1''), (''protoflow_delay'', ''3s'')]\<rparr>"

definition publish_sqlite_example :: "(nat \<Rightarrow> string) \<Rightarrow> ('w, 'p, 's) Service \<Rightarrow> 'w \<Rightarrow> 'w" where
  "publish_sqlite_example fresh svc w =
     (let w = fold (\<lambda>i w. snd (Service_Publish (Some svc) ''sqlite.jobs'' [immediate_job (fresh i) i] w)) [0..<3] w
      in fold (\<lambda>i w. snd (Service_Publish (Some svc) ''sqlite.scheduled'' [scheduled_job (fresh (3 + i)) i] w)) [0..<2] w)"

definition createOrderHandler :: "(string \<Rightarrow> log_fields \<Rightarrow> 'w \<Rightarrow> 'w) \<Rightarrow> 'w raw_handler" where
  "createOrderHandler info msg w =
     (let w = info ([CHR 0xF0, CHR 0x9F, CHR 0x93, CHR 0xA5] @ '' Processing order'')
                [(''uuid'', AStr (UUID msg)), (''payload'', AStr (Payload msg))] w
      in if Payload msg = ''fail-order'' then (Inr ([], Some (Plain ''simulated order processing failure'')), w)
         else (Inr ([], None), info (check_mark @ '' Order processed successfully'') [(''uuid'', AStr (UUID msg))] w))"

definition order_messages :: "message list" where
  "order_messages = map (\<lambda>order. NewMessage order order) [''order-001'', ''order-002'', ''fail-order'', ''order-003'']
     @ [(NewMessage ''delayed-order'' ''delayed-order-data'')\<lparr>Metadata := mput ''protoflow_delay'' ''5s'' []\<rparr>]"

definition publish_postgres_example :: "('w, 'p, 's) Service \<Rightarrow> 'w \<Rightarrow> 'w" where
  "publish_postgres_example svc w =
     fold (\<lambda>m w. snd (Service_Publish (Some svc) ''postgres.orders'' [m] w)) order_messages w"

section \<open>The full example\<close>

text \<open>An outbox in memory, and a validator that refuses nil.\<close>

type_synonym memoryOutbox = "metadata list"

definition StoreOutgoingMessage :: "string \<Rightarrow> string \<Rightarrow> string \<Rightarrow> memoryOutbox \<Rightarrow> gerror option \<times> memoryOutbox" where
  "StoreOutgoingMessage eventType uuid payload records =
     (None, records @ [[(''event_type'', eventType), (''uuid'', uuid), (''payload'', payload)]])"

definition sampleValidator_Validate :: "'p option \<Rightarrow> gerror option" where
  "sampleValidator_Validate msg = (case msg of None \<Rightarrow> Some (Plain ''message is nil'') | Some _ \<Rightarrow> None)"

text \<open>The two middlewares; \<open>clock\<close> is the time in nanoseconds.\<close>

definition metricsMiddleware :: "('w \<Rightarrow> int) \<Rightarrow> 'w logger \<Rightarrow> 'w middleware" where
  "metricsMiddleware clock logger h msg w =
     (let start = clock w
      in case h msg w of
           (Inl panic, w') \<Rightarrow> (Inl panic, w')
         | (Inr (events, err), w') \<Rightarrow>
             (Inr (events, err), lg_Debug logger ''metrics''
                [(''duration_ms'', AInt64 (dur_millis (sub_time (clock w') start))), (''published'', AInt (int (length events)))] w'))"

definition custom_logging :: "('w \<Rightarrow> int) \<Rightarrow> 'w logger \<Rightarrow> 'w middleware" where
  "custom_logging clock logger h msg w =
     (let start = clock w
      in case h msg w of
           (Inl panic, w') \<Rightarrow> (Inl panic, w')
         | (Inr (out, err), w') \<Rightarrow>
             (Inr (out, err), lg_Info logger ''handler completed''
                [(''duration_ms'', AInt64 (dur_millis (sub_time (clock w') start))), (''message_id'', AStr (UUID msg))] w'))"

definition must :: "'a build \<Rightarrow> 'a build" where
  "must r = (case r of Fails err \<Rightarrow> Panics (err_text err) | other \<Rightarrow> other)"

section \<open>The hooks of the example\<close>

definition alerts :: "app \<Rightarrow> nat" where
  "alerts w = length (filter (\<lambda>(text, _). text = alert) (app_log w))"

text \<open>A handler, with whatever middlewares are inside the hooks, that leaves their counters and log alone.\<close>

definition keeps_counts :: "app raw_handler \<Rightarrow> bool" where
  "keeps_counts h \<longleftrightarrow>
     (\<forall>msg w. app_started (snd (h msg w)) = app_started w \<and> app_completed (snd (h msg w)) = app_completed w
       \<and> app_failed (snd (h msg w)) = app_failed w \<and> app_log (snd (h msg w)) = app_log w)"

lemma texts_differ [simp]: "rocket @ '' Job started'' \<noteq> alert" "check_mark @ '' Job completed successfully'' \<noteq> alert"
  "cross_mark @ '' Job failed'' \<noteq> alert"
  by (simp_all add: rocket_def check_mark_def cross_mark_def alert_def siren_def)

lemma job_handler_keeps:
  assumes "\<And>w. \<exists>i n. new_id w = (i, w\<lparr>app_now := n\<rparr>)"
  shows "keeps_counts (createJobHandler new_id)"
  unfolding keeps_counts_def
proof (intro allI)
  fix msg w
  obtain i n where "new_id (w\<lparr>app_jobs := i64 (app_jobs w + 1)\<rparr>) = (i, (w\<lparr>app_jobs := i64 (app_jobs w + 1)\<rparr>)\<lparr>app_now := n\<rparr>)"
    using assms by blast
  then show "app_started (snd (createJobHandler new_id msg w)) = app_started w \<and> app_completed (snd (createJobHandler new_id msg w)) = app_completed w
       \<and> app_failed (snd (createJobHandler new_id msg w)) = app_failed w \<and> app_log (snd (createJobHandler new_id msg w)) = app_log w"
    by (simp add: createJobHandler_def Let_def)
qed

text \<open>One message through the middleware.\<close>

lemma hooks_once:
  assumes "keeps_counts h" "mget (Metadata msg) ''protoflow_retry_count'' = []"
  shows "(case jobHooksMiddleware app_now createApplicationHooks h msg w of
       (r, w') \<Rightarrow>
         app_started w' = i64 (app_started w + 1)
         \<and> app_completed w' = (case r of Inr (_, None) \<Rightarrow> i64 (app_completed w + 1) | _ \<Rightarrow> app_completed w)
         \<and> app_failed w' = (case r of Inr (_, Some _) \<Rightarrow> i64 (app_failed w + 1) | _ \<Rightarrow> app_failed w)
         \<and> alerts w' = alerts w)"
proof -
  define ctx where "ctx = jobCtx (app_now w) msg"
  have c: "jc_RetryCount ctx = 0" using assms(2) by (simp add: ctx_def jobCtx_def)
  define w1 where "w1 = snd (job_started ctx w)"
  have s: "job_started ctx w = (None, w1)" by (simp add: w1_def job_started_def Let_def)
  have w1: "app_started w1 = i64 (app_started w + 1)" "app_completed w1 = app_completed w" "app_failed w1 = app_failed w" "alerts w1 = alerts w"
    by (simp_all add: w1_def job_started_def Let_def alerts_def)
  obtain r w2 where h: "h msg w1 = (r, w2)" by fastforce
  have w2: "app_started w2 = app_started w1" "app_completed w2 = app_completed w1" "app_failed w2 = app_failed w1" "alerts w2 = alerts w1"
    using assms(1) h unfolding keeps_counts_def alerts_def by (metis snd_conv)+
  show ?thesis
    using w1 w2 c
    by (cases r) (auto simp: jobHooksMiddleware_def Let_def ctx_def [symmetric] createApplicationHooks_def if_set_def s h
        returning_def job_done_def job_failed_def alerts_def split: option.splits prod.splits)
qed

text \<open>A run over several messages, and its results.\<close>

fun run_jobs :: "app raw_handler \<Rightarrow> message list \<Rightarrow> app \<Rightarrow> (string + (message list \<times> gerror option)) list \<times> app" where
  "run_jobs h [] w = ([], w)"
| "run_jobs h (msg # msgs) w =
     (case jobHooksMiddleware app_now createApplicationHooks h msg w of
        (r, w1) \<Rightarrow> (case run_jobs h msgs w1 of (rs, w2) \<Rightarrow> (r # rs, w2)))"

text \<open>
  The hooks of the example count, and never raise their alert. Over any messages without a retry
  count in their metadata, and nothing in the library sets one, the hooks count every message as
  started and every result as completed or failed once, however often the retries inside them
  repeated it, while the alert on exhausted retries, which asks for a count of two, is not logged.
\<close>

theorem hooks_count_without_alert:
  assumes "keeps_counts h" "\<And>msg. msg \<in> set msgs \<Longrightarrow> mget (Metadata msg) ''protoflow_retry_count'' = []"
    "run_jobs h msgs w = (rs, w')" "0 \<le> app_started w" "0 \<le> app_completed w" "0 \<le> app_failed w"
    "app_started w + int (length msgs) < 2 ^ 63" "app_completed w + int (length msgs) < 2 ^ 63"
    "app_failed w + int (length msgs) < 2 ^ 63"
  shows "length rs = length msgs \<and> app_started w' = app_started w + int (length msgs)
    \<and> app_completed w' = app_completed w + int (length (filter (\<lambda>r. \<exists>out. r = Inr (out, None)) rs))
    \<and> app_failed w' = app_failed w + int (length (filter (\<lambda>r. \<exists>out err. r = Inr (out, Some err)) rs))
    \<and> alerts w' = alerts w"
  using assms(2-9)
proof (induction msgs arbitrary: w rs)
  case Nil
  then show ?case by simp
next
  case (Cons msg msgs)
  obtain r w1 where r: "jobHooksMiddleware app_now createApplicationHooks h msg w = (r, w1)" by fastforce
  obtain rs' where rs: "run_jobs h msgs w1 = (rs', w')" "rs = r # rs'"
    using Cons.prems(2) r by (auto split: prod.splits)
  have "mget (Metadata msg) ''protoflow_retry_count'' = []" using Cons.prems(1) by simp
  from hooks_once [OF assms(1) this, of w] r have o: "app_started w1 = app_started w + 1"
    "app_completed w1 = app_completed w + (if \<exists>out. r = Inr (out, None) then 1 else 0)"
    "app_failed w1 = app_failed w + (if \<exists>out err. r = Inr (out, Some err) then 1 else 0)" "alerts w1 = alerts w"
    using Cons.prems(3-8) by (auto simp: in_i64_def split: sum.splits option.splits prod.splits)
  have "length rs' = length msgs \<and> app_started w' = app_started w1 + int (length msgs)
    \<and> app_completed w' = app_completed w1 + int (length (filter (\<lambda>r. \<exists>out. r = Inr (out, None)) rs'))
    \<and> app_failed w' = app_failed w1 + int (length (filter (\<lambda>r. \<exists>out err. r = Inr (out, Some err)) rs'))
    \<and> alerts w' = alerts w1"
    by (rule Cons.IH) (use Cons.prems rs o in \<open>auto split: if_splits\<close>)
  with o rs(2) show ?case by simp
qed

definition new_app :: app where
  "new_app = \<lparr>app_jobs = 0, app_started = 0, app_completed = 0, app_failed = 0, app_now = 0, app_log = []\<rparr>"

lemma hooks_count_without_alert_witness:
  "app_started (snd (run_jobs (createJobHandler (\<lambda>w. (''id'', w))) (map (sample_job ''j'') [0..<5]) new_app)) = 5
   \<and> alerts (snd (run_jobs (createJobHandler (\<lambda>w. (''id'', w))) (map (sample_job ''j'') [0..<5]) new_app)) = 0"
proof -
  let ?h = "createJobHandler (\<lambda>w. (''id'', w))" and ?ms = "map (sample_job ''j'') [0..<5]"
  have "\<exists>i n. (''id'', w) = (i, w\<lparr>app_now := n\<rparr>)" for w :: app by (intro exI [of _ "''id''"] exI [of _ "app_now w"]) simp
  then have k: "keeps_counts ?h" by (rule job_handler_keeps)
  have m: "mget (Metadata msg) ''protoflow_retry_count'' = []" if "msg \<in> set ?ms" for msg
    using that by (auto simp: sample_job_def mget_def Let_def)
  obtain rs w' where r: "run_jobs ?h ?ms new_app = (rs, w')" by fastforce
  from hooks_count_without_alert [OF k m r] show ?thesis unfolding r by (simp add: new_app_def alerts_def)
qed

section \<open>The other examples\<close>

text \<open>The failures of the dead letter example are not for the poison queue: its filter asks for unprocessable events.\<close>

lemma flaky_not_poisoned:
  assumes "\<And>publish topic accept mw h msg w out err w'.
      env_PoisonQueueWithFilter env publish topic accept = Inr mw \<Longrightarrow> h msg w = (Inr (out, Some err), w') \<Longrightarrow> \<not> accept err
      \<Longrightarrow> mw h msg w = (Inr (out, Some err), w')"
    "poisonMiddlewareWithFilter env s default_poison_filter = Inr mw" "i mod 3 = 0"
  shows "mw createFlakyHandler (test_message eid i) w = createFlakyHandler (test_message eid i) w"
proof -
  obtain w' where c: "createFlakyHandler (test_message eid i) w = (Inr ([], Some ErrProcessingFailed), w')"
    using assms(3) by (simp add: createFlakyHandler_def test_message_def mget_def Let_def)
  from assms(2) obtain publish topic where "env_PoisonQueueWithFilter env publish topic default_poison_filter = Inr mw"
    by (auto simp: poisonMiddlewareWithFilter_def split: option.splits)
  from assms(1) [where h = createFlakyHandler, OF this c] c show ?thesis by (simp add: default_poison_filter_def ErrProcessingFailed_def)
qed

text \<open>When the jobs of the SQL examples are due.\<close>

lemma example_jobs_due:
  "new_available (sqlite_row now t (immediate_job eid i)) = now"
  "new_available (sqlite_row now t (scheduled_job eid i)) = now + 3 * second"
  "map (\<lambda>m. new_available (pg_row p t m)) order_messages = replicate 4 (pg_ts p (pg_now p)) @ [pg_ts p (pg_now p + 5 * second)]"
proof -
  have n: "dec_nat 3 = ''3''" "dec_nat 5 = ''5''" by code_simp+
  have t: "dur_terms (Suc (Suc (Suc 0))) 0 (dec_nat v @ ''s'') = Some (v * 1000000000)" if "v \<le> 9" for v
    using dur_whole [of "''s''" 1000000000 0 v "[]" "Suc (Suc 0)"] that
    by (simp add: is_num_char_def is_digit_def dur_terms_end del: dur_terms.simps)
  from t [of 3] t [of 5] have "dur_terms (Suc (Suc (Suc 0))) 0 ''3s'' = Some 3000000000" "dur_terms (Suc (Suc (Suc 0))) 0 ''5s'' = Some 5000000000"
    by (simp_all add: n del: dur_terms.simps)
  then have d: "parse_duration ''3s'' = Some (3 * second)" "parse_duration ''5s'' = Some (5 * second)"
    by (simp_all add: parse_duration_def split_sign_def del: dur_terms.simps)
  show "new_available (sqlite_row now t (immediate_job eid i)) = now"
    "new_available (sqlite_row now t (scheduled_job eid i)) = now + 3 * second"
    using d by (simp_all add: sqlite_row_def available_at_def immediate_job_def scheduled_job_def mget_def)
  show "map (\<lambda>m. new_available (pg_row p t m)) order_messages = replicate 4 (pg_ts p (pg_now p)) @ [pg_ts p (pg_now p + 5 * second)]"
    using d by (simp add: pg_row_def available_at_def order_messages_def NewMessage_def mget_def numeral_eq_Suc)
qed

text \<open>The outbox in memory keeps everything in order.\<close>

lemma memory_outbox:
  "store_outgoing StoreOutgoingMessage outs records =
     (None, records @ map (\<lambda>out. case outbox_entry out of (t, i, x) \<Rightarrow> [(''event_type'', t), (''uuid'', i), (''payload'', x)]) outs)"
  by (induction outs arbitrary: records) (simp_all add: StoreOutgoingMessage_def outbox_entry_def Let_def)

end
