(* ===== verification/Spec2Isabelle.thy ===== *)
theory Spec2Isabelle
  imports Sqlite Postgres Rt_Hooks Rt_DlqMetrics Rt_Service Rt_Resources Jetstream Io_File Aws Tp_Builds Lib_Api
    Rt_Config_Print Rt_Logging Sql_Lifecycle Examples Ex_Jobs
begin

text \<open>
  A verification library for protoflow, a Go library for event-driven services on top of Watermill.

  \<^bold>\<open>The program.\<close> A \<open>Service\<close> (\<open>internal/runtime\<close>) owns a Watermill router, a publisher and a
  subscriber, a chain of middlewares and the list of registered handlers. Handlers are raw, typed
  by JSON or by protobuf, or receive CloudEvents; each runs inside the middlewares and a wrapper that
  keeps its statistics. CloudEvents (\<open>internal/runtime/cloudevents\<close>) travel as JSON payloads with
  extensions that carry attempts, delays and dead-letter marks; the error a handler returns is
  classified into acknowledging, retrying, retrying later, skipping or dead-lettering. Publisher and
  subscriber come from a transport package (\<open>transport/*\<close>), found by name in a registry: SQLite,
  Postgres, NATS JetStream and a file are implemented in the repository, Kafka, RabbitMQ, NATS, HTTP,
  AWS and in-process channels are settings for Watermill's own. A transport honours a delay in its
  own way and, on the SQL databases, keeps a dead letter queue.

  \<^bold>\<open>The theories.\<close> Names follow the code; a prefix such as \<open>sqlite_\<close>, \<open>pg_\<close>, \<open>js_\<close>, \<open>io_\<close> or \<open>aws_\<close>
  tells apart the transports' functions of one name.

  \<^item> \<open>Prelude\<close>: signed 64-bit integers written out over \<open>int\<close> (\<open>i64\<close>), decimal text, Go maps as
    association lists, and the locale \<open>keyed_store\<close>. \<open>Go_Float\<close>, \<open>Go_Json\<close>, \<open>Go_Time\<close>, \<open>Go_Value\<close>: what
    the program uses of Go's library: \<open>float64\<close> with its rounding and printing, the JSON text format,
    times and durations with their layouts, and values of type \<open>any\<close>.
  \<^item> \<open>Ce_Errors\<close> (\<open>cloudevents/errors.go\<close>, \<open>errors/errors.go\<close>): errors as trees, \<open>errors.Is\<close> and
    \<open>errors.As\<close>, and \<open>ClassifyError\<close>. \<open>Ce_Event\<close> (\<open>cloudevents/event.go\<close>): the event record, validation,
    JSON, and the sharing of its extension map as an explicit store. \<open>Ce_Extensions\<close>
    (\<open>cloudevents/extensions.go\<close>, \<open>time.go\<close>): counters, delays, retries, dead-letter marks, times.
    \<open>Ce_Api\<close> (\<open>cloudevents_api.go\<close>): events to messages and back, publishing with options, the wrapper
    around a handler, retries and dead-lettering; the locale \<open>message_sink\<close> states what a publisher
    that queues promises, and what a consumer may then add to the queue. \<open>Ce_Flows\<close> follows one event
    over its deliveries.
  \<^item> \<open>Rt_Config\<close>, \<open>Rt_Config_Print\<close> (\<open>config/config.go\<close>), \<open>Transport_Registry\<close> (\<open>transport/registry.go\<close>,
    \<open>capabilities.go\<close>, the \<open>Register\<close> functions and the default factory; \<open>keyed_store\<close> interpreted).
  \<^item> \<open>Sql_Table\<close>: the two tables and the statements both SQL transports run, with the locales
    \<open>unique_sink\<close> (an id that waits cannot be published again) and \<open>dlq_manager\<close> (the administration
    of a dead letter queue). \<open>Sqlite\<close>, \<open>Postgres\<close>: the transports as functions on a record of tables,
    settings and clock, with step relations for arbitrary interleavings; each interprets the three
    locales. \<open>Sql_Lifecycle\<close>: \<open>Subscribe\<close>, the polling goroutine, the hand-over to a subscriber and \<open>Close\<close>
    of both as interleaved steps over the database operations of either. A refusal (\<open>nackMessage\<close>) is not
    a transaction: it is a sequence of parts (\<open>sqlite_nack_part\<close>, \<open>pg_nack_part\<close>), one for each
    statement, which the step relations of \<open>Sqlite\<close>, \<open>Postgres\<close> and \<open>Sql_Lifecycle\<close> interleave with everything else;
    \<open>sqlite_nackMessage\<close> and \<open>pg_nackMessage\<close> are the calls that run undisturbed. \<open>Jetstream\<close>: the
    transport over a record of the client's calls. \<open>Io_File\<close>: the line format, and a step relation of writes and polling rounds on one file. \<open>Aws\<close> and \<open>Tp_Builds\<close>: what the other
    packages make of the configuration. \<open>Lib_Api\<close> (\<open>libapi.go\<close>): the metadata of delayed messages.
  \<^item> \<open>Rt_Windows\<close>, \<open>Rt_Stats\<close> (\<open>models.go\<close>): latency ring buffer, throughput window, the statistics of a
    handler with words for its counters. \<open>Rt_Hooks\<close> (\<open>hooks.go\<close>), \<open>Rt_DlqMetrics\<close> (\<open>dlq_metrics.go\<close>),
    \<open>Rt_Resources\<close> (\<open>resources.go\<close>), \<open>Rt_Logging\<close> (\<open>logging/logging.go\<close>, loggers as a codatatype).
  \<^item> \<open>Rt_Handlers\<close> (\<open>handlers\<close>, \<open>metadata\<close>, \<open>publisher.go\<close>, \<open>prototypes.go\<close>), \<open>Rt_Middleware\<close>
    (\<open>middleware.go\<close> and the record of the service), \<open>Rt_Service\<close> (\<open>service.go\<close>, \<open>registration*.go\<close>,
    \<open>webui.go\<close>). A handler takes a message and the world and returns messages, an error or a panic;
    the world \<open>'w\<close> is whatever the caller's code changes.
  \<^item> \<open>Examples\<close>, \<open>Ex_Jobs\<close> (\<open>examples/*/main.go\<close>): the configurations of the example programs, and their
    handlers, hooks, middleware chains and messages as clients of the models above.

  \<^bold>\<open>What is shown.\<close>

  \<^item> Events: reading a written event back gives the event (\<open>marshal_roundtrip\<close>), also through a message
    and its decoding (\<open>message_roundtrip\<close>), through JetStream (\<open>js_event_roundtrip\<close>) and through a
    protobuf handler (\<open>published_proto_is_handled\<close>). The classification of errors is decided in full
    (\<open>classify_decision\<close>).
  \<^item> Retries: delayed retries stop after three deliveries (\<open>retry_after_budget\<close>), plain retries are not
    counted, so that the limit decides at the first delivery or never (\<open>plain_retry_never_exceeds\<close>), dead letters go to the event's own topic, so that
    they circulate (\<open>dead_letter_circulates\<close>), and on SQLite are lost (\<open>sqlite_dead_letter_lost\<close>).
  \<^item> Queues: SQLite and Postgres lose no payload over any sequence of single statements
    (\<open>sqlite_conserves_messages\<close>, \<open>pg_conserves_messages\<close>), and Postgres makes none, while SQLite has one twice
    in the midst of a refusal's move, and for good when two refusals move one row; they retry within a budget with their backoffs (\<open>sqlite_retry_budget\<close>,
    \<open>pg_retry_backoff\<close>), restore dead letters (\<open>sqlite_dead_letter_roundtrip\<close>) and hand over what is due
    (\<open>sqlite_due_message_delivered\<close>), except that on Postgres a message whose subscription ends stays
    locked (\<open>pg_cancelled_message_stays_locked\<close>). The running transport, with all its goroutines, is a
    run of the single statements and, while outcomes come in time, of an abstract mailbox
    (\<open>sqlite_running_refines\<close>); it hands a row to one poller only while outcomes
    are in time (\<open>sqlite_punctual_exclusive\<close>) and not when one is late (\<open>late_answer_breaks_lock\<close>), and
    closes with all refusals ended and all locks given back (\<open>sqlite_close_releases\<close>, on Postgres those of live contexts,
    \<open>pg_close_releases\<close>) unless a subscription races with it
    (\<open>subscribe_close_race\<close>). The file transport delivers in order
    (\<open>io_delivers_in_order\<close>) unless it polls inside a line (\<open>io_partial_line_lost\<close>).
  \<^item> Delays: JetStream honours those of events (\<open>js_delay_honoured\<close>), the SQL transports those of
    \<open>WithDelay\<close> (\<open>with_delay_schedules\<close>) and not those of events (\<open>sqlite_ignores_event_delay\<close>).
  \<^item> Runtime: the ring buffer refines the list of recent durations (\<open>latency_window_keeps_recent\<close>), the
    floating-point percentiles are ordered (\<open>latency_percentiles_ordered\<close>), the throughput window ends
    its cleanup and is exact (\<open>throughput_window_exact\<close>), the statistics account for all messages
    (\<open>stats_account\<close>) but leak on panics (\<open>panics_leak_in_flight\<close>); hooks merge in order
    (\<open>merged_hooks_run_in_order\<close>); dead letter metrics tally (\<open>dlq_metrics_tally\<close>) and
    average within bounds (\<open>dlq_average_bounded\<close>); JSON handlers emit all or nothing (\<open>json_handler_emits\<close>); the outbox stores
    before it releases (\<open>outbox_stores_before_release\<close>); refused messages bypass the poison queue
    (\<open>validation_bypasses_poison\<close>) and JSON outputs are always refused (\<open>json_output_refused\<close>).
  \<^item> Construction: registrations of handlers and of CloudEvents consumers are consistent unless one panics, after
    which a handler may be listed that does not run, and never the other way round
    (\<open>registrations_consistent\<close>), and registered types are accepted
    (\<open>registered_type_accepted\<close>), \<open>TryNewService\<close> may panic (\<open>try_new_service_panics\<close>), the default factory
    knows no transport (\<open>default_factory_knows_no_transport\<close>), so that \<open>NewService\<close> panics with it
    (\<open>default_service_panics\<close>), AWS subscribers ignore the endpoint (\<open>aws_subscriber_ignores_endpoint\<close>), and
    printing a configuration hides its secrets (\<open>config_string_hides_secrets\<close>).
  \<^item> Examples: an order is paid after one delayed retry (\<open>order_leads_to_payment\<close>), the event meant for the
    dead letter queue is refused on each of the three deliveries its consumer gets and never reaches
    the queue (\<open>problem_never_dead_lettered\<close>), and the hooks count without
    their alert (\<open>hooks_count_without_alert\<close>).

  \<^bold>\<open>Bounds.\<close> Integers of type \<open>int\<close> and durations wrap at 64 bits by \<open>i64\<close>; unsigned counters are
  words. The retry budget of SQLite needs a limit of at most 9223372036, above which its backoff in
  nanoseconds would wrap, and that of Postgres a limit of at most 34, above which its power of two
  does: the delays beyond are the products modulo \<open>2 ^ 64\<close>, negative and positive ones, and none from the 56th
  refusal on. A refusal has at most three parts (\<open>refuse_all_enough\<close>). Percentiles are shown for samples up to \<open>2 ^ 53\<close> nanoseconds, which \<open>float64\<close> represents;
  averages while retry counts times records stay below \<open>2 ^ 53\<close>; counters for fewer than \<open>2 ^ 63\<close>
  operations; chains of deliveries while attempt numbers stay below \<open>2 ^ 53\<close>. JSON is parsed with fuel, the length of the text, which \<open>json_parse_text\<close> shows to be
  enough, and durations likewise (\<open>parse_dur_text\<close>). Loops that run as long as the program (the
  polling of a transport) are given as their round, and claims on them count rounds.

  \<^bold>\<open>Parameters.\<close> Code outside the repository is an argument of the definitions: Watermill's router
  (whose middlewares nest with the first one outermost) and its own middlewares, the constructors
  of its publishers and subscribers, the NATS client, AWS and protobuf libraries, codecs of user
  types, \<open>net/url\<close>, readings of the Go runtime, fresh identifiers, and the clock. Hypotheses on them
  are named in the theorems: that a poison queue refuses an empty topic, that a router refuses
  a name taken, that NATS headers are kept as documented.

  \<^bold>\<open>Not modelled.\<close> Goroutines, locks, contexts and channels are left out where a single order of
  operations is all that the code allows, and are interleavings of steps where several run
  (statistics, the SQL tables, the pollers and the closing of the SQL transports, the file). Databases fail only on uniqueness. Logging and Prometheus
  calls have no effect on the results and are left out, except where they are the subject. Strings
  are valid UTF-8. Of the examples, the typed handlers that copy two fields, printing, pauses,
  signals and the metrics server are left out, and so is the tracking middleware of \<open>dlq_metrics\<close>,
  which reads a message after the handlers inside it may have changed it: a handler here returns
  messages and does not write to the one it is given. For the same reason the job hooks are given the
  metadata as the message came with it, while in the code they share its map. Middlewares that the program brings
  are functions; in \<open>registrations_consistent\<close> they leave handlers and types alone. The generated protobuf code, the two packages of
  calls handed on to a library (\<open>jsoncodec\<close>, \<open>ids\<close>), the package comments and the re-exported names of
  \<open>libapi.go\<close> have no logic of their own. On JetStream the loop of a subscription is given as its
  round, its goroutine and the closing of the client are not interleaved.
\<close>

end
